(* ===== verification/Prelude.thy ===== *)
theory Prelude
  imports Main "HOL-Library.AList" "HOL-Library.Char_ord" "HOL-Library.List_Lexorder"
begin

text \<open>
  Shared vocabulary of the development.

  \<^item> Results: a Python function that may raise is a function into \<open>'e + 'a\<close>, with \<open>Inl\<close>
    the exception; \<open>rbind\<close> is the sequencing of two such computations and \<open>each\<close> a
    \<^verbatim>\<open>for\<close> loop whose body may raise.
  \<^item> Dictionaries whose iteration order matters are association lists; \<open>AList.update\<close> is
    Python's \<open>d[k] = v\<close> (overwrite in place, or append a new key at the end) and \<open>dict_of\<close>
    a dictionary display or comprehension.
  \<^item> Strings are \<open>string\<close>, i.e. Python strings over the code points 0 to 255. The string
    methods the sources use (\<^verbatim>\<open>strip\<close>, \<^verbatim>\<open>split\<close>, \<^verbatim>\<open>startswith\<close>, ...) are spelled out here.
\<close>

named_theorems py_simps \<open>unfolding rules of the Python library functions\<close>

section \<open>Results and loops\<close>

definition rbind :: "'e + 'a \<Rightarrow> ('a \<Rightarrow> 'e + 'b) \<Rightarrow> 'e + 'b" where
  "rbind r f = (case r of Inl e \<Rightarrow> Inl e | Inr x \<Rightarrow> f x)"

fun each :: "('a \<Rightarrow> 'e + unit) \<Rightarrow> 'a list \<Rightarrow> 'e + unit" where
  "each f [] = Inr ()"
| "each f (x # xs) = rbind (f x) (\<lambda>_. each f xs)"

definition guard :: "bool \<Rightarrow> 'e \<Rightarrow> 'e + unit" where
  "guard ok e = (if ok then Inr () else Inl e)"

definition is_ok :: "'e + 'a \<Rightarrow> bool" where
  "is_ok r = (case r of Inl _ \<Rightarrow> False | Inr _ \<Rightarrow> True)"

lemma rbind_simps [simp]:
  "rbind (Inl e) f = Inl e"
  "rbind (Inr x) f = f x"
  by (simp_all add: rbind_def)

lemma rbind_eq_Inr: "rbind r f = Inr y \<longleftrightarrow> (\<exists>x. r = Inr x \<and> f x = Inr y)"
  by (cases r) auto

lemma rbind_eq_Inl: "rbind r f = Inl e \<longleftrightarrow> r = Inl e \<or> (\<exists>x. r = Inr x \<and> f x = Inl e)"
  by (cases r) auto

lemma guard_eq_Inr [simp]: "guard ok e = Inr u \<longleftrightarrow> ok"
  by (simp add: guard_def)

lemma guard_eq_Inl [simp]: "guard ok e = Inl e' \<longleftrightarrow> \<not> ok \<and> e' = e"
  by (auto simp: guard_def)

lemma each_ok: "each f xs = Inr u \<longleftrightarrow> (\<forall>x \<in> set xs. f x = Inr ())"
  by (induction xs) (auto simp: rbind_eq_Inr)

lemma each_InlD: "each f xs = Inl e \<Longrightarrow> \<exists>x \<in> set xs. f x = Inl e"
  by (induction xs) (auto simp: rbind_eq_Inl)

lemma each_Inl_first:
  "each f xs = Inl e \<longleftrightarrow>
     (\<exists>ys x zs. xs = ys @ x # zs \<and> (\<forall>y \<in> set ys. f y = Inr ()) \<and> f x = Inl e)"
proof (induction xs)
  case Nil
  show ?case by simp
next
  case (Cons a xs)
  show ?case
  proof (cases "f a")
    case (Inl e')
    show ?thesis
    proof
      assume "each f (a # xs) = Inl e"
      with Inl show "\<exists>ys x zs. a # xs = ys @ x # zs \<and> (\<forall>y \<in> set ys. f y = Inr ()) \<and> f x = Inl e"
        by (intro exI [of _ "[]"]) auto
    next
      assume "\<exists>ys x zs. a # xs = ys @ x # zs \<and> (\<forall>y \<in> set ys. f y = Inr ()) \<and> f x = Inl e"
      with Inl show "each f (a # xs) = Inl e" by (auto simp: Cons_eq_append_conv)
    qed
  next
    case (Inr u)
    then have step: "each f (a # xs) = each f xs" by simp
    show ?thesis
    proof
      assume "each f (a # xs) = Inl e"
      with step Cons.IH obtain ys x zs where
        "xs = ys @ x # zs" "\<forall>y \<in> set ys. f y = Inr ()" "f x = Inl e" by auto
      with Inr show "\<exists>ys x zs. a # xs = ys @ x # zs \<and> (\<forall>y \<in> set ys. f y = Inr ()) \<and> f x = Inl e"
        by (intro exI [of _ "a # ys"]) auto
    next
      assume "\<exists>ys x zs. a # xs = ys @ x # zs \<and> (\<forall>y \<in> set ys. f y = Inr ()) \<and> f x = Inl e"
      then obtain ys x zs where split: "a # xs = ys @ x # zs" and ok: "\<forall>y \<in> set ys. f y = Inr ()"
        and bad: "f x = Inl e" by blast
      with Inr obtain ys' where "ys = a # ys'" by (cases ys) auto
      with split ok bad have "each f xs = Inl e" by (subst Cons.IH) auto
      with step show "each f (a # xs) = Inl e" by simp
    qed
  qed
qed

lemma is_ok_simps [simp]: "is_ok (Inr x)" "\<not> is_ok (Inl e)"
  by (simp_all add: is_ok_def)

lemma is_ok_iff: "is_ok r \<longleftrightarrow> (\<exists>x. r = Inr x)"
  by (cases r) auto

section \<open>Dictionaries\<close>

definition dict_of :: "('k \<times> 'v) list \<Rightarrow> ('k \<times> 'v) list" where
  "dict_of kvs = fold (\<lambda>(k, v) d. AList.update k v d) kvs []"

lemma update_new: "k \<notin> fst ` set al \<Longrightarrow> AList.update k v al = al @ [(k, v)]"
  by (induction al) auto

lemma fold_update_distinct:
  "distinct (map fst (d @ kvs)) \<Longrightarrow> fold (\<lambda>(k, v) d. AList.update k v d) kvs d = d @ kvs"
proof (induction kvs arbitrary: d)
  case Nil
  show ?case by simp
next
  case (Cons kv kvs)
  obtain k v where kv: "kv = (k, v)" by (cases kv)
  with Cons.prems have "k \<notin> fst ` set d" by auto
  then have "AList.update k v d = d @ [(k, v)]" by (rule update_new)
  with Cons kv show ?case by simp
qed

lemma dict_of_distinct [simp]: "distinct (map fst kvs) \<Longrightarrow> dict_of kvs = kvs"
  using fold_update_distinct [of "[]" kvs] by (simp add: dict_of_def)

lemma keys_fold_update:
  "fst ` set (fold (\<lambda>(k, v) d. AList.update k v d) kvs d) = fst ` set d \<union> fst ` set kvs"
  by (induction kvs arbitrary: d) (auto simp: dom_update split_beta)

lemma keys_dict_of [simp]: "fst ` set (dict_of kvs) = fst ` set kvs"
  by (simp add: dict_of_def keys_fold_update)

lemma finite_ran_map_of [simp]: "finite (ran (map_of kvs))"
proof (rule finite_subset)
  show "ran (map_of kvs) \<subseteq> snd ` set kvs"
    by (force simp: ran_def dest: map_of_SomeD)
qed simp

section \<open>Lists\<close>

text \<open>\<^verbatim>\<open>xs.index(x)\<close> for a member \<open>x\<close>.\<close>

definition py_index :: "'a list \<Rightarrow> 'a \<Rightarrow> nat" where
  "py_index xs x = length (takeWhile (\<lambda>y. y \<noteq> x) xs)"

lemma py_index_less: "x \<in> set xs \<Longrightarrow> py_index xs x < length xs"
  by (induction xs) (auto simp: py_index_def)

lemma nth_py_index: "x \<in> set xs \<Longrightarrow> xs ! py_index xs x = x"
  by (induction xs) (auto simp: py_index_def)

text \<open>A Python set kept as a duplicate-free list: \<^verbatim>\<open>s.add(x)\<close> and \<^verbatim>\<open>s.update(xs)\<close>.\<close>

definition set_add :: "'a \<Rightarrow> 'a list \<Rightarrow> 'a list" where
  "set_add x xs = (if x \<in> set xs then xs else xs @ [x])"

definition set_update :: "'a list \<Rightarrow> 'a list \<Rightarrow> 'a list" where
  "set_update ys xs = fold set_add ys xs"

lemma set_set_add [simp]: "set (set_add x xs) = insert x (set xs)"
  by (auto simp: set_add_def)

lemma distinct_set_add [simp]: "distinct (set_add x xs) = distinct xs"
  by (auto simp: set_add_def)

lemma set_set_update [simp]: "set (set_update ys xs) = set ys \<union> set xs"
  by (induction ys arbitrary: xs) (auto simp: set_update_def)

lemma distinct_set_update [simp]: "distinct (set_update ys xs) = distinct xs"
  by (induction ys arbitrary: xs) (auto simp: set_update_def)

text \<open>A function that only reorders duplicate-free lists, such as the iteration order of a set.\<close>

definition keeps_elements :: "('a list \<Rightarrow> 'a list) \<Rightarrow> bool" where
  "keeps_elements arrange \<longleftrightarrow> (\<forall>xs. distinct xs \<longrightarrow> distinct (arrange xs) \<and> set (arrange xs) = set xs)"

section \<open>Strings\<close>

text \<open>\<^verbatim>\<open>str.isspace\<close> for one code point below 256.\<close>

definition py_isspace :: "char \<Rightarrow> bool" where
  "py_isspace c \<longleftrightarrow>
     (let n = of_char c :: nat
      in 9 \<le> n \<and> n \<le> 13 \<or> 28 \<le> n \<and> n \<le> 32 \<or> n = 133 \<or> n = 160)"

definition py_lstrip :: "string \<Rightarrow> string" where
  "py_lstrip s = dropWhile py_isspace s"

definition py_rstrip :: "string \<Rightarrow> string" where
  "py_rstrip s = rev (dropWhile py_isspace (rev s))"

definition py_strip :: "string \<Rightarrow> string" where
  "py_strip s = py_rstrip (py_lstrip s)"

text \<open>\<^verbatim>\<open>s.strip(c)\<close> for a single character.\<close>

definition py_strip_char :: "char \<Rightarrow> string \<Rightarrow> string" where
  "py_strip_char c s = rev (dropWhile ((=) c) (rev (dropWhile ((=) c) s)))"

definition py_startswith :: "string \<Rightarrow> string \<Rightarrow> bool" where
  "py_startswith s p \<longleftrightarrow> take (length p) s = p"

definition py_endswith :: "string \<Rightarrow> string \<Rightarrow> bool" where
  "py_endswith s p \<longleftrightarrow> length p \<le> length s \<and> drop (length s - length p) s = p"

text \<open>\<^verbatim>\<open>s.split()\<close>: the maximal runs of non-space characters.\<close>

fun py_split_acc :: "string \<Rightarrow> string \<Rightarrow> string list" where
  "py_split_acc acc [] = (if acc = [] then [] else [rev acc])"
| "py_split_acc acc (c # s) =
     (if py_isspace c then (if acc = [] then py_split_acc [] s else rev acc # py_split_acc [] s)
      else py_split_acc (c # acc) s)"

definition py_split :: "string \<Rightarrow> string list" where
  "py_split s = py_split_acc [] s"

fun py_join :: "string \<Rightarrow> string list \<Rightarrow> string" where
  "py_join sep [] = []"
| "py_join sep [x] = x"
| "py_join sep (x # xs) = x @ sep @ py_join sep xs"

text \<open>\<^verbatim>\<open>s.split(c)\<close> for a separator of one character.\<close>

fun py_split_char :: "char \<Rightarrow> string \<Rightarrow> string list" where
  "py_split_char c [] = [[]]"
| "py_split_char c (x # s) =
     (if x = c then [] # py_split_char c s
      else (case py_split_char c s of [] \<Rightarrow> [[x]] | p # ps \<Rightarrow> (x # p) # ps))"

lemma py_split_char_plain [simp]: "c \<notin> set s \<Longrightarrow> py_split_char c s = [s]"
  by (induction s) auto

lemma py_split_char_append [simp]: "c \<notin> set s \<Longrightarrow> py_split_char c (s @ c # t) = s # py_split_char c t"
  by (induction s) auto

lemma py_strip_decomp: "\<exists>l r. s = l @ py_strip s @ r \<and> (\<forall>c \<in> set l. py_isspace c) \<and> (\<forall>c \<in> set r. py_isspace c)"
proof -
  let ?m = "py_lstrip s"
  have "s = takeWhile py_isspace s @ ?m" by (simp add: py_lstrip_def)
  moreover have "?m = py_rstrip ?m @ rev (takeWhile py_isspace (rev ?m))"
    by (metis py_rstrip_def rev_append rev_rev_ident takeWhile_dropWhile_id)
  ultimately have "s = takeWhile py_isspace s @ py_strip s @ rev (takeWhile py_isspace (rev ?m))"
    by (simp add: py_strip_def)
  then show ?thesis
    by (intro exI [of _ "takeWhile py_isspace s"] exI [of _ "rev (takeWhile py_isspace (rev ?m))"])
       (auto dest: set_takeWhileD)
qed

end
