(* ===== verification/Identifiers.thy ===== *)
theory Identifiers
  imports Prelude
begin

text \<open>
  Node-name validation, \<^verbatim>\<open>src/stel/config/identifiers.py\<close>: the conservative charset every
  source, model, class and vocabulary name has to satisfy, and the reserved prefixes.
\<close>

datatype name_error =
    InvalidName string string            \<comment> \<open>kind, name\<close>
  | ReservedName string string string    \<comment> \<open>kind, name, prefix\<close>

definition ident_start :: "char \<Rightarrow> bool" where
  "ident_start c \<longleftrightarrow>
     (let n = of_char c :: nat in 65 \<le> n \<and> n \<le> 90 \<or> 97 \<le> n \<and> n \<le> 122 \<or> n = 95)"

definition ident_char :: "char \<Rightarrow> bool" where
  "ident_char c \<longleftrightarrow> ident_start c \<or> (let n = of_char c :: nat in 48 \<le> n \<and> n \<le> 57)"

text \<open>The language of \<^verbatim>\<open>[A-Za-z_][A-Za-z0-9_]*\<close>, the whole string.\<close>

fun is_ident :: "string \<Rightarrow> bool" where
  "is_ident [] = False"
| "is_ident (c # s) = (ident_start c \<and> list_all ident_char s)"

text \<open>
  \<^verbatim>\<open>_IDENT_RE.match(name)\<close>. The pattern ends in \<open>$\<close>, which in Python also matches just
  before a newline that ends the string.
\<close>

definition ident_re_match :: "string \<Rightarrow> bool" where
  "ident_re_match s \<longleftrightarrow>
     is_ident s \<or> (s \<noteq> [] \<and> last s = CHR 0x0A \<and> is_ident (butlast s))"

definition py_lower_char :: "char \<Rightarrow> char" where
  "py_lower_char c =
     (let n = of_char c :: nat
      in if 65 \<le> n \<and> n \<le> 90 \<or> 192 \<le> n \<and> n \<le> 222 \<and> n \<noteq> 215 then char_of (n + 32) else c)"

definition py_lower :: "string \<Rightarrow> string" where
  "py_lower s = map py_lower_char s"

definition reserved_prefixes :: "string list" where
  "reserved_prefixes = [''dbt_ml_'', ''stel_'']"

definition validate_node_name :: "string \<Rightarrow> string \<Rightarrow> bool \<Rightarrow> name_error + string" where
  "validate_node_name name kind reserve_internal =
     (if \<not> ident_re_match name then Inl (InvalidName kind name)
      else if reserve_internal then
        (case find (py_startswith (py_lower name)) reserved_prefixes of
           Some prefix \<Rightarrow> Inl (ReservedName kind name prefix)
         | None \<Rightarrow> Inr name)
      else Inr name)"

lemma validate_node_name_ok:
  "validate_node_name name kind False = Inr name' \<longleftrightarrow> ident_re_match name \<and> name' = name"
  by (auto simp: validate_node_name_def)

lemma validate_node_name_returns: "validate_node_name name kind r = Inr name' \<Longrightarrow> name' = name"
  by (auto simp: validate_node_name_def split: if_splits option.splits)

end
