(* ===== verification/Graph_Walk.thy ===== *)
theory Graph_Walk
  imports Prelude
begin

text \<open>
  Walks over finite graphs, as contracts. The sources walk graphs in three ways, and each
  way is one locale whose assumption is the loop's own recursion equation; the components
  interpret it on their loops and get the loop's meaning from the lemmas proved here.

  \<^item> \<open>guarded_walk\<close>: follow single parents with a set of seen nodes.
  \<^item> \<open>cycle_walk\<close>: follow single parents and report a revisited node.
  \<^item> \<open>worklist_walk\<close>: a worklist traversal that collects the nodes it has not seen, whatever end
    of the worklist it takes them from.
\<close>

section \<open>Following single parents\<close>

definition parent_rel :: "('a \<Rightarrow> 'a option) \<Rightarrow> ('a \<times> 'a) set" where
  "parent_rel parent = {(x, y). parent x = Some y}"

lemma in_parent_rel [simp]: "(x, y) \<in> parent_rel parent \<longleftrightarrow> parent x = Some y"
  by (simp add: parent_rel_def)

lemma trancl_closed:
  assumes "(x, y) \<in> r\<^sup>+" and "x \<in> A" and "\<And>u v. u \<in> A \<Longrightarrow> (u, v) \<in> r \<Longrightarrow> v \<in> A"
  shows "y \<in> A"
  using assms(1,2) by (induction rule: trancl_induct) (auto intro: assms(3))

locale guarded_walk =
  fixes parent :: "'a \<Rightarrow> 'a option"
    and walk :: "'a \<Rightarrow> 'a list \<Rightarrow> 'a list"
  assumes finite_parents: "finite (ran parent)"
    and walk_eq: "walk x seen =
      (case parent x of None \<Rightarrow> []
       | Some p \<Rightarrow> if p \<in> set seen then [] else p # walk p (p # seen))"
begin

lemma walk_cases [case_names stop go]:
  obtains "walk x seen = []" "\<And>p. parent x = Some p \<Longrightarrow> p \<in> set seen"
  | p where "parent x = Some p" "p \<notin> set seen" "walk x seen = p # walk p (p # seen)"
  using walk_eq [of x seen] by (auto split: option.splits if_splits)

lemma walk_measure:
  assumes "parent x = Some p" "p \<notin> set seen"
  shows "card (ran parent - set (p # seen)) < card (ran parent - set seen)"
proof -
  from assms have "p \<in> ran parent - set seen" by (auto simp: ran_def)
  then show ?thesis
    using finite_parents by (intro psubset_card_mono) auto
qed

lemma walk_induct [case_names step]:
  assumes "\<And>x seen. (\<And>p. parent x = Some p \<Longrightarrow> p \<notin> set seen \<Longrightarrow> P p (p # seen)) \<Longrightarrow> P x seen"
  shows "P x seen"
proof (induction "card (ran parent - set seen)" arbitrary: x seen rule: less_induct)
  case less
  show ?case
    by (rule assms) (blast intro: less walk_measure)
qed

lemma walk_distinct: "distinct (walk x seen) \<and> set (walk x seen) \<inter> set seen = {}"
proof (induction x seen rule: walk_induct)
  case (step x seen)
  show ?case
  proof (cases rule: walk_cases [of x seen])
    case stop
    then show ?thesis by simp
  next
    case (go p)
    with step.IH [of p] show ?thesis by auto
  qed
qed

lemma walk_reachable: "y \<in> set (walk x seen) \<Longrightarrow> (x, y) \<in> (parent_rel parent)\<^sup>+"
proof (induction x seen rule: walk_induct)
  case (step x seen)
  show ?case
  proof (cases rule: walk_cases [of x seen])
    case stop
    with step.prems show ?thesis by simp
  next
    case (go p)
    have edge: "(x, p) \<in> parent_rel parent" using go by simp
    from step.prems go have "y = p \<or> y \<in> set (walk p (p # seen))" by simp
    then show ?thesis
    proof
      assume "y = p"
      with edge show ?thesis by blast
    next
      assume "y \<in> set (walk p (p # seen))"
      with step.IH go have "(p, y) \<in> (parent_rel parent)\<^sup>+" by blast
      with edge show ?thesis by (rule trancl_into_trancl2)
    qed
  qed
qed

lemma walk_closed:
  assumes "x \<in> set seen"
    and "\<And>y p. y \<in> set seen \<Longrightarrow> y \<noteq> x \<Longrightarrow> parent y = Some p \<Longrightarrow> p \<in> set seen"
    and "y \<in> set seen \<union> set (walk x seen)" "parent y = Some q"
  shows "q \<in> set seen \<union> set (walk x seen)"
  using assms
proof (induction x seen arbitrary: y q rule: walk_induct)
  case (step x seen)
  show ?case
  proof (cases rule: walk_cases [of x seen])
    case stop
    then have "q \<in> set seen"
      using step.prems by (cases "y = x") auto
    then show ?thesis by simp
  next
    case (go p)
    have "q \<in> set (p # seen) \<union> set (walk p (p # seen))"
    proof (rule step.IH)
      show "parent x = Some p" "p \<notin> set seen" "p \<in> set (p # seen)" using go by simp_all
      show "q' \<in> set (p # seen)" if "z \<in> set (p # seen)" "z \<noteq> p" "parent z = Some q'" for z q'
        using that go step.prems(1,2) by (cases "z = x") auto
      show "y \<in> set (p # seen) \<union> set (walk p (p # seen))" using step.prems(3) go by auto
      show "parent y = Some q" by (rule step.prems(4))
    qed
    with go show ?thesis by auto
  qed
qed

text \<open>The walk from a node visits exactly its proper ancestors.\<close>

lemma walk_set: "set (walk x [x]) = {y. (x, y) \<in> (parent_rel parent)\<^sup>+} - {x}"
proof (intro equalityI subsetI)
  fix y
  assume "y \<in> set (walk x [x])"
  with walk_reachable walk_distinct [of x "[x]"]
  show "y \<in> {y. (x, y) \<in> (parent_rel parent)\<^sup>+} - {x}" by auto
next
  fix y
  assume y: "y \<in> {y. (x, y) \<in> (parent_rel parent)\<^sup>+} - {x}"
  have "y \<in> set [x] \<union> set (walk x [x])"
  proof (rule trancl_closed)
    show "(x, y) \<in> (parent_rel parent)\<^sup>+" using y by simp
    show "v \<in> set [x] \<union> set (walk x [x])"
      if "u \<in> set [x] \<union> set (walk x [x])" "(u, v) \<in> parent_rel parent" for u v
      by (rule walk_closed [of x "[x]" u]) (use that in simp_all)
  qed simp
  with y show "y \<in> set (walk x [x])" by simp
qed

text \<open>Nearest parent first: the walk is a chain of parent links starting at \<open>x\<close>.\<close>

lemma walk_chain:
  "i < length (walk x seen) \<Longrightarrow> parent ((x # walk x seen) ! i) = Some (walk x seen ! i)"
proof (induction x seen arbitrary: i rule: walk_induct)
  case (step x seen)
  show ?case
  proof (cases rule: walk_cases [of x seen])
    case stop
    with step.prems show ?thesis by simp
  next
    case (go p)
    with step show ?thesis by (cases i) auto
  qed
qed

end

locale cycle_walk =
  fixes parent :: "'a \<Rightarrow> 'a option"
    and loops :: "'a \<Rightarrow> 'a list \<Rightarrow> bool"
  assumes finite_children: "finite (dom parent)"
    and loops_eq: "loops x path =
      (case parent x of None \<Rightarrow> False
       | Some p \<Rightarrow> if x \<in> set path then True else loops p (path @ [x]))"
begin

lemma loops_induct [case_names step]:
  assumes "\<And>x path. (\<And>p. parent x = Some p \<Longrightarrow> x \<notin> set path \<Longrightarrow> P p (path @ [x])) \<Longrightarrow> P x path"
  shows "P x path"
proof (induction "card (dom parent - set path)" arbitrary: x path rule: less_induct)
  case less
  show ?case
  proof (rule assms)
    fix p
    assume "parent x = Some p" "x \<notin> set path"
    then have "card (dom parent - set (path @ [x])) < card (dom parent - set path)"
      using finite_children by (intro psubset_card_mono) auto
    then show "P p (path @ [x])" by (rule less)
  qed
qed

lemma loops_sound:
  assumes "loops x path" and "\<And>y. y \<in> set path \<Longrightarrow> (y, x) \<in> (parent_rel parent)\<^sup>+"
  shows "\<exists>c. (c, c) \<in> (parent_rel parent)\<^sup>+"
  using assms
proof (induction x path rule: loops_induct)
  case (step x path)
  show ?case
  proof (cases "x \<in> set path")
    case True
    with step.prems(2) show ?thesis by blast
  next
    case False
    with step.prems(1) obtain p where p: "parent x = Some p" and l: "loops p (path @ [x])"
      by (subst (asm) loops_eq) (auto split: option.splits)
    show ?thesis
    proof (rule step.IH [OF p False l])
      fix y
      assume "y \<in> set (path @ [x])"
      then show "(y, p) \<in> (parent_rel parent)\<^sup>+"
        using step.prems(2) p by (auto intro: trancl_into_trancl [of _ x])
    qed
  qed
qed

lemma loops_complete:
  assumes "\<not> loops x path" and "(x, c) \<in> (parent_rel parent)\<^sup>*"
  shows "(c, c) \<notin> (parent_rel parent)\<^sup>+"
  using assms
proof (induction x path rule: loops_induct)
  case (step x path)
  show ?case
  proof (cases "parent x")
    case None
    with step.prems(2) have "c = x" by (auto elim: converse_rtranclE)
    with None show ?thesis by (auto elim: converse_tranclE)
  next
    case (Some p)
    with step.prems(1) loops_eq [of x path]
    have new: "x \<notin> set path" and l: "\<not> loops p (path @ [x])"
      by (simp_all split: if_splits)
    have via: "(p, z) \<in> (parent_rel parent)\<^sup>*" if "(x, z) \<in> (parent_rel parent)\<^sup>+" for z
      using tranclD [OF that] Some by auto
    show ?thesis
    proof (cases "c = x")
      case True
      with via step.IH [OF Some new l] show ?thesis by blast
    next
      case False
      with step.prems(2) have "(x, c) \<in> (parent_rel parent)\<^sup>+" by (metis rtranclD)
      with via step.IH [OF Some new l] show ?thesis by blast
    qed
  qed
qed

text \<open>Checking every child from an empty path decides acyclicity.\<close>

lemma no_loops_iff_acyclic:
  assumes "dom parent \<subseteq> set starts"
  shows "(\<forall>x \<in> set starts. \<not> loops x []) \<longleftrightarrow> acyclic (parent_rel parent)"
proof
  assume none: "\<forall>x \<in> set starts. \<not> loops x []"
  show "acyclic (parent_rel parent)"
    unfolding acyclic_def
  proof (intro allI notI)
    fix c
    assume c: "(c, c) \<in> (parent_rel parent)\<^sup>+"
    from tranclD [OF c] have "c \<in> dom parent" by auto
    with assms none have "\<not> loops c []" by blast
    with loops_complete [of c "[]" c] c show False by simp
  qed
next
  assume "acyclic (parent_rel parent)"
  then have none: "\<nexists>c. (c, c) \<in> (parent_rel parent)\<^sup>+" by (simp add: acyclic_def)
  have "\<not> loops x []" for x
  proof
    assume "loops x []"
    then have "\<exists>c. (c, c) \<in> (parent_rel parent)\<^sup>+" by (rule loops_sound) simp
    with none show False by blast
  qed
  then show "\<forall>x \<in> set starts. \<not> loops x []" by blast
qed

end

section \<open>Worklist traversal\<close>

definition succ_rel :: "('a \<Rightarrow> 'a list) \<Rightarrow> ('a \<times> 'a) set" where
  "succ_rel nxt = {(x, y). y \<in> set (nxt x)}"

lemma in_succ_rel [simp]: "(x, y) \<in> succ_rel nxt \<longleftrightarrow> y \<in> set (nxt x)"
  by (simp add: succ_rel_def)

locale worklist_walk =
  fixes nxt :: "'a \<Rightarrow> 'a list"
    and pick :: "'a list \<Rightarrow> 'a \<times> 'a list"
    and base :: "'a set"
    and loop :: "'a list \<Rightarrow> 'a list \<Rightarrow> 'a list"
  assumes finite_next: "finite (\<Union>x. set (nxt x))"
    and pick_rest: "queue \<noteq> [] \<Longrightarrow> pick queue = (x, rest) \<Longrightarrow>
      set queue = insert x (set rest) \<and> length rest < length queue"
    and loop_eq: "loop queue out =
      (if queue = [] then out
       else case pick queue of (x, rest) \<Rightarrow>
         if x \<in> base \<union> set out then loop rest out else loop (rest @ nxt x) (out @ [x]))"
begin

lemma loop_cases [case_names finished seen new]:
  obtains "queue = []" "loop queue out = out"
  | x rest where "queue \<noteq> []" "set queue = insert x (set rest)" "length rest < length queue"
      "x \<in> base \<union> set out" "loop queue out = loop rest out"
  | x rest where "queue \<noteq> []" "set queue = insert x (set rest)" "length rest < length queue"
      "x \<notin> base \<union> set out" "loop queue out = loop (rest @ nxt x) (out @ [x])"
proof (cases "queue = []")
  case True
  with that(1) loop_eq show thesis by simp
next
  case False
  obtain x rest where p: "pick queue = (x, rest)" by (cases "pick queue")
  note r = pick_rest [OF False p]
  show thesis
  proof (cases "x \<in> base \<union> set out")
    case True
    with False p loop_eq [of queue out] have "loop queue out = loop rest out" by simp
    with that(2) False r True show thesis by blast
  next
    case new: False
    with False p loop_eq [of queue out]
    have "loop queue out = loop (rest @ nxt x) (out @ [x])" by simp
    with that(3) False r new show thesis by blast
  qed
qed

definition pending :: "'a list \<Rightarrow> 'a list \<Rightarrow> 'a set" where
  "pending queue out = (set queue \<union> (\<Union>x. set (nxt x))) - (base \<union> set out)"

lemma loop_induct [case_names step]:
  assumes "\<And>queue out.
     (\<And>x rest. queue \<noteq> [] \<Longrightarrow> set queue = insert x (set rest) \<Longrightarrow> length rest < length queue \<Longrightarrow>
        x \<in> base \<union> set out \<Longrightarrow> P rest out) \<Longrightarrow>
     (\<And>x rest. queue \<noteq> [] \<Longrightarrow> set queue = insert x (set rest) \<Longrightarrow> length rest < length queue \<Longrightarrow>
        x \<notin> base \<union> set out \<Longrightarrow> P (rest @ nxt x) (out @ [x])) \<Longrightarrow> P queue out"
  shows "P queue out"
proof (induction "(queue, out)" arbitrary: queue out
    rule: wf_induct_rule [OF wf_measures
      [of "[\<lambda>(q, o'). card (pending q o'), \<lambda>(q, o'). length q]"]])
  case 1
  have fin: "finite (pending q o')" for q o'
    using finite_next by (simp add: pending_def)
  show ?case
  proof (rule assms)
    fix x rest
    assume a: "set queue = insert x (set rest)" "length rest < length queue" "x \<in> base \<union> set out"
    then have "pending rest out = pending queue out" by (auto simp: pending_def)
    with a show "P rest out" by (intro 1) simp
  next
    fix x rest
    assume a: "set queue = insert x (set rest)" "x \<notin> base \<union> set out"
    then have "pending (rest @ nxt x) (out @ [x]) \<subset> pending queue out"
      by (auto simp: pending_def)
    then have "card (pending (rest @ nxt x) (out @ [x])) < card (pending queue out)"
      using fin by (rule psubset_card_mono [rotated])
    then show "P (rest @ nxt x) (out @ [x])" by (intro 1) simp
  qed
qed

lemma loop_extends: "\<exists>new. loop queue out = out @ new \<and> distinct new \<and> set new \<inter> (base \<union> set out) = {}"
proof (induction queue out rule: loop_induct)
  case (step queue out)
  show ?case
  proof (cases rule: loop_cases [of queue out])
    case finished
    then show ?thesis by simp
  next
    case (seen x rest)
    with step(1) show ?thesis by simp
  next
    case (new x rest)
    from step(2) [OF new(1-4)] obtain ys where
      "loop (rest @ nxt x) (out @ [x]) = (out @ [x]) @ ys" "distinct ys"
      "set ys \<inter> (base \<union> set (out @ [x])) = {}" by blast
    with new show ?thesis by (intro exI [of _ "x # ys"]) auto
  qed
qed

lemma loop_reachable:
  "y \<in> set (loop queue out) \<Longrightarrow> y \<in> set out \<or> (\<exists>x \<in> set queue. (x, y) \<in> (succ_rel nxt)\<^sup>*)"
proof (induction queue out rule: loop_induct)
  case (step queue out)
  show ?case
  proof (cases rule: loop_cases [of queue out])
    case finished
    with step.prems show ?thesis by simp
  next
    case (seen x rest)
    with step(1) [OF seen(1-4)] step.prems show ?thesis by auto
  next
    case (new x rest)
    with step(2) [OF new(1-4)] step.prems
    show ?thesis by (auto intro: converse_rtrancl_into_rtrancl [of x _ "succ_rel nxt"])
  qed
qed

lemma loop_closed:
  assumes "\<And>y. y \<in> set out \<Longrightarrow> set (nxt y) \<subseteq> base \<union> set out \<union> set queue"
  shows "set queue \<subseteq> base \<union> set (loop queue out) \<and>
    (\<forall>y \<in> set (loop queue out). set (nxt y) \<subseteq> base \<union> set (loop queue out))"
  using assms
proof (induction queue out rule: loop_induct)
  case (step queue out)
  show ?case
  proof (cases rule: loop_cases [of queue out])
    case finished
    with step.prems show ?thesis by auto
  next
    case (seen x rest)
    then have "set queue - base - set out = set rest - base - set out" by auto
    with step.prems have "\<And>y. y \<in> set out \<Longrightarrow> set (nxt y) \<subseteq> base \<union> set out \<union> set rest"
      using seen by blast
    with step(1) [OF seen(1-4)] seen loop_extends [of rest out] show ?thesis by auto
  next
    case (new x rest)
    have "set (nxt y) \<subseteq> base \<union> set (out @ [x]) \<union> set (rest @ nxt x)" if "y \<in> set (out @ [x])" for y
      using that step.prems [of y] new(2) by auto
    with step(2) [OF new(1-4)] new loop_extends [of "rest @ nxt x" "out @ [x]"] show ?thesis by auto
  qed
qed

text \<open>Started from the successors of a node, the loop collects what is reachable from it.\<close>

lemma loop_set:
  assumes "base \<subseteq> {start}"
  shows "set (loop (nxt start) []) = {y. (start, y) \<in> (succ_rel nxt)\<^sup>+} - base"
proof (intro equalityI subsetI)
  fix y
  assume y: "y \<in> set (loop (nxt start) [])"
  then obtain x where "x \<in> set (nxt start)" "(x, y) \<in> (succ_rel nxt)\<^sup>*"
    using loop_reachable [of y "nxt start" "[]"] by auto
  then have "(start, y) \<in> (succ_rel nxt)\<^sup>+" by (auto intro: rtrancl_into_trancl2)
  with y loop_extends [of "nxt start" "[]"]
  show "y \<in> {y. (start, y) \<in> (succ_rel nxt)\<^sup>+} - base" by auto
next
  fix y
  let ?all = "insert start (set (loop (nxt start) []))"
  assume y: "y \<in> {y. (start, y) \<in> (succ_rel nxt)\<^sup>+} - base"
  note cl = loop_closed [of "[]" "nxt start", simplified]
  have closed: "v \<in> base \<union> set (loop (nxt start) [])" if "u \<in> ?all" "(u, v) \<in> succ_rel nxt" for u v
    using that cl by auto
  have "v \<in> base \<union> set (loop (nxt start) [])" if "(start, v) \<in> (succ_rel nxt)\<^sup>+" for v
    using that
  proof (induction rule: trancl_induct)
    case (base v)
    then show ?case using closed by blast
  next
    case (step u v)
    with assms have "u \<in> ?all" by auto
    with step closed show ?case by blast
  qed
  with y show "y \<in> set (loop (nxt start) [])" by auto
qed

end

end
