(* ===== verification/Class_Hierarchy.thy ===== *)
theory Class_Hierarchy
  imports Identifiers Graph_Walk
begin

text \<open>
  Single-parent entity classes, \<^verbatim>\<open>src/stel/config/class_hierarchy.py\<close>: the declarations, their
  validation (\<open>validate_classes\<close>) and the ancestry walk (\<open>class_ancestors\<close>). The two loops
  interpret the walks of \<open>Graph_Walk\<close>; the properties say that validation accepts exactly the
  well-named, unique, closed and acyclic declarations, and that on every input the ancestry
  walk ends and lists exactly the proper ancestors, nearest first.
\<close>

datatype class_decl =
    ClassName (decl_name: string)
  | ClassDef (decl_name: string) (subclass_of: string)

datatype class_error =
    BadClassName name_error
  | ClassesNotUnique
  | UndeclaredParent string string
  | ClassCycle "string list"

text \<open>The field validator of \<open>name\<close> and \<open>subclass_of\<close>.\<close>

definition class_def_name :: "string \<Rightarrow> name_error + string" where
  "class_def_name value = rbind (validate_node_name (py_strip value) ''Class'' False)
     (\<lambda>_. Inr (py_strip value))"

definition class_name :: "class_decl \<Rightarrow> string" where
  "class_name value = decl_name value"

definition class_names :: "class_decl list \<Rightarrow> string list" where
  "class_names classes = map class_name classes"

definition class_parents :: "class_decl list \<Rightarrow> (string \<times> string) list" where
  "class_parents classes =
     dict_of (concat (map (\<lambda>v. case v of ClassName _ \<Rightarrow> [] | ClassDef n p \<Rightarrow> [(n, p)]) classes))"

text \<open>The \<open>while current in parents\<close> loop of \<open>validate_classes\<close>: the cycle it reports, if any.\<close>

function class_cycle :: "(string \<times> string) list \<Rightarrow> string list \<Rightarrow> string \<Rightarrow> string list option" where
  "class_cycle parents path current =
     (case map_of parents current of
        None \<Rightarrow> None
      | Some parent \<Rightarrow>
          if current \<in> set path
          then Some (drop (py_index path current) path @ [current])
          else class_cycle parents (path @ [current]) parent)"
  by pat_completeness auto
termination
proof (relation "measure (\<lambda>(parents, path, current). card (fst ` set parents - set path))")
  show "wf (measure (\<lambda>(parents, path, current :: string). card (fst ` set parents - set path)))"
    by simp
next
  fix parents :: "(string \<times> string) list" and path current parent
  assume "map_of parents current = Some parent" "current \<notin> set path"
  then have "current \<in> fst ` set parents - set path"
    by (force dest: map_of_SomeD)
  then have "card (fst ` set parents - set (path @ [current])) < card (fst ` set parents - set path)"
    by (intro psubset_card_mono) auto
  then show "((parents, path @ [current], parent), parents, path, current)
      \<in> measure (\<lambda>(parents, path, current). card (fst ` set parents - set path))"
    by simp
qed

declare class_cycle.simps [simp del]

definition validate_classes :: "class_decl list \<Rightarrow> class_error + unit" where
  "validate_classes classes =
     (let names = class_names classes; parents = class_parents classes in
      rbind (each (\<lambda>name. case validate_node_name name ''Class'' False of
                     Inl e \<Rightarrow> Inl (BadClassName e) | Inr _ \<Rightarrow> Inr ()) names)
     (\<lambda>_. rbind (guard (length names = card (set names)) ClassesNotUnique)
     (\<lambda>_. rbind (each (\<lambda>(name, parent). guard (parent \<in> set names) (UndeclaredParent name parent)) parents)
     (\<lambda>_. each (\<lambda>start. case class_cycle parents [] start of
                   None \<Rightarrow> Inr () | Some cycle \<Rightarrow> Inl (ClassCycle cycle)) names))))"

text \<open>The guarded loop of \<open>class_ancestors\<close>; \<open>seen\<close> starts as \<open>{name}\<close>.\<close>

function class_ancestors_loop :: "(string \<times> string) list \<Rightarrow> string \<Rightarrow> string list \<Rightarrow> string list" where
  "class_ancestors_loop parents name seen =
     (case map_of parents name of
        None \<Rightarrow> []
      | Some parent \<Rightarrow>
          if parent \<in> set seen then []
          else parent # class_ancestors_loop parents parent (parent # seen))"
  by pat_completeness auto
termination
proof (relation "measure (\<lambda>(parents, name, seen). card (snd ` set parents - set seen))")
  show "wf (measure (\<lambda>(parents, name :: string, seen). card (snd ` set parents - set seen)))"
    by simp
next
  fix parents :: "(string \<times> string) list" and name seen parent
  assume "map_of parents name = Some parent" "parent \<notin> set seen"
  then have "parent \<in> snd ` set parents - set seen"
    by (force dest: map_of_SomeD)
  then have "card (snd ` set parents - set (parent # seen)) < card (snd ` set parents - set seen)"
    by (intro psubset_card_mono) auto
  then show "((parents, parent, parent # seen), parents, name, seen)
      \<in> measure (\<lambda>(parents, name, seen). card (snd ` set parents - set seen))"
    by simp
qed

declare class_ancestors_loop.simps [simp del]

definition class_ancestors :: "string \<Rightarrow> (string \<times> string) list \<Rightarrow> string list" where
  "class_ancestors name parents = class_ancestors_loop parents name [name]"

abbreviation class_parent_rel :: "(string \<times> string) list \<Rightarrow> (string \<times> string) set" where
  "class_parent_rel parents \<equiv> parent_rel (map_of parents)"

section \<open>The loops are the walks of the library\<close>

interpretation class_anc: guarded_walk "map_of parents" "class_ancestors_loop parents"
  for parents :: "(string \<times> string) list"
proof unfold_locales
  show "finite (ran (map_of parents))" by (rule finite_ran_map_of)
  show "class_ancestors_loop parents x seen =
      (case map_of parents x of None \<Rightarrow> []
       | Some p \<Rightarrow> if p \<in> set seen then [] else p # class_ancestors_loop parents p (p # seen))"
    for x seen by (rule class_ancestors_loop.simps)
qed

interpretation class_loop: cycle_walk "map_of parents"
    "\<lambda>x path. class_cycle parents path x \<noteq> None"
  for parents :: "(string \<times> string) list"
proof unfold_locales
  show "finite (dom (map_of parents))" by (rule finite_dom_map_of)
  show "(class_cycle parents path x \<noteq> None) =
      (case map_of parents x of None \<Rightarrow> False
       | Some p \<Rightarrow> if x \<in> set path then True else class_cycle parents (path @ [x]) p \<noteq> None)"
    for x path by (subst class_cycle.simps) (simp split: option.splits)
qed

section \<open>Reported cycles\<close>

text \<open>A closed chain of parent links, as the error message spells it.\<close>

fun parent_chain :: "(string \<times> string) list \<Rightarrow> string list \<Rightarrow> bool" where
  "parent_chain parents (x # y # zs) = (map_of parents x = Some y \<and> parent_chain parents (y # zs))"
| "parent_chain parents xs = True"

lemma parent_chain_snoc:
  "parent_chain parents (xs @ [x]) \<Longrightarrow> map_of parents x = Some y \<Longrightarrow> parent_chain parents (xs @ [x, y])"
  by (induction parents xs rule: parent_chain.induct) auto

lemma parent_chain_drop: "parent_chain parents xs \<Longrightarrow> parent_chain parents (drop n xs)"
proof (induction n arbitrary: xs)
  case 0
  then show ?case by simp
next
  case (Suc n)
  then have "parent_chain parents (tl xs)"
    by (cases "(parents, xs)" rule: parent_chain.cases) auto
  then have "parent_chain parents (drop n (tl xs))" by (rule Suc.IH)
  then show ?case by (simp add: drop_Suc)
qed

lemma class_cycle_chain:
  assumes "class_cycle parents path current = Some cycle"
    and "parent_chain parents (path @ [current])"
  shows "parent_chain parents cycle \<and> 2 \<le> length cycle \<and> hd cycle = last cycle"
  using assms
proof (induction parents path current rule: class_cycle.induct)
  case (1 parents path current)
  from "1.prems"(1) obtain p where p: "map_of parents current = Some p"
    by (subst (asm) class_cycle.simps) (auto split: option.splits)
  show ?case
  proof (cases "current \<in> set path")
    case True
    let ?n = "py_index path current"
    from True have n: "?n < length path" and hit: "path ! ?n = current"
      by (rule py_index_less, rule nth_py_index)
    from True p "1.prems"(1) have cycle: "cycle = drop ?n path @ [current]"
      by (subst (asm) class_cycle.simps) simp
    with n have "cycle = drop ?n (path @ [current])" by simp
    moreover from n hit have "hd (drop ?n path) = current" by (simp add: hd_drop_conv_nth)
    ultimately show ?thesis
      using "1.prems"(2) n cycle parent_chain_drop [of parents "path @ [current]" ?n]
      by (simp add: hd_append)
  next
    case False
    with p "1.prems"(1) have "class_cycle parents (path @ [current]) p = Some cycle"
      by (subst (asm) class_cycle.simps) simp
    with "1.IH" [OF p False] parent_chain_snoc [OF "1.prems"(2) p] show ?thesis by simp
  qed
qed

section \<open>Properties\<close>

lemma class_parents_fst: "fst ` set (class_parents classes) \<subseteq> set (class_names classes)"
  by (auto simp: class_parents_def class_names_def class_name_def image_iff split: class_decl.splits)
     force

lemma dom_class_parents: "dom (map_of (class_parents classes)) \<subseteq> set (class_names classes)"
  using class_parents_fst by (auto simp: dom_map_of_conv_image_fst)

lemma validate_classes_ok:
  "validate_classes classes = Inr () \<longleftrightarrow>
     list_all ident_re_match (class_names classes)
     \<and> distinct (class_names classes)
     \<and> snd ` set (class_parents classes) \<subseteq> set (class_names classes)
     \<and> acyclic (class_parent_rel (class_parents classes))"
proof -
  have names: "(case validate_node_name n ''Class'' False of
       Inl e \<Rightarrow> Inl (BadClassName e) | Inr _ \<Rightarrow> Inr ()) = Inr () \<longleftrightarrow> ident_re_match n" for n
    by (simp add: validate_node_name_def)
  have cyc: "(\<forall>start \<in> set (class_names classes). (case class_cycle (class_parents classes) [] start of
       None \<Rightarrow> Inr () | Some cycle \<Rightarrow> Inl (ClassCycle cycle)) = Inr ())
      \<longleftrightarrow> acyclic (class_parent_rel (class_parents classes))"
    using class_loop.no_loops_iff_acyclic [OF dom_class_parents [of classes]]
    by (auto split: option.splits)
  show ?thesis
    by (simp add: validate_classes_def Let_def rbind_eq_Inr each_ok names cyc
        list_all_iff card_distinct distinct_card image_subset_iff split_beta)
       (metis card_distinct distinct_card)
qed

lemmas accepted_acyclic = validate_classes_ok [THEN iffD1, THEN conjunct2, THEN conjunct2, THEN conjunct2]

lemma parent_chain_nth:
  "(\<And>i. i < length ys \<Longrightarrow> map_of parents ((x # ys) ! i) = Some (ys ! i)) \<Longrightarrow> parent_chain parents (x # ys)"
proof (induction ys arbitrary: x)
  case Nil
  show ?case by simp
next
  case (Cons y ys)
  from Cons.prems [of 0] have "map_of parents x = Some y" by simp
  moreover have "parent_chain parents (y # ys)"
    by (rule Cons.IH) (use Cons.prems [of "Suc _"] in simp)
  ultimately show ?case by simp
qed

lemma class_ancestors_walk:
  "set (class_ancestors name parents) = {a. (name, a) \<in> (class_parent_rel parents)\<^sup>+} - {name}
   \<and> distinct (class_ancestors name parents) \<and> parent_chain parents (name # class_ancestors name parents)"
  unfolding class_ancestors_def
  by (intro conjI class_anc.walk_set class_anc.walk_distinct [THEN conjunct1] parent_chain_nth
      class_anc.walk_chain)

text \<open>
  \<open>validate_classes\<close> accepts a declaration exactly when every class name passes the name
  check, no name is declared twice, every parent is itself declared, and the parent relation
  has no cycle.
\<close>

theorem validate_classes_accepts_iff:
  "validate_classes classes = Inr () \<longleftrightarrow>
     list_all ident_re_match (class_names classes)
     \<and> distinct (class_names classes)
     \<and> snd ` set (class_parents classes) \<subseteq> set (class_names classes)
     \<and> acyclic (class_parent_rel (class_parents classes))"
  by (rule validate_classes_ok)

text \<open>
  when validation refuses a hierarchy as cyclic, the reported list of names is a real
  closed chain of declared parent links: consecutive entries are child and parent, it has at
  least one link, and it ends where it starts.
\<close>

theorem validate_classes_reports_real_cycle:
  assumes "validate_classes classes = Inl (ClassCycle cycle)"
  shows "parent_chain (class_parents classes) cycle \<and> 2 \<le> length cycle \<and> hd cycle = last cycle"
proof -
  from assms have "each (\<lambda>start. case class_cycle (class_parents classes) [] start of
       None \<Rightarrow> Inr () | Some cycle \<Rightarrow> Inl (ClassCycle cycle)) (class_names classes)
     = Inl (ClassCycle cycle)"
    by (auto simp: validate_classes_def Let_def rbind_eq_Inl dest!: each_InlD
        split: sum.split_asm)
  then obtain start where "class_cycle (class_parents classes) [] start = Some cycle"
    by (auto dest!: each_InlD split: option.splits)
  then show ?thesis by (rule class_cycle_chain) simp
qed

theorem validate_classes_reports_real_cycle_witness:
  "parent_chain (class_parents [ClassDef ''a'' ''b'', ClassDef ''b'' ''a'']) [''a'', ''b'', ''a'']
   \<and> 2 \<le> length [''a'', ''b'', ''a''] \<and> hd [''a'', ''b'', ''a''] = last [''a'', ''b'', ''a'']"
proof (rule validate_classes_reports_real_cycle)
  show "validate_classes [ClassDef ''a'' ''b'', ClassDef ''b'' ''a''] =
      Inl (ClassCycle [''a'', ''b'', ''a''])"
    by code_simp
qed

text \<open>
  for a declaration that \<open>validate_classes\<close> accepts, \<open>class_ancestors\<close> returns every class
  above the given one and nothing else, each once, nearest parent first.
\<close>

theorem class_ancestors_exact:
  assumes "validate_classes classes = Inr ()"
  shows "let parents = class_parents classes; anc = class_ancestors name parents in
      set anc = {a. (name, a) \<in> (class_parent_rel parents)\<^sup>+}
      \<and> distinct anc \<and> parent_chain parents (name # anc)"
proof -
  have "acyclic (class_parent_rel (class_parents classes))"
    using assms accepted_acyclic by blast
  then have "(name, name) \<notin> (class_parent_rel (class_parents classes))\<^sup>+"
    by (simp add: acyclic_def)
  then show ?thesis
    using class_ancestors_walk [of name "class_parents classes"] by auto
qed

theorem class_ancestors_exact_witness:
  "let parents = class_parents [ClassName ''thing'', ClassDef ''org'' ''thing'', ClassDef ''bank'' ''org''];
       anc = class_ancestors ''bank'' parents in
      set anc = {a. (''bank'', a) \<in> (class_parent_rel parents)\<^sup>+}
      \<and> distinct anc \<and> parent_chain parents (''bank'' # anc)"
proof (rule class_ancestors_exact)
  show "validate_classes [ClassName ''thing'', ClassDef ''org'' ''thing'', ClassDef ''bank'' ''org''] = Inr ()"
    by code_simp
qed

end
