(* ===== verification/Warehouse.thy ===== *)
theory Warehouse
  imports Prelude
begin

text \<open>
  The warehouse side of serving coordination (\<^verbatim>\<open>src/stel/retrieval/coordination.py\<close>): the serving
  ledger and the lease table as lists of rows, and every SQL statement the coordinator issues
  as one atomic function on them. A \<open>NULL\<close> column is \<open>None\<close>, so an SQL equality against a
  parameter is an equality with \<open>Some\<close>. Neither table has an enforced key, so both are bags
  of rows; an \<open>UPDATE\<close> maps over them and a \<open>SELECT\<close> filters them.

  \<open>stmt\<close> names each statement with its parameters, \<open>exec_stmt\<close> is its effect and its answer.
  Reading the clock (\<^verbatim>\<open>int(time.time())\<close>) and drawing a random identifier (\<^verbatim>\<open>uuid4().hex\<close>) are
  statements too: the identifiers come from a supply \<open>uuid\<close> indexed by the number already drawn.
\<close>

section \<open>Rows\<close>

record state_scope =
  model_name :: string
  stage :: string
  target_identity :: string

datatype serving_status =
    Publishing | PublishingInPlace | Ready | Failed | Unpublished | Degraded

definition servable_statuses :: "serving_status list" where
  "servable_statuses = [Ready, Degraded, Publishing]"

definition query_drain_seconds :: int where
  "query_drain_seconds = 60"

record publisher_identity =
  pub_host :: string
  pub_pid :: int
  pub_started_epoch :: "int option"
  pub_label :: "string option"
  pub_namespace :: "string option"

record publisher_columns =
  publisher_host :: "string option"
  publisher_pid :: "int option"
  publisher_started_epoch :: "int option"
  publisher_label :: "string option"
  publisher_heartbeat_epoch :: "int option"
  publisher_namespace :: "string option"

record mirror_columns =
  mirror_generation :: "string option"
  mirror_target :: "string option"
  mirrored_epoch :: "int option"

type_synonym row_counts = "int \<times> int \<times> int \<times> int"  \<comment> \<open>inserted, updated, skipped, deleted\<close>

record ledger_row =
  row_scope :: state_scope
  row_id :: string
  fencing_token :: int
  status :: serving_status
  publication_id :: "string option"
  expected_code_version :: "string option"
  config_fingerprint :: "string option"
  active_generation :: "string option"
  active_collection :: "string option"
  safe_error_code :: "string option"
  progress_note :: "string option"
  counts :: row_counts
  started_at :: "int option"
  completed_at :: "int option"
  publisher :: publisher_columns
  mirror :: mirror_columns
  activated_epoch :: "int option"
  query_drain_until_epoch :: "int option"

record lease_row =
  lease_scope :: state_scope
  lease_id :: string
  lease_token :: int
  lease_generation :: string
  lease_fingerprint :: string
  lease_acquired_at :: int

record publish_lease =
  p_scope :: state_scope
  p_publication_id :: string
  p_token :: int
  p_fingerprint :: string

record query_lease =
  q_scope :: state_scope
  q_lease_id :: string
  q_token :: int
  q_generation :: string
  q_collection :: "string option"
  q_fingerprint :: string
  q_status :: serving_status
  q_error :: "string option"

record world =
  ledger :: "ledger_row list"
  leases :: "lease_row list"
  clock :: int
  drawn :: nat

definition no_publisher :: publisher_columns where
  "no_publisher = \<lparr>publisher_host = None, publisher_pid = None, publisher_started_epoch = None,
     publisher_label = None, publisher_heartbeat_epoch = None, publisher_namespace = None\<rparr>"

definition no_mirror :: mirror_columns where
  "no_mirror = \<lparr>mirror_generation = None, mirror_target = None, mirrored_epoch = None\<rparr>"

text \<open>A freshly inserted row: the columns an \<open>INSERT\<close> does not name are \<open>NULL\<close>.\<close>

definition placeholder_row :: "state_scope \<Rightarrow> string \<Rightarrow> ledger_row" where
  "placeholder_row sc rid = \<lparr>row_scope = sc, row_id = rid, fencing_token = 0, status = Unpublished,
     publication_id = None, expected_code_version = None, config_fingerprint = None,
     active_generation = None, active_collection = None, safe_error_code = None,
     progress_note = None, counts = (0, 0, 0, 0), started_at = None, completed_at = None,
     publisher = no_publisher, mirror = no_mirror, activated_epoch = None,
     query_drain_until_epoch = None\<rparr>"

definition scope_rows :: "state_scope \<Rightarrow> world \<Rightarrow> ledger_row list" where
  "scope_rows sc w = filter (\<lambda>r. row_scope r = sc) (ledger w)"

definition scope_leases :: "state_scope \<Rightarrow> world \<Rightarrow> lease_row list" where
  "scope_leases sc w = filter (\<lambda>l. lease_scope l = sc) (leases w)"

definition unclaimed_placeholder :: "ledger_row \<Rightarrow> bool" where
  "unclaimed_placeholder r \<longleftrightarrow> status r = Unpublished \<and> publication_id r = None"

definition update_where :: "(ledger_row \<Rightarrow> bool) \<Rightarrow> (ledger_row \<Rightarrow> ledger_row) \<Rightarrow> world \<Rightarrow> world" where
  "update_where p f w = w\<lparr>ledger := map (\<lambda>r. if p r then f r else r) (ledger w)\<rparr>"

section \<open>Statements that write\<close>

definition sql_insert_placeholder :: "state_scope \<Rightarrow> string \<Rightarrow> world \<Rightarrow> world" where
  "sql_insert_placeholder sc rid w =
     (if scope_rows sc w = [] then w\<lparr>ledger := ledger w @ [placeholder_row sc rid]\<rparr> else w)"

definition sql_collapse_placeholders :: "state_scope \<Rightarrow> world \<Rightarrow> world" where
  "sql_collapse_placeholders sc w =
     w\<lparr>ledger := filter (\<lambda>r. \<not> (row_scope r = sc \<and> unclaimed_placeholder r
        \<and> row_id r \<noteq> Min (set (map row_id (scope_rows sc w))))) (ledger w)\<rparr>"

definition sql_delete_placeholder :: "state_scope \<Rightarrow> world \<Rightarrow> world" where
  "sql_delete_placeholder sc w =
     w\<lparr>ledger := filter (\<lambda>r. \<not> (row_scope r = sc \<and> unclaimed_placeholder r)) (ledger w)\<rparr>"

definition sql_rekey :: "state_scope \<Rightarrow> string \<Rightarrow> world \<Rightarrow> world" where
  "sql_rekey old ident w =
     update_where (\<lambda>r. row_scope r = old) (\<lambda>r. r\<lparr>row_scope := old\<lparr>target_identity := ident\<rparr>\<rparr>) w"

record claim_request =
  c_scope :: state_scope
  c_publication_id :: string
  c_code_version :: string
  c_fingerprint :: string
  c_preserves :: bool
  c_excludes :: bool
  c_expected_token :: "int option"
  c_publisher :: publisher_identity
  c_now :: int

definition claim_admitted :: "claim_request \<Rightarrow> world \<Rightarrow> ledger_row \<Rightarrow> bool" where
  "claim_admitted c w r \<longleftrightarrow>
     row_scope r = c_scope c \<and> publication_id r = None
     \<and> (case c_expected_token c of None \<Rightarrow> True | Some t \<Rightarrow> fencing_token r = t)
     \<and> (c_excludes c \<longrightarrow> scope_leases (c_scope c) w = [])
     \<and> length (scope_rows (c_scope c) w) = 1"

definition claimed_row :: "claim_request \<Rightarrow> int \<Rightarrow> ledger_row \<Rightarrow> ledger_row" where
  "claimed_row c t r = r\<lparr>
     publication_id := Some (c_publication_id c),
     fencing_token := fencing_token r + 1,
     status := (if c_excludes c then PublishingInPlace else Publishing),
     expected_code_version := Some (c_code_version c),
     config_fingerprint :=
       (if c_preserves c \<and> active_generation r \<noteq> None then config_fingerprint r
        else Some (c_fingerprint c)),
     safe_error_code := None, started_at := Some t, completed_at := None,
     active_generation := (if c_preserves c then active_generation r else None),
     query_drain_until_epoch := None,
     publisher := \<lparr>publisher_host = Some (pub_host (c_publisher c)),
       publisher_pid = Some (pub_pid (c_publisher c)),
       publisher_started_epoch = pub_started_epoch (c_publisher c),
       publisher_label = pub_label (c_publisher c),
       publisher_heartbeat_epoch = Some (c_now c),
       publisher_namespace = pub_namespace (c_publisher c)\<rparr>\<rparr>"

definition sql_claim :: "claim_request \<Rightarrow> world \<Rightarrow> world" where
  "sql_claim c w = update_where (claim_admitted c w) (claimed_row c (clock w)) w"

definition sql_request_drain :: "state_scope \<Rightarrow> int \<Rightarrow> int \<Rightarrow> world \<Rightarrow> world" where
  "sql_request_drain sc token until w =
     update_where (\<lambda>r. row_scope r = sc \<and> fencing_token r = token \<and> publication_id r = None)
       (\<lambda>r. r\<lparr>query_drain_until_epoch := Some until\<rparr>) w"

text \<open>The fence every later write of a publisher is conditioned on.\<close>

definition holds_claim :: "publish_lease \<Rightarrow> ledger_row \<Rightarrow> bool" where
  "holds_claim p r \<longleftrightarrow> row_scope r = p_scope p
     \<and> publication_id r = Some (p_publication_id p) \<and> fencing_token r = p_token p"

definition sql_heartbeat :: "publish_lease \<Rightarrow> int \<Rightarrow> world \<Rightarrow> world" where
  "sql_heartbeat p now w =
     update_where (holds_claim p)
       (\<lambda>r. r\<lparr>publisher := (publisher r)\<lparr>publisher_heartbeat_epoch := Some now\<rparr>\<rparr>) w"

text \<open>\<open>_finish\<close>'s activation argument: \<^verbatim>\<open>KEEP_ACTIVATION\<close>, a stamp, or \<open>None\<close> to clear it.\<close>

datatype activation = KeepActivation | StampActivation "int option"

record finish_request =
  f_status :: serving_status
  f_generation :: "string option"
  f_collection :: "string option"
  f_error :: "string option"
  f_counts :: row_counts
  f_activation :: activation
  f_fingerprint :: "string option"

definition finished_row :: "finish_request \<Rightarrow> int \<Rightarrow> ledger_row \<Rightarrow> ledger_row" where
  "finished_row f t r = r\<lparr>
     status := f_status f, active_generation := f_generation f,
     active_collection := f_collection f, safe_error_code := f_error f, counts := f_counts f,
     publication_id := None, progress_note := None, completed_at := Some t,
     config_fingerprint :=
       (case f_fingerprint f of None \<Rightarrow> config_fingerprint r | Some fp \<Rightarrow> Some fp),
     activated_epoch :=
       (case f_activation f of KeepActivation \<Rightarrow> activated_epoch r | StampActivation e \<Rightarrow> e),
     publisher := no_publisher\<rparr>"

definition sql_finish :: "publish_lease \<Rightarrow> finish_request \<Rightarrow> world \<Rightarrow> world" where
  "sql_finish p f w = update_where (holds_claim p) (finished_row f (clock w)) w"

definition sql_progress :: "publish_lease \<Rightarrow> string \<Rightarrow> world \<Rightarrow> world" where
  "sql_progress p note w = update_where (holds_claim p) (\<lambda>r. r\<lparr>progress_note := Some note\<rparr>) w"

definition lease_admitted :: "lease_row \<Rightarrow> int \<Rightarrow> ledger_row \<Rightarrow> bool" where
  "lease_admitted l now r \<longleftrightarrow>
     row_scope r = lease_scope l \<and> status r \<in> set servable_statuses
     \<and> fencing_token r = lease_token l \<and> active_generation r = Some (lease_generation l)
     \<and> (case query_drain_until_epoch r of None \<Rightarrow> True | Some e \<Rightarrow> e \<le> now)"

definition sql_insert_lease :: "lease_row \<Rightarrow> int \<Rightarrow> world \<Rightarrow> world" where
  "sql_insert_lease l now w =
     (if list_ex (lease_admitted l now) (ledger w)
      then w\<lparr>leases := leases w @ [l\<lparr>lease_acquired_at := clock w\<rparr>]\<rparr> else w)"

definition sql_delete_lease :: "string \<Rightarrow> world \<Rightarrow> world" where
  "sql_delete_lease i w = w\<lparr>leases := filter (\<lambda>l. lease_id l \<noteq> i) (leases w)\<rparr>"

definition sql_record_mirror :: "query_lease \<Rightarrow> string \<Rightarrow> int \<Rightarrow> world \<Rightarrow> world" where
  "sql_record_mirror q target now w =
     update_where (\<lambda>r. row_scope r = q_scope q \<and> active_generation r = Some (q_generation q))
       (\<lambda>r. r\<lparr>mirror := \<lparr>mirror_generation = Some (q_generation q), mirror_target = Some target,
          mirrored_epoch = Some now\<rparr>\<rparr>) w"

definition sql_delete_leases :: "state_scope \<Rightarrow> world \<Rightarrow> world" where
  "sql_delete_leases sc w = w\<lparr>leases := filter (\<lambda>l. lease_scope l \<noteq> sc) (leases w)\<rparr>"

definition sql_delete_ledger :: "state_scope \<Rightarrow> world \<Rightarrow> world" where
  "sql_delete_ledger sc w = w\<lparr>ledger := filter (\<lambda>r. row_scope r \<noteq> sc) (ledger w)\<rparr>"

record recovered_pointer =
  rp_generation :: "string option"
  rp_collection :: "string option"
  rp_fingerprint :: "string option"
  rp_activated :: "int option"

definition recovery_error_code :: string where
  "recovery_error_code = ''administrative_recovery''"

definition recovered_row :: "state_scope \<Rightarrow> string \<Rightarrow> int \<Rightarrow> recovered_pointer \<Rightarrow> int \<Rightarrow> ledger_row" where
  "recovered_row sc rid fence rp t = (placeholder_row sc rid)\<lparr>
     fencing_token := fence,
     status := (if (case rp_generation rp of None \<Rightarrow> False | Some g \<Rightarrow> g \<noteq> []) then Degraded else Failed),
     safe_error_code := Some recovery_error_code,
     active_generation := rp_generation rp, active_collection := rp_collection rp,
     config_fingerprint := rp_fingerprint rp, completed_at := Some t,
     activated_epoch := rp_activated rp\<rparr>"

definition sql_insert_recovered :: "state_scope \<Rightarrow> string \<Rightarrow> int \<Rightarrow> recovered_pointer \<Rightarrow> world \<Rightarrow> world" where
  "sql_insert_recovered sc rid fence rp w =
     w\<lparr>ledger := ledger w @ [recovered_row sc rid fence rp (clock w)]\<rparr>"

section \<open>Statements that read\<close>

definition held_count :: "query_lease \<Rightarrow> world \<Rightarrow> nat" where
  "held_count q w = length (filter (\<lambda>l. lease_scope l = q_scope q \<and> lease_id l = q_lease_id q
     \<and> lease_token l = q_token q \<and> lease_generation l = q_generation q
     \<and> lease_fingerprint l = q_fingerprint q) (leases w))"

definition claimed_count :: "state_scope \<Rightarrow> world \<Rightarrow> nat" where
  "claimed_count sc w = length (filter (\<lambda>r. \<not> unclaimed_placeholder r) (scope_rows sc w))"

text \<open>\<^verbatim>\<open>ORDER BY fencing_token DESC LIMIT 1\<close>; among equal tokens the first row of the table.\<close>

fun top_fence :: "ledger_row list \<Rightarrow> ledger_row option" where
  "top_fence [] = None"
| "top_fence (r # rs) = (case top_fence rs of
     None \<Rightarrow> Some r
   | Some s \<Rightarrow> if fencing_token r < fencing_token s then Some s else Some r)"

definition max_fence :: "state_scope \<Rightarrow> world \<Rightarrow> int" where
  "max_fence sc w =
     (let rs = scope_rows sc w in if rs = [] then 0 else Max (set (map fencing_token rs)))"

section \<open>The statement language\<close>

datatype stmt =
    TimeNow
  | DrawUuid
  | InsertPlaceholder state_scope string
  | CollapsePlaceholders state_scope
  | DeletePlaceholder state_scope
  | Rekey state_scope string
  | Claim claim_request
  | RequestDrain state_scope int int
  | Heartbeat publish_lease int
  | Finish publish_lease finish_request
  | Progress publish_lease string
  | InsertLease lease_row int
  | DeleteLease string
  | RecordMirror query_lease string int
  | DeleteLeases state_scope
  | DeleteLedger state_scope
  | InsertRecovered state_scope string int recovered_pointer
  | SelectLedger state_scope
  | SelectLedgerAndLease query_lease
  | CountLeases state_scope
  | CountClaimed state_scope
  | SelectLease string
  | SelectPointer state_scope
  | SelectCollection state_scope
  | SelectMaxFence state_scope

datatype reply =
    Ok
  | Time int
  | Name string
  | Rows "ledger_row list"
  | RowsHeld "ledger_row list" nat
  | Count nat
  | Token int
  | Collection "string option"
  | Fault                        \<comment> \<open>the warehouse call raised\<close>

fun exec_stmt :: "(nat \<Rightarrow> string) \<Rightarrow> stmt \<Rightarrow> world \<Rightarrow> world \<times> reply" where
  "exec_stmt uuid TimeNow w = (w, Time (clock w))"
| "exec_stmt uuid DrawUuid w = (w\<lparr>drawn := Suc (drawn w)\<rparr>, Name (uuid (drawn w)))"
| "exec_stmt uuid (InsertPlaceholder sc rid) w = (sql_insert_placeholder sc rid w, Ok)"
| "exec_stmt uuid (CollapsePlaceholders sc) w = (sql_collapse_placeholders sc w, Ok)"
| "exec_stmt uuid (DeletePlaceholder sc) w = (sql_delete_placeholder sc w, Ok)"
| "exec_stmt uuid (Rekey old ident) w = (sql_rekey old ident w, Ok)"
| "exec_stmt uuid (Claim c) w = (sql_claim c w, Ok)"
| "exec_stmt uuid (RequestDrain sc token until) w = (sql_request_drain sc token until w, Ok)"
| "exec_stmt uuid (Heartbeat p now) w = (sql_heartbeat p now w, Ok)"
| "exec_stmt uuid (Finish p f) w = (sql_finish p f w, Ok)"
| "exec_stmt uuid (Progress p note) w = (sql_progress p note w, Ok)"
| "exec_stmt uuid (InsertLease l now) w = (sql_insert_lease l now w, Ok)"
| "exec_stmt uuid (DeleteLease i) w = (sql_delete_lease i w, Ok)"
| "exec_stmt uuid (RecordMirror q target now) w = (sql_record_mirror q target now w, Ok)"
| "exec_stmt uuid (DeleteLeases sc) w = (sql_delete_leases sc w, Ok)"
| "exec_stmt uuid (DeleteLedger sc) w = (sql_delete_ledger sc w, Ok)"
| "exec_stmt uuid (InsertRecovered sc rid fence rp) w = (sql_insert_recovered sc rid fence rp w, Ok)"
| "exec_stmt uuid (SelectLedger sc) w = (w, Rows (scope_rows sc w))"
| "exec_stmt uuid (SelectLedgerAndLease q) w = (w, RowsHeld (scope_rows (q_scope q) w) (held_count q w))"
| "exec_stmt uuid (CountLeases sc) w = (w, Count (length (scope_leases sc w)))"
| "exec_stmt uuid (CountClaimed sc) w = (w, Count (claimed_count sc w))"
| "exec_stmt uuid (SelectLease i) w = (w, Count (length (filter (\<lambda>l. lease_id l = i) (leases w))))"
| "exec_stmt uuid (SelectPointer sc) w =
     (w, Rows (case top_fence (scope_rows sc w) of None \<Rightarrow> [] | Some r \<Rightarrow> [r]))"
| "exec_stmt uuid (SelectCollection sc) w =
     (w, Collection (Option.bind (top_fence (filter (\<lambda>r. active_collection r \<noteq> None) (scope_rows sc w)))
        active_collection))"
| "exec_stmt uuid (SelectMaxFence sc) w = (w, Token (max_fence sc w))"

section \<open>The schema of the ledger\<close>

text \<open>
  A table's columns with their types, in order; \<open>None\<close> is a table that does not exist.
  \<^verbatim>\<open>CREATE TABLE IF NOT EXISTS\<close> leaves an existing table alone, so a ledger of an earlier version
  is widened column by column.
\<close>

definition ledger_columns :: "(string \<times> string) list" where
  "ledger_columns = [(''model_name'', ''STRING''), (''stage'', ''STRING''),
     (''target_identity'', ''STRING''), (''row_id'', ''STRING''), (''fencing_token'', ''BIGINT''),
     (''status'', ''STRING''), (''publication_id'', ''STRING''),
     (''expected_code_version'', ''STRING''), (''config_fingerprint'', ''STRING''),
     (''active_generation'', ''STRING''), (''active_collection'', ''STRING''),
     (''safe_error_code'', ''STRING''), (''progress_note'', ''STRING''),
     (''rows_inserted'', ''BIGINT''), (''rows_updated'', ''BIGINT''), (''rows_skipped'', ''BIGINT''),
     (''rows_deleted'', ''BIGINT''), (''started_at'', ''TIMESTAMP''), (''completed_at'', ''TIMESTAMP''),
     (''publisher_host'', ''STRING''), (''publisher_pid'', ''BIGINT''),
     (''publisher_started_epoch'', ''BIGINT''), (''publisher_label'', ''STRING''),
     (''publisher_heartbeat_epoch'', ''BIGINT''), (''publisher_namespace'', ''STRING''),
     (''mirror_generation'', ''STRING''), (''mirror_target'', ''STRING''),
     (''mirrored_epoch'', ''BIGINT''), (''activated_epoch'', ''BIGINT''),
     (''query_drain_until_epoch'', ''BIGINT'')]"

definition ledger_columns_added_later :: "(string \<times> string) list" where
  "ledger_columns_added_later = [(''active_collection'', ''STRING''), (''publisher_host'', ''STRING''),
     (''publisher_pid'', ''BIGINT''), (''publisher_started_epoch'', ''BIGINT''),
     (''publisher_label'', ''STRING''), (''publisher_heartbeat_epoch'', ''BIGINT''),
     (''publisher_namespace'', ''STRING''), (''progress_note'', ''STRING''),
     (''mirror_generation'', ''STRING''), (''mirror_target'', ''STRING''),
     (''mirrored_epoch'', ''BIGINT''), (''activated_epoch'', ''BIGINT''),
     (''query_drain_until_epoch'', ''BIGINT'')]"

definition create_if_not_exists :: "(string \<times> string) list \<Rightarrow> (string \<times> string) list option \<Rightarrow>
    (string \<times> string) list option" where
  "create_if_not_exists cols table = (case table of None \<Rightarrow> Some cols | Some _ \<Rightarrow> table)"

fun add_missing :: "string set \<Rightarrow> (string \<times> string) list \<Rightarrow> (string \<times> string) list \<Rightarrow>
    (string \<times> string) list" where
  "add_missing present [] cols = cols"
| "add_missing present ((name, ty) # later) cols =
     add_missing present later (if name \<in> present then cols else cols @ [(name, ty)])"

definition ensure_ledger_columns :: "(string \<times> string) list option \<Rightarrow> (string \<times> string) list option" where
  "ensure_ledger_columns table = (case table of None \<Rightarrow> None
     | Some cols \<Rightarrow> Some (add_missing (fst ` set cols) ledger_columns_added_later cols))"

definition coordinator_init :: "bool \<Rightarrow> (string \<times> string) list option \<Rightarrow> (string \<times> string) list option" where
  "coordinator_init ensure_schema table =
     (if ensure_schema then ensure_ledger_columns (create_if_not_exists ledger_columns table) else table)"

lemma add_missing_filter:
  "add_missing present later cols = cols @ filter (\<lambda>c. fst c \<notin> present) later"
  by (induction present later cols rule: add_missing.induct) auto

text \<open>Widening keeps what is there, adds what is missing once, and is idempotent.\<close>

lemma ensure_ledger_columns_widens:
  assumes "ensure_ledger_columns (Some cols) = Some cols'"
  shows "take (length cols) cols' = cols"
    and "fst ` set cols' = fst ` set cols \<union> fst ` set ledger_columns_added_later"
    and "distinct (map fst cols) \<Longrightarrow> distinct (map fst cols')"
    and "ensure_ledger_columns (Some cols') = Some cols'"
proof -
  have eq: "cols' = cols @ filter (\<lambda>c. fst c \<notin> fst ` set cols) ledger_columns_added_later"
    using assms by (simp add: ensure_ledger_columns_def add_missing_filter)
  show "take (length cols) cols' = cols" by (simp add: eq)
  show names: "fst ` set cols' = fst ` set cols \<union> fst ` set ledger_columns_added_later"
    by (auto simp: eq image_iff)
  have "distinct (map fst ledger_columns_added_later)"
    by (simp add: ledger_columns_added_later_def)
  then have "distinct (map fst (filter P ledger_columns_added_later))" for P
    by (rule distinct_map_filter)
  then show "distinct (map fst cols) \<Longrightarrow> distinct (map fst cols')" by (auto simp: eq image_iff)
  show "ensure_ledger_columns (Some cols') = Some cols'"
    by (auto simp: ensure_ledger_columns_def add_missing_filter names filter_empty_conv)
qed

text \<open>
  A coordinator that ensures the schema finds every column its statements name, whether the
  ledger is new or was created by a version that lacked any of the later columns.
\<close>

lemma coordinator_init_complete:
  assumes "table = None \<or> (\<exists>cols. table = Some cols
      \<and> fst ` set ledger_columns - fst ` set ledger_columns_added_later \<subseteq> fst ` set cols)"
  shows "\<exists>cols. coordinator_init True table = Some cols \<and> fst ` set ledger_columns \<subseteq> fst ` set cols"
proof (cases table)
  case None
  then show ?thesis
    by (simp add: coordinator_init_def create_if_not_exists_def ensure_ledger_columns_def
        add_missing_filter image_Un)
next
  case (Some cols)
  then obtain cols' where c: "ensure_ledger_columns (Some cols) = Some cols'"
    by (simp add: ensure_ledger_columns_def)
  with Some have "coordinator_init True table = Some cols'"
    by (simp add: coordinator_init_def create_if_not_exists_def)
  with assms Some ensure_ledger_columns_widens(2) [OF c] show ?thesis by auto
qed

end
