(* ===== verification/Sessions.thy ===== *)
theory Sessions
  imports Warehouse
begin

text \<open>
  Coordinator methods as programs. A method of \<open>ServingCoordinator\<close> is a value of \<open>'a prog\<close>:
  a tree of statements whose continuations read the statement's answer. The same program text
  has two meanings:

  \<^item> \<open>run\<close>: the method runs alone, statement by statement, to its result or its exception;
  \<^item> \<open>pool_step\<close>: many sessions run at once, each step executes one statement of one session,
    in any order; a statement may also fail (\<open>Fault\<close>) without an effect, a session may stop for
    ever (it is simply not scheduled again), and the clock may move between any two steps.

  The coordinator's concurrency claims are about the second meaning: every warehouse statement
  is atomic, nothing larger is.
\<close>

datatype message =
    ConflictingRows | RowDisappeared | PublisherOwnsScope | GenerationChanged
  | LeasesBlockPublication | AuthorityReassigned | ReassignedBeforeCompletion
  | ReassignedBeforeActivation | ActivationNeedsGeneration | FingerprintMismatch
  | RetainNeedsFingerprint | BadErrorCode | RekeyChangesScope | RekeyBusy | RekeyOccupied
  | RekeyPending | NotPublished | PublisherReconciling | NoReadyPublication
  | ClaimedDuringAdmission | ReadersDraining | GenerationNoLongerActive | OwnerNotTerminated
  | SessionClosing | ReadersRetiring

datatype serving_error =
    ServingCoordinationError message
  | ServingBusyError message
  | ServingNotReadyError message
  | StaleServingLeaseError message
  | AdapterError

text \<open>The subclasses of \<open>ServingCoordinationError\<close>: everything but a warehouse failure.\<close>

fun is_coordination_error :: "serving_error \<Rightarrow> bool" where
  "is_coordination_error AdapterError = False"
| "is_coordination_error _ = True"

datatype 'a prog =
    Return 'a
  | Raise serving_error
  | Step stmt "reply \<Rightarrow> 'a prog"

primrec bindp :: "'a prog \<Rightarrow> ('a \<Rightarrow> 'b prog) \<Rightarrow> 'b prog" where
  "bindp (Return x) f = f x"
| "bindp (Raise e) f = Raise e"
| "bindp (Step s k) f = Step s (\<lambda>r. bindp (k r) f)"

text \<open>\<open>try: m except: handler\<close>.\<close>

primrec catchp :: "'a prog \<Rightarrow> (serving_error \<Rightarrow> 'a prog) \<Rightarrow> 'a prog" where
  "catchp (Return x) h = Return x"
| "catchp (Raise e) h = h e"
| "catchp (Step s k) h = Step s (\<lambda>r. catchp (k r) h)"

section \<open>Issuing one statement\<close>

definition execute :: "stmt \<Rightarrow> unit prog" where
  "execute s = Step s (\<lambda>r. case r of Ok \<Rightarrow> Return () | _ \<Rightarrow> Raise AdapterError)"

definition time_now :: "int prog" where
  "time_now = Step TimeNow (\<lambda>r. case r of Time t \<Rightarrow> Return t | _ \<Rightarrow> Raise AdapterError)"

definition uuid4 :: "string prog" where
  "uuid4 = Step DrawUuid (\<lambda>r. case r of Name n \<Rightarrow> Return n | _ \<Rightarrow> Raise AdapterError)"

definition ledger_rows :: "stmt \<Rightarrow> ledger_row list prog" where
  "ledger_rows s = Step s (\<lambda>r. case r of Rows rs \<Rightarrow> Return rs | _ \<Rightarrow> Raise AdapterError)"

definition rows_held :: "stmt \<Rightarrow> (ledger_row list \<times> nat) prog" where
  "rows_held s = Step s (\<lambda>r. case r of RowsHeld rs n \<Rightarrow> Return (rs, n) | _ \<Rightarrow> Raise AdapterError)"

definition count_of :: "stmt \<Rightarrow> nat prog" where
  "count_of s = Step s (\<lambda>r. case r of Count n \<Rightarrow> Return n | _ \<Rightarrow> Raise AdapterError)"

definition token_of :: "stmt \<Rightarrow> int prog" where
  "token_of s = Step s (\<lambda>r. case r of Token n \<Rightarrow> Return n | _ \<Rightarrow> Raise AdapterError)"

definition collection_of :: "stmt \<Rightarrow> string option prog" where
  "collection_of s = Step s (\<lambda>r. case r of Collection c \<Rightarrow> Return c | _ \<Rightarrow> Raise AdapterError)"

lemmas issue_defs = execute_def time_now_def uuid4_def ledger_rows_def rows_held_def count_of_def
  token_of_def collection_of_def

section \<open>Running alone\<close>

primrec run :: "(nat \<Rightarrow> string) \<Rightarrow> 'a prog \<Rightarrow> world \<Rightarrow> (serving_error + 'a) \<times> world" where
  "run uuid (Return x) = (\<lambda>w. (Inr x, w))"
| "run uuid (Raise e) = (\<lambda>w. (Inl e, w))"
| "run uuid (Step s k) = (\<lambda>w. case exec_stmt uuid s w of (w', r) \<Rightarrow> run uuid (k r) w')"

lemma run_bindp:
  "run uuid (bindp m f) w =
     (case run uuid m w of (Inl e, w') \<Rightarrow> (Inl e, w') | (Inr x, w') \<Rightarrow> run uuid (f x) w')"
  by (induction m arbitrary: w) (auto split: prod.splits)

lemma run_catchp:
  "run uuid (catchp m h) w =
     (case run uuid m w of (Inl e, w') \<Rightarrow> run uuid (h e) w' | (Inr x, w') \<Rightarrow> (Inr x, w'))"
  by (induction m arbitrary: w) (auto split: prod.splits)

lemma run_issue [simp]:
  "run uuid (execute (InsertPlaceholder sc rid)) w = (Inr (), sql_insert_placeholder sc rid w)"
  "run uuid (execute (CollapsePlaceholders sc)) w = (Inr (), sql_collapse_placeholders sc w)"
  "run uuid (execute (DeletePlaceholder sc)) w = (Inr (), sql_delete_placeholder sc w)"
  "run uuid (execute (Rekey old ident)) w = (Inr (), sql_rekey old ident w)"
  "run uuid (execute (Claim c)) w = (Inr (), sql_claim c w)"
  "run uuid (execute (RequestDrain sc token until)) w = (Inr (), sql_request_drain sc token until w)"
  "run uuid (execute (Heartbeat p now)) w = (Inr (), sql_heartbeat p now w)"
  "run uuid (execute (Finish p f)) w = (Inr (), sql_finish p f w)"
  "run uuid (execute (Progress p note)) w = (Inr (), sql_progress p note w)"
  "run uuid (execute (InsertLease l now)) w = (Inr (), sql_insert_lease l now w)"
  "run uuid (execute (DeleteLease i)) w = (Inr (), sql_delete_lease i w)"
  "run uuid (execute (RecordMirror q target now)) w = (Inr (), sql_record_mirror q target now w)"
  "run uuid (execute (DeleteLeases sc)) w = (Inr (), sql_delete_leases sc w)"
  "run uuid (execute (DeleteLedger sc)) w = (Inr (), sql_delete_ledger sc w)"
  "run uuid (execute (InsertRecovered sc rid fence rp)) w = (Inr (), sql_insert_recovered sc rid fence rp w)"
  "run uuid time_now w = (Inr (clock w), w)"
  "run uuid uuid4 w = (Inr (uuid (drawn w)), w\<lparr>drawn := Suc (drawn w)\<rparr>)"
  "run uuid (ledger_rows (SelectLedger sc)) w = (Inr (scope_rows sc w), w)"
  "run uuid (ledger_rows (SelectPointer sc)) w =
     (Inr (case top_fence (scope_rows sc w) of None \<Rightarrow> [] | Some r \<Rightarrow> [r]), w)"
  "run uuid (rows_held (SelectLedgerAndLease q)) w = (Inr (scope_rows (q_scope q) w, held_count q w), w)"
  "run uuid (count_of (CountLeases sc)) w = (Inr (length (scope_leases sc w)), w)"
  "run uuid (count_of (CountClaimed sc)) w = (Inr (claimed_count sc w), w)"
  "run uuid (count_of (SelectLease i)) w = (Inr (length (filter (\<lambda>l. lease_id l = i) (leases w))), w)"
  "run uuid (token_of (SelectMaxFence sc)) w = (Inr (max_fence sc w), w)"
  "run uuid (collection_of (SelectCollection sc)) w =
     (Inr (Option.bind (top_fence (filter (\<lambda>r. active_collection r \<noteq> None) (scope_rows sc w)))
        active_collection), w)"
  by (simp_all add: issue_defs)

section \<open>Running together\<close>

text \<open>
  A pool is the list of the sessions' remaining programs. What a finished method returned is
  not needed for the invariants of the tables, so the pool is over programs of one result type.
\<close>

inductive pool_step ::
  "(nat \<Rightarrow> string) \<Rightarrow> world \<times> 'a prog list \<Rightarrow> world \<times> 'a prog list \<Rightarrow> bool" for uuid where
  statement: "i < length ps \<Longrightarrow> ps ! i = Step s k \<Longrightarrow> exec_stmt uuid s w = (w', r) \<Longrightarrow>
     pool_step uuid (w, ps) (w', ps[i := k r])"
| fault: "i < length ps \<Longrightarrow> ps ! i = Step s k \<Longrightarrow> pool_step uuid (w, ps) (w, ps[i := k Fault])"
| tick: "pool_step uuid (w, ps) (w\<lparr>clock := t\<rparr>, ps)"

text \<open>
  All statements a program can issue, as long as the answers it gets satisfy \<open>good\<close>.
\<close>

primrec only_stmts :: "(stmt \<Rightarrow> bool) \<Rightarrow> (reply \<Rightarrow> bool) \<Rightarrow> 'a prog \<Rightarrow> bool" where
  "only_stmts ok good (Return x) = True"
| "only_stmts ok good (Raise e) = True"
| "only_stmts ok good (Step s k) = (ok s \<and> (\<forall>r. good r \<longrightarrow> only_stmts ok good (k r)))"

text \<open>What a program can return under the same reading of the answers.\<close>

primrec returns :: "(reply \<Rightarrow> bool) \<Rightarrow> ('a \<Rightarrow> bool) \<Rightarrow> 'a prog \<Rightarrow> bool" where
  "returns good q (Return x) = q x"
| "returns good q (Raise e) = True"
| "returns good q (Step s k) = (\<forall>r. good r \<longrightarrow> returns good q (k r))"

lemma only_stmts_bindp:
  "only_stmts ok good m \<Longrightarrow> returns good q m \<Longrightarrow> (\<And>x. q x \<Longrightarrow> only_stmts ok good (f x))
   \<Longrightarrow> only_stmts ok good (bindp m f)"
  by (induction m) auto

lemma returns_bindp:
  "returns good q m \<Longrightarrow> (\<And>x. q x \<Longrightarrow> returns good q' (f x)) \<Longrightarrow> returns good q' (bindp m f)"
  by (induction m) auto

lemma returns_True [simp]: "returns good (\<lambda>_. True) m"
  by (induction m) auto

lemma only_stmts_bindp_any:
  "only_stmts ok good m \<Longrightarrow> (\<And>x. only_stmts ok good (f x)) \<Longrightarrow> only_stmts ok good (bindp m f)"
  by (rule only_stmts_bindp [where q = "\<lambda>_. True"]) simp_all

lemma only_stmts_catchp:
  "only_stmts ok good m \<Longrightarrow> (\<And>e. only_stmts ok good (h e)) \<Longrightarrow> only_stmts ok good (catchp m h)"
  by (induction m) auto

lemma only_stmts_issue [simp]:
  "only_stmts ok good (execute s) \<longleftrightarrow> ok s"
  "only_stmts ok good time_now \<longleftrightarrow> ok TimeNow"
  "only_stmts ok good uuid4 \<longleftrightarrow> ok DrawUuid"
  "only_stmts ok good (ledger_rows s) \<longleftrightarrow> ok s"
  "only_stmts ok good (rows_held s) \<longleftrightarrow> ok s"
  "only_stmts ok good (count_of s) \<longleftrightarrow> ok s"
  "only_stmts ok good (token_of s) \<longleftrightarrow> ok s"
  "only_stmts ok good (collection_of s) \<longleftrightarrow> ok s"
  by (auto simp: issue_defs split: reply.splits)

lemma only_stmts_mono:
  "only_stmts ok good m \<Longrightarrow> (\<And>s. ok s \<Longrightarrow> ok' s) \<Longrightarrow> (\<And>r. good' r \<Longrightarrow> good r) \<Longrightarrow> only_stmts ok' good' m"
  by (induction m) auto

text \<open>
  The contract that turns a property of single statements into a property of every
  interleaving: if every statement the sessions may issue keeps the table invariant and answers
  as the programs expect, and the clock does not matter to it, every pool state reached keeps it.
\<close>

locale table_invariant =
  fixes uuid :: "nat \<Rightarrow> string"
    and ok :: "stmt \<Rightarrow> bool"
    and good :: "reply \<Rightarrow> bool"
    and inv :: "world \<Rightarrow> bool"
  assumes stmt_keeps: "ok s \<Longrightarrow> inv w \<Longrightarrow> inv (fst (exec_stmt uuid s w))"
    and stmt_answers: "ok s \<Longrightarrow> inv w \<Longrightarrow> good (snd (exec_stmt uuid s w))"
    and fault_good: "good Fault"
    and clock_irrelevant: "inv w \<Longrightarrow> inv (w\<lparr>clock := t\<rparr>)"
begin

lemma continue_keeps:
  assumes "list_all (only_stmts ok good) ps" "i < length ps" "ps ! i = Step s k" "good r"
  shows "list_all (only_stmts ok good) (ps[i := k r])"
proof -
  from assms have "only_stmts ok good (Step s k)" by (metis list_all_length)
  with assms(4) have "only_stmts ok good (k r)" by simp
  with assms(1) show ?thesis
    by (auto simp: list_all_iff dest!: set_update_subset_insert [THEN subsetD])
qed

lemma pool_step_keeps:
  assumes "pool_step uuid (w, ps) (w', ps')" "inv w" "list_all (only_stmts ok good) ps"
  shows "inv w' \<and> list_all (only_stmts ok good) ps'"
  using assms
proof (cases rule: pool_step.cases)
  case (statement i s k r)
  with assms(3) have "only_stmts ok good (Step s k)" by (metis list_all_length)
  then have s: "ok s" by simp
  with statement assms(2) stmt_keeps [of s w] stmt_answers [of s w]
  have "inv w'" "good r" by auto
  with statement assms(3) show ?thesis by (auto intro: continue_keeps)
next
  case (fault i s k)
  with assms fault_good show ?thesis by (auto intro: continue_keeps)
next
  case (tick t)
  with assms clock_irrelevant show ?thesis by simp
qed

lemma pool_keeps:
  assumes "(pool_step uuid)\<^sup>*\<^sup>* (w, ps) (w', ps')" "inv w" "list_all (only_stmts ok good) ps"
  shows "inv w' \<and> list_all (only_stmts ok good) ps'"
  using assms
proof (induction "(w', ps')" arbitrary: w' ps' rule: rtranclp_induct)
  case base
  then show ?case by simp
next
  case (step y)
  obtain v qs where y: "y = (v, qs)" by (cases y)
  with step show ?case by (metis pool_step_keeps)
qed

lemma run_keeps: "only_stmts ok good m \<Longrightarrow> inv w \<Longrightarrow> inv (snd (run uuid m w))"
proof (induction m arbitrary: w)
  case (Step s k)
  obtain w' r where e: "exec_stmt uuid s w = (w', r)" by (cases "exec_stmt uuid s w")
  with Step.prems stmt_keeps [of s w] stmt_answers [of s w] have "inv w'" "good r" by simp_all
  moreover from Step.prems \<open>good r\<close> have "only_stmts ok good (k r)" by simp
  ultimately have "inv (snd (run uuid (k r) w'))" using Step.IH by blast
  with e show ?case by simp
qed simp_all

end

end
