(* ===== verification/Serving.thy ===== *)
theory Serving
  imports Sessions
begin

text \<open>
  \<open>ServingCoordinator\<close> (\<^verbatim>\<open>src/stel/retrieval/coordination.py\<close>), method by method, as programs
  over the statements of \<open>Warehouse\<close>: publication claims (\<open>acquire_publish\<close>, \<open>verify_publish\<close>,
  \<open>heartbeat\<close>, \<open>mark_ready\<close>, \<open>mark_failed\<close>), query leases (\<open>acquire_query\<close>, \<open>refresh_query\<close>,
  \<open>validate_query\<close>, \<open>release_query\<close>), the mirror record, re-keying and administrative recovery.
  Whether a recorded publisher process is alive is an argument of \<open>recover\<close>
  (\<open>liveness\<close>; \<open>local_liveness\<close> below is the function the code passes).
\<close>

section \<open>Who published\<close>

datatype liveness = Alive | Dead | UnknownLiveness

definition start_tolerance_seconds :: int where
  "start_tolerance_seconds = 2"

definition label_max_chars :: nat where
  "label_max_chars = 128"

definition publisher_label_of :: "string option \<Rightarrow> string option" where
  "publisher_label_of raw =
     (case raw of None \<Rightarrow> None
      | Some s \<Rightarrow> (let label = py_join '' '' (py_split s) in
                   if label = [] then None else Some (take label_max_chars label)))"

text \<open>
  What this host can read: its PID namespace, its own PID, and the start time of a process
  (\<open>None\<close> when there is no such process or no \<^verbatim>\<open>/proc\<close>).
\<close>

record host_view =
  process_namespace :: "string option"
  own_pid :: int
  process_started_epoch :: "int \<Rightarrow> int option"

definition local_liveness :: "host_view \<Rightarrow> publisher_identity \<Rightarrow> liveness" where
  "local_liveness h identity =
     (case (pub_started_epoch identity, pub_namespace identity) of
        (Some began, Some ns) \<Rightarrow>
          if process_namespace h \<noteq> Some ns then UnknownLiveness
          else if process_started_epoch h (own_pid h) = None then UnknownLiveness
          else (case process_started_epoch h (pub_pid identity) of
                  None \<Rightarrow> Dead
                | Some started \<Rightarrow>
                    if \<bar>started - began\<bar> \<le> start_tolerance_seconds then Alive else Dead)
      | _ \<Rightarrow> UnknownLiveness)"

definition current_publisher :: "host_view \<Rightarrow> string \<Rightarrow> string option \<Rightarrow> publisher_identity" where
  "current_publisher h hostname label = \<lparr>pub_host = hostname, pub_pid = own_pid h,
     pub_started_epoch = process_started_epoch h (own_pid h),
     pub_label = publisher_label_of label, pub_namespace = process_namespace h\<rparr>"

section \<open>Reads\<close>

record serving_ledger_entry =
  e_status :: serving_status
  e_fencing_token :: int
  e_publication_id :: "string option"
  e_expected_code_version :: "string option"
  e_config_fingerprint :: "string option"
  e_active_generation :: "string option"
  e_active_collection :: "string option"
  e_safe_error_code :: "string option"
  e_progress_note :: "string option"
  e_counts :: row_counts
  e_query_leases :: nat
  e_publisher :: "publisher_identity option"
  e_heartbeat_epoch :: "int option"
  e_mirror :: mirror_columns
  e_activated_epoch :: "int option"

definition publisher_from_row :: "ledger_row \<Rightarrow> publisher_identity option" where
  "publisher_from_row r =
     (case (publication_id r, publisher_host (publisher r), publisher_pid (publisher r)) of
        (Some _, Some h, Some p) \<Rightarrow> Some \<lparr>pub_host = h, pub_pid = p,
           pub_started_epoch = publisher_started_epoch (publisher r),
           pub_label = publisher_label (publisher r),
           pub_namespace = publisher_namespace (publisher r)\<rparr>
      | _ \<Rightarrow> None)"

definition unpublished_entry :: serving_ledger_entry where
  "unpublished_entry = \<lparr>e_status = Unpublished, e_fencing_token = 0, e_publication_id = None,
     e_expected_code_version = None, e_config_fingerprint = None, e_active_generation = None,
     e_active_collection = None, e_safe_error_code = None, e_progress_note = None,
     e_counts = (0, 0, 0, 0), e_query_leases = 0, e_publisher = None, e_heartbeat_epoch = None,
     e_mirror = no_mirror, e_activated_epoch = None\<rparr>"

definition entry_of_row :: "ledger_row \<Rightarrow> nat \<Rightarrow> serving_ledger_entry" where
  "entry_of_row r n = \<lparr>e_status = status r, e_fencing_token = fencing_token r,
     e_publication_id = publication_id r, e_expected_code_version = expected_code_version r,
     e_config_fingerprint = config_fingerprint r, e_active_generation = active_generation r,
     e_active_collection = active_collection r, e_safe_error_code = safe_error_code r,
     e_progress_note = progress_note r, e_counts = counts r, e_query_leases = n,
     e_publisher = publisher_from_row r,
     e_heartbeat_epoch = publisher_heartbeat_epoch (publisher r), e_mirror = mirror r,
     e_activated_epoch = activated_epoch r\<rparr>"

definition one_row :: "ledger_row list \<Rightarrow> ledger_row option prog" where
  "one_row rs = (case rs of [] \<Rightarrow> Return None | [r] \<Rightarrow> Return (Some r)
     | _ \<Rightarrow> Raise (ServingCoordinationError ConflictingRows))"

definition read_row :: "state_scope \<Rightarrow> ledger_row option prog" where
  "read_row sc = bindp (ledger_rows (SelectLedger sc)) one_row"

definition read_row_and_lease :: "query_lease \<Rightarrow> (ledger_row option \<times> bool) prog" where
  "read_row_and_lease q = bindp (rows_held (SelectLedgerAndLease q))
     (\<lambda>(rs, n). bindp (one_row rs)
       (\<lambda>r. Return (case r of None \<Rightarrow> (None, False) | Some _ \<Rightarrow> (r, n \<noteq> 0))))"

definition lease_count :: "state_scope \<Rightarrow> nat prog" where
  "lease_count sc = count_of (CountLeases sc)"

definition scope_exists :: "state_scope \<Rightarrow> bool prog" where
  "scope_exists sc = bindp (read_row sc) (\<lambda>r. Return (r \<noteq> None))"

definition serving_status_of :: "state_scope \<Rightarrow> serving_ledger_entry prog" where
  "serving_status_of sc = bindp (read_row sc)
     (\<lambda>r. case r of None \<Rightarrow> Return unpublished_entry
          | Some r \<Rightarrow> bindp (lease_count sc) (\<lambda>n. Return (entry_of_row r n)))"

section \<open>Rows and keys\<close>

definition ensure_row :: "state_scope \<Rightarrow> unit prog" where
  "ensure_row sc = bindp uuid4 (\<lambda>rid. bindp (execute (InsertPlaceholder sc rid))
     (\<lambda>_. execute (CollapsePlaceholders sc)))"

definition rekey_scope :: "state_scope \<Rightarrow> state_scope \<Rightarrow> nat prog" where
  "rekey_scope old new =
     (if model_name old \<noteq> model_name new \<or> stage old \<noteq> stage new
      then Raise (ServingCoordinationError RekeyChangesScope)
      else if target_identity old = target_identity new then Return 0
      else bindp (lease_count old) (\<lambda>n. bindp (if n \<noteq> 0 then Return n else lease_count new)
        (\<lambda>busy. if busy \<noteq> 0 then Raise (ServingBusyError RekeyBusy)
         else bindp (count_of (CountClaimed old)) (\<lambda>count.
           if count = 0 then Return 0
           else bindp (count_of (CountClaimed new)) (\<lambda>taken.
             if taken > 0 then Raise (ServingCoordinationError RekeyOccupied)
             else bindp (execute (DeletePlaceholder new)) (\<lambda>_.
               bindp (execute (Rekey old (target_identity new))) (\<lambda>_. Return count)))))))"

section \<open>Publication claims\<close>

definition request_query_drain :: "state_scope \<Rightarrow> int \<Rightarrow> unit prog" where
  "request_query_drain sc token =
     bindp time_now (\<lambda>now. execute (RequestDrain sc token (now + query_drain_seconds)))"

record publish_request =
  a_code_version :: string
  a_fingerprint :: string
  a_preserves :: bool
  a_excludes :: "bool option"
  a_expected_token :: "int option"
  a_publisher :: publisher_identity

definition acquire_publish :: "state_scope \<Rightarrow> publish_request \<Rightarrow> publish_lease prog" where
  "acquire_publish sc a =
     (let excludes = (case a_excludes a of None \<Rightarrow> \<not> a_preserves a | Some b \<Rightarrow> b) in
      bindp (ensure_row sc) (\<lambda>_.
      bindp uuid4 (\<lambda>pid.
      bindp time_now (\<lambda>now.
      bindp (execute (Claim \<lparr>c_scope = sc, c_publication_id = pid,
               c_code_version = a_code_version a, c_fingerprint = a_fingerprint a,
               c_preserves = a_preserves a, c_excludes = excludes,
               c_expected_token = a_expected_token a, c_publisher = a_publisher a, c_now = now\<rparr>)) (\<lambda>_.
      bindp (read_row sc) (\<lambda>row.
      case row of
        None \<Rightarrow> Raise (ServingCoordinationError RowDisappeared)
      | Some r \<Rightarrow>
          if publication_id r \<noteq> Some pid then
            (if publication_id r \<noteq> None then Raise (ServingBusyError PublisherOwnsScope)
             else if (case a_expected_token a of None \<Rightarrow> False | Some t \<Rightarrow> fencing_token r \<noteq> t)
             then Raise (ServingBusyError GenerationChanged)
             else bindp (if excludes then request_query_drain sc (fencing_token r) else Return ())
               (\<lambda>_. Raise (ServingBusyError LeasesBlockPublication)))
          else Return \<lparr>p_scope = sc, p_publication_id = pid, p_token = fencing_token r,
                 p_fingerprint = a_fingerprint a\<rparr>))))))"

definition verify_publish :: "publish_lease \<Rightarrow> unit prog" where
  "verify_publish p = bindp (read_row (p_scope p)) (\<lambda>row.
     case row of
       None \<Rightarrow> Raise (StaleServingLeaseError AuthorityReassigned)
     | Some r \<Rightarrow>
         if publication_id r \<noteq> Some (p_publication_id p) \<or> fencing_token r \<noteq> p_token p
         then Raise (StaleServingLeaseError AuthorityReassigned) else Return ())"

definition heartbeat :: "publish_lease \<Rightarrow> unit prog" where
  "heartbeat p = bindp time_now (\<lambda>now. bindp (execute (Heartbeat p now)) (\<lambda>_. verify_publish p))"

definition finish :: "publish_lease \<Rightarrow> finish_request \<Rightarrow> unit prog" where
  "finish p f = bindp (execute (Finish p f)) (\<lambda>_. bindp (read_row (p_scope p)) (\<lambda>row.
     case row of
       None \<Rightarrow> Raise (StaleServingLeaseError ReassignedBeforeCompletion)
     | Some r \<Rightarrow>
         if fencing_token r \<noteq> p_token p \<or> status r \<noteq> f_status f \<or> publication_id r \<noteq> None
         then Raise (StaleServingLeaseError ReassignedBeforeCompletion) else Return ()))"

text \<open>\<open>record_progress\<close> swallows a failing warehouse call.\<close>

definition record_progress :: "publish_lease \<Rightarrow> string \<Rightarrow> unit prog" where
  "record_progress p note = catchp (execute (Progress p note)) (\<lambda>_. Return ())"

definition mark_ready ::
  "publish_lease \<Rightarrow> string \<Rightarrow> string \<Rightarrow> row_counts \<Rightarrow> string option \<Rightarrow> unit prog" where
  "mark_ready p generation fingerprint cs collection =
     (if generation = [] then Raise (ServingCoordinationError ActivationNeedsGeneration)
      else bindp (read_row (p_scope p)) (\<lambda>row.
        case row of
          None \<Rightarrow> Raise (StaleServingLeaseError ReassignedBeforeActivation)
        | Some r \<Rightarrow>
            if publication_id r \<noteq> Some (p_publication_id p) \<or> fencing_token r \<noteq> p_token p
            then Raise (StaleServingLeaseError ReassignedBeforeActivation)
            else if p_fingerprint p \<noteq> fingerprint
            then Raise (ServingCoordinationError FingerprintMismatch)
            else bindp time_now (\<lambda>now. finish p \<lparr>f_status = Ready, f_generation = Some generation,
              f_collection = collection, f_error = None, f_counts = cs,
              f_activation = StampActivation (Some now), f_fingerprint = Some fingerprint\<rparr>)))"

definition error_code_start :: "char \<Rightarrow> bool" where
  "error_code_start c \<longleftrightarrow> (let n = of_char c :: nat in 97 \<le> n \<and> n \<le> 122)"

definition error_code_char :: "char \<Rightarrow> bool" where
  "error_code_char c \<longleftrightarrow> error_code_start c \<or> (let n = of_char c :: nat in 48 \<le> n \<and> n \<le> 57 \<or> n = 95)"

text \<open>\<^verbatim>\<open>[a-z][a-z0-9_]{0,63}\<close>, the whole string.\<close>

definition safe_error_code_ok :: "string \<Rightarrow> bool" where
  "safe_error_code_ok s \<longleftrightarrow>
     (case s of [] \<Rightarrow> False | c # cs \<Rightarrow> error_code_start c \<and> list_all error_code_char cs \<and> length cs \<le> 63)"

definition validate_safe_error_code :: "string \<Rightarrow> string prog" where
  "validate_safe_error_code code =
     (if safe_error_code_ok code then Return code else Raise (ServingCoordinationError BadErrorCode))"

definition mark_failed ::
  "publish_lease \<Rightarrow> string \<Rightarrow> row_counts \<Rightarrow> string option \<Rightarrow> string option \<Rightarrow> string option \<Rightarrow> unit prog" where
  "mark_failed p code cs collection generation fingerprint =
     (let retained = (case generation of None \<Rightarrow> False | Some g \<Rightarrow> g \<noteq> []) in
      if retained \<and> fingerprint = None
      then Raise (ServingCoordinationError RetainNeedsFingerprint)
      else bindp (validate_safe_error_code code) (\<lambda>code.
        finish p \<lparr>f_status = (if retained then Degraded else Failed),
          f_generation = (if retained then generation else None),
          f_collection = collection, f_error = Some code, f_counts = cs,
          f_activation = (if retained then KeepActivation else StampActivation None),
          f_fingerprint = (if retained then fingerprint else None)\<rparr>))"

section \<open>Query leases\<close>

definition raise_if_rekey_pending :: "state_scope \<Rightarrow> state_scope \<Rightarrow> unit prog" where
  "raise_if_rekey_pending sc legacy =
     (if target_identity legacy = target_identity sc then Return ()
      else bindp (read_row legacy) (\<lambda>row.
        if row = None then Return () else Raise (ServingNotReadyError RekeyPending)))"

definition check_query_drain :: "ledger_row \<Rightarrow> unit prog" where
  "check_query_drain r =
     (case query_drain_until_epoch r of None \<Rightarrow> Return ()
      | Some e \<Rightarrow> bindp time_now (\<lambda>now.
          if e > now then Raise (ServingBusyError ReadersDraining) else Return ()))"

definition query_row_valid :: "query_lease \<Rightarrow> ledger_row option \<Rightarrow> bool \<Rightarrow> bool \<Rightarrow> bool" where
  "query_row_valid q row held require_active =
     (case row of None \<Rightarrow> False
      | Some r \<Rightarrow> held \<and> fencing_token r \<ge> q_token q \<and> status r \<in> set servable_statuses
          \<and> active_generation r \<noteq> None
          \<and> (require_active \<longrightarrow>
               fencing_token r = q_token q \<and> active_generation r = Some (q_generation q)))"

definition validate_query_row :: "query_lease \<Rightarrow> ledger_row option \<Rightarrow> bool \<Rightarrow> bool \<Rightarrow> unit prog" where
  "validate_query_row q row held require_active =
     (if query_row_valid q row held require_active then Return ()
      else Raise (StaleServingLeaseError GenerationNoLongerActive))"

definition validate_query :: "query_lease \<Rightarrow> bool \<Rightarrow> unit prog" where
  "validate_query q require_active = bindp (read_row_and_lease q)
     (\<lambda>(row, held). validate_query_row q row held require_active)"

definition release_query :: "query_lease \<Rightarrow> unit prog" where
  "release_query q = execute (DeleteLease (q_lease_id q))"

definition degraded_code :: "ledger_row \<Rightarrow> string option" where
  "degraded_code r = (if status r = Degraded then safe_error_code r else None)"

definition admit_query :: "state_scope \<Rightarrow> ledger_row \<Rightarrow> string \<Rightarrow> query_lease prog" where
  "admit_query sc r generation =
     (let fp = (case config_fingerprint r of None \<Rightarrow> [] | Some fp \<Rightarrow> fp) in
      bindp uuid4 (\<lambda>lid.
      bindp time_now (\<lambda>now.
      bindp (execute (InsertLease \<lparr>lease_scope = sc, lease_id = lid, lease_token = fencing_token r,
               lease_generation = generation, lease_fingerprint = fp, lease_acquired_at = 0\<rparr> now)) (\<lambda>_.
      bindp (count_of (SelectLease lid)) (\<lambda>held.
      if held = 0 then Raise (ServingBusyError ClaimedDuringAdmission)
      else bindp (read_row sc) (\<lambda>current.
        let seen = (case current of None \<Rightarrow> r
                    | Some c \<Rightarrow> if fencing_token c = fencing_token r
                        \<and> active_generation c = Some generation then c else r);
            q = \<lparr>q_scope = sc, q_lease_id = lid, q_token = fencing_token r,
                 q_generation = generation, q_collection = active_collection r, q_fingerprint = fp,
                 q_status = status seen, q_error = degraded_code seen\<rparr>
        in bindp (catchp (validate_query q True)
             (\<lambda>e. if is_coordination_error e then bindp (release_query q) (\<lambda>_. Raise e) else Raise e))
           (\<lambda>_. Return q)))))))"

definition acquire_query :: "state_scope \<Rightarrow> state_scope option \<Rightarrow> query_lease prog" where
  "acquire_query sc legacy = bindp (read_row sc) (\<lambda>row.
     bindp (case (row, legacy) of (None, Some l) \<Rightarrow> raise_if_rekey_pending sc l | _ \<Rightarrow> Return ()) (\<lambda>_.
     case row of
       None \<Rightarrow> Raise (ServingNotReadyError NotPublished)
     | Some r \<Rightarrow>
         if status r = Unpublished then Raise (ServingNotReadyError NotPublished)
         else if publication_id r \<noteq> None \<and> (status r = PublishingInPlace \<or> active_generation r = None)
         then Raise (ServingBusyError PublisherReconciling)
         else (case active_generation r of
             None \<Rightarrow> Raise (ServingNotReadyError NoReadyPublication)
           | Some generation \<Rightarrow>
               if status r \<notin> set servable_statuses
               then Raise (ServingNotReadyError NoReadyPublication)
               else bindp (check_query_drain r) (\<lambda>_. admit_query sc r generation))))"

definition refresh_query :: "query_lease \<Rightarrow> query_lease prog" where
  "refresh_query q = bindp (read_row_and_lease q) (\<lambda>(row, held).
     bindp (validate_query_row q row held False) (\<lambda>_.
     case row of
       None \<Rightarrow> Raise (StaleServingLeaseError GenerationNoLongerActive)
     | Some r \<Rightarrow> bindp (check_query_drain r) (\<lambda>_.
         if active_generation r \<noteq> Some (q_generation q)
            \<or> config_fingerprint r \<noteq> Some (q_fingerprint q)
            \<or> active_collection r \<noteq> q_collection q
         then Raise (StaleServingLeaseError GenerationNoLongerActive)
         else Return (q\<lparr>q_status := status r, q_error := degraded_code r\<rparr>))))"

section \<open>Mirror and recovery\<close>

definition record_mirror :: "query_lease \<Rightarrow> string \<Rightarrow> bool prog" where
  "record_mirror q target = bindp time_now (\<lambda>now.
     bindp (execute (RecordMirror q target now)) (\<lambda>_. bindp (read_row (q_scope q)) (\<lambda>row.
       Return (case row of None \<Rightarrow> False
               | Some r \<Rightarrow> mirror_generation (mirror r) = Some (q_generation q)
                   \<and> mirror_target (mirror r) = Some target))))"

definition refuse_unless_owner_provably_dead ::
  "(publisher_identity \<Rightarrow> liveness) \<Rightarrow> state_scope \<Rightarrow> unit prog" where
  "refuse_unless_owner_provably_dead live sc = bindp (serving_status_of sc) (\<lambda>entry.
     case e_publisher entry of
       Some owner \<Rightarrow> if live owner = Dead then Return ()
         else Raise (ServingCoordinationError OwnerNotTerminated)
     | None \<Rightarrow> Raise (ServingCoordinationError OwnerNotTerminated))"

definition recovered_pointers :: "ledger_row list \<Rightarrow> string option \<Rightarrow> recovered_pointer" where
  "recovered_pointers pointer legacy_collection =
     (case pointer of
        r # _ \<Rightarrow>
          if active_generation r \<noteq> None \<and> config_fingerprint r \<noteq> None
          then \<lparr>rp_generation = active_generation r, rp_collection = active_collection r,
                rp_fingerprint = config_fingerprint r, rp_activated = activated_epoch r\<rparr>
          else \<lparr>rp_generation = None, rp_collection = legacy_collection,
                rp_fingerprint = None, rp_activated = None\<rparr>
      | [] \<Rightarrow> \<lparr>rp_generation = None, rp_collection = legacy_collection,
                rp_fingerprint = None, rp_activated = None\<rparr>)"

definition servable_pointer :: "ledger_row list \<Rightarrow> bool" where
  "servable_pointer pointer =
     (case pointer of r # _ \<Rightarrow> active_generation r \<noteq> None \<and> config_fingerprint r \<noteq> None | [] \<Rightarrow> False)"

definition recover ::
  "(publisher_identity \<Rightarrow> liveness) \<Rightarrow> state_scope \<Rightarrow> bool \<Rightarrow> serving_ledger_entry prog" where
  "recover live sc owner_terminated =
     bindp (if owner_terminated then Return () else refuse_unless_owner_provably_dead live sc) (\<lambda>_.
     bindp (ledger_rows (SelectPointer sc)) (\<lambda>pointer.
     bindp (if servable_pointer pointer then Return None else collection_of (SelectCollection sc)) (\<lambda>legacy.
     bindp (execute (DeleteLeases sc)) (\<lambda>_.
     bindp (token_of (SelectMaxFence sc)) (\<lambda>top.
     bindp (execute (DeleteLedger sc)) (\<lambda>_.
     bindp uuid4 (\<lambda>rid.
     bindp (execute (InsertRecovered sc rid (top + 1) (recovered_pointers pointer legacy))) (\<lambda>_.
     serving_status_of sc))))))))"

end
