(* ===== verification/Serving_Inv.thy ===== *)
theory Serving_Inv
  imports Serving
begin

text \<open>
  Invariants of the serving tables under every interleaving of coordinator calls.
\<close>

section \<open>Calls\<close>

text \<open>The calls other processes may have in flight, each with any arguments.\<close>

datatype call =
    AcquirePublish state_scope publish_request
  | VerifyPublish publish_lease
  | HeartbeatCall publish_lease
  | RecordProgress publish_lease string
  | MarkReady publish_lease string string row_counts "string option"
  | MarkFailed publish_lease string row_counts "string option" "string option" "string option"
  | AcquireQuery state_scope "state_scope option"
  | RefreshQuery query_lease
  | ValidateQuery query_lease bool
  | ReleaseQuery query_lease
  | RecordMirrorCall query_lease string
  | StatusCall state_scope
  | ScopeExistsCall state_scope
  | RekeyCall state_scope state_scope
  | RecoverCall "publisher_identity \<Rightarrow> liveness" state_scope bool

definition ignore :: "'a prog \<Rightarrow> unit prog" where
  "ignore m = bindp m (\<lambda>_. Return ())"

fun call_prog :: "call \<Rightarrow> unit prog" where
  "call_prog (AcquirePublish sc a) = ignore (acquire_publish sc a)"
| "call_prog (VerifyPublish p) = verify_publish p"
| "call_prog (HeartbeatCall p) = heartbeat p"
| "call_prog (RecordProgress p note) = record_progress p note"
| "call_prog (MarkReady p g fp cs coll) = mark_ready p g fp cs coll"
| "call_prog (MarkFailed p code cs coll g fp) = mark_failed p code cs coll g fp"
| "call_prog (AcquireQuery sc legacy) = ignore (acquire_query sc legacy)"
| "call_prog (RefreshQuery q) = ignore (refresh_query q)"
| "call_prog (ValidateQuery q b) = validate_query q b"
| "call_prog (ReleaseQuery q) = release_query q"
| "call_prog (RecordMirrorCall q t) = ignore (record_mirror q t)"
| "call_prog (StatusCall sc) = ignore (serving_status_of sc)"
| "call_prog (ScopeExistsCall sc) = ignore (scope_exists sc)"
| "call_prog (RekeyCall old new) = ignore (rekey_scope old new)"
| "call_prog (RecoverCall live sc conf) = ignore (recover live sc conf)"

text \<open>Calls that are not administrative.\<close>

fun ordinary :: "call \<Rightarrow> bool" where
  "ordinary (RekeyCall _ _) = False"
| "ordinary (RecoverCall _ _ _) = False"
| "ordinary _ = True"

lemmas method_defs = ignore_def acquire_publish_def verify_publish_def heartbeat_def
  record_progress_def mark_ready_def mark_failed_def acquire_query_def refresh_query_def
  validate_query_def release_query_def record_mirror_def serving_status_of_def scope_exists_def
  rekey_scope_def recover_def finish_def admit_query_def ensure_row_def request_query_drain_def
  read_row_def read_row_and_lease_def one_row_def lease_count_def check_query_drain_def
  validate_query_row_def validate_safe_error_code_def raise_if_rekey_pending_def
  refuse_unless_owner_provably_dead_def

section \<open>Row well-formedness\<close>

definition row_wf :: "ledger_row \<Rightarrow> bool" where
  "row_wf r \<longleftrightarrow>
     (publication_id r \<noteq> None \<longleftrightarrow> status r = Publishing \<or> status r = PublishingInPlace)
     \<and> (status r = Ready \<or> status r = Degraded \<longrightarrow> active_generation r \<noteq> None)
     \<and> (status r = Failed \<or> status r = Unpublished \<longrightarrow> active_generation r = None)
     \<and> (active_generation r \<noteq> None \<longrightarrow>
          config_fingerprint r \<noteq> None \<and> active_generation r \<noteq> Some [])
     \<and> (status r = Failed \<or> status r = Degraded \<longrightarrow> safe_error_code r \<noteq> None)
     \<and> (status r = Unpublished \<longrightarrow> fencing_token r = 0)
     \<and> 0 \<le> fencing_token r
     \<and> (status r = Ready \<longrightarrow> activated_epoch r \<noteq> None)
     \<and> (publication_id r = None \<longrightarrow> publisher r = no_publisher)
     \<and> (publication_id r \<noteq> None \<longrightarrow> query_drain_until_epoch r = None)"

definition ledger_wf :: "world \<Rightarrow> bool" where
  "ledger_wf w \<longleftrightarrow> list_all row_wf (ledger w)"

fun finish_ok :: "finish_request \<Rightarrow> bool" where
  "finish_ok f = (f_status f \<in> {Ready, Degraded, Failed}
     \<and> (f_status f = Failed \<longleftrightarrow> f_generation f = None)
     \<and> (f_generation f \<noteq> None \<longrightarrow> f_fingerprint f \<noteq> None \<and> f_generation f \<noteq> Some [])
     \<and> (f_status f \<noteq> Ready \<longrightarrow> f_error f \<noteq> None)
     \<and> (f_status f = Ready \<longrightarrow> (\<exists>e. f_activation f = StampActivation (Some e))))"

definition pointer_ok :: "recovered_pointer \<Rightarrow> bool" where
  "pointer_ok rp \<longleftrightarrow>
     (rp_generation rp \<noteq> None \<longrightarrow> rp_fingerprint rp \<noteq> None \<and> rp_generation rp \<noteq> Some [])"

fun wf_stmt :: "stmt \<Rightarrow> bool" where
  "wf_stmt (Finish p f) = finish_ok f"
| "wf_stmt (InsertRecovered sc rid fence rp) = (0 \<le> fence \<and> pointer_ok rp)"
| "wf_stmt _ = True"

fun wf_reply :: "reply \<Rightarrow> bool" where
  "wf_reply (Rows rs) = list_all row_wf rs"
| "wf_reply (RowsHeld rs n) = list_all row_wf rs"
| "wf_reply (Token n) = (0 \<le> n)"
| "wf_reply _ = True"

lemma update_where_wf:
  "ledger_wf w \<Longrightarrow> (\<And>r. row_wf r \<Longrightarrow> p r \<Longrightarrow> row_wf (f r)) \<Longrightarrow> ledger_wf (update_where p f w)"
  by (auto simp: ledger_wf_def update_where_def list_all_iff)

lemma claimed_row_wf: "row_wf r \<Longrightarrow> row_wf (claimed_row c t r)"
  by (auto simp: row_wf_def claimed_row_def)

lemma row_wf_nonneg: "row_wf r \<Longrightarrow> 0 \<le> fencing_token r"
  by (simp add: row_wf_def)

lemma finished_row_wf_aux:
  "0 \<le> fencing_token r \<Longrightarrow> finish_ok f \<Longrightarrow> row_wf (finished_row f t r)"
  by (cases "f_status f"; cases "f_generation f"; cases "f_fingerprint f")
     (auto simp: row_wf_def finished_row_def)

lemmas finished_row_wf = finished_row_wf_aux [OF row_wf_nonneg]

lemma recovered_row_wf: "0 \<le> fence \<Longrightarrow> pointer_ok rp \<Longrightarrow> row_wf (recovered_row sc rid fence rp t)"
  by (cases "rp_generation rp")
     (auto simp: row_wf_def recovered_row_def placeholder_row_def pointer_ok_def recovery_error_code_def)

lemma placeholder_row_wf [simp]: "row_wf (placeholder_row sc rid)"
  by (simp add: row_wf_def placeholder_row_def)

lemma scope_rows_wf: "ledger_wf w \<Longrightarrow> list_all row_wf (scope_rows sc w)"
  by (auto simp: ledger_wf_def scope_rows_def list_all_iff)

lemma top_fence_mem: "top_fence rs = Some r \<Longrightarrow> r \<in> set rs"
  by (induction rs arbitrary: r) (auto split: option.splits if_splits)

lemma max_fence_nonneg: "ledger_wf w \<Longrightarrow> 0 \<le> max_fence sc w"
proof (cases "scope_rows sc w = []")
  case False
  assume "ledger_wf w"
  from False obtain r where r: "r \<in> set (scope_rows sc w)" by (cases "scope_rows sc w") auto
  with \<open>ledger_wf w\<close> scope_rows_wf [of w sc] have "0 \<le> fencing_token r"
    by (auto simp: list_all_iff row_wf_def)
  also from r have "fencing_token r \<le> Max (set (map fencing_token (scope_rows sc w)))" by simp
  finally show ?thesis using False by (simp add: max_fence_def Let_def)
qed (simp add: max_fence_def)

lemma row_wf_frame [simp]:
  "row_wf (r\<lparr>row_scope := sc\<rparr>) = row_wf r"
  "row_wf (r\<lparr>progress_note := n\<rparr>) = row_wf r"
  "row_wf (r\<lparr>mirror := m\<rparr>) = row_wf r"
  by (simp_all add: row_wf_def)

lemma row_wf_drain: "publication_id r = None \<Longrightarrow> row_wf (r\<lparr>query_drain_until_epoch := d\<rparr>) = row_wf r"
  by (simp add: row_wf_def)

lemma row_wf_publisher: "publication_id r \<noteq> None \<Longrightarrow> row_wf (r\<lparr>publisher := c\<rparr>) = row_wf r"
  by (cases "publication_id r") (simp_all add: row_wf_def)

lemma ledger_wf_simps [simp]:
  "ledger_wf (w\<lparr>leases := ls\<rparr>) = ledger_wf w"
  "ledger_wf (w\<lparr>drawn := n\<rparr>) = ledger_wf w"
  "ledger_wf (w\<lparr>clock := t\<rparr>) = ledger_wf w"
  "ledger_wf (w\<lparr>ledger := rs @ [r]\<rparr>) \<longleftrightarrow> ledger_wf (w\<lparr>ledger := rs\<rparr>) \<and> row_wf r"
  "ledger_wf (w\<lparr>ledger := ledger w\<rparr>) = ledger_wf w"
  by (auto simp: ledger_wf_def)

lemma ledger_wf_filter: "ledger_wf w \<Longrightarrow> ledger_wf (w\<lparr>ledger := filter p (ledger w)\<rparr>)"
  by (auto simp: ledger_wf_def list_all_iff)

lemma exec_keeps_wf: "wf_stmt s \<Longrightarrow> ledger_wf w \<Longrightarrow> ledger_wf (fst (exec_stmt uuid s w))"
proof (cases s)
  case (Claim c)
  assume "ledger_wf w"
  with Claim show ?thesis
    by (simp add: sql_claim_def) (rule update_where_wf, simp_all add: claimed_row_wf)
next
  case (Finish p f)
  assume "wf_stmt s" "ledger_wf w"
  with Finish show ?thesis
    by (simp add: sql_finish_def del: finish_ok.simps)
       (rule update_where_wf, simp_all add: finished_row_wf del: finish_ok.simps)
next
  case (Heartbeat p now)
  assume "ledger_wf w"
  with Heartbeat show ?thesis
    by (simp add: sql_heartbeat_def)
       (rule update_where_wf, simp_all add: holds_claim_def row_wf_publisher)
next
  case RequestDrain
  assume "ledger_wf w"
  with RequestDrain show ?thesis
    by (simp add: sql_request_drain_def) (rule update_where_wf, simp_all add: row_wf_drain)
qed (simp_all add: sql_insert_placeholder_def sql_collapse_placeholders_def sql_delete_placeholder_def
    sql_rekey_def sql_progress_def sql_insert_lease_def
    sql_delete_lease_def sql_record_mirror_def sql_delete_leases_def sql_delete_ledger_def
    sql_insert_recovered_def ledger_wf_filter update_where_wf recovered_row_wf)

lemma exec_answers_wf: "ledger_wf w \<Longrightarrow> wf_reply (snd (exec_stmt uuid s w))"
  using scope_rows_wf [of w] max_fence_nonneg [of w]
  by (cases s) (auto simp: list_all_iff split: option.splits dest!: top_fence_mem [OF sym])

interpretation wf_inv: table_invariant uuid wf_stmt wf_reply ledger_wf for uuid
proof unfold_locales
  show "ledger_wf (fst (exec_stmt uuid s w))" if "wf_stmt s" "ledger_wf w" for s w
    using that by (rule exec_keeps_wf)
  show "wf_reply (snd (exec_stmt uuid s w))" if "wf_stmt s" "ledger_wf w" for s w
    using that(2) by (rule exec_answers_wf)
  show "ledger_wf (w\<lparr>clock := t\<rparr>)" if "ledger_wf w" for w t
    using that by (simp add: ledger_wf_def)
qed simp

section \<open>Which statements the calls issue\<close>

text \<open>Statements only administrative calls issue.\<close>

fun ordinary_stmt :: "stmt \<Rightarrow> bool" where
  "ordinary_stmt (Finish p f) = finish_ok f"
| "ordinary_stmt (InsertRecovered sc rid fence rp) = False"
| "ordinary_stmt (Rekey old ident) = False"
| "ordinary_stmt (DeletePlaceholder sc) = False"
| "ordinary_stmt (DeleteLedger sc) = False"
| "ordinary_stmt (DeleteLeases sc) = False"
| "ordinary_stmt _ = True"

lemma ordinary_stmt_wf: "ordinary_stmt s \<Longrightarrow> wf_stmt s"
  by (cases s) auto

named_theorems issues \<open>programs issue only the statements of a class\<close>

lemma only_read [issues]:
  assumes "ok (SelectLedger sc)"
  shows "only_stmts ok good (read_row sc)"
  using assms by (auto simp: read_row_def one_row_def intro!: only_stmts_bindp_any split: list.splits)

lemma only_read_lease [issues]:
  assumes "ok (SelectLedgerAndLease q)"
  shows "only_stmts ok good (read_row_and_lease q)"
  using assms
  by (auto simp: read_row_and_lease_def one_row_def intro!: only_stmts_bindp_any split: list.splits)

lemma only_drain [issues]:
  assumes "ok TimeNow"
  shows "only_stmts ok good (check_query_drain r)"
  using assms
  by (auto simp: check_query_drain_def intro!: only_stmts_bindp_any split: option.splits)

lemma only_validate [issues]: "only_stmts ok good (validate_query_row q row held b)"
  by (simp add: validate_query_row_def)

lemma only_finish [issues]: "finish_ok f \<Longrightarrow> only_stmts ordinary_stmt good (finish p f)"
  by (auto simp: finish_def intro!: only_stmts_bindp_any issues simp del: finish_ok.simps
      split: option.splits)

lemma ordinary_issues: "ordinary c \<Longrightarrow> only_stmts ordinary_stmt good (call_prog c)"
proof (cases c)
  case (MarkFailed p code cs coll g fp)
  then show ?thesis
    by (auto simp: mark_failed_def validate_safe_error_code_def Let_def
        intro!: only_stmts_bindp_any issues split: option.splits)
qed (auto simp: ignore_def acquire_publish_def verify_publish_def heartbeat_def
  record_progress_def mark_ready_def acquire_query_def refresh_query_def Let_def
  validate_query_def release_query_def record_mirror_def serving_status_of_def scope_exists_def
  admit_query_def ensure_row_def request_query_drain_def lease_count_def raise_if_rekey_pending_def
  intro!: only_stmts_bindp_any only_stmts_catchp issues split: option.splits)

lemma returns_issue:
  "returns wf_reply (list_all row_wf) (ledger_rows s)"
  "returns wf_reply (\<lambda>n. 0 \<le> n) (token_of s)"
  by (auto simp: issue_defs split: reply.splits)

lemma recovered_pointers_ok: "list_all row_wf rows \<Longrightarrow> pointer_ok (recovered_pointers rows legacy)"
  by (cases rows) (auto simp: recovered_pointers_def pointer_ok_def row_wf_def)

lemma recover_issues: "only_stmts wf_stmt wf_reply (recover live sc conf)"
proof -
  have status: "only_stmts wf_stmt wf_reply (serving_status_of sc)"
    by (auto simp: serving_status_of_def lease_count_def intro!: only_stmts_bindp_any issues
        split: option.splits)
  have refuse: "only_stmts wf_stmt wf_reply (refuse_unless_owner_provably_dead live sc)"
    by (auto simp: refuse_unless_owner_provably_dead_def intro!: only_stmts_bindp_any status
        split: option.splits)
  have insert: "only_stmts wf_stmt wf_reply
      (execute (InsertRecovered sc rid (top + 1) (recovered_pointers rows legacy)))"
    if "list_all row_wf rows" "0 \<le> top" for rid top rows legacy
    using that by (simp add: recovered_pointers_ok)
  show ?thesis
    unfolding recover_def
    by (intro only_stmts_bindp_any [OF _ only_stmts_bindp [OF _ returns_issue(1)
          only_stmts_bindp_any [OF _ only_stmts_bindp_any [OF _ only_stmts_bindp [OF _ returns_issue(2)
          only_stmts_bindp_any [OF _ only_stmts_bindp_any [OF _ only_stmts_bindp_any [OF insert status]]]]]]]])
       (auto simp: refuse)
qed

lemma call_issues: "only_stmts wf_stmt wf_reply (call_prog c)"
proof (cases "ordinary c")
  case True
  show ?thesis
    by (rule only_stmts_mono [OF ordinary_issues [OF True, of "\<lambda>_. True"]]) (auto intro: ordinary_stmt_wf)
next
  case False
  then show ?thesis
  proof (cases c)
    case (RekeyCall old new)
    then show ?thesis
      by (auto simp: ignore_def rekey_scope_def lease_count_def intro!: only_stmts_bindp_any)
  next
    case (RecoverCall live sc conf)
    then show ?thesis
      by (auto simp: ignore_def intro!: only_stmts_bindp_any recover_issues)
  qed auto
qed

section \<open>In-place publication excludes readers\<close>

text \<open>
  While an in-place publisher holds a scope its row is the scope's only row and no reader holds
  a lease on the scope.
\<close>

definition in_place_exclusive :: "state_scope \<Rightarrow> world \<Rightarrow> bool" where
  "in_place_exclusive sc w \<longleftrightarrow>
     (\<forall>r \<in> set (scope_rows sc w). status r = PublishingInPlace \<longrightarrow>
        length (scope_rows sc w) = 1 \<and> scope_leases sc w = [])"

lemma scope_rows_update_where:
  assumes "\<And>r. p r \<Longrightarrow> row_scope (f r) = row_scope r"
  shows "scope_rows sc (update_where p f w) = map (\<lambda>r. if p r then f r else r) (scope_rows sc w)"
proof -
  have "filter (\<lambda>r. row_scope r = sc) (map (\<lambda>r. if p r then f r else r) rs)
      = map (\<lambda>r. if p r then f r else r) (filter (\<lambda>r. row_scope r = sc) rs)" for rs
    by (induction rs) (auto simp: assms)
  then show ?thesis by (simp add: scope_rows_def update_where_def)
qed

lemma leases_update_where [simp]: "scope_leases sc (update_where p f w) = scope_leases sc w"
  by (simp add: scope_leases_def update_where_def)

lemma in_place_update_where:
  assumes "in_place_exclusive sc w" "\<And>r. p r \<Longrightarrow> row_scope (f r) = row_scope r"
    and "\<And>r. r \<in> set (scope_rows sc w) \<Longrightarrow> p r \<Longrightarrow> status (f r) = PublishingInPlace \<Longrightarrow>
      status r = PublishingInPlace \<or> length (scope_rows sc w) = 1 \<and> scope_leases sc w = []"
  shows "in_place_exclusive sc (update_where p f w)"
  using assms(1,3) by (auto simp: in_place_exclusive_def scope_rows_update_where assms(2))

lemma in_place_simps [simp]:
  "in_place_exclusive sc (w\<lparr>drawn := n\<rparr>) = in_place_exclusive sc w"
  "in_place_exclusive sc (w\<lparr>clock := t\<rparr>) = in_place_exclusive sc w"
  by (simp_all add: in_place_exclusive_def scope_rows_def scope_leases_def)

lemma in_place_filter:
  assumes "in_place_exclusive sc w"
  shows "in_place_exclusive sc (w\<lparr>ledger := filter p (ledger w)\<rparr>)"
  unfolding in_place_exclusive_def
proof (intro ballI impI conjI)
  fix r
  let ?w = "w\<lparr>ledger := filter p (ledger w)\<rparr>"
  assume r: "r \<in> set (scope_rows sc ?w)" and ip: "status r = PublishingInPlace"
  then have "r \<in> set (scope_rows sc w)" by (simp add: scope_rows_def)
  with assms ip have one: "length (scope_rows sc w) = 1" and none: "scope_leases sc w = []"
    by (auto simp: in_place_exclusive_def)
  have "scope_rows sc ?w = filter p (scope_rows sc w)"
    by (simp add: scope_rows_def filter_filter conj_commute)
  with one length_filter_le [of p "scope_rows sc w"] have "length (scope_rows sc ?w) \<le> 1" by simp
  with r show "length (scope_rows sc ?w) = 1"
    by (cases "scope_rows sc ?w") auto
  from none show "scope_leases sc ?w = []" by (simp add: scope_leases_def)
qed

lemma in_place_insert_lease:
  assumes "in_place_exclusive sc w"
  shows "in_place_exclusive sc (sql_insert_lease l now w)"
proof (cases "\<exists>r \<in> set (scope_rows sc w). status r = PublishingInPlace")
  case True
  then obtain r where r: "r \<in> set (scope_rows sc w)" "status r = PublishingInPlace" by blast
  with assms have "length (scope_rows sc w) = 1" by (auto simp: in_place_exclusive_def)
  with r have only: "scope_rows sc w = [r]" by (cases "scope_rows sc w") auto
  have "scope_leases sc (sql_insert_lease l now w) = scope_leases sc w"
  proof (cases "lease_scope l = sc")
    case True
    have "\<not> lease_admitted l now r'" if "r' \<in> set (ledger w)" for r'
    proof
      assume adm: "lease_admitted l now r'"
      with that True have "r' \<in> set (scope_rows sc w)"
        by (simp add: scope_rows_def lease_admitted_def)
      with only r adm show False by (simp add: lease_admitted_def servable_statuses_def)
    qed
    then show ?thesis by (auto simp: sql_insert_lease_def list_ex_iff)
  qed (simp add: sql_insert_lease_def scope_leases_def)
  with assms show ?thesis
    by (simp add: in_place_exclusive_def sql_insert_lease_def scope_rows_def)
next
  case False
  then show ?thesis by (auto simp: in_place_exclusive_def sql_insert_lease_def scope_rows_def)
qed

lemma in_place_insert_placeholder:
  assumes "in_place_exclusive sc w"
  shows "in_place_exclusive sc (sql_insert_placeholder sc' rid w)"
proof (cases "scope_rows sc' w = []")
  case True
  let ?new = "placeholder_row sc' rid"
  have new: "row_scope ?new = sc'" "status ?new = Unpublished" by (simp_all add: placeholder_row_def)
  have "scope_rows sc (sql_insert_placeholder sc' rid w) =
      (if sc = sc' then [?new] else scope_rows sc w)"
    using True new by (auto simp: sql_insert_placeholder_def scope_rows_def)
  moreover have "scope_leases sc (sql_insert_placeholder sc' rid w) = scope_leases sc w"
    by (simp add: sql_insert_placeholder_def scope_leases_def)
  ultimately show ?thesis
    using assms new by (simp add: in_place_exclusive_def)
qed (simp add: assms sql_insert_placeholder_def)

lemma exec_keeps_in_place:
  assumes "ordinary_stmt s" "in_place_exclusive sc w"
  shows "in_place_exclusive sc (fst (exec_stmt uuid s w))"
proof (cases s)
  case (Claim c)
  then show ?thesis
    by (simp add: sql_claim_def)
       (rule in_place_update_where [OF assms(2)],
        auto simp: claimed_row_def claim_admitted_def scope_rows_def split: if_splits)
next
  case (Finish p f)
  with assms(1) show ?thesis
    by (simp add: sql_finish_def)
       (rule in_place_update_where [OF assms(2)], auto simp: finished_row_def)
next
  case (DeleteLease i)
  with assms(2) show ?thesis
    by (auto simp: sql_delete_lease_def in_place_exclusive_def scope_rows_def scope_leases_def
        filter_empty_conv)
qed (use assms in \<open>auto simp: sql_request_drain_def sql_heartbeat_def sql_progress_def
    sql_record_mirror_def sql_collapse_placeholders_def in_place_insert_lease
    in_place_insert_placeholder in_place_filter intro: in_place_update_where\<close>)

interpretation in_place_inv: table_invariant uuid ordinary_stmt "\<lambda>_. True" "in_place_exclusive sc"
  for uuid sc
  by unfold_locales (simp_all add: exec_keeps_in_place)

section \<open>Fences only move up\<close>

text \<open>The scope has exactly one row and its fence lies above \<open>t\<close>.\<close>

definition fenced_beyond :: "state_scope \<Rightarrow> int \<Rightarrow> world \<Rightarrow> bool" where
  "fenced_beyond sc t w \<longleftrightarrow> ledger_wf w \<and> (\<exists>r. scope_rows sc w = [r] \<and> t < fencing_token r)"

lemma fenced_update_where:
  assumes "fenced_beyond sc t w" "ledger_wf (update_where p f w)"
    and "\<And>r. p r \<Longrightarrow> row_scope (f r) = row_scope r"
    and "\<And>r. p r \<Longrightarrow> fencing_token r \<le> fencing_token (f r)"
  shows "fenced_beyond sc t (update_where p f w)"
proof -
  from assms(1) obtain r where r: "scope_rows sc w = [r]" "t < fencing_token r"
    by (auto simp: fenced_beyond_def)
  then have "scope_rows sc (update_where p f w) = [if p r then f r else r]"
    by (simp add: scope_rows_update_where assms(3))
  moreover have "t < fencing_token (if p r then f r else r)"
    using r assms(4) [of r] by auto
  ultimately show ?thesis using assms(2) by (simp add: fenced_beyond_def)
qed

lemma fenced_simps [simp]:
  "fenced_beyond sc t (w\<lparr>drawn := n\<rparr>) = fenced_beyond sc t w"
  "fenced_beyond sc t (w\<lparr>clock := c\<rparr>) = fenced_beyond sc t w"
  "fenced_beyond sc t (w\<lparr>leases := ls\<rparr>) = fenced_beyond sc t w"
  by (simp_all add: fenced_beyond_def scope_rows_def)

lemma fenced_insert_placeholder:
  assumes "fenced_beyond sc t w"
  shows "fenced_beyond sc t (sql_insert_placeholder sc' rid w)"
proof (cases "sc' = sc")
  case True
  with assms show ?thesis by (auto simp: fenced_beyond_def sql_insert_placeholder_def)
next
  case False
  then have "scope_rows sc (sql_insert_placeholder sc' rid w) = scope_rows sc w"
    by (simp add: sql_insert_placeholder_def scope_rows_def placeholder_row_def)
  moreover have "ledger_wf (sql_insert_placeholder sc' rid w)"
    using assms by (simp add: fenced_beyond_def sql_insert_placeholder_def)
  ultimately show ?thesis using assms by (simp add: fenced_beyond_def)
qed

lemma fenced_collapse:
  assumes "fenced_beyond sc t w" "0 \<le> t"
  shows "fenced_beyond sc t (sql_collapse_placeholders sc' w)"
proof -
  from assms(1) obtain r where r: "scope_rows sc w = [r]" "t < fencing_token r" and wf: "ledger_wf w"
    by (auto simp: fenced_beyond_def)
  with scope_rows_wf [OF wf, of sc] assms(2) have "\<not> unclaimed_placeholder r"
    by (auto simp: unclaimed_placeholder_def row_wf_def)
  moreover have "scope_rows sc (sql_collapse_placeholders sc' w) =
      filter (\<lambda>x. \<not> (row_scope x = sc' \<and> unclaimed_placeholder x
        \<and> row_id x \<noteq> Min (set (map row_id (scope_rows sc' w))))) (scope_rows sc w)"
    by (simp add: sql_collapse_placeholders_def scope_rows_def filter_filter conj_commute)
  ultimately have "scope_rows sc (sql_collapse_placeholders sc' w) = [r]" using r by simp
  with r wf show ?thesis
    by (simp add: fenced_beyond_def sql_collapse_placeholders_def ledger_wf_filter)
qed

lemma exec_keeps_fence:
  assumes "ordinary_stmt s" "fenced_beyond sc t w" "0 \<le> t"
  shows "fenced_beyond sc t (fst (exec_stmt uuid s w))"
proof -
  have wf: "ledger_wf (fst (exec_stmt uuid s w))"
    using assms by (intro exec_keeps_wf) (auto simp: fenced_beyond_def ordinary_stmt_wf)
  show ?thesis
  proof (cases s)
    case (Claim c)
    with wf show ?thesis
      by (auto simp: sql_claim_def claimed_row_def intro!: fenced_update_where [OF assms(2)])
  next
    case (Finish p f)
    with wf show ?thesis
      by (auto simp: sql_finish_def finished_row_def intro!: fenced_update_where [OF assms(2)])
  qed (use assms wf in \<open>auto simp: sql_request_drain_def sql_heartbeat_def sql_progress_def
      sql_record_mirror_def sql_insert_lease_def sql_delete_lease_def fenced_insert_placeholder
      fenced_collapse intro!: fenced_update_where [OF assms(2)]\<close>)
qed

text \<open>\<open>max 0 t\<close>: fences are never negative, so a bound below zero says nothing more.\<close>

interpretation fence_inv: table_invariant uuid ordinary_stmt "\<lambda>_. True" "fenced_beyond sc (max 0 t)"
  for uuid sc t
  by unfold_locales (simp_all add: exec_keeps_fence)

end
