(* ===== verification/Serving_Runs.thy ===== *)
theory Serving_Runs
  imports Serving_Inv
begin

text \<open>
  What each coordinator method does when it runs alone, on every branch, and the properties of
  the coordinator.
\<close>

section \<open>Running the reads\<close>

lemma run_simps [simp]:
  "run uuid (bindp m f) w =
     (case run uuid m w of (Inl e, w') \<Rightarrow> (Inl e, w') | (Inr x, w') \<Rightarrow> run uuid (f x) w')"
  "run uuid (catchp m h) w =
     (case run uuid m w of (Inl e, w') \<Rightarrow> run uuid (h e) w' | (Inr x, w') \<Rightarrow> (Inr x, w'))"
  by (rule run_bindp, rule run_catchp)

lemma run_read_row [simp]:
  "scope_rows sc w = [] \<Longrightarrow> run uuid (read_row sc) w = (Inr None, w)"
  "scope_rows sc w = [r] \<Longrightarrow> run uuid (read_row sc) w = (Inr (Some r), w)"
  by (simp_all add: read_row_def one_row_def)

lemma run_read_row_and_lease [simp]:
  "scope_rows (q_scope q) w = [r] \<Longrightarrow>
     run uuid (read_row_and_lease q) w = (Inr (Some r, held_count q w \<noteq> 0), w)"
  by (simp add: read_row_and_lease_def one_row_def)

lemma update_where_unchanged: "(\<And>r. r \<in> set (ledger w) \<Longrightarrow> \<not> p r) \<Longrightarrow> update_where p f w = w"
  by (simp add: update_where_def map_idI)

section \<open>Fenced-out publishers\<close>

definition stale_for :: "publish_lease \<Rightarrow> ledger_row \<Rightarrow> bool" where
  "stale_for p r \<longleftrightarrow> publication_id r \<noteq> Some (p_publication_id p) \<or> fencing_token r \<noteq> p_token p"

lemma stale_no_claim:
  assumes "scope_rows (p_scope p) w = [r]" "stale_for p r" "x \<in> set (ledger w)"
  shows "\<not> holds_claim p x"
proof
  assume h: "holds_claim p x"
  with assms(3) have "x \<in> set (scope_rows (p_scope p) w)"
    by (simp add: scope_rows_def holds_claim_def)
  with assms(1,2) h show False by (simp add: holds_claim_def stale_for_def)
qed

lemma stale_writes:
  assumes "scope_rows (p_scope p) w = [r]" "stale_for p r"
  shows "sql_heartbeat p now w = w" "sql_finish p f w = w" "sql_progress p note w = w"
  using stale_no_claim [OF assms]
  by (simp_all add: sql_heartbeat_def sql_finish_def sql_progress_def update_where_unchanged)

lemma stale_runs:
  assumes "scope_rows (p_scope p) w = [r]" "stale_for p r"
  shows "run uuid (verify_publish p) w = (Inl (StaleServingLeaseError AuthorityReassigned), w)"
    and "run uuid (heartbeat p) w = (Inl (StaleServingLeaseError AuthorityReassigned), w)"
    and "run uuid (record_progress p note) w = (Inr (), w)"
    and "g \<noteq> [] \<Longrightarrow> run uuid (mark_ready p g fp cs coll) w =
          (Inl (StaleServingLeaseError ReassignedBeforeActivation), w)"
  using assms stale_writes [OF assms]
  by (auto simp: verify_publish_def heartbeat_def record_progress_def mark_ready_def stale_for_def)

lemma stale_mark_failed:
  assumes "scope_rows (p_scope p) w = [r]" "fencing_token r \<noteq> p_token p"
  shows "\<exists>e. run uuid (mark_failed p code cs coll g fp) w = (Inl e, w)"
proof -
  from assms(2) have "stale_for p r" by (simp add: stale_for_def)
  with assms stale_writes [OF assms(1)] show ?thesis
    by (simp add: mark_failed_def validate_safe_error_code_def finish_def Let_def)
qed

section \<open>Frames of the statements\<close>

lemma update_where_frame [simp]:
  "clock (update_where p f w) = clock w" "drawn (update_where p f w) = drawn w"
  "leases (update_where p f w) = leases w"
  by (simp_all add: update_where_def)

lemma scope_frame [simp]:
  "scope_rows sc (w\<lparr>drawn := n\<rparr>) = scope_rows sc w"
  "scope_rows sc (w\<lparr>leases := ls\<rparr>) = scope_rows sc w"
  "scope_leases sc (w\<lparr>drawn := n\<rparr>) = scope_leases sc w"
  "scope_leases sc (w\<lparr>ledger := rs\<rparr>) = scope_leases sc w"
  by (simp_all add: scope_rows_def scope_leases_def)

lemma row_scope_written [simp]:
  "row_scope (claimed_row c t r) = row_scope r" "row_scope (finished_row f t r) = row_scope r"
  "row_scope (placeholder_row sc rid) = sc" "row_scope (recovered_row sc rid n rp t) = sc"
  by (simp_all add: claimed_row_def finished_row_def placeholder_row_def recovered_row_def)

lemma scope_rows_scope: "r \<in> set (scope_rows sc w) \<Longrightarrow> row_scope r = sc \<and> r \<in> set (ledger w)"
  by (simp add: scope_rows_def)

lemma scope_rows_one: "scope_rows sc w = [r] \<Longrightarrow> row_scope r = sc \<and> r \<in> set (ledger w)"
  using scope_rows_scope [of r sc w] by simp

lemma scope_rows_claim:
  assumes "scope_rows sc w = [r]" "claim_admitted c w r"
  shows "scope_rows sc (sql_claim c w) = [claimed_row c (clock w) r]"
  using assms by (simp add: sql_claim_def scope_rows_update_where)

lemma scope_rows_finish:
  assumes "scope_rows sc w = [r]" "holds_claim p r"
  shows "scope_rows sc (sql_finish p f w) = [finished_row f (clock w) r]"
  using assms by (simp add: sql_finish_def scope_rows_update_where)

section \<open>Making a scope's row\<close>

definition scope_row_or_new :: "state_scope \<Rightarrow> string \<Rightarrow> world \<Rightarrow> ledger_row" where
  "scope_row_or_new sc rid w = (case scope_rows sc w of [] \<Rightarrow> placeholder_row sc rid | r # _ \<Rightarrow> r)"

lemma scope_rows_filter:
  "scope_rows sc (w\<lparr>ledger := filter p (ledger w)\<rparr>) = filter p (scope_rows sc w)"
  by (simp add: scope_rows_def filter_filter conj_commute)

lemma run_ensure_row:
  assumes "length (scope_rows sc w) \<le> 1"
  shows "\<exists>w'. run uuid (ensure_row sc) w = (Inr (), w')
     \<and> scope_rows sc w' = [scope_row_or_new sc (uuid (drawn w)) w]
     \<and> leases w' = leases w \<and> clock w' = clock w \<and> drawn w' = Suc (drawn w)"
proof -
  define w1 where "w1 = w\<lparr>drawn := Suc (drawn w)\<rparr>"
  define r where "r = scope_row_or_new sc (uuid (drawn w)) w"
  define w2 where "w2 = sql_insert_placeholder sc (uuid (drawn w)) w1"
  define w3 where "w3 = sql_collapse_placeholders sc w2"
  have r2: "scope_rows sc w2 = [r]"
  proof (cases "scope_rows sc w")
    case Nil
    then show ?thesis
      by (simp add: w2_def w1_def r_def sql_insert_placeholder_def scope_row_or_new_def)
         (simp add: scope_rows_def)
  next
    case (Cons x xs)
    with assms show ?thesis
      by (simp add: w2_def w1_def r_def sql_insert_placeholder_def scope_row_or_new_def)
  qed
  then have "scope_rows sc w3 = [r]"
    by (simp add: w3_def sql_collapse_placeholders_def scope_rows_filter)
  moreover have "leases w3 = leases w" "clock w3 = clock w" "drawn w3 = Suc (drawn w)"
    by (simp_all add: w3_def w2_def w1_def sql_collapse_placeholders_def sql_insert_placeholder_def)
  moreover have "run uuid (ensure_row sc) w = (Inr (), w3)"
    by (simp add: ensure_row_def w3_def w2_def w1_def)
  ultimately show ?thesis by (auto simp: r_def)
qed

section \<open>Claiming\<close>

definition excludes_of :: "publish_request \<Rightarrow> bool" where
  "excludes_of a = (case a_excludes a of None \<Rightarrow> \<not> a_preserves a | Some b \<Rightarrow> b)"

definition request_of :: "state_scope \<Rightarrow> publish_request \<Rightarrow> string \<Rightarrow> int \<Rightarrow> claim_request" where
  "request_of sc a pid now = \<lparr>c_scope = sc, c_publication_id = pid,
     c_code_version = a_code_version a, c_fingerprint = a_fingerprint a,
     c_preserves = a_preserves a, c_excludes = excludes_of a,
     c_expected_token = a_expected_token a, c_publisher = a_publisher a, c_now = now\<rparr>"

lemma request_of_simps [simp]:
  "c_scope (request_of sc a pid now) = sc" "c_publication_id (request_of sc a pid now) = pid"
  "c_fingerprint (request_of sc a pid now) = a_fingerprint a"
  "c_preserves (request_of sc a pid now) = a_preserves a"
  "c_excludes (request_of sc a pid now) = excludes_of a"
  "c_expected_token (request_of sc a pid now) = a_expected_token a"
  by (simp_all add: request_of_def)

text \<open>The claim succeeds when nobody publishes, the expected fence holds and no excluded reader is in.\<close>

lemma run_acquire_publish:
  assumes one: "length (scope_rows sc w) \<le> 1"
    and r: "r = scope_row_or_new sc (uuid (drawn w)) w" and free: "publication_id r = None"
    and expected: "case a_expected_token a of None \<Rightarrow> True | Some t \<Rightarrow> fencing_token r = t"
    and readers: "excludes_of a \<Longrightarrow> scope_leases sc w = []"
    and pid: "pid = uuid (Suc (drawn w))"
  shows "\<exists>w'. run uuid (acquire_publish sc a) w = (Inr \<lparr>p_scope = sc, p_publication_id = pid,
        p_token = fencing_token r + 1, p_fingerprint = a_fingerprint a\<rparr>, w')
     \<and> scope_rows sc w' = [claimed_row (request_of sc a pid (clock w)) (clock w) r]
     \<and> leases w' = leases w \<and> clock w' = clock w \<and> drawn w' = Suc (Suc (drawn w))"
proof -
  obtain w1 where w1: "run uuid (ensure_row sc) w = (Inr (), w1)"
    "scope_rows sc w1 = [r]" "leases w1 = leases w" "clock w1 = clock w" "drawn w1 = Suc (drawn w)"
    using run_ensure_row [OF one] r by blast
  let ?w2 = "w1\<lparr>drawn := Suc (drawn w1)\<rparr>"
  let ?c = "request_of sc a pid (clock w)"
  have adm: "claim_admitted ?c ?w2 r"
    using w1 free expected readers scope_rows_one [OF w1(2)]
    by (auto simp: claim_admitted_def scope_leases_def)
  have rows: "scope_rows sc (sql_claim ?c ?w2) = [claimed_row ?c (clock w) r]"
    using scope_rows_claim [of sc ?w2 r ?c] adm w1 by simp
  have "run uuid (acquire_publish sc a) w =
      (Inr \<lparr>p_scope = sc, p_publication_id = pid, p_token = fencing_token r + 1,
        p_fingerprint = a_fingerprint a\<rparr>, sql_claim ?c ?w2)"
    using w1 rows pid
    by (simp add: acquire_publish_def Let_def excludes_of_def [symmetric] request_of_def [symmetric])
       (simp add: claimed_row_def)
  with rows w1 show ?thesis by (auto simp: sql_claim_def)
qed

section \<open>Finishing\<close>

lemma run_finish:
  assumes "scope_rows (p_scope p) w = [r]" "holds_claim p r"
  shows "run uuid (finish p f) w = (Inr (), sql_finish p f w)"
proof -
  have rows: "scope_rows (p_scope p) (sql_finish p f w) = [finished_row f (clock w) r]"
    by (rule scope_rows_finish [OF assms])
  show ?thesis
    using assms(2) by (simp add: finish_def rows) (simp add: finished_row_def holds_claim_def)
qed

definition ready_finish :: "string \<Rightarrow> string \<Rightarrow> row_counts \<Rightarrow> string option \<Rightarrow> int \<Rightarrow> finish_request" where
  "ready_finish g fp cs coll now = \<lparr>f_status = Ready, f_generation = Some g, f_collection = coll,
     f_error = None, f_counts = cs, f_activation = StampActivation (Some now), f_fingerprint = Some fp\<rparr>"

lemma run_mark_ready:
  assumes "scope_rows (p_scope p) w = [r]" "holds_claim p r" "g \<noteq> []"
  shows "run uuid (mark_ready p g (p_fingerprint p) cs coll) w =
     (Inr (), sql_finish p (ready_finish g (p_fingerprint p) cs coll (clock w)) w)"
  using assms
  by (simp add: mark_ready_def holds_claim_def ready_finish_def [symmetric] run_finish)

definition failed_finish ::
  "string \<Rightarrow> row_counts \<Rightarrow> string option \<Rightarrow> string option \<Rightarrow> string option \<Rightarrow> finish_request" where
  "failed_finish code cs coll g fp =
     (let retained = (case g of None \<Rightarrow> False | Some g \<Rightarrow> g \<noteq> []) in
      \<lparr>f_status = (if retained then Degraded else Failed),
       f_generation = (if retained then g else None), f_collection = coll, f_error = Some code,
       f_counts = cs, f_activation = (if retained then KeepActivation else StampActivation None),
       f_fingerprint = (if retained then fp else None)\<rparr>)"

lemma run_mark_failed:
  assumes "scope_rows (p_scope p) w = [r]" "holds_claim p r" "safe_error_code_ok code"
    and "g = None \<or> g = Some [] \<or> fp \<noteq> None"
  shows "run uuid (mark_failed p code cs coll g fp) w = (Inr (), sql_finish p (failed_finish code cs coll g fp) w)"
  using assms
  by (auto simp: mark_failed_def validate_safe_error_code_def failed_finish_def Let_def
      run_finish split: option.splits)

section \<open>Admitting a query\<close>

definition drained :: "ledger_row \<Rightarrow> world \<Rightarrow> bool" where
  "drained r w = (case query_drain_until_epoch r of None \<Rightarrow> False | Some e \<Rightarrow> clock w < e)"

lemma run_check_query_drain:
  "run uuid (check_query_drain r) w =
     (if drained r w then (Inl (ServingBusyError ReadersDraining), w) else (Inr (), w))"
  by (simp add: check_query_drain_def drained_def split: option.splits)

definition lease_of :: "ledger_row \<Rightarrow> string \<Rightarrow> string \<Rightarrow> query_lease" where
  "lease_of r lid g = \<lparr>q_scope = row_scope r, q_lease_id = lid, q_token = fencing_token r,
     q_generation = g, q_collection = active_collection r,
     q_fingerprint = (case config_fingerprint r of None \<Rightarrow> [] | Some fp \<Rightarrow> fp),
     q_status = status r, q_error = degraded_code r\<rparr>"

definition lease_row_of :: "ledger_row \<Rightarrow> string \<Rightarrow> string \<Rightarrow> int \<Rightarrow> lease_row" where
  "lease_row_of r lid g t = \<lparr>lease_scope = row_scope r, lease_id = lid, lease_token = fencing_token r,
     lease_generation = g, lease_fingerprint = (case config_fingerprint r of None \<Rightarrow> [] | Some fp \<Rightarrow> fp),
     lease_acquired_at = t\<rparr>"

lemma lease_of_simps [simp]:
  "q_scope (lease_of r lid g) = row_scope r" "q_lease_id (lease_of r lid g) = lid"
  "q_token (lease_of r lid g) = fencing_token r" "q_generation (lease_of r lid g) = g"
  "q_collection (lease_of r lid g) = active_collection r" "q_status (lease_of r lid g) = status r"
  "q_fingerprint (lease_of r lid g) = (case config_fingerprint r of None \<Rightarrow> [] | Some fp \<Rightarrow> fp)"
  by (simp_all add: lease_of_def)

definition with_lease :: "ledger_row \<Rightarrow> string \<Rightarrow> string \<Rightarrow> world \<Rightarrow> world" where
  "with_lease r lid g w = w\<lparr>drawn := Suc (drawn w), leases := leases w @ [lease_row_of r lid g (clock w)]\<rparr>"

lemma run_admit_query:
  assumes "scope_rows sc w = [r]" "active_generation r = Some g" "status r \<in> set servable_statuses"
    and "\<not> drained r w" and lid: "lid = uuid (drawn w)"
  shows "run uuid (admit_query sc r g) w = (Inr (lease_of r lid g), with_lease r lid g w)"
proof -
  let ?l = "lease_row_of r lid g 0" and ?w1 = "w\<lparr>drawn := Suc (drawn w)\<rparr>"
  have sc: "row_scope r = sc" and mem: "r \<in> set (ledger w)" using scope_rows_one [OF assms(1)] by auto
  have l_eq: "\<lparr>lease_scope = sc, lease_id = lid, lease_token = fencing_token r, lease_generation = g,
      lease_fingerprint = (case config_fingerprint r of None \<Rightarrow> [] | Some fp \<Rightarrow> fp),
      lease_acquired_at = 0\<rparr> = ?l"
    by (simp add: lease_row_of_def sc)
  have "lease_admitted ?l (clock w) r"
    using assms sc by (auto simp: lease_admitted_def lease_row_of_def drained_def split: option.splits)
  then have ins: "sql_insert_lease ?l (clock w) ?w1 = with_lease r lid g w"
    using mem by (auto simp: sql_insert_lease_def list_ex_iff with_lease_def lease_row_of_def)
  have rows: "scope_rows sc (with_lease r lid g w) = [r]"
    using assms(1) by (simp add: with_lease_def)
  have held: "held_count (lease_of r lid g) (with_lease r lid g w) \<noteq> 0"
    by (simp add: held_count_def with_lease_def lease_row_of_def)
  have sel: "length (filter (\<lambda>l. lease_id l = lid) (leases (with_lease r lid g w))) \<noteq> 0"
    by (simp add: with_lease_def lease_row_of_def)
  have q_eq: "\<lparr>q_scope = sc, q_lease_id = lid, q_token = fencing_token r, q_generation = g,
      q_collection = active_collection r,
      q_fingerprint = (case config_fingerprint r of None \<Rightarrow> [] | Some fp \<Rightarrow> fp),
      q_status = status r, q_error = degraded_code r\<rparr> = lease_of r lid g"
    by (simp add: lease_of_def sc)
  have valid: "run uuid (validate_query (lease_of r lid g) True) (with_lease r lid g w) =
      (Inr (), with_lease r lid g w)"
    using rows held assms sc
    by (simp add: validate_query_def validate_query_row_def query_row_valid_def)
  show ?thesis
    using assms(2) lid sel
    by (simp add: admit_query_def Let_def lid [symmetric] l_eq ins rows q_eq valid del: length_greater_0_conv)
qed

text \<open>The outcome of \<open>acquire_query\<close> on a scope with one well-formed row, branch by branch.\<close>

definition query_outcome :: "ledger_row \<Rightarrow> string \<Rightarrow> world \<Rightarrow> (serving_error + query_lease) \<times> world" where
  "query_outcome r lid w =
     (case status r of
        Unpublished \<Rightarrow> (Inl (ServingNotReadyError NotPublished), w)
      | PublishingInPlace \<Rightarrow> (Inl (ServingBusyError PublisherReconciling), w)
      | Failed \<Rightarrow> (Inl (ServingNotReadyError NoReadyPublication), w)
      | _ \<Rightarrow> (case active_generation r of
               None \<Rightarrow> (Inl (ServingBusyError PublisherReconciling), w)
             | Some g \<Rightarrow> if drained r w then (Inl (ServingBusyError ReadersDraining), w)
                 else (Inr (lease_of r lid g), with_lease r lid g w)))"

lemma run_acquire_query:
  assumes "scope_rows sc w = [r]" "row_wf r"
  shows "run uuid (acquire_query sc legacy) w = query_outcome r (uuid (drawn w)) w"
proof (cases "active_generation r")
  case None
  with assms show ?thesis
    by (cases "status r")
       (auto simp: acquire_query_def query_outcome_def row_wf_def split: option.splits)
next
  case (Some g)
  note adm = run_admit_query [OF assms(1) Some]
  show ?thesis
    using assms Some adm
    by (cases "status r")
       (auto simp: acquire_query_def query_outcome_def row_wf_def servable_statuses_def
          run_check_query_drain split: option.splits)
qed

section \<open>Recovery\<close>

definition recovered_world :: "(nat \<Rightarrow> string) \<Rightarrow> state_scope \<Rightarrow> world \<Rightarrow> world" where
  "recovered_world uuid sc w =
     (let pointer = (case top_fence (scope_rows sc w) of None \<Rightarrow> [] | Some r \<Rightarrow> [r]);
          legacy = (if servable_pointer pointer then None
            else Option.bind (top_fence (filter (\<lambda>r. active_collection r \<noteq> None) (scope_rows sc w)))
              active_collection)
      in w\<lparr>ledger := filter (\<lambda>r. row_scope r \<noteq> sc) (ledger w) @
              [recovered_row sc (uuid (drawn w)) (max_fence sc w + 1) (recovered_pointers pointer legacy) (clock w)],
           leases := filter (\<lambda>l. lease_scope l \<noteq> sc) (leases w), drawn := Suc (drawn w)\<rparr>)"

lemma max_fence_leases [simp]: "max_fence sc (sql_delete_leases sc' w) = max_fence sc w"
  by (simp add: max_fence_def scope_rows_def sql_delete_leases_def)

lemma recovered_world_scope:
  "\<exists>row. scope_rows sc (recovered_world uuid sc w) = [row]
     \<and> row = recovered_row sc (uuid (drawn w)) (max_fence sc w + 1)
         (recovered_pointers (case top_fence (scope_rows sc w) of None \<Rightarrow> [] | Some r \<Rightarrow> [r])
           (if servable_pointer (case top_fence (scope_rows sc w) of None \<Rightarrow> [] | Some r \<Rightarrow> [r]) then None
            else Option.bind (top_fence (filter (\<lambda>r. active_collection r \<noteq> None) (scope_rows sc w)))
              active_collection)) (clock w)
     \<and> scope_leases sc (recovered_world uuid sc w) = []"
  by (simp add: recovered_world_def Let_def scope_rows_def scope_leases_def filter_empty_conv)

lemma run_recover_world:
  "snd (run uuid (recover live sc True) w) = recovered_world uuid sc w"
  "fst (run uuid (recover live sc True) w) =
     Inr (entry_of_row (hd (scope_rows sc (recovered_world uuid sc w))) 0)"
proof -
  let ?p = "case top_fence (scope_rows sc w) of None \<Rightarrow> [] | Some r \<Rightarrow> [r]"
  let ?legacy = "if servable_pointer ?p then None
      else Option.bind (top_fence (filter (\<lambda>r. active_collection r \<noteq> None) (scope_rows sc w))) active_collection"
  have w': "sql_insert_recovered sc (uuid (drawn w)) (max_fence sc w + 1) (recovered_pointers ?p ?legacy)
      ((sql_delete_ledger sc (sql_delete_leases sc w))\<lparr>drawn := Suc (drawn w)\<rparr>) = recovered_world uuid sc w"
    by (simp add: recovered_world_def Let_def sql_insert_recovered_def sql_delete_ledger_def
        sql_delete_leases_def)
  have drawn: "drawn (sql_delete_ledger sc (sql_delete_leases sc w)) = drawn w"
    by (simp add: sql_delete_ledger_def sql_delete_leases_def)
  obtain row where row: "scope_rows sc (recovered_world uuid sc w) = [row]"
    and none: "scope_leases sc (recovered_world uuid sc w) = []"
    using recovered_world_scope by metis
  have status: "run uuid (serving_status_of sc) (recovered_world uuid sc w) =
      (Inr (entry_of_row row 0), recovered_world uuid sc w)"
    by (simp add: serving_status_of_def row lease_count_def none)
  have legacy: "run uuid (if servable_pointer ?p then Return None else collection_of (SelectCollection sc)) w
      = (Inr ?legacy, w)"
    by simp
  have "run uuid (recover live sc True) w = (Inr (entry_of_row row 0), recovered_world uuid sc w)"
    unfolding recover_def by (simp add: legacy drawn w' status)
  then show "snd (run uuid (recover live sc True) w) = recovered_world uuid sc w"
    "fst (run uuid (recover live sc True) w) =
       Inr (entry_of_row (hd (scope_rows sc (recovered_world uuid sc w))) 0)"
    by (simp_all add: row)
qed

lemma fence_le_max: "r \<in> set (scope_rows sc w) \<Longrightarrow> fencing_token r \<le> max_fence sc w"
  by (auto simp: max_fence_def Let_def)

section \<open>From a run to an interleaving\<close>

text \<open>A session scheduled without interruption behaves as the method run alone.\<close>

lemma run_in_pool:
  "i < length ps \<Longrightarrow> ps ! i = m \<Longrightarrow>
   \<exists>m'. (pool_step uuid)\<^sup>*\<^sup>* (w, ps) (snd (run uuid m w), ps[i := m'])"
proof (induction m arbitrary: w ps)
  case (Return x)
  then have "ps[i := Return x] = ps" by (metis list_update_id)
  then show ?case by (intro exI [of _ "Return x"]) simp
next
  case (Raise e)
  then have "ps[i := Raise e] = ps" by (metis list_update_id)
  then show ?case by (intro exI [of _ "Raise e"]) simp
next
  case (Step s k)
  obtain w' r where e: "exec_stmt uuid s w = (w', r)" by (cases "exec_stmt uuid s w")
  have step: "pool_step uuid (w, ps) (w', ps[i := k r])"
    by (rule pool_step.statement [OF Step.prems(1,2) e])
  from Step.prems(1) have "i < length (ps[i := k r])" "ps[i := k r] ! i = k r" by simp_all
  from Step.IH [OF rangeI this, of w'] obtain m' where
    "(pool_step uuid)\<^sup>*\<^sup>* (w', ps[i := k r]) (snd (run uuid (k r) w'), ps[i := k r, i := m'])" by auto
  with step e show ?case by (auto intro: converse_rtranclp_into_rtranclp)
qed

section \<open>Re-keying a scope\<close>

lemma scope_rows_delete_placeholder:
  "scope_rows sc (sql_delete_placeholder sc' w) =
     (if sc = sc' then filter (\<lambda>r. \<not> unclaimed_placeholder r) (scope_rows sc w) else scope_rows sc w)"
  by (auto simp: sql_delete_placeholder_def scope_rows_def intro!: filter_cong)

lemma scope_rows_rekey:
  assumes "new = old\<lparr>target_identity := ident\<rparr>" "new \<noteq> old"
  shows "scope_rows old (sql_rekey old ident w) = []"
    and "scope_rows new w = [] \<Longrightarrow>
      scope_rows new (sql_rekey old ident w) = map (\<lambda>r. r\<lparr>row_scope := new\<rparr>) (scope_rows old w)"
    and "sc \<noteq> old \<Longrightarrow> sc \<noteq> new \<Longrightarrow> scope_rows sc (sql_rekey old ident w) = scope_rows sc w"
proof -
  define f where "f r = (if row_scope r = old then r\<lparr>row_scope := new\<rparr> else r)" for r :: ledger_row
  have led: "ledger (sql_rekey old ident w) = map f (ledger w)"
    by (simp add: sql_rekey_def update_where_def f_def assms(1))
  show "scope_rows old (sql_rekey old ident w) = []"
    using assms(2) by (auto simp: scope_rows_def led f_def filter_empty_conv)
  have "filter (\<lambda>r. row_scope r = new) (map f rs) =
      map (\<lambda>r. r\<lparr>row_scope := new\<rparr>) (filter (\<lambda>r. row_scope r = old) rs)"
    if "filter (\<lambda>r. row_scope r = new) rs = []" for rs
    using that by (induction rs) (auto simp: f_def split: if_splits)
  then show "scope_rows new (sql_rekey old ident w) = map (\<lambda>r. r\<lparr>row_scope := new\<rparr>) (scope_rows old w)"
    if "scope_rows new w = []"
    using that by (simp add: scope_rows_def led)
  have "filter (\<lambda>r. row_scope r = sc) (map f rs) = filter (\<lambda>r. row_scope r = sc) rs"
    if "sc \<noteq> old" "sc \<noteq> new" for rs
    using that by (induction rs) (auto simp: f_def)
  then show "scope_rows sc (sql_rekey old ident w) = scope_rows sc w" if "sc \<noteq> old" "sc \<noteq> new"
    using that by (simp add: scope_rows_def led)
qed

lemma rekey_leases [simp]:
  "scope_leases sc (sql_rekey old ident w) = scope_leases sc w"
  "scope_leases sc (sql_delete_placeholder sc' w) = scope_leases sc w"
  by (simp_all add: sql_rekey_def update_where_def sql_delete_placeholder_def scope_leases_def)

lemma run_rekey_scope:
  assumes "model_name old = model_name new" "stage old = stage new"
    and "target_identity old \<noteq> target_identity new"
    and "scope_leases old w = []" "scope_leases new w = []" "claimed_count new w = 0"
  shows "run uuid (rekey_scope old new) w =
    (Inr (claimed_count old w),
     if claimed_count old w = 0 then w
     else sql_rekey old (target_identity new) (sql_delete_placeholder new w))"
  using assms by (simp add: rekey_scope_def lease_count_def)

end
