(* ===== verification/Serving_Props.thy ===== *)
theory Serving_Props
  imports Serving_Runs
begin

text \<open>
  The properties of serving coordination. The first group is about every interleaving of the
  statements of any number of concurrent calls, with failing statements, stopped sessions and a
  moving clock; the second about what each method does.
\<close>

section \<open>A small concrete deployment for the witnesses\<close>

definition ex_uuid :: "nat \<Rightarrow> string" where
  "ex_uuid n = replicate n CHR ''a'' @ ''x''"

definition ex_scope :: state_scope where
  "ex_scope = \<lparr>model_name = ''docs'', stage = ''search'', target_identity = ''lance''\<rparr>"

definition ex_identity :: publisher_identity where
  "ex_identity = \<lparr>pub_host = ''h'', pub_pid = 7, pub_started_epoch = Some 100, pub_label = None,
     pub_namespace = Some ''ns''\<rparr>"

definition ex_request :: "bool \<Rightarrow> publish_request" where
  "ex_request preserves = \<lparr>a_code_version = ''v1'', a_fingerprint = ''fp'', a_preserves = preserves,
     a_excludes = None, a_expected_token = None, a_publisher = ex_identity\<rparr>"

definition ex_start :: world where
  "ex_start = \<lparr>ledger = [], leases = [], clock = 1000, drawn = 0\<rparr>"

definition ex_claimed :: world where
  "ex_claimed = snd (run ex_uuid (acquire_publish ex_scope (ex_request False)) ex_start)"

definition ex_lease :: publish_lease where
  "ex_lease = \<lparr>p_scope = ex_scope, p_publication_id = ex_uuid 1, p_token = 1, p_fingerprint = ''fp''\<rparr>"

definition ex_recovered :: world where
  "ex_recovered = snd (run ex_uuid (recover (\<lambda>_. UnknownLiveness) ex_scope True) ex_claimed)"

definition ex_ready :: world where
  "ex_ready = snd (run ex_uuid (mark_ready ex_lease ''g1'' ''fp'' (1, 0, 0, 0) None) ex_claimed)"

lemma ex_pool:
  "\<exists>ps. (pool_step ex_uuid)\<^sup>*\<^sup>* (w, map call_prog [c]) (snd (run ex_uuid (call_prog c) w), ps)"
  using run_in_pool [of 0 "map call_prog [c]" "call_prog c"] by auto

section \<open>Every interleaving\<close>

text \<open>
  C20: under every interleaving of any coordinator calls, administrative ones included, the
  ledger rows stay well-formed: a row carries a publication id exactly while it is publishing,
  a ready or degraded row names a non-empty generation together with the configuration
  fingerprint it was published under, a failed or unpublished row names none, a failed or
  degraded row records its error code, fences are never negative, and no publisher identity
  outlives its claim.
\<close>

theorem ledger_rows_stay_well_formed:
  assumes "ledger_wf w" "(pool_step uuid)\<^sup>*\<^sup>* (w, map call_prog cs) (w', ps)"
  shows "ledger_wf w'"
proof -
  have "list_all (only_stmts wf_stmt wf_reply) (map call_prog cs)"
    by (simp add: list_all_iff call_issues)
  with wf_inv.pool_keeps [OF assms(2,1)] show ?thesis by simp
qed

theorem ledger_rows_stay_well_formed_witness:
  "ledger_wf ex_start \<and> ledger ex_claimed \<noteq> [] \<and> ledger_wf ex_claimed"
proof -
  have wf: "ledger_wf ex_start" by (simp add: ledger_wf_def ex_start_def)
  have run: "snd (run ex_uuid (call_prog (AcquirePublish ex_scope (ex_request False))) ex_start) = ex_claimed"
    by code_simp
  obtain ps where "(pool_step ex_uuid)\<^sup>*\<^sup>*
      (ex_start, map call_prog [AcquirePublish ex_scope (ex_request False)]) (ex_claimed, ps)"
    using ex_pool [of ex_start "AcquirePublish ex_scope (ex_request False)"] run by auto
  with wf have "ledger_wf ex_claimed" by (rule ledger_rows_stay_well_formed)
  moreover have "ledger ex_claimed \<noteq> []" by code_simp
  ultimately show ?thesis using wf by blast
qed





text \<open>
  C3: a publisher whose fence was passed (by recovery or by a newer claim) is harmless for
  ever: after any interleaving of ordinary calls its verification, heartbeat, activation and
  failure report all raise, its progress note is dropped, and none of them changes the tables.
\<close>

theorem fenced_out_publisher_is_harmless:
  assumes "fenced_beyond (p_scope p) (p_token p) w" "0 \<le> p_token p" "list_all ordinary cs"
    and "(pool_step uuid)\<^sup>*\<^sup>* (w, map call_prog cs) (w', ps)" and "g \<noteq> []"
  shows "run uuid (verify_publish p) w' = (Inl (StaleServingLeaseError AuthorityReassigned), w')
     \<and> run uuid (heartbeat p) w' = (Inl (StaleServingLeaseError AuthorityReassigned), w')
     \<and> run uuid (mark_ready p g fp n4 coll) w' =
         (Inl (StaleServingLeaseError ReassignedBeforeActivation), w')
     \<and> (\<exists>e. run uuid (mark_failed p code n4 coll gen fp') w' = (Inl e, w'))
     \<and> run uuid (record_progress p note) w' = (Inr (), w')"
proof -
  have "list_all (only_stmts ordinary_stmt (\<lambda>_. True)) (map call_prog cs)"
    using assms(3) by (simp add: list_all_iff ordinary_issues)
  moreover have "fenced_beyond (p_scope p) (max 0 (p_token p)) w" using assms(1,2) by simp
  ultimately have "fenced_beyond (p_scope p) (max 0 (p_token p)) w'"
    using fence_inv.pool_keeps [OF assms(4)] by blast
  then obtain r where r: "scope_rows (p_scope p) w' = [r]" and moved: "fencing_token r \<noteq> p_token p"
    using assms(2) by (auto simp: fenced_beyond_def)
  then have stale: "stale_for p r" by (simp add: stale_for_def)
  show ?thesis
    by (intro conjI stale_runs [OF r stale] stale_mark_failed [OF r moved] assms(5))
qed

theorem fenced_out_publisher_is_harmless_witness:
  "run ex_uuid (mark_ready ex_lease ''g1'' ''fp'' (1, 0, 0, 0) None) ex_recovered =
     (Inl (StaleServingLeaseError ReassignedBeforeActivation), ex_recovered)"
proof -
  have "list_all row_wf (ledger ex_recovered)" by code_simp
  moreover have "scope_rows ex_scope ex_recovered = [hd (ledger ex_recovered)]"
    "p_token ex_lease < fencing_token (hd (ledger ex_recovered))" "p_scope ex_lease = ex_scope"
    "0 \<le> p_token ex_lease" by code_simp+
  ultimately have h: "fenced_beyond (p_scope ex_lease) (p_token ex_lease) ex_recovered"
    "0 \<le> p_token ex_lease" by (simp_all add: fenced_beyond_def ledger_wf_def)
  show ?thesis
    using fenced_out_publisher_is_harmless [OF h, of "[]" ex_uuid ex_recovered "map call_prog []" "''g1''"]
    by simp
qed

section \<open>Each method\<close>

text \<open>
  administrative recovery rebuilds a scope, from whatever rows and leases it had. The
  scope ends with exactly one row, held by nobody, whose fence is above every earlier fence of
  the scope, and with no query lease; a generation survives exactly when the row with the
  highest fence named one together with its fingerprint, and then generation, collection,
  fingerprint and activation time come from that row and the scope is degraded; no other scope
  is touched.
\<close>

theorem recover_rebuilds_scope:
  "\<exists>row w'. run uuid (recover live sc True) w = (Inr (entry_of_row row 0), w')
     \<and> scope_rows sc w' = [row] \<and> scope_leases sc w' = [] \<and> publication_id row = None
     \<and> (\<forall>r \<in> set (scope_rows sc w). fencing_token r < fencing_token row)
     \<and> (\<forall>sc'. sc' \<noteq> sc \<longrightarrow>
          scope_rows sc' w' = scope_rows sc' w \<and> scope_leases sc' w' = scope_leases sc' w)
     \<and> (case top_fence (scope_rows sc w) of
          Some hi \<Rightarrow>
            if active_generation hi \<noteq> None \<and> config_fingerprint hi \<noteq> None
            then active_generation row = active_generation hi
              \<and> active_collection row = active_collection hi
              \<and> config_fingerprint row = config_fingerprint hi
              \<and> activated_epoch row = activated_epoch hi
              \<and> (active_generation hi \<noteq> Some [] \<longrightarrow> status row = Degraded)
            else active_generation row = None \<and> status row = Failed
        | None \<Rightarrow> active_generation row = None \<and> status row = Failed)"
proof -
  obtain row where rows: "scope_rows sc (recovered_world uuid sc w) = [row]"
    and row: "row = recovered_row sc (uuid (drawn w)) (max_fence sc w + 1)
         (recovered_pointers (case top_fence (scope_rows sc w) of None \<Rightarrow> [] | Some r \<Rightarrow> [r])
           (if servable_pointer (case top_fence (scope_rows sc w) of None \<Rightarrow> [] | Some r \<Rightarrow> [r]) then None
            else Option.bind (top_fence (filter (\<lambda>r. active_collection r \<noteq> None) (scope_rows sc w)))
              active_collection)) (clock w)"
    and none: "scope_leases sc (recovered_world uuid sc w) = []"
    using recovered_world_scope by metis
  have fences: "fencing_token r < fencing_token row" if "r \<in> set (scope_rows sc w)" for r
    using fence_le_max [OF that] by (simp add: row recovered_row_def)
  have others: "scope_rows sc' (recovered_world uuid sc w) = scope_rows sc' w
      \<and> scope_leases sc' (recovered_world uuid sc w) = scope_leases sc' w" if "sc' \<noteq> sc" for sc'
    using that by (auto simp: recovered_world_def Let_def scope_rows_def scope_leases_def
        intro!: filter_cong)
  have run: "run uuid (recover live sc True) w = (Inr (entry_of_row row 0), recovered_world uuid sc w)"
    using run_recover_world [of uuid live sc w] rows by (simp add: prod_eq_iff)
  show ?thesis
    using fences others
    by (intro exI [of _ row] exI [of _ "recovered_world uuid sc w"])
       (simp add: run rows none,
        auto simp: row recovered_row_def recovered_pointers_def placeholder_row_def
          split: option.splits)
qed

theorem recover_rebuilds_scope_witness:
  "\<exists>row. scope_rows ex_scope (snd (run ex_uuid (recover (\<lambda>_. UnknownLiveness) ex_scope True) ex_ready)) = [row]
     \<and> active_generation row = Some ''g1'' \<and> status row = Degraded"
proof -
  have top: "top_fence (scope_rows ex_scope ex_ready) = Some (hd (ledger ex_ready))"
    "active_generation (hd (ledger ex_ready)) = Some ''g1''"
    "config_fingerprint (hd (ledger ex_ready)) = Some ''fp''" by code_simp+
  show ?thesis
    using recover_rebuilds_scope [of ex_uuid "\<lambda>_. UnknownLiveness" ex_scope ex_ready]
    by (elim exE) (auto simp: top)
qed

text \<open>
  C22: without the operator's confirmation, recovery proceeds in exactly one case: the row
  records a publisher with a start time in this very PID namespace, this host can read start
  times, and no process with that PID and start time (within two seconds) runs here. In every
  other case it is refused and nothing is changed.
\<close>

theorem unconfirmed_recovery_needs_dead_owner:
  assumes "scope_rows sc w = [r]"
  shows "run uuid (recover (local_liveness h) sc False) w =
     (if \<exists>owner began. publisher_from_row r = Some owner \<and> pub_started_epoch owner = Some began
          \<and> pub_namespace owner \<noteq> None \<and> pub_namespace owner = process_namespace h
          \<and> process_started_epoch h (own_pid h) \<noteq> None
          \<and> (case process_started_epoch h (pub_pid owner) of
               None \<Rightarrow> True | Some started \<Rightarrow> 2 < \<bar>started - began\<bar>)
      then run uuid (recover (local_liveness h) sc True) w
      else (Inl (ServingCoordinationError OwnerNotTerminated), w))"
proof -
  have dead: "local_liveness h owner = Dead \<longleftrightarrow>
      (\<exists>began. pub_started_epoch owner = Some began \<and> pub_namespace owner \<noteq> None
         \<and> pub_namespace owner = process_namespace h \<and> process_started_epoch h (own_pid h) \<noteq> None
         \<and> (case process_started_epoch h (pub_pid owner) of
              None \<Rightarrow> True | Some started \<Rightarrow> 2 < \<bar>started - began\<bar>))" for owner
    by (auto simp: local_liveness_def start_tolerance_seconds_def split: option.splits)
  have status: "run uuid (serving_status_of sc) w =
      (Inr (entry_of_row r (length (scope_leases sc w))), w)"
    by (simp add: serving_status_of_def assms lease_count_def)
  have split: "recover (local_liveness h) sc False =
      bindp (refuse_unless_owner_provably_dead (local_liveness h) sc)
        (\<lambda>_. recover (local_liveness h) sc True)"
    by (simp add: recover_def)
  have refuse: "run uuid (refuse_unless_owner_provably_dead (local_liveness h) sc) w =
      (case publisher_from_row r of
         Some owner \<Rightarrow> if local_liveness h owner = Dead then (Inr (), w)
           else (Inl (ServingCoordinationError OwnerNotTerminated), w)
       | None \<Rightarrow> (Inl (ServingCoordinationError OwnerNotTerminated), w))"
    by (simp add: refuse_unless_owner_provably_dead_def status entry_of_row_def split: option.splits)
  have "run uuid (recover (local_liveness h) sc False) w =
      (if \<exists>owner. publisher_from_row r = Some owner \<and> local_liveness h owner = Dead
       then run uuid (recover (local_liveness h) sc True) w
       else (Inl (ServingCoordinationError OwnerNotTerminated), w))"
    unfolding split run_bindp refuse by (simp split: option.splits)
  then show ?thesis unfolding dead by simp
qed

theorem unconfirmed_recovery_needs_dead_owner_witness:
  "run ex_uuid (recover (local_liveness \<lparr>process_namespace = Some ''ns'', own_pid = 1,
       process_started_epoch = (\<lambda>_. Some 101)\<rparr>) ex_scope False) ex_claimed
     = (Inl (ServingCoordinationError OwnerNotTerminated), ex_claimed)"
proof -
  have "scope_rows ex_scope ex_claimed = [hd (ledger ex_claimed)]" by code_simp
  moreover have "publisher_from_row (hd (ledger ex_claimed)) = Some ex_identity" by code_simp
  ultimately show ?thesis
    using unconfirmed_recovery_needs_dead_owner [of ex_scope ex_claimed "hd (ledger ex_claimed)" ex_uuid]
    by (simp add: ex_identity_def)
qed

text \<open>
  query admission, on every branch. On a scope with one well-formed row \<open>acquire_query\<close>
  refuses an unpublished, failed, in-place publishing, first-publishing or draining scope with
  the matching error and changes nothing; otherwise it returns a lease pinning the row's
  generation, collection, fingerprint and fence and records exactly that lease.
\<close>

theorem acquire_query_outcome:
  assumes "scope_rows sc w = [r]" "row_wf r"
  shows "run uuid (acquire_query sc legacy) w = query_outcome r (uuid (drawn w)) w"
  using assms by (rule run_acquire_query)

theorem acquire_query_outcome_witness:
  "\<exists>q. fst (run ex_uuid (acquire_query ex_scope None) ex_ready) = Inr q \<and> q_generation q = ''g1''
     \<and> length (leases (snd (run ex_uuid (acquire_query ex_scope None) ex_ready))) = 1"
proof -
  have h: "scope_rows ex_scope ex_ready = [hd (ledger ex_ready)]" "row_wf (hd (ledger ex_ready))"
    by code_simp+
  have "query_outcome (hd (ledger ex_ready)) (ex_uuid (drawn ex_ready)) ex_ready =
      (Inr (lease_of (hd (ledger ex_ready)) (ex_uuid (drawn ex_ready)) ''g1''),
       with_lease (hd (ledger ex_ready)) (ex_uuid (drawn ex_ready)) ''g1'' ex_ready)"
    "leases ex_ready = []" by code_simp+
  with acquire_query_outcome [OF h] show ?thesis by (simp add: with_lease_def)
qed

text \<open>
  a publication that runs through is what readers get. On a scope nobody is publishing,
  claiming it, activating a generation and then querying yields a lease on exactly that
  generation and collection, under the claimed configuration fingerprint, with status ready
  and the fence the claim minted.
\<close>

theorem published_generation_is_served:
  assumes "length (scope_rows sc w) \<le> 1" "row_wf (scope_row_or_new sc (uuid (drawn w)) w)"
    and "publication_id (scope_row_or_new sc (uuid (drawn w)) w) = None"
    and "a_expected_token a = None" "excludes_of a \<Longrightarrow> scope_leases sc w = []" "g \<noteq> []"
  shows "\<exists>q w'. run uuid (bindp (acquire_publish sc a) (\<lambda>p.
        bindp (mark_ready p g (a_fingerprint a) n4 coll) (\<lambda>_. acquire_query sc legacy))) w = (Inr q, w')
     \<and> q_generation q = g \<and> q_collection q = coll \<and> q_fingerprint q = a_fingerprint a
     \<and> q_status q = Ready
     \<and> q_token q = fencing_token (scope_row_or_new sc (uuid (drawn w)) w) + 1"
proof -
  define r where "r = scope_row_or_new sc (uuid (drawn w)) w"
  let ?pid = "uuid (Suc (drawn w))"
  let ?p = "\<lparr>p_scope = sc, p_publication_id = ?pid, p_token = fencing_token r + 1, p_fingerprint = a_fingerprint a\<rparr>"
  let ?c = "claimed_row (request_of sc a ?pid (clock w)) (clock w) r"
  obtain w1 where w1: "run uuid (acquire_publish sc a) w = (Inr ?p, w1)" "scope_rows sc w1 = [?c]"
    "clock w1 = clock w"
    using run_acquire_publish [of sc w r uuid a ?pid] assms(1,3-5) by (auto simp: r_def)
  have h: "holds_claim ?p ?c"
    using scope_rows_one [OF w1(2)] by (simp add: holds_claim_def claimed_row_def)
  let ?f = "ready_finish g (a_fingerprint a) n4 coll (clock w1)"
  let ?d = "finished_row ?f (clock w1) ?c"
  have ready: "run uuid (mark_ready ?p g (a_fingerprint a) n4 coll) w1 = (Inr (), sql_finish ?p ?f w1)"
    using run_mark_ready [of ?p w1 ?c g] w1 h assms(6) by simp
  have rows: "scope_rows sc (sql_finish ?p ?f w1) = [?d]"
    using scope_rows_finish [OF w1(2) h] by simp
  have "row_wf ?d"
    using row_wf_nonneg [OF assms(2)] assms(6)
    by (intro finished_row_wf_aux) (auto simp: ready_finish_def claimed_row_def r_def)
  then have "run uuid (acquire_query sc legacy) (sql_finish ?p ?f w1) =
      query_outcome ?d (uuid (drawn (sql_finish ?p ?f w1))) (sql_finish ?p ?f w1)"
    by (rule run_acquire_query [OF rows])
  moreover have "status ?d = Ready" "active_generation ?d = Some g" "query_drain_until_epoch ?d = None"
    "active_collection ?d = coll" "config_fingerprint ?d = Some (a_fingerprint a)"
    "fencing_token ?d = fencing_token r + 1"
    by (simp_all add: finished_row_def ready_finish_def claimed_row_def)
  ultimately show ?thesis
    using w1 ready by (simp add: query_outcome_def drained_def r_def)
qed

theorem published_generation_is_served_witness:
  "\<exists>q w'. run ex_uuid (bindp (acquire_publish ex_scope (ex_request False)) (\<lambda>p.
        bindp (mark_ready p ''g7'' ''fp'' (3, 0, 0, 0) None) (\<lambda>_. acquire_query ex_scope None))) ex_start = (Inr q, w')
     \<and> q_generation q = ''g7''"
proof -
  have "length (scope_rows ex_scope ex_start) \<le> 1" by code_simp
  moreover have "row_wf (scope_row_or_new ex_scope (ex_uuid (drawn ex_start)) ex_start)" by code_simp
  moreover have "publication_id (scope_row_or_new ex_scope (ex_uuid (drawn ex_start)) ex_start) = None"
    by code_simp
  moreover have "a_expected_token (ex_request False) = None" by code_simp
  moreover have "scope_leases ex_scope ex_start = []" by code_simp
  moreover have "a_fingerprint (ex_request False) = ''fp''" by code_simp
  ultimately show ?thesis
    using published_generation_is_served [of ex_scope ex_start ex_uuid "ex_request False" "''g7''"
        "(3, 0, 0, 0)" None None] by auto
qed

text \<open>
  C21: after a failed publication that retains the previous generation, queries are served from
  it as degraded, under the fingerprint it was published with and with the failure code; after
  one that retains nothing, queries are refused until a publication succeeds.
\<close>

theorem failed_publication_outcome:
  assumes "scope_rows (p_scope p) w = [r]" "holds_claim p r" "row_wf r" "safe_error_code_ok code"
  shows "(g \<noteq> [] \<longrightarrow> (\<exists>q w'. run uuid (bindp (mark_failed p code n4 coll (Some g) (Some fp))
            (\<lambda>_. acquire_query (p_scope p) legacy)) w = (Inr q, w')
          \<and> q_generation q = g \<and> q_collection q = coll \<and> q_fingerprint q = fp
          \<and> q_status q = Degraded \<and> q_error q = Some code))
     \<and> (\<exists>w'. run uuid (bindp (mark_failed p code n4 coll None None)
            (\<lambda>_. acquire_query (p_scope p) legacy)) w
          = (Inl (ServingNotReadyError NoReadyPublication), w'))"
proof -
  have fin: "run uuid (mark_failed p code n4 coll g' fp') w =
        (Inr (), sql_finish p (failed_finish code n4 coll g' fp') w)
      \<and> scope_rows (p_scope p) (sql_finish p (failed_finish code n4 coll g' fp') w) =
        [finished_row (failed_finish code n4 coll g' fp') (clock w) r]
      \<and> row_wf (finished_row (failed_finish code n4 coll g' fp') (clock w) r)"
    if "g' = None \<or> g' \<noteq> Some [] \<and> fp' \<noteq> None" for g' fp'
  proof (intro conjI)
    show "run uuid (mark_failed p code n4 coll g' fp') w =
        (Inr (), sql_finish p (failed_finish code n4 coll g' fp') w)"
      using that by (intro run_mark_failed [OF assms(1,2,4)]) auto
    show "scope_rows (p_scope p) (sql_finish p (failed_finish code n4 coll g' fp') w) =
        [finished_row (failed_finish code n4 coll g' fp') (clock w) r]"
      by (rule scope_rows_finish [OF assms(1,2)])
    show "row_wf (finished_row (failed_finish code n4 coll g' fp') (clock w) r)"
      using that by (intro finished_row_wf assms(3)) (auto simp: failed_finish_def split: option.splits)
  qed
  have nodrain: "query_drain_until_epoch r = None"
    using assms(2,3) by (auto simp: row_wf_def holds_claim_def)
  have keep: "\<exists>q w'. run uuid (bindp (mark_failed p code n4 coll (Some g) (Some fp))
            (\<lambda>_. acquire_query (p_scope p) legacy)) w = (Inr q, w')
          \<and> q_generation q = g \<and> q_collection q = coll \<and> q_fingerprint q = fp
          \<and> q_status q = Degraded \<and> q_error q = Some code" if "g \<noteq> []"
    using fin [of "Some g" "Some fp"] that nodrain
    by (simp add: run_acquire_query)
       (simp add: query_outcome_def finished_row_def failed_finish_def drained_def lease_of_def
          degraded_code_def)
  have drop: "\<exists>w'. run uuid (bindp (mark_failed p code n4 coll None None)
            (\<lambda>_. acquire_query (p_scope p) legacy)) w
          = (Inl (ServingNotReadyError NoReadyPublication), w')"
    using fin [of None None]
    by (simp add: run_acquire_query)
       (simp add: query_outcome_def finished_row_def failed_finish_def)
  from keep drop show ?thesis by blast
qed

theorem failed_publication_outcome_witness:
  "\<exists>w'. run ex_uuid (bindp (mark_failed ex_lease ''store_error'' (0, 0, 0, 0) None None None)
       (\<lambda>_. acquire_query ex_scope None)) ex_claimed = (Inl (ServingNotReadyError NoReadyPublication), w')"
proof -
  have "p_scope ex_lease = ex_scope" by code_simp
  moreover have "scope_rows ex_scope ex_claimed = [hd (ledger ex_claimed)]" by code_simp
  moreover have "holds_claim ex_lease (hd (ledger ex_claimed))" by code_simp
  moreover have "row_wf (hd (ledger ex_claimed))" by code_simp
  moreover have "safe_error_code_ok ''store_error''" by code_simp
  ultimately show ?thesis
    using failed_publication_outcome [of ex_lease ex_claimed "hd (ledger ex_claimed)" "''store_error''"
        "[]" ex_uuid "(0, 0, 0, 0)" None "[]" None] by simp
qed

text \<open>
  re-keying a scope without readers, whose destination holds no claimed row, moves all of
  the scope's rows onto the destination unchanged but for their key, leaves no placeholder
  beside them and no other scope touched, and running the command again moves nothing.
\<close>

theorem rekey_moves_scope_once:
  assumes "model_name old = model_name new" "stage old = stage new"
    and "target_identity old \<noteq> target_identity new"
    and "scope_leases old w = []" "scope_leases new w = []"
    and "claimed_count old w \<noteq> 0" "claimed_count new w = 0"
  shows "\<exists>w'. run uuid (rekey_scope old new) w = (Inr (claimed_count old w), w')
    \<and> scope_rows new w' = map (\<lambda>r. r\<lparr>row_scope := new\<rparr>) (scope_rows old w)
    \<and> scope_rows old w' = []
    \<and> (\<forall>sc. sc \<noteq> old \<longrightarrow> sc \<noteq> new \<longrightarrow> scope_rows sc w' = scope_rows sc w)
    \<and> run uuid (rekey_scope old new) w' = (Inr 0, w')"
proof -
  let ?d = "sql_delete_placeholder new w"
  let ?w = "sql_rekey old (target_identity new) ?d"
  have new: "new = old\<lparr>target_identity := target_identity new\<rparr>" "new \<noteq> old"
    using assms(1-3) by (cases old; cases new; auto)+
  have "scope_rows new ?d = []"
    using assms(7) by (simp add: scope_rows_delete_placeholder claimed_count_def)
  then have rows: "scope_rows new ?w = map (\<lambda>r. r\<lparr>row_scope := new\<rparr>) (scope_rows old w)"
    using scope_rows_rekey(2) [OF new] new(2) by (simp add: scope_rows_delete_placeholder)
  have none: "scope_rows old ?w = []" by (rule scope_rows_rekey(1) [OF new])
  have "run uuid (rekey_scope old new) ?w = (Inr 0, ?w)"
    using assms(1-5) none
    by (simp add: rekey_scope_def lease_count_def claimed_count_def)
  moreover have "run uuid (rekey_scope old new) w = (Inr (claimed_count old w), ?w)"
    using run_rekey_scope [OF assms(1-5,7)] assms(6) by simp
  ultimately show ?thesis
    using rows none scope_rows_rekey(3) [OF new]
    by (intro exI [of _ ?w]) (simp add: scope_rows_delete_placeholder)
qed

theorem rekey_moves_scope_once_witness:
  "\<exists>w'. run ex_uuid (rekey_scope ex_scope (ex_scope\<lparr>target_identity := ''qdrant''\<rparr>)) ex_ready = (Inr 1, w')
    \<and> scope_rows ex_scope w' = []"
proof -
  have "claimed_count ex_scope ex_ready = 1"
    "claimed_count (ex_scope\<lparr>target_identity := ''qdrant''\<rparr>) ex_ready = 0"
    "scope_leases ex_scope ex_ready = []"
    "scope_leases (ex_scope\<lparr>target_identity := ''qdrant''\<rparr>) ex_ready = []"
    "target_identity ex_scope \<noteq> ''qdrant''"
    by code_simp+
  then show ?thesis
    using rekey_moves_scope_once [of ex_scope "ex_scope\<lparr>target_identity := ''qdrant''\<rparr>" ex_ready ex_uuid]
    by auto
qed

end
