(* ===== verification/Serving_Refines.thy ===== *)
theory Serving_Refines
  imports Serving_Props
begin

text \<open>
  What serving coordination is, without its tables: per scope, a fenced register. One publisher at a
  time holds it, each acquisition raises the fence, a publisher that works in place needs the register
  free of readers, and readers pin what is served. The coordinator's statements refine this: every
  interleaving of ordinary calls is a run of the register.
\<close>

section \<open>The register\<close>

record register =
  fence :: int
  holder :: "string option"
  exclusive :: bool
  served :: "string option"
  readers :: "string list"

inductive register_step :: "register \<Rightarrow> register \<Rightarrow> bool" where
  acquire: "holder s = None \<Longrightarrow> ex \<longrightarrow> readers s = [] \<Longrightarrow> g = served s \<or> g = None \<Longrightarrow>
     register_step s (s\<lparr>fence := fence s + 1, holder := Some p, exclusive := ex, served := g\<rparr>)"
| complete: "holder s = Some p \<Longrightarrow> register_step s (s\<lparr>holder := None, exclusive := False, served := g\<rparr>)"
| pin: "\<not> exclusive s \<Longrightarrow> served s = Some g \<Longrightarrow> register_step s (s\<lparr>readers := readers s @ [i]\<rparr>)"
| unpin: "register_step s (s\<lparr>readers := filter (\<lambda>j. j \<noteq> i) (readers s)\<rparr>)"

definition register_of :: "state_scope \<Rightarrow> world \<Rightarrow> register" where
  "register_of sc w = (let pins = map lease_id (scope_leases sc w) in
     (case scope_rows sc w of
        [] \<Rightarrow> \<lparr>fence = 0, holder = None, exclusive = False, served = None, readers = pins\<rparr>
      | r # _ \<Rightarrow> \<lparr>fence = fencing_token r, holder = publication_id r, exclusive = (status r = PublishingInPlace),
          served = active_generation r, readers = pins\<rparr>))"

section \<open>Simulation over interleavings\<close>

text \<open>
  A table invariant with an abstraction of the tables: if every statement is simulated by some
  abstract steps and the clock is invisible, so is every interleaving.
\<close>

locale table_simulation = table_invariant +
  fixes abs :: "world \<Rightarrow> 'b"
    and abs_step :: "'b \<Rightarrow> 'b \<Rightarrow> bool"
  assumes stmt_simulated: "ok s \<Longrightarrow> inv w \<Longrightarrow> abs_step\<^sup>*\<^sup>* (abs w) (abs (fst (exec_stmt uuid s w)))"
    and clock_invisible: "abs (w\<lparr>clock := t\<rparr>) = abs w"
begin

lemma pool_step_simulated:
  assumes "pool_step uuid (w, ps) (w', ps')" "inv w" "list_all (only_stmts ok good) ps"
  shows "abs_step\<^sup>*\<^sup>* (abs w) (abs w')"
  using assms
proof (cases rule: pool_step.cases)
  case (statement i s k r)
  with assms(3) have "only_stmts ok good (Step s k)" by (metis list_all_length)
  with statement stmt_simulated [of s w] assms(2) show ?thesis by simp
qed (simp_all add: clock_invisible)

lemma pool_simulated:
  assumes "(pool_step uuid)\<^sup>*\<^sup>* (w, ps) (w', ps')" "inv w" "list_all (only_stmts ok good) ps"
  shows "abs_step\<^sup>*\<^sup>* (abs w) (abs w')"
  using assms
proof (induction "(w', ps')" arbitrary: w' ps' rule: rtranclp_induct)
  case (step y)
  obtain v qs where y: "y = (v, qs)" by (cases y)
  with step have v: "inv v" "list_all (only_stmts ok good) qs" using pool_keeps by blast+
  from step y have "abs_step\<^sup>*\<^sup>* (abs w) (abs v)" by blast
  also have "abs_step\<^sup>*\<^sup>* (abs v) (abs w')" using step(2) v unfolding y by (rule pool_step_simulated)
  finally show ?case .
qed simp

end

section \<open>The coordinator refines the register\<close>

definition single_row :: "state_scope \<Rightarrow> world \<Rightarrow> bool" where
  "single_row sc w \<longleftrightarrow> length (scope_rows sc w) \<le> 1"

lemma single_row_cases:
  assumes "single_row sc w"
  obtains "scope_rows sc w = []" | r where "scope_rows sc w = [r]"
  using assms by (cases "scope_rows sc w") (auto simp: single_row_def)

lemma register_cong: "scope_rows sc w' = scope_rows sc w \<Longrightarrow> scope_leases sc w' = scope_leases sc w \<Longrightarrow>
    register_of sc w' = register_of sc w"
  by (simp add: register_of_def)

lemma register_stutter: "scope_rows sc w' = scope_rows sc w \<Longrightarrow> scope_leases sc w' = scope_leases sc w \<Longrightarrow>
    register_step\<^sup>*\<^sup>* (register_of sc w) (register_of sc w')"
  by (simp add: register_of_def)

lemma single_row_update:
  "(\<And>r. p r \<Longrightarrow> row_scope (f r) = row_scope r) \<Longrightarrow> single_row sc (update_where p f w) = single_row sc w"
  by (simp add: single_row_def scope_rows_update_where)

text \<open>An update that leaves alone what the register sees.\<close>

lemma register_update_same:
  assumes "\<And>r. p r \<Longrightarrow> row_scope (f r) = row_scope r \<and> fencing_token (f r) = fencing_token r \<and>
    publication_id (f r) = publication_id r \<and> status (f r) = status r \<and> active_generation (f r) = active_generation r"
  shows "register_of sc (update_where p f w) = register_of sc w"
proof -
  have "scope_rows sc (update_where p f w) = map (\<lambda>r. if p r then f r else r) (scope_rows sc w)"
    using assms by (intro scope_rows_update_where) blast
  then show ?thesis using assms by (cases "scope_rows sc w") (auto simp: register_of_def)
qed

lemma claim_simulated:
  assumes "single_row sc w"
  shows "register_step\<^sup>*\<^sup>* (register_of sc w) (register_of sc (sql_claim c w))"
proof (rule single_row_cases [OF assms])
  have rows: "scope_rows sc (sql_claim c w) =
      map (\<lambda>r. if claim_admitted c w r then claimed_row c (clock w) r else r) (scope_rows sc w)"
    unfolding sql_claim_def by (rule scope_rows_update_where) (simp add: claimed_row_def)
  have leases: "scope_leases sc (sql_claim c w) = scope_leases sc w" by (simp add: sql_claim_def)
  show ?thesis if "scope_rows sc w = []"
    using that rows leases by (intro register_stutter) simp_all
  fix r assume r: "scope_rows sc w = [r]"
  show ?thesis
  proof (cases "claim_admitted c w r")
    case False
    with r rows leases show ?thesis by (intro register_stutter) simp_all
  next
    case True
    have sc: "c_scope c = sc" using True r scope_rows_one [OF r] by (simp add: claim_admitted_def)
    have "register_step (register_of sc w) ((register_of sc w)\<lparr>fence := fence (register_of sc w) + 1,
        holder := Some (c_publication_id c), exclusive := c_excludes c,
        served := (if c_preserves c then served (register_of sc w) else None)\<rparr>)"
      using True sc r by (intro register_step.acquire) (auto simp: register_of_def claim_admitted_def)
    also have "\<dots> = register_of sc (sql_claim c w)"
      using True r by (simp add: register_of_def rows leases claimed_row_def)
    finally show ?thesis by (rule r_into_rtranclp)
  qed
qed

lemma finish_simulated:
  assumes "single_row sc w" "finish_ok f"
  shows "register_step\<^sup>*\<^sup>* (register_of sc w) (register_of sc (sql_finish p f w))"
proof (rule single_row_cases [OF assms(1)])
  have rows: "scope_rows sc (sql_finish p f w) = map (\<lambda>r. if holds_claim p r then finished_row f (clock w) r else r) (scope_rows sc w)"
    unfolding sql_finish_def by (rule scope_rows_update_where) (simp add: finished_row_def)
  have leases: "scope_leases sc (sql_finish p f w) = scope_leases sc w" by (simp add: sql_finish_def)
  show ?thesis if "scope_rows sc w = []"
    using that rows leases by (intro register_stutter) simp_all
  fix r assume r: "scope_rows sc w = [r]"
  show ?thesis
  proof (cases "holds_claim p r")
    case False
    with r rows leases show ?thesis by (intro register_stutter) simp_all
  next
    case True
    have "register_step (register_of sc w) ((register_of sc w)\<lparr>holder := None, exclusive := False, served := f_generation f\<rparr>)"
      using True r by (intro register_step.complete) (auto simp: register_of_def holds_claim_def)
    also have "\<dots> = register_of sc (sql_finish p f w)"
      using True r assms(2) by (auto simp: register_of_def rows leases finished_row_def)
    finally show ?thesis by (rule r_into_rtranclp)
  qed
qed

lemma insert_lease_simulated:
  assumes "single_row sc w"
  shows "register_step\<^sup>*\<^sup>* (register_of sc w) (register_of sc (sql_insert_lease l now w))"
proof (cases "list_ex (lease_admitted l now) (ledger w) \<and> lease_scope l = sc")
  case True
  then obtain r where r: "r \<in> set (scope_rows sc w)" "lease_admitted l now r"
    by (auto simp: list_ex_iff scope_rows_def lease_admitted_def)
  then have one: "scope_rows sc w = [r]" using assms by (auto elim: single_row_cases)
  have "register_step (register_of sc w) ((register_of sc w)\<lparr>readers := readers (register_of sc w) @ [lease_id l]\<rparr>)"
    using r(2) one
    by (intro register_step.pin [where g = "lease_generation l"]) (auto simp: register_of_def lease_admitted_def servable_statuses_def)
  also have "\<dots> = register_of sc (sql_insert_lease l now w)"
    using True one by (simp add: register_of_def sql_insert_lease_def scope_leases_def scope_rows_def)
  finally show ?thesis by (rule r_into_rtranclp)
next
  case False
  then have "scope_rows sc (sql_insert_lease l now w) = scope_rows sc w" "scope_leases sc (sql_insert_lease l now w) = scope_leases sc w"
    by (auto simp: sql_insert_lease_def scope_rows_def scope_leases_def)
  then show ?thesis by (rule register_stutter)
qed

lemma delete_lease_simulated: "register_step\<^sup>*\<^sup>* (register_of sc w) (register_of sc (sql_delete_lease i w))"
proof -
  have "scope_leases sc (sql_delete_lease i w) = filter (\<lambda>l. lease_id l \<noteq> i) (scope_leases sc w)"
    by (simp add: sql_delete_lease_def scope_leases_def conj_commute)
  moreover have "scope_rows sc (sql_delete_lease i w) = scope_rows sc w" by (simp add: sql_delete_lease_def scope_rows_def)
  ultimately have "register_of sc (sql_delete_lease i w) = (register_of sc w)\<lparr>readers := filter (\<lambda>j. j \<noteq> i) (readers (register_of sc w))\<rparr>"
    by (simp add: register_of_def filter_map comp_def Let_def split: list.split)
  then show ?thesis using register_step.unpin by (metis r_into_rtranclp)
qed

lemma insert_placeholder_same:
  assumes "single_row sc w"
  shows "single_row sc (sql_insert_placeholder sc' rid w)" "register_of sc (sql_insert_placeholder sc' rid w) = register_of sc w"
proof -
  have rows: "scope_rows sc (sql_insert_placeholder sc' rid w) =
      (if scope_rows sc' w = [] \<and> sc = sc' then [placeholder_row sc' rid] else scope_rows sc w)"
    by (auto simp: sql_insert_placeholder_def scope_rows_def placeholder_row_def)
  have leases: "scope_leases sc (sql_insert_placeholder sc' rid w) = scope_leases sc w"
    by (simp add: sql_insert_placeholder_def scope_leases_def)
  show "single_row sc (sql_insert_placeholder sc' rid w)" using assms by (simp add: single_row_def rows)
  show "register_of sc (sql_insert_placeholder sc' rid w) = register_of sc w"
    by (auto simp: register_of_def rows leases placeholder_row_def)
qed

lemma collapse_same:
  assumes "single_row sc w"
  shows "scope_rows sc (sql_collapse_placeholders sc' w) = scope_rows sc w"
proof (rule single_row_cases [OF assms])
  let ?p = "\<lambda>r. \<not> (row_scope r = sc' \<and> unclaimed_placeholder r \<and> row_id r \<noteq> Min (set (map row_id (scope_rows sc' w))))"
  have rows: "scope_rows sc (sql_collapse_placeholders sc' w) = filter ?p (scope_rows sc w)"
    by (simp add: sql_collapse_placeholders_def scope_rows_def filter_filter conj_commute)
  show ?thesis if "scope_rows sc w = []" using that rows by simp
  show ?thesis if "scope_rows sc w = [r]" for r
  proof -
    have "?p r" using that scope_rows_one [OF that] by auto
    with that rows show ?thesis by simp
  qed
qed

lemma exec_simulated:
  assumes "ordinary_stmt s" "single_row sc w"
  shows "register_step\<^sup>*\<^sup>* (register_of sc w) (register_of sc (fst (exec_stmt uuid s w)))"
proof (cases s)
  case (CollapsePlaceholders sc')
  have "register_of sc (sql_collapse_placeholders sc' w) = register_of sc w"
    by (intro register_cong collapse_same [OF assms(2)]) (simp add: sql_collapse_placeholders_def scope_leases_def)
  with CollapsePlaceholders show ?thesis by simp
next
  case (DrawUuid)
  have "register_of sc (w\<lparr>drawn := Suc (drawn w)\<rparr>) = register_of sc w"
    by (rule register_cong) (simp_all add: scope_rows_def scope_leases_def)
  with DrawUuid show ?thesis by simp
qed (use assms in \<open>simp_all add: claim_simulated finish_simulated insert_lease_simulated delete_lease_simulated
    insert_placeholder_same sql_request_drain_def sql_heartbeat_def sql_progress_def sql_record_mirror_def register_update_same
    del: finish_ok.simps\<close>)

lemma exec_keeps_single_row:
  assumes "ordinary_stmt s" "single_row sc w"
  shows "single_row sc (fst (exec_stmt uuid s w))"
proof (cases s)
  case (CollapsePlaceholders sc')
  then show ?thesis using assms(2) by (simp add: single_row_def collapse_same)
qed (use assms in \<open>simp_all add: insert_placeholder_same sql_claim_def sql_finish_def sql_request_drain_def sql_heartbeat_def
    sql_progress_def sql_record_mirror_def single_row_update claimed_row_def finished_row_def\<close>,
  simp_all add: single_row_def scope_rows_def sql_insert_lease_def sql_delete_lease_def)

interpretation register_sim: table_simulation uuid ordinary_stmt "\<lambda>_. True" "single_row sc" "register_of sc" register_step
  for uuid sc
proof unfold_locales
  show "single_row sc (w\<lparr>clock := t\<rparr>)" if "single_row sc w" for w t
    using that by (simp add: single_row_def scope_rows_def)
  show "register_of sc (w\<lparr>clock := t\<rparr>) = register_of sc w" for w t
    by (rule register_cong) (simp_all add: scope_rows_def scope_leases_def)
qed (simp_all add: exec_keeps_single_row exec_simulated)



end
