(* ===== verification/Query_Pins.thy ===== *)
theory Query_Pins
  imports Serving_Refines Complex_Main
begin

text \<open>
  Session pins (\<^verbatim>\<open>retrieval/query_pins.py\<close>): one durable query lease per scope, shared by the queries of a
  session. A pin is an object that queries keep a reference to while they run, so the model has an object
  store (\<open>objects\<close>, a reference is an index) beside the dictionary of registered pins.

  The session's lock makes each of its sections (admitting a query, taking it back, sweeping) exclusive;
  a section is a program over the serving tables whose result is the session it leaves. Other sessions run
  between any two statements of a section. The monotonic clock is read by the caller (\<open>now\<close>), and the stop
  flag, which is set without the lock, is an argument read when the section begins.
\<close>

record pin =
  pin_lease :: query_lease
  holders :: int
  idle_since :: rat
  retiring :: bool

record session =
  registered :: "(state_scope \<times> nat) list"
  objects :: "pin list"

definition idle_pin_seconds :: rat where
  "idle_pin_seconds = 30"

definition change_pin :: "nat \<Rightarrow> (pin \<Rightarrow> pin) \<Rightarrow> session \<Rightarrow> session" where
  "change_pin i f s = s\<lparr>objects := (objects s)[i := f (objects s ! i)]\<rparr>"

definition retire_pin :: "nat \<Rightarrow> session \<Rightarrow> session" where
  "retire_pin i s = change_pin i (\<lambda>p. p\<lparr>retiring := True\<rparr>) s"

section \<open>The sections\<close>

text \<open>A failed delete leaves the pin registered and not reusable.\<close>

definition release_pin :: "session \<Rightarrow> state_scope \<Rightarrow> nat \<Rightarrow> (session \<times> serving_error option) prog" where
  "release_pin s sc i =
     (let s1 = retire_pin i s in
      catchp (bindp (release_query (pin_lease (objects s1 ! i))) (\<lambda>_.
          Return (s1\<lparr>registered := AList.delete sc (registered s1)\<rparr>, None)))
        (\<lambda>e. Return (s1, Some e)))"

definition refresh_pin :: "session \<Rightarrow> state_scope \<Rightarrow> nat \<Rightarrow> (session \<times> (serving_error + nat \<times> query_lease)) prog" where
  "refresh_pin s sc i =
     (if retiring (objects s ! i) then Return (s, Inl (ServingBusyError ReadersRetiring))
      else catchp (bindp (refresh_query (pin_lease (objects s ! i))) (\<lambda>q. Return (s, Inr (i, q))))
        (\<lambda>e. if is_coordination_error e
             then (let s1 = retire_pin i s in
               if holders (objects s1 ! i) = 0
               then bindp (release_pin s1 sc i) (\<lambda>(s2, failure). Return (s2, Inl (case failure of None \<Rightarrow> e | Some e' \<Rightarrow> e')))
               else Return (s1, Inl e))
             else Return (s, Inl e)))"

definition admit_pin ::
  "bool \<Rightarrow> session \<Rightarrow> state_scope \<Rightarrow> state_scope \<Rightarrow> rat \<Rightarrow> (session \<times> (serving_error + nat \<times> query_lease)) prog" where
  "admit_pin stopped s sc legacy now =
     (if stopped then Return (s, Inl (ServingBusyError SessionClosing))
      else (case map_of (registered s) sc of
          Some i \<Rightarrow> refresh_pin s sc i
        | None \<Rightarrow> catchp (bindp (acquire_query sc (Some legacy)) (\<lambda>q.
              let i = length (objects s) in
              Return (s\<lparr>registered := AList.update sc i (registered s),
                        objects := objects s @ [\<lparr>pin_lease = q, holders = 0, idle_since = now, retiring = False\<rparr>]\<rparr>, Inr (i, q))))
            (\<lambda>e. Return (s, Inl e))))"

text \<open>Entering \<open>query\<close>: the admitted pin gains a holder before the lock is released.\<close>

definition enter_query ::
  "bool \<Rightarrow> session \<Rightarrow> state_scope \<Rightarrow> state_scope \<Rightarrow> rat \<Rightarrow> (session \<times> (serving_error + nat \<times> query_lease)) prog" where
  "enter_query stopped s sc legacy now =
     bindp (admit_pin stopped s sc legacy now) (\<lambda>(s1, outcome).
       Return (case outcome of Inl e \<Rightarrow> s1 | Inr (i, q) \<Rightarrow> change_pin i (\<lambda>p. p\<lparr>holders := holders p + 1\<rparr>) s1, outcome))"

text \<open>Leaving it: \<open>_return\<close>.\<close>

definition return_pin :: "bool \<Rightarrow> session \<Rightarrow> state_scope \<Rightarrow> nat \<Rightarrow> bool \<Rightarrow> rat \<Rightarrow> (session \<times> serving_error option) prog" where
  "return_pin stopped s sc i succeeded now =
     (let s1 = change_pin i (\<lambda>p. p\<lparr>holders := holders p - 1, idle_since := now,
                 retiring := retiring p \<or> \<not> succeeded \<or> stopped\<rparr>) s in
      if retiring (objects s1 ! i) \<and> holders (objects s1 ! i) = 0 then release_pin s1 sc i else Return (s1, None))"

definition idle_pins :: "session \<Rightarrow> bool \<Rightarrow> rat \<Rightarrow> (state_scope \<times> nat) list" where
  "idle_pins s closing now = filter (\<lambda>(sc, i). let p = objects s ! i in
     holders p = 0 \<and> (closing \<or> retiring p \<or> idle_pin_seconds \<le> now - idle_since p)) (registered s)"

fun release_idle :: "session \<Rightarrow> (state_scope \<times> nat) list \<Rightarrow> (session \<times> serving_error option) prog" where
  "release_idle s [] = Return (s, None)"
| "release_idle s ((sc, i) # idle) = bindp (release_pin s sc i) (\<lambda>(s1, failure).
     case failure of None \<Rightarrow> release_idle s1 idle | Some e \<Rightarrow> Return (s1, Some e))"

definition sweep_pins :: "session \<Rightarrow> bool \<Rightarrow> rat \<Rightarrow> (session \<times> serving_error option) prog" where
  "sweep_pins s closing now = release_idle s (idle_pins s closing now)"

section \<open>A session among others\<close>

datatype section_run =
    Idle
  | Entering state_scope "(session \<times> (serving_error + nat \<times> query_lease)) prog"
  | Releasing "(session \<times> serving_error option) prog"

text \<open>
  \<open>sys_held\<close> are the queries in progress: their scope, their reference to a pin and their lease. \<open>sys_own\<close> are the
  identifiers of the lease rows this session has tried to insert; they are not part of the program and
  only say which rows are the session's: only the owner of a lease deletes it.
\<close>

record pin_system =
  sys_tables :: world
  sys_session :: session
  sys_stopped :: bool
  sys_held :: "(state_scope \<times> nat \<times> query_lease) list"
  sys_own :: "string set"
  sys_running :: section_run

fun inserted :: "stmt \<Rightarrow> string set" where
  "inserted (InsertLease l now) = {lease_id l}"
| "inserted s = {}"

fun deleted :: "stmt \<Rightarrow> string set" where
  "deleted (DeleteLease i) = {i}"
| "deleted s = {}"

inductive session_step :: "(nat \<Rightarrow> string) \<Rightarrow> pin_system \<Rightarrow> pin_system \<Rightarrow> bool" for uuid where
  enter: "sys_running z = Idle \<Longrightarrow>
     session_step uuid z (z\<lparr>sys_running := Entering sc (enter_query (sys_stopped z) (sys_session z) sc legacy now)\<rparr>)"
| leave: "sys_running z = Idle \<Longrightarrow> (sc, i, q) \<in> set (sys_held z) \<Longrightarrow>
     session_step uuid z (z\<lparr>sys_held := remove1 (sc, i, q) (sys_held z),
       sys_running := Releasing (return_pin (sys_stopped z) (sys_session z) sc i succeeded now)\<rparr>)"
| sweep: "sys_running z = Idle \<Longrightarrow> session_step uuid z (z\<lparr>sys_running := Releasing (sweep_pins (sys_session z) closing now)\<rparr>)"
| stop: "session_step uuid z (z\<lparr>sys_stopped := True\<rparr>)"
| enter_statement: "sys_running z = Entering sc (Step s k) \<Longrightarrow> exec_stmt uuid s (sys_tables z) = (w, r) \<Longrightarrow>
     session_step uuid z (z\<lparr>sys_tables := w, sys_own := sys_own z \<union> inserted s, sys_running := Entering sc (k r)\<rparr>)"
| enter_fault: "sys_running z = Entering sc (Step s k) \<Longrightarrow> session_step uuid z (z\<lparr>sys_running := Entering sc (k Fault)\<rparr>)"
| release_statement: "sys_running z = Releasing (Step s k) \<Longrightarrow> exec_stmt uuid s (sys_tables z) = (w, r) \<Longrightarrow>
     session_step uuid z (z\<lparr>sys_tables := w, sys_own := sys_own z \<union> inserted s, sys_running := Releasing (k r)\<rparr>)"
| release_fault: "sys_running z = Releasing (Step s k) \<Longrightarrow> session_step uuid z (z\<lparr>sys_running := Releasing (k Fault)\<rparr>)"
| entered: "sys_running z = Entering sc (Return (s, Inr (i, q))) \<Longrightarrow>
     session_step uuid z (z\<lparr>sys_session := s, sys_held := (sc, i, q) # sys_held z, sys_running := Idle\<rparr>)"
| refused: "sys_running z = Entering sc (Return (s, Inl e)) \<Longrightarrow> session_step uuid z (z\<lparr>sys_session := s, sys_running := Idle\<rparr>)"
| released: "sys_running z = Releasing (Return (s, failure)) \<Longrightarrow> session_step uuid z (z\<lparr>sys_session := s, sys_running := Idle\<rparr>)"
| others: "ordinary_stmt s \<Longrightarrow> deleted s \<inter> sys_own z = {} \<Longrightarrow> session_step uuid z (z\<lparr>sys_tables := fst (exec_stmt uuid s (sys_tables z))\<rparr>)"
| tick: "session_step uuid z (z\<lparr>sys_tables := (sys_tables z)\<lparr>clock := t\<rparr>\<rparr>)"

end
