(* ===== verification/Query_Pins_Props.thy ===== *)
theory Query_Pins_Props
  imports Query_Pins
begin

text \<open>
  A query in progress keeps its lease: no section of its session, and no statement of another session that
  leaves this session's leases alone, deletes the row that protects the generation it reads.
\<close>

section \<open>Running under interference\<close>

text \<open>What other sessions may do to the tables while this one owns the leases \<open>own\<close>.\<close>

definition tolerated :: "string set \<Rightarrow> world \<Rightarrow> world \<Rightarrow> bool" where
  "tolerated own w w' \<longleftrightarrow> drawn w \<le> drawn w' \<and> (\<forall>l \<in> set (leases w). lease_id l \<in> own \<longrightarrow> l \<in> set (leases w'))"

lemma tolerated_refl [simp]: "tolerated own w w"
  by (simp add: tolerated_def)

lemma tolerated_trans: "tolerated own w w' \<Longrightarrow> tolerated own w' w'' \<Longrightarrow> tolerated own w w''"
  by (auto simp: tolerated_def)

lemma exec_tolerated:
  assumes "ordinary_stmt s" "deleted s \<inter> own = {}"
  shows "tolerated own w (fst (exec_stmt uuid s w))"
  using assms by (cases s)
    (auto simp: tolerated_def sql_insert_placeholder_def sql_collapse_placeholders_def sql_claim_def sql_request_drain_def
      sql_heartbeat_def sql_finish_def sql_progress_def sql_insert_lease_def sql_delete_lease_def sql_record_mirror_def)

type_synonym 'a assertion = "'a \<Rightarrow> string set \<Rightarrow> world \<Rightarrow> bool"

text \<open>
  From the given tables the program deletes no lease in \<open>kept\<close> and ends as described, whatever tolerated
  interference comes before each statement and whichever statement fails.
\<close>

primrec assured ::
  "(nat \<Rightarrow> string) \<Rightarrow> string set \<Rightarrow> 'a assertion \<Rightarrow> serving_error assertion \<Rightarrow> 'a prog \<Rightarrow> string set \<Rightarrow> world \<Rightarrow> bool" where
  "assured uuid kept Q R (Return x) = (\<lambda>own w. Q x own w)"
| "assured uuid kept Q R (Raise e) = (\<lambda>own w. R e own w)"
| "assured uuid kept Q R (Step s k) = (\<lambda>own w. ordinary_stmt s \<and> deleted s \<inter> kept = {} \<and> (\<forall>w1. tolerated own w w1 \<longrightarrow>
     assured uuid kept Q R (k (snd (exec_stmt uuid s w1))) (own \<union> inserted s) (fst (exec_stmt uuid s w1))
     \<and> assured uuid kept Q R (k Fault) own w1))"

lemma assured_bindp:
  "assured uuid kept (\<lambda>x. assured uuid kept Q R (f x)) R m own w \<Longrightarrow> assured uuid kept Q R (bindp m f) own w"
  by (induction m arbitrary: own w) auto

lemma assured_catchp:
  "assured uuid kept Q (\<lambda>e. assured uuid kept Q R (h e)) m own w \<Longrightarrow> assured uuid kept Q R (catchp m h) own w"
  by (induction m arbitrary: own w) auto

lemma assured_mono:
  assumes "assured uuid kept Q R m own w" "\<And>x own w. Q x own w \<Longrightarrow> Q' x own w" "\<And>e own w. R e own w \<Longrightarrow> R' e own w"
  shows "assured uuid kept Q' R' m own w"
  using assms(1) by (induction m arbitrary: own w) (auto intro: assms(2,3))

definition steady :: "(string set \<Rightarrow> world \<Rightarrow> bool) \<Rightarrow> bool" where
  "steady P \<longleftrightarrow> (\<forall>own own' w w'. P own w \<longrightarrow> own \<subseteq> own' \<longrightarrow> tolerated own w w' \<longrightarrow> P own' w')"

lemma stableD: "steady P \<Longrightarrow> P own w \<Longrightarrow> own \<subseteq> own' \<Longrightarrow> tolerated own w w' \<Longrightarrow> P own' w'"
  unfolding steady_def by blast

lemma stable_conj: "steady P \<Longrightarrow> steady P' \<Longrightarrow> steady (\<lambda>own w. P own w \<and> P' own w)"
  unfolding steady_def by blast

definition harmless :: "stmt \<Rightarrow> bool" where
  "harmless s \<longleftrightarrow> ordinary_stmt s \<and> deleted s = {}"

text \<open>A program of harmless statements keeps every stable assertion.\<close>

lemma assured_harmless:
  assumes "only_stmts harmless (\<lambda>_. True) m" "steady P" "P own w"
  shows "assured uuid kept (\<lambda>_. P) (\<lambda>_. P) m own w"
  using assms(1,3)
proof (induction m arbitrary: own w)
  case (Step s k)
  then have s: "ordinary_stmt s" "deleted s = {}" by (simp_all add: harmless_def)
  have "assured uuid kept (\<lambda>_. P) (\<lambda>_. P) (k (snd (exec_stmt uuid s w1))) (own \<union> inserted s) (fst (exec_stmt uuid s w1))
      \<and> assured uuid kept (\<lambda>_. P) (\<lambda>_. P) (k Fault) own w1" if w1: "tolerated own w w1" for w1
  proof
    have step: "tolerated own w1 (fst (exec_stmt uuid s w1))" using exec_tolerated s by simp
    have "P (own \<union> inserted s) (fst (exec_stmt uuid s w1))"
      using stableD [OF assms(2) Step.prems(2) _ tolerated_trans [OF w1 step]] by blast
    then show "assured uuid kept (\<lambda>_. P) (\<lambda>_. P) (k (snd (exec_stmt uuid s w1))) (own \<union> inserted s) (fst (exec_stmt uuid s w1))"
      using Step.IH Step.prems(1) by simp
    have "P own w1" using stableD [OF assms(2) Step.prems(2) _ w1] by blast
    then show "assured uuid kept (\<lambda>_. P) (\<lambda>_. P) (k Fault) own w1" using Step.IH Step.prems(1) by simp
  qed
  with s show ?case by simp
qed simp_all

section \<open>The coordinator's query calls\<close>

definition lease_present :: "query_lease \<Rightarrow> world \<Rightarrow> bool" where
  "lease_present q w \<longleftrightarrow> list_ex (\<lambda>l. lease_scope l = q_scope q \<and> lease_id l = q_lease_id q
     \<and> lease_generation l = q_generation q) (leases w)"

definition safe_lease :: "query_lease \<Rightarrow> string set \<Rightarrow> world \<Rightarrow> bool" where
  "safe_lease q own w \<longleftrightarrow> q_lease_id q \<in> own \<and> lease_present q w"

lemma stable_safe_lease: "steady (safe_lease q)"
  unfolding steady_def safe_lease_def lease_present_def tolerated_def list_ex_iff by fastforce

lemma held_present: "held_count q w \<noteq> 0 \<Longrightarrow> lease_present q w"
  by (auto simp: held_count_def lease_present_def list_ex_iff filter_empty_conv)

definition owns :: "string \<Rightarrow> string set \<Rightarrow> world \<Rightarrow> bool" where
  "owns i own w \<longleftrightarrow> i \<in> own"

lemma stable_owns: "steady (owns i)"
  by (auto simp: steady_def owns_def)

text \<open>A read that says the lease is held has seen its row, which then stays.\<close>

lemma assured_read_lease:
  assumes "steady P" "P own w" "q_lease_id q \<in> own"
  shows "assured uuid kept (\<lambda>(row, b) own w. P own w \<and> (b \<longrightarrow> safe_lease q own w)) (\<lambda>_. P) (read_row_and_lease q) own w"
proof -
  have "P own w1" if "tolerated own w w1" for w1 using stableD [OF assms(1,2) _ that] by blast
  then show ?thesis
    using assms(3) held_present [of q]
    by (auto simp: read_row_and_lease_def one_row_def issue_defs safe_lease_def split: list.split)
qed

lemma assured_validate:
  assumes "steady P" "P own w" "q_lease_id q \<in> own"
  shows "assured uuid kept (\<lambda>_ own w. P own w \<and> safe_lease q own w) (\<lambda>_. P) (validate_query q b) own w"
  unfolding validate_query_def
  by (rule assured_bindp, rule assured_mono [OF assured_read_lease [OF assms]])
     (auto simp: validate_query_row_def query_row_valid_def split: option.splits)

lemma harmless_reads [simp]:
  "harmless TimeNow" "harmless DrawUuid" "harmless (SelectLedger sc)" "harmless (SelectLedgerAndLease q)" "harmless (SelectLease i)"
  "harmless (InsertLease l now)"
  by (simp_all add: harmless_def)

lemma assured_refresh:
  assumes "steady P" "P own w" "q_lease_id q \<in> own"
  shows "assured uuid kept (\<lambda>q' own w. P own w \<and> q_scope q' = q_scope q \<and> q_lease_id q' = q_lease_id q \<and> safe_lease q' own w)
    (\<lambda>_. P) (refresh_query q) own w"
proof -
  let ?Q = "\<lambda>q' own w. P own w \<and> q_scope q' = q_scope q \<and> q_lease_id q' = q_lease_id q \<and> safe_lease q' own w"
  have drain: "assured uuid kept (\<lambda>_ own w. P own w \<and> safe_lease q own w) (\<lambda>_. P) (check_query_drain r) own w"
    if "P own w" "safe_lease q own w" for r own w
  proof -
    have "only_stmts harmless (\<lambda>_. True) (check_query_drain r)"
      by (auto simp: check_query_drain_def intro!: only_stmts_bindp_any split: option.splits)
    note assured_harmless [OF this stable_conj [OF assms(1) stable_safe_lease [of q]] conjI [OF that]]
    then show ?thesis by (rule assured_mono) auto
  qed
  show ?thesis
    unfolding refresh_query_def
  proof (rule assured_bindp, rule assured_mono [OF assured_read_lease [OF assms]])
    fix x :: "ledger_row option \<times> bool" and own w
    assume x: "(\<lambda>(row, b) own w. P own w \<and> (b \<longrightarrow> safe_lease q own w)) x own w"
    obtain row b where rb: "x = (row, b)" by (cases x)
    show "assured uuid kept ?Q (\<lambda>_. P) ((\<lambda>(row, held). bindp (validate_query_row q row held False) (\<lambda>_. case row of
          None \<Rightarrow> Raise (StaleServingLeaseError GenerationNoLongerActive)
        | Some r \<Rightarrow> bindp (check_query_drain r) (\<lambda>_.
            if active_generation r \<noteq> Some (q_generation q) \<or> config_fingerprint r \<noteq> Some (q_fingerprint q) \<or> active_collection r \<noteq> q_collection q
            then Raise (StaleServingLeaseError GenerationNoLongerActive)
            else Return (q\<lparr>q_status := status r, q_error := degraded_code r\<rparr>)))) x) own w"
    proof (cases "query_row_valid q row b False")
      case False
      with x rb show ?thesis by (simp add: validate_query_row_def)
    next
      case True
      then obtain r where r: "row = Some r" "b" by (auto simp: query_row_valid_def split: option.splits)
      with x rb have "P own w" "safe_lease q own w" by auto
      from drain [OF this, of r] have "assured uuid kept ?Q (\<lambda>_. P) (bindp (check_query_drain r) (\<lambda>_.
            if active_generation r \<noteq> Some (q_generation q) \<or> config_fingerprint r \<noteq> Some (q_fingerprint q) \<or> active_collection r \<noteq> q_collection q
            then Raise (StaleServingLeaseError GenerationNoLongerActive)
            else Return (q\<lparr>q_status := status r, q_error := degraded_code r\<rparr>))) own w"
        by (intro assured_bindp) (erule assured_mono, auto simp: safe_lease_def lease_present_def)
      with True r rb show ?thesis by (simp add: validate_query_row_def)
    qed
  qed simp
qed

lemma assured_bindp_harmless:
  assumes "only_stmts harmless (\<lambda>_. True) m" "steady P" "P own w"
    and "\<And>x own w. P own w \<Longrightarrow> assured uuid kept Q R (f x) own w" "\<And>e own w. P own w \<Longrightarrow> R e own w"
  shows "assured uuid kept Q R (bindp m f) own w"
  by (rule assured_bindp, rule assured_mono [OF assured_harmless [OF assms(1-3)]]) (use assms(4,5) in auto)

definition drawn_since :: "(nat \<Rightarrow> string) \<Rightarrow> nat \<Rightarrow> string \<Rightarrow> string set \<Rightarrow> world \<Rightarrow> bool" where
  "drawn_since uuid n i own w \<longleftrightarrow> i \<in> uuid ` {n..<drawn w}"

lemma stable_drawn_since: "steady (drawn_since uuid n i)"
  by (auto simp: steady_def drawn_since_def tolerated_def)

lemma drawn_since_fresh: "inj uuid \<Longrightarrow> drawn_since uuid n i own w \<Longrightarrow> kept \<subseteq> uuid ` {..<n} \<Longrightarrow> i \<notin> kept"
  unfolding drawn_since_def by (force dest: injD)

text \<open>An assertion that survives the deletion of leases outside \<open>kept\<close>.\<close>

definition immune :: "string set \<Rightarrow> (string set \<Rightarrow> world \<Rightarrow> bool) \<Rightarrow> bool" where
  "immune kept P \<longleftrightarrow> (\<forall>i own w. i \<notin> kept \<longrightarrow> P own w \<longrightarrow> P own (sql_delete_lease i w))"

lemma assured_release:
  assumes "steady P" "immune kept P" "P own w" "q_lease_id q \<notin> kept"
  shows "assured uuid kept (\<lambda>_. P) (\<lambda>_. P) (release_query q) own w"
proof -
  have "P own w1 \<and> P own (sql_delete_lease (q_lease_id q) w1)" if "tolerated own w w1" for w1
    using stableD [OF assms(1,3) _ that] assms(2,4) by (auto simp: immune_def)
  with assms(4) show ?thesis by (simp add: release_query_def issue_defs)
qed

lemma assured_validated:
  assumes "steady P" "immune kept P" "P own w" "q_lease_id q \<in> own" "q_lease_id q \<notin> kept"
  shows "assured uuid kept (\<lambda>q' own w. q' = q \<and> P own w \<and> safe_lease q own w) (\<lambda>_. P)
    (bindp (catchp (validate_query q b) (\<lambda>e. if is_coordination_error e then bindp (release_query q) (\<lambda>_. Raise e) else Raise e))
      (\<lambda>_. Return q)) own w"
proof -
  have handled: "assured uuid kept (\<lambda>x. assured uuid kept (\<lambda>q' own w. q' = q \<and> P own w \<and> safe_lease q own w) (\<lambda>_. P) (Return q)) (\<lambda>_. P)
      (if is_coordination_error e then bindp (release_query q) (\<lambda>_. Raise e) else Raise e :: unit prog) own w" if "P own w" for e own w
  proof -
    have "assured uuid kept (\<lambda>x. assured uuid kept (\<lambda>q' own w. q' = q \<and> P own w \<and> safe_lease q own w) (\<lambda>_. P) (Return q)) (\<lambda>_. P)
        (bindp (release_query q) (\<lambda>_. Raise e) :: unit prog) own w"
      by (rule assured_bindp, rule assured_mono [OF assured_release [OF assms(1,2) that assms(5)]]) simp_all
    with that show ?thesis by simp
  qed
  show ?thesis
    by (rule assured_bindp, rule assured_catchp, rule assured_mono [OF assured_validate [OF assms(1,3,4)]]) (simp, rule handled)
qed

lemma assured_admit:
  assumes "inj uuid" "steady P" "immune kept P" "P own w" "n \<le> drawn w" "kept \<subseteq> uuid ` {..<n}"
  shows "assured uuid kept (\<lambda>q own w. P own w \<and> q_scope q = sc \<and> safe_lease q own w \<and> drawn_since uuid n (q_lease_id q) own w)
    (\<lambda>_. P) (admit_query sc r g) own w"
proof -
  let ?Q = "\<lambda>q own w. P own w \<and> q_scope q = sc \<and> safe_lease q own w \<and> drawn_since uuid n (q_lease_id q) own w"
  let ?F = "\<lambda>i own w. P own w \<and> drawn_since uuid n i own w"
  let ?G = "\<lambda>i own w. ?F i own w \<and> owns i own w"
  have stable: "steady (?F i)" "steady (?G i)" for i
    by (intro stable_conj assms(2) stable_drawn_since stable_owns)+
  have immune: "immune kept (?F i)" for i using assms(3) by (auto simp: immune_def drawn_since_def sql_delete_lease_def)
  have fresh: "i \<notin> kept" if "?F i own w" for i own w using drawn_since_fresh [OF assms(1) _ assms(6)] that by blast
  have last: "assured uuid kept ?Q (\<lambda>_. P)
      (bindp (catchp (validate_query q True) (\<lambda>e. if is_coordination_error e then bindp (release_query q) (\<lambda>_. Raise e) else Raise e))
        (\<lambda>_. Return q)) own w" if "?G (q_lease_id q) own w" "q_scope q = sc" for q own w
    by (rule assured_mono [OF assured_validated [OF stable(1) immune]]) (use that fresh in \<open>auto simp: owns_def\<close>)
  have inserted: "assured uuid kept ?Q (\<lambda>_. P) (bindp (count_of (SelectLease i)) (\<lambda>held.
      if held = 0 then Raise (ServingBusyError ClaimedDuringAdmission) else bindp (read_row sc) (f held))) own w"
    if "?G i own w" and f: "\<And>held x own w. ?G i own w \<Longrightarrow> assured uuid kept ?Q (\<lambda>_. P) (f held x) own w" for i own w f
  proof (rule assured_bindp_harmless [where P = "?G i"])
    show "only_stmts harmless (\<lambda>_. True) (count_of (SelectLease i))" by simp
    fix held own w assume G: "?G i own w"
    have "assured uuid kept ?Q (\<lambda>_. P) (bindp (read_row sc) (f held)) own w"
      by (rule assured_bindp_harmless [where P = "?G i"]) (use G stable f in \<open>auto intro!: only_read\<close>)
    with G show "assured uuid kept ?Q (\<lambda>_. P) (if held = 0 then Raise (ServingBusyError ClaimedDuringAdmission) else bindp (read_row sc) (f held)) own w"
      by simp
  qed (use that stable in auto)
  have insert: "assured uuid kept ?Q (\<lambda>_. P) (bindp (execute (InsertLease l now)) f) own w"
    if F: "?F (lease_id l) own w" and f: "\<And>x own w. ?G (lease_id l) own w \<Longrightarrow> assured uuid kept ?Q (\<lambda>_. P) (f x) own w" for l now f own w
  proof -
    have "?G (lease_id l) (insert (lease_id l) own) (sql_insert_lease l now w1) \<and> P own w1" if "tolerated own w w1" for w1
    proof -
      have w1: "?F (lease_id l) own w1" using stableD [OF stable(1) F _ that] by blast
      have "tolerated own w1 (sql_insert_lease l now w1)" using exec_tolerated [of "InsertLease l now" own w1 uuid] by simp
      from stableD [OF stable(1) w1 subset_insertI this] w1 show ?thesis by (simp add: owns_def)
    qed
    with f show ?thesis by (simp add: issue_defs)
  qed
  have drawn: "?F (uuid (drawn w1)) own (w1\<lparr>drawn := Suc (drawn w1)\<rparr>) \<and> P own w1" if "tolerated own w w1" for w1
  proof -
    have "P own w1" using stableD [OF assms(2,4) _ that] by blast
    moreover have "tolerated own w1 (w1\<lparr>drawn := Suc (drawn w1)\<rparr>)" by (simp add: tolerated_def)
    ultimately have "P own (w1\<lparr>drawn := Suc (drawn w1)\<rparr>)" using stableD [OF assms(2)] by blast
    moreover have "n \<le> drawn w1" using that assms(5) by (simp add: tolerated_def)
    ultimately show ?thesis using \<open>P own w1\<close> by (auto simp: drawn_since_def)
  qed
  have timed: "assured uuid kept ?Q (\<lambda>_. P) (bindp time_now f) own w"
    if "?F i own w" and f: "\<And>x own w. ?F i own w \<Longrightarrow> assured uuid kept ?Q (\<lambda>_. P) (f x) own w" for i f own w
    by (rule assured_bindp_harmless [where P = "?F i"]) (use that stable in auto)
  have named: "assured uuid kept ?Q (\<lambda>_. P) (bindp uuid4 f) own w"
    if f: "\<And>i own w. ?F i own w \<Longrightarrow> assured uuid kept ?Q (\<lambda>_. P) (f i) own w" for f
    using drawn f by (simp add: uuid4_def)
  show ?thesis
    unfolding admit_query_def Let_def
    by (rule named, erule timed, rule insert, simp, rule inserted, simp, rule last) simp_all
qed

definition drawn_at_least :: "nat \<Rightarrow> string set \<Rightarrow> world \<Rightarrow> bool" where
  "drawn_at_least n own w \<longleftrightarrow> n \<le> drawn w"

lemma stable_drawn_at_least: "steady (drawn_at_least n)"
  by (auto simp: steady_def drawn_at_least_def tolerated_def)

lemma assured_acquire:
  assumes "inj uuid" "steady P" "immune kept P" "P own w" "n \<le> drawn w" "kept \<subseteq> uuid ` {..<n}"
  shows "assured uuid kept (\<lambda>q own w. P own w \<and> q_scope q = sc \<and> safe_lease q own w \<and> drawn_since uuid n (q_lease_id q) own w)
    (\<lambda>_. P) (acquire_query sc legacy) own w"
proof -
  let ?Q = "\<lambda>q own w. P own w \<and> q_scope q = sc \<and> safe_lease q own w \<and> drawn_since uuid n (q_lease_id q) own w"
  let ?D = "\<lambda>own w. P own w \<and> drawn_at_least n own w"
  have stable: "steady ?D" by (intro stable_conj assms(2) stable_drawn_at_least)
  have rekey: "only_stmts harmless (\<lambda>_. True) (case (row, legacy) of (None, Some l) \<Rightarrow> raise_if_rekey_pending sc l | _ \<Rightarrow> Return ())" for row :: "ledger_row option"
    by (auto simp: raise_if_rekey_pending_def intro!: only_stmts_bindp_any only_read split: option.splits)
  have drain: "only_stmts harmless (\<lambda>_. True) (check_query_drain r)" for r
    by (auto simp: check_query_drain_def intro!: only_stmts_bindp_any split: option.splits)
  have admit: "assured uuid kept ?Q (\<lambda>_. P) (bindp (check_query_drain r) (\<lambda>_. admit_query sc r g)) own w" if "?D own w" for r g own w
    by (rule assured_bindp_harmless [OF drain stable that])
       (use assured_admit [OF assms(1-3) _ _ assms(6)] in \<open>auto simp: drawn_at_least_def\<close>)
  show ?thesis
    unfolding acquire_query_def
  proof (rule assured_bindp_harmless [OF only_read stable])
    fix row own w assume D: "?D own w"
    show "assured uuid kept ?Q (\<lambda>_. P) (bindp (case (row, legacy) of (None, Some l) \<Rightarrow> raise_if_rekey_pending sc l | _ \<Rightarrow> Return ()) (\<lambda>_.
       case row of None \<Rightarrow> Raise (ServingNotReadyError NotPublished)
       | Some r \<Rightarrow>
         if status r = Unpublished then Raise (ServingNotReadyError NotPublished)
         else if publication_id r \<noteq> None \<and> (status r = PublishingInPlace \<or> active_generation r = None)
         then Raise (ServingBusyError PublisherReconciling)
         else (case active_generation r of
             None \<Rightarrow> Raise (ServingNotReadyError NoReadyPublication)
           | Some generation \<Rightarrow>
               if status r \<notin> set servable_statuses
               then Raise (ServingNotReadyError NoReadyPublication)
               else bindp (check_query_drain r) (\<lambda>_. admit_query sc r generation)))) own w"
      by (rule assured_bindp_harmless [OF rekey stable D]) (use admit in \<open>auto split: option.split\<close>)
  qed (use assms(4,5) in \<open>auto simp: drawn_at_least_def\<close>)
qed

lemma assured_tolerated:
  assumes "assured uuid kept Q R m own w" "tolerated own w w'" "\<And>x. steady (Q x)" "\<And>e. steady (R e)"
  shows "assured uuid kept Q R m own w'"
proof (cases m)
  case (Return x)
  then show ?thesis using assms(1) stableD [OF assms(3) _ subset_refl assms(2)] by simp
next
  case (Raise e)
  then show ?thesis using assms(1) stableD [OF assms(4) _ subset_refl assms(2)] by simp
next
  case (Step s k)
  then show ?thesis using assms(1) tolerated_trans [OF assms(2)] by simp
qed

section \<open>The session\<close>

definition held_ids :: "(state_scope \<times> nat \<times> query_lease) list \<Rightarrow> string set" where
  "held_ids held = (\<lambda>h. q_lease_id (snd (snd h))) ` set held"

lemma held_idsI: "(sc, i, q) \<in> set held \<Longrightarrow> q_lease_id q \<in> held_ids held"
  by (force simp: held_ids_def)

definition pin_ids :: "session \<Rightarrow> string list" where
  "pin_ids s = map (\<lambda>p. q_lease_id (pin_lease p)) (objects s)"

definition held_on :: "nat \<Rightarrow> (state_scope \<times> nat \<times> query_lease) list \<Rightarrow> nat" where
  "held_on i held = length (filter (\<lambda>(sc, j, q). j = i) held)"

text \<open>Every query in progress refers to the registered pin of its scope, and the pins count their holders.\<close>

definition session_wf :: "session \<Rightarrow> (state_scope \<times> nat \<times> query_lease) list \<Rightarrow> bool" where
  "session_wf s held \<longleftrightarrow> distinct (pin_ids s) \<and> distinct (map fst (registered s))
     \<and> (\<forall>(sc, i) \<in> set (registered s). i < length (objects s) \<and> q_scope (pin_lease (objects s ! i)) = sc)
     \<and> (\<forall>(sc, i, q) \<in> set held. map_of (registered s) sc = Some i \<and> q_lease_id q = pin_ids s ! i)
     \<and> (\<forall>i < length (objects s). holders (objects s ! i) = int (held_on i held))"

definition leases_held :: "(state_scope \<times> nat \<times> query_lease) list \<Rightarrow> string set \<Rightarrow> world \<Rightarrow> bool" where
  "leases_held held own w \<longleftrightarrow> (\<forall>(sc, i, q) \<in> set held. q_scope q = sc \<and> safe_lease q own w)"

definition session_inv :: "(nat \<Rightarrow> string) \<Rightarrow> session \<Rightarrow> (state_scope \<times> nat \<times> query_lease) list \<Rightarrow> string set \<Rightarrow> world \<Rightarrow> bool" where
  "session_inv uuid s held own w \<longleftrightarrow> session_wf s held \<and> leases_held held own w
     \<and> set (pin_ids s) \<subseteq> own \<and> set (pin_ids s) \<subseteq> uuid ` {..<drawn w}"

lemma stable_leases_held: "steady (leases_held held)"
proof (unfold steady_def, intro allI impI)
  fix own own' w w'
  assume h: "leases_held held own w" "own \<subseteq> own'" "tolerated own w w'"
  show "leases_held held own' w'" using h(1) stableD [OF stable_safe_lease _ h(2,3)] by (auto simp: leases_held_def)
qed

lemma stable_session_inv: "steady (session_inv uuid s held)"
proof -
  have "uuid ` {..<drawn w} \<subseteq> uuid ` {..<drawn w'}" if "tolerated own w w'" for own w w'
    using that by (auto simp: tolerated_def)
  then show ?thesis
    unfolding steady_def session_inv_def using stableD [OF stable_leases_held] by blast
qed

lemma delete_other_lease: "i \<noteq> q_lease_id q \<Longrightarrow> safe_lease q own w \<Longrightarrow> safe_lease q own (sql_delete_lease i w)"
  by (auto simp: safe_lease_def lease_present_def list_ex_iff sql_delete_lease_def)

lemma delete_keeps_leases: "i \<notin> held_ids held \<Longrightarrow> leases_held held own w \<Longrightarrow> leases_held held own (sql_delete_lease i w)"
  unfolding leases_held_def by (auto intro!: delete_other_lease dest: held_idsI)

lemma immune_session_inv: "immune (held_ids held) (session_inv uuid s held)"
  unfolding immune_def session_inv_def using delete_keeps_leases by (auto simp: sql_delete_lease_def)

lemma pin_ids_change [simp]: "(\<And>p. pin_lease (f p) = pin_lease p) \<Longrightarrow> pin_ids (change_pin i f s) = pin_ids s"
  by (cases "i < length (objects s)") (simp_all add: change_pin_def pin_ids_def map_update list_update_same_conv list_update_beyond)

lemma registered_change [simp]: "registered (change_pin i f s) = registered s" "length (objects (change_pin i f s)) = length (objects s)"
  by (simp_all add: change_pin_def)

lemma pin_lease_change [simp]: "(\<And>p. pin_lease (f p) = pin_lease p) \<Longrightarrow> pin_lease (objects (change_pin i f s) ! j) = pin_lease (objects s ! j)"
  by (cases "i = j"; cases "i < length (objects s)") (simp_all add: change_pin_def list_update_beyond)

lemma pin_ids_registered [simp]: "pin_ids (s\<lparr>registered := x\<rparr>) = pin_ids s"
  by (simp add: pin_ids_def)

lemma pin_ids_retire [simp]: "pin_ids (retire_pin i s) = pin_ids s"
  by (simp add: retire_pin_def)

lemma pin_change [simp]: "i < length (objects s) \<Longrightarrow> objects (change_pin i f s) ! i = f (objects s ! i)"
  "i \<noteq> j \<Longrightarrow> objects (change_pin i f s) ! j = objects s ! j"
  by (simp_all add: change_pin_def)

lemma retire_pin_wf: "session_wf (retire_pin i s) held = session_wf s held"
proof -
  have "holders (objects (retire_pin i s) ! j) = holders (objects s ! j)" if "j < length (objects s)" for j
    using that by (cases "i = j") (simp_all add: retire_pin_def change_pin_def)
  then show ?thesis by (simp add: session_wf_def retire_pin_def)
qed

lemma retire_pin_inv: "session_inv uuid (retire_pin i s) held own w = session_inv uuid s held own w"
  by (simp add: session_inv_def retire_pin_wf)

text \<open>A registered pin nobody holds can be released: its lease is nobody's, and dropping it leaves the others registered.\<close>

lemma unheld_pin:
  assumes "session_wf s held" "(sc, i) \<in> set (registered s)" "holders (objects s ! i) = 0"
  shows "pin_ids s ! i \<notin> held_ids held \<and> session_wf (s\<lparr>registered := AList.delete sc (registered s)\<rparr>) held"
proof -
  have i: "i < length (objects s)" "map_of (registered s) sc = Some i" using assms(1,2) by (auto simp: session_wf_def intro: map_of_is_SomeI)
  then have none: "\<forall>(sc', j, q) \<in> set held. j \<noteq> i" using assms(1,3) by (auto simp: session_wf_def held_on_def filter_empty_conv)
  have refs: "j < length (pin_ids s)" "q_lease_id q = pin_ids s ! j" "map_of (registered s) sc' = Some j" if "(sc', j, q) \<in> set held" for sc' j q
    using assms(1) that by (auto simp: session_wf_def pin_ids_def dest!: map_of_SomeD)
  have "pin_ids s ! i \<noteq> q_lease_id q" if "(sc', j, q) \<in> set held" for sc' j q
  proof -
    have "j \<noteq> i" using none that by auto
    moreover have "distinct (pin_ids s)" "i < length (pin_ids s)" using assms(1) i(1) by (simp_all add: session_wf_def pin_ids_def)
    ultimately show ?thesis using refs(1,2) [OF that] by (simp add: nth_eq_iff_index_eq)
  qed
  moreover have "sc' \<noteq> sc" if "(sc', j, q) \<in> set held" for sc' j q
    using none refs(3) [OF that] i(2) that by auto
  then have "session_wf (s\<lparr>registered := AList.delete sc (registered s)\<rparr>) held"
    using assms(1) by (auto simp: session_wf_def delete_conv' distinct_delete) (auto simp: AList.delete_eq)
  ultimately show ?thesis unfolding held_ids_def by fastforce
qed

section \<open>The sections keep it\<close>

abbreviation no_failure :: "serving_error assertion" where
  "no_failure \<equiv> \<lambda>e own w. False"

lemma assured_release_pin:
  assumes "session_inv uuid s held own w" "(sc, i) \<in> set (registered s)" "holders (objects s ! i) = 0"
  shows "assured uuid (held_ids held) (\<lambda>(s', failure) own w. session_inv uuid s' held own w \<and> objects s' = objects (retire_pin i s)
      \<and> registered s' = (if failure = None then AList.delete sc (registered s) else registered s)) no_failure (release_pin s sc i) own w"
proof -
  define s1 where "s1 = retire_pin i s"
  define s2 where "s2 = s1\<lparr>registered := AList.delete sc (registered s1)\<rparr>"
  have wf: "session_wf s1 held" "session_inv uuid s1 held own w" using assms(1) by (simp_all add: s1_def retire_pin_inv retire_pin_wf session_inv_def)
  have i: "i < length (objects s)" using assms(1,2) by (auto simp: session_inv_def session_wf_def)
  have reg: "(sc, i) \<in> set (registered s1)" "holders (objects s1 ! i) = 0" "registered s1 = registered s"
    using assms(2,3) i by (simp_all add: s1_def retire_pin_def change_pin_def)
  have id: "q_lease_id (pin_lease (objects s1 ! i)) = pin_ids s1 ! i" using i by (simp add: pin_ids_def s1_def retire_pin_def)
  from unheld_pin [OF wf(1) reg(1,2)] have free: "q_lease_id (pin_lease (objects s1 ! i)) \<notin> held_ids held" and s2: "session_wf s2 held"
    unfolding id s2_def by simp_all
  have inv2: "session_inv uuid s2 held own w" if "session_inv uuid s1 held own w" for own w
    using that s2 by (simp add: session_inv_def s2_def)
  have "assured uuid (held_ids held) (\<lambda>_. session_inv uuid s1 held) (\<lambda>_. session_inv uuid s1 held) (release_query (pin_lease (objects s1 ! i))) own w"
    by (rule assured_release [OF stable_session_inv immune_session_inv wf(2) free])
  then show ?thesis
    unfolding release_pin_def Let_def s1_def [symmetric] s2_def [symmetric]
    by (intro assured_catchp assured_bindp) (erule assured_mono, auto simp: inv2, simp_all add: s2_def reg(3))
qed

lemma held_on_Cons: "held_on i ((sc, j, q) # held) = held_on i held + (if j = i then 1 else 0)"
  by (simp add: held_on_def)

lemma hold_pin_inv:
  assumes "session_inv uuid s held own w" "map_of (registered s) sc = Some i" "q_scope q = sc" "q_lease_id q = pin_ids s ! i" "safe_lease q own w"
  shows "session_inv uuid (change_pin i (\<lambda>p. p\<lparr>holders := holders p + 1\<rparr>) s) ((sc, i, q) # held) own w"
proof -
  have i: "i < length (objects s)" using assms(1,2) by (auto simp: session_inv_def session_wf_def dest!: map_of_SomeD)
  have "session_wf (change_pin i (\<lambda>p. p\<lparr>holders := holders p + 1\<rparr>) s) ((sc, i, q) # held)"
    using assms(1,2,4) i by (auto simp: session_inv_def session_wf_def held_on_Cons)
  then show ?thesis using assms by (simp add: session_inv_def leases_held_def)
qed

lemma held_on_remove1:
  "(sc, j, q) \<in> set held \<Longrightarrow> int (held_on i (remove1 (sc, j, q) held)) = int (held_on i held) - (if j = i then 1 else 0)"
  by (induction held) (auto simp: held_on_def)

lemma drop_pin_inv:
  assumes "session_inv uuid s held own w" "(sc, i, q) \<in> set held" "\<And>p. pin_lease (f p) = pin_lease p" "\<And>p. holders (f p) = holders p - 1"
  shows "session_inv uuid (change_pin i f s) (remove1 (sc, i, q) held) own w"
proof -
  have i: "i < length (objects s)" using assms(1,2) by (auto simp: session_inv_def session_wf_def dest!: map_of_SomeD)
  have "holders (objects (change_pin i f s) ! j) = int (held_on j (remove1 (sc, i, q) held))" if "j < length (objects s)" for j
    using assms(1,4) i that held_on_remove1 [OF assms(2), of j] by (cases "i = j") (simp_all add: session_inv_def session_wf_def)
  then have "session_wf (change_pin i f s) (remove1 (sc, i, q) held)"
    using assms(1,3) i by (auto simp: session_inv_def session_wf_def dest!: notin_set_remove1 [THEN contrapos_pp] set_remove1_subset [THEN subsetD])
  moreover have "leases_held (remove1 (sc, i, q) held) own w"
    using assms(1) set_remove1_subset [of "(sc, i, q)" held] by (fastforce simp: session_inv_def leases_held_def)
  ultimately show ?thesis using assms(1,3) by (simp add: session_inv_def)
qed

lemma assured_refresh_pin:
  assumes "session_inv uuid s held own w" "map_of (registered s) sc = Some i"
  shows "assured uuid (held_ids held) (\<lambda>(s', outcome) own w. session_inv uuid s' held own w \<and> (\<forall>j q. outcome = Inr (j, q) \<longrightarrow>
      map_of (registered s') sc = Some j \<and> q_scope q = sc \<and> q_lease_id q = pin_ids s' ! j \<and> safe_lease q own w)) no_failure (refresh_pin s sc i) own w"
proof -
  let ?q = "pin_lease (objects s ! i)"
  let ?Q = "\<lambda>(s', outcome) own w. session_inv uuid s' held own w \<and> (\<forall>j q. outcome = Inr (j, q) \<longrightarrow>
      map_of (registered s') sc = Some j \<and> q_scope q = sc \<and> q_lease_id q = pin_ids s' ! j \<and> safe_lease q own w)"
  have reg: "(sc, i) \<in> set (registered s)" using map_of_SomeD [OF assms(2)] .
  have i: "i < length (objects s)" and sc: "q_scope ?q = sc" using assms(1) reg by (auto simp: session_inv_def session_wf_def)
  have id: "q_lease_id ?q = pin_ids s ! i" using i by (simp add: pin_ids_def)
  have own: "q_lease_id ?q \<in> own" using assms(1) i unfolding id by (auto simp: session_inv_def pin_ids_def)
  have failed: "assured uuid (held_ids held) ?Q no_failure (if is_coordination_error e
        then (let s1 = retire_pin i s in
          if holders (objects s1 ! i) = 0
          then bindp (release_pin s1 sc i) (\<lambda>(s2, failure). Return (s2, Inl (case failure of None \<Rightarrow> e | Some e' \<Rightarrow> e')))
          else Return (s1, Inl e)) else Return (s, Inl e)) own w" if "session_inv uuid s held own w" for e own w
  proof -
    have s1: "session_inv uuid (retire_pin i s) held own w" "(sc, i) \<in> set (registered (retire_pin i s))"
      using that reg by (simp_all add: retire_pin_inv) (simp add: retire_pin_def)
    have "assured uuid (held_ids held) ?Q no_failure
        (bindp (release_pin (retire_pin i s) sc i) (\<lambda>(s2, failure). Return (s2, Inl (case failure of None \<Rightarrow> e | Some e' \<Rightarrow> e')))) own w"
      if "holders (objects (retire_pin i s) ! i) = 0"
      by (rule assured_bindp, rule assured_mono [OF assured_release_pin [OF s1 that]]) auto
    with s1(1) that show ?thesis by (auto simp: Let_def)
  qed
  have "assured uuid (held_ids held) (\<lambda>q. assured uuid (held_ids held) ?Q (\<lambda>_. session_inv uuid s held) (Return (s, Inr (i, q))))
      (\<lambda>_. session_inv uuid s held) (refresh_query ?q) own w"
    by (rule assured_mono [OF assured_refresh [OF stable_session_inv assms(1) own]]) (use assms(2) sc id in auto)
  then have "assured uuid (held_ids held) ?Q no_failure (catchp (bindp (refresh_query ?q) (\<lambda>q. Return (s, Inr (i, q))))
      (\<lambda>e. if is_coordination_error e
        then (let s1 = retire_pin i s in
          if holders (objects s1 ! i) = 0
          then bindp (release_pin s1 sc i) (\<lambda>(s2, failure). Return (s2, Inl (case failure of None \<Rightarrow> e | Some e' \<Rightarrow> e')))
          else Return (s1, Inl e)) else Return (s, Inl e))) own w"
    by (intro assured_catchp, intro assured_bindp) (erule assured_mono, simp, rule failed)
  then show ?thesis using assms(1) by (simp add: refresh_pin_def)
qed

lemma new_pin_inv:
  assumes "session_inv uuid s held own w" "map_of (registered s) sc = None" "q_scope q = sc"
    and "safe_lease q own w" "drawn_since uuid n (q_lease_id q) own w" "set (pin_ids s) \<subseteq> uuid ` {..<n}" "inj uuid"
  shows "session_inv uuid (s\<lparr>registered := AList.update sc (length (objects s)) (registered s),
      objects := objects s @ [\<lparr>pin_lease = q, holders = 0, idle_since = now, retiring = False\<rparr>]\<rparr>) held own w" (is "session_inv uuid ?s held own w")
proof -
  have ids: "pin_ids ?s = pin_ids s @ [q_lease_id q]" by (simp add: pin_ids_def)
  have fresh: "q_lease_id q \<notin> set (pin_ids s)" by (rule drawn_since_fresh [OF assms(7,5,6)])
  have regs: "AList.update sc (length (objects s)) (registered s) = registered s @ [(sc, length (objects s))]"
    using assms(2) by (intro update_new) (simp add: map_of_eq_None_iff)
  have held: "map_of (registered s) sc' = Some i" "q_lease_id q' = pin_ids s ! i" "i < length (objects s)" if "(sc', i, q') \<in> set held" for sc' i q'
    using assms(1) that by (fastforce simp: session_inv_def session_wf_def dest: map_of_SomeD)+
  have "held_on (length (objects s)) held = 0" using held(3) by (auto simp: held_on_def filter_empty_conv)
  moreover have "holders (objects s ! i) = int (held_on i held)" if "i < length (objects s)" for i
    using assms(1) that by (simp add: session_inv_def session_wf_def)
  ultimately have counts: "\<forall>i < length (objects ?s). holders (objects ?s ! i) = int (held_on i held)" by (auto simp: nth_append less_Suc_eq)
  have refs: "map_of (registered ?s) sc' = Some i \<and> q_lease_id q' = pin_ids ?s ! i" if "(sc', i, q') \<in> set held" for sc' i q'
    using held [OF that] assms(2) by (auto simp: update_conv' ids nth_append pin_ids_def)
  have "distinct (map fst (registered ?s))" using assms(1,2) by (simp add: regs session_inv_def session_wf_def map_of_eq_None_iff)
  moreover have "\<forall>(sc, i) \<in> set (registered ?s). i < length (objects ?s) \<and> q_scope (pin_lease (objects ?s ! i)) = sc"
    using assms(1,3) by (auto simp: regs session_inv_def session_wf_def nth_append)
  moreover have "distinct (pin_ids ?s)" using assms(1) fresh by (simp add: ids session_inv_def session_wf_def)
  ultimately have "session_wf ?s held" using counts refs unfolding session_wf_def by blast
  moreover have "q_lease_id q \<in> own" "q_lease_id q \<in> uuid ` {..<drawn w}" using assms(4,5) by (auto simp: safe_lease_def drawn_since_def)
  ultimately show ?thesis using assms(1) by (simp add: session_inv_def ids)
qed

definition entered_well where
  "entered_well uuid sc held = (\<lambda>(s', outcome) own w. case outcome of Inl e \<Rightarrow> session_inv uuid s' held own w
     | Inr (i, q) \<Rightarrow> session_inv uuid s' ((sc, i, q) # held) own w)"

lemma assured_admit_pin:
  assumes "inj uuid" "session_inv uuid s held own w"
  shows "assured uuid (held_ids held) (\<lambda>(s', outcome) own w. session_inv uuid s' held own w \<and> (\<forall>j q. outcome = Inr (j, q) \<longrightarrow>
      map_of (registered s') sc = Some j \<and> q_scope q = sc \<and> q_lease_id q = pin_ids s' ! j \<and> safe_lease q own w))
    no_failure (admit_pin stopped s sc legacy now) own w"
proof (cases "map_of (registered s) sc")
  case (Some i)
  then show ?thesis using assms(2) assured_refresh_pin [OF assms(2) Some] by (simp add: admit_pin_def)
next
  case None
  let ?Q = "\<lambda>(s', outcome) own w. session_inv uuid s' held own w \<and> (\<forall>j q. outcome = Inr (j, q) \<longrightarrow>
      map_of (registered s') sc = Some j \<and> q_scope q = sc \<and> q_lease_id q = pin_ids s' ! j \<and> safe_lease q own w)"
  let ?s = "\<lambda>q. s\<lparr>registered := AList.update sc (length (objects s)) (registered s),
      objects := objects s @ [\<lparr>pin_lease = q, holders = 0, idle_since = now, retiring = False\<rparr>]\<rparr>"
  have ids: "set (pin_ids s) \<subseteq> uuid ` {..<drawn w}" using assms(2) by (simp add: session_inv_def)
  have "held_ids held \<subseteq> set (pin_ids s)"
    using assms(2) by (fastforce simp: held_ids_def session_inv_def session_wf_def pin_ids_def dest!: map_of_SomeD)
  then have kept: "held_ids held \<subseteq> uuid ` {..<drawn w}" using ids by blast
  have new: "?Q (?s q, Inr (length (objects s), q)) own' w'"
    if "session_inv uuid s held own' w'" "q_scope q = sc" "safe_lease q own' w'" "drawn_since uuid (drawn w) (q_lease_id q) own' w'" for q own' w'
    using new_pin_inv [OF that(1) None that(2-4) ids assms(1)] that by (simp add: update_conv' pin_ids_def nth_append)
  have "assured uuid (held_ids held) (\<lambda>q. assured uuid (held_ids held) ?Q (\<lambda>_. session_inv uuid s held) (Return (?s q, Inr (length (objects s), q))))
      (\<lambda>_. session_inv uuid s held) (acquire_query sc (Some legacy)) own w"
    by (rule assured_mono [OF assured_acquire [OF assms(1) stable_session_inv immune_session_inv assms(2) order_refl kept]])
       (simp only: assured.simps, rule new, simp_all)
  then have "assured uuid (held_ids held) ?Q no_failure (catchp (bindp (acquire_query sc (Some legacy))
      (\<lambda>q. Return (?s q, Inr (length (objects s), q)))) (\<lambda>e. Return (s, Inl e))) own w"
    by (intro assured_catchp, intro assured_bindp) (erule assured_mono, simp_all)
  with None assms(2) show ?thesis by (simp add: admit_pin_def Let_def)
qed

lemma assured_enter:
  assumes "inj uuid" "session_inv uuid s held own w"
  shows "assured uuid (held_ids held) (entered_well uuid sc held) no_failure (enter_query stopped s sc legacy now) own w"
  unfolding enter_query_def
proof (rule assured_bindp, rule assured_mono [OF assured_admit_pin [OF assms]])
  fix x :: "session \<times> (serving_error + nat \<times> query_lease)" and own w
  assume x: "(\<lambda>(s', outcome) own w. session_inv uuid s' held own w \<and> (\<forall>j q. outcome = Inr (j, q) \<longrightarrow>
      map_of (registered s') sc = Some j \<and> q_scope q = sc \<and> q_lease_id q = pin_ids s' ! j \<and> safe_lease q own w)) x own w"
  obtain s' outcome where s': "x = (s', outcome)" by (cases x)
  have "entered_well uuid sc held (case outcome of Inl e \<Rightarrow> s' | Inr (i, q) \<Rightarrow> change_pin i (\<lambda>p. p\<lparr>holders := holders p + 1\<rparr>) s', outcome) own w"
  proof (cases outcome)
    case (Inl e)
    with x s' show ?thesis by (simp add: entered_well_def)
  next
    case (Inr iq)
    obtain i q where iq: "iq = (i, q)" by (cases iq)
    have "session_inv uuid (change_pin i (\<lambda>p. p\<lparr>holders := holders p + 1\<rparr>) s') ((sc, i, q) # held) own w"
      by (rule hold_pin_inv) (use x s' Inr iq in simp_all)
    with Inr iq show ?thesis by (simp add: entered_well_def)
  qed
  with s' show "assured uuid (held_ids held) (entered_well uuid sc held) no_failure ((\<lambda>(s1, outcome).
      Return (case outcome of Inl e \<Rightarrow> s1 | Inr (i, q) \<Rightarrow> change_pin i (\<lambda>p. p\<lparr>holders := holders p + 1\<rparr>) s1, outcome)) x) own w" by simp
qed simp

definition released_well where
  "released_well uuid held = (\<lambda>(s', failure :: serving_error option) own w. session_inv uuid s' held own w)"

lemma assured_return:
  assumes "session_inv uuid s held own w" "(sc, i, q) \<in> set held"
  shows "assured uuid (held_ids (remove1 (sc, i, q) held)) (released_well uuid (remove1 (sc, i, q) held)) no_failure
    (return_pin stopped s sc i succeeded now) own w"
proof -
  define s1 where "s1 = change_pin i (\<lambda>p. p\<lparr>holders := holders p - 1, idle_since := now, retiring := retiring p \<or> \<not> succeeded \<or> stopped\<rparr>) s"
  have s1: "session_inv uuid s1 (remove1 (sc, i, q) held) own w" unfolding s1_def by (rule drop_pin_inv [OF assms]) simp_all
  have "(sc, i) \<in> set (registered s1)" using assms by (auto simp: s1_def session_inv_def session_wf_def dest: map_of_SomeD)
  then have "assured uuid (held_ids (remove1 (sc, i, q) held)) (released_well uuid (remove1 (sc, i, q) held)) no_failure (release_pin s1 sc i) own w"
    if "holders (objects s1 ! i) = 0"
    by (rule assured_mono [OF assured_release_pin [OF s1 _ that]]) (auto simp: released_well_def)
  with s1 show ?thesis unfolding return_pin_def Let_def s1_def [symmetric] by (simp add: released_well_def)
qed

lemma assured_release_idle:
  assumes "session_inv uuid s held own w" "set idle \<subseteq> set (registered s)" "\<forall>(sc, i) \<in> set idle. holders (objects s ! i) = 0" "distinct (map fst idle)"
  shows "assured uuid (held_ids held) (released_well uuid held) no_failure (release_idle s idle) own w"
  using assms
proof (induction idle arbitrary: s own w)
  case (Cons x idle)
  obtain sc i where x: "x = (sc, i)" by (cases x)
  have reg: "(sc, i) \<in> set (registered s)" "holders (objects s ! i) = 0" using Cons.prems x by auto
  have next_ok: "assured uuid (held_ids held) (released_well uuid held) no_failure
      (case failure of None \<Rightarrow> release_idle s1 idle | Some e \<Rightarrow> Return (s1, Some e)) own w"
    if "session_inv uuid s1 held own w" "objects s1 = objects (retire_pin i s)"
      "registered s1 = (if failure = None then AList.delete sc (registered s) else registered s)" for s1 failure own w
  proof (cases failure)
    case None
    have "holders (objects s1 ! j) = holders (objects s ! j)" for j
      unfolding that(2) by (cases "i = j"; cases "i < length (objects s)") (simp_all add: retire_pin_def change_pin_def list_update_beyond)
    moreover have "set idle \<subseteq> set (registered s1)"
      using Cons.prems(2,4) x None that(3) by (force simp: AList.delete_eq)
    ultimately show ?thesis using Cons.IH [OF that(1)] Cons.prems(3,4) None by simp
  qed (use that in \<open>simp add: released_well_def\<close>)
  show ?case unfolding x release_idle.simps
    by (rule assured_bindp, rule assured_mono [OF assured_release_pin [OF Cons.prems(1) reg]]) (auto intro: next_ok)
qed (simp add: released_well_def)

lemma assured_sweep:
  assumes "session_inv uuid s held own w"
  shows "assured uuid (held_ids held) (released_well uuid held) no_failure (sweep_pins s closing now) own w"
  unfolding sweep_pins_def
proof (rule assured_release_idle [OF assms])
  show "distinct (map fst (idle_pins s closing now))"
    using assms by (auto simp: idle_pins_def session_inv_def session_wf_def intro: distinct_map_filter)
qed (auto simp: idle_pins_def Let_def)

section \<open>Every interleaving\<close>

fun running_ok :: "(nat \<Rightarrow> string) \<Rightarrow> section_run \<Rightarrow> session \<Rightarrow> (state_scope \<times> nat \<times> query_lease) list \<Rightarrow> string set \<Rightarrow> world \<Rightarrow> bool" where
  "running_ok uuid Idle s held own w = session_inv uuid s held own w"
| "running_ok uuid (Entering sc m) s held own w = assured uuid (held_ids held) (entered_well uuid sc held) no_failure m own w"
| "running_ok uuid (Releasing m) s held own w = assured uuid (held_ids held) (released_well uuid held) no_failure m own w"

definition system_inv :: "(nat \<Rightarrow> string) \<Rightarrow> pin_system \<Rightarrow> bool" where
  "system_inv uuid z \<longleftrightarrow> leases_held (sys_held z) (sys_own z) (sys_tables z)
     \<and> running_ok uuid (sys_running z) (sys_session z) (sys_held z) (sys_own z) (sys_tables z)"

lemma stable_wells: "steady (entered_well uuid sc held x)" "steady (released_well uuid held y)" "steady (no_failure e)"
proof -
  obtain s outcome where x: "x = (s, outcome)" by (cases x)
  show "steady (entered_well uuid sc held x)"
    by (cases outcome) (auto simp: x entered_well_def stable_session_inv)
  show "steady (released_well uuid held y)" by (cases y) (simp add: released_well_def stable_session_inv)
qed (simp add: steady_def)

lemma running_tolerated:
  assumes "running_ok uuid rn s held own w" "tolerated own w w'"
  shows "running_ok uuid rn s held own w'"
proof (cases rn)
  case Idle
  then show ?thesis using assms(1) stableD [OF stable_session_inv _ subset_refl assms(2)] by simp
next
  case (Entering sc m)
  then show ?thesis using assms(1) assured_tolerated [OF _ assms(2) stable_wells(1,3)] by simp
next
  case (Releasing m)
  then show ?thesis using assms(1) assured_tolerated [OF _ assms(2) stable_wells(2,3)] by simp
qed

lemma leases_held_statement:
  assumes "leases_held held own w" "ordinary_stmt s" "deleted s \<inter> held_ids held = {}"
  shows "leases_held held (own \<union> inserted s) (fst (exec_stmt uuid s w))"
proof -
  have t: "tolerated (held_ids held) w (fst (exec_stmt uuid s w))" by (rule exec_tolerated [OF assms(2,3)])
  have "leases_held held (held_ids held) w" using assms(1) by (auto simp: leases_held_def safe_lease_def intro: held_idsI)
  from stableD [OF stable_leases_held this subset_refl t] have "leases_held held (held_ids held) (fst (exec_stmt uuid s w))" .
  then show ?thesis using assms(1) by (auto simp: leases_held_def safe_lease_def)
qed

lemma session_step_inv:
  assumes "session_step uuid z z'" "system_inv uuid z" "inj uuid"
  shows "system_inv uuid z'"
  using assms(1)
proof (cases rule: session_step.cases)
  case (enter sc legacy now)
  then show ?thesis using assms(2) assured_enter [OF assms(3)] by (auto simp: system_inv_def)
next
  case (leave sc i q succeeded now)
  have "leases_held (remove1 (sc, i, q) (sys_held z)) (sys_own z) (sys_tables z)"
    using assms(2) set_remove1_subset [of "(sc, i, q)" "sys_held z"] by (fastforce simp: system_inv_def leases_held_def)
  then show ?thesis using leave assms(2) assured_return by (auto simp: system_inv_def)
next
  case (sweep closing now)
  then show ?thesis using assms(2) assured_sweep by (auto simp: system_inv_def)
next
  case (enter_statement sc s k w r)
  then show ?thesis using assms(2) leases_held_statement [of "sys_held z" "sys_own z" "sys_tables z" s uuid]
    by (auto simp: system_inv_def dest!: spec [where x = "sys_tables z"])
next
  case (enter_fault sc s k)
  then show ?thesis using assms(2) by (auto simp: system_inv_def dest!: spec [where x = "sys_tables z"])
next
  case (release_statement s k w r)
  then show ?thesis using assms(2) leases_held_statement [of "sys_held z" "sys_own z" "sys_tables z" s uuid]
    by (auto simp: system_inv_def dest!: spec [where x = "sys_tables z"])
next
  case (release_fault s k)
  then show ?thesis using assms(2) by (auto simp: system_inv_def dest!: spec [where x = "sys_tables z"])
next
  case (others s)
  have "tolerated (sys_own z) (sys_tables z) (fst (exec_stmt uuid s (sys_tables z)))" using exec_tolerated others by blast
  then show ?thesis
    using others assms(2) running_tolerated stableD [OF stable_leases_held _ subset_refl] by (auto simp: system_inv_def)
next
  case (tick t)
  have "tolerated (sys_own z) (sys_tables z) ((sys_tables z)\<lparr>clock := t\<rparr>)" by (simp add: tolerated_def)
  then show ?thesis
    using tick assms(2) running_tolerated stableD [OF stable_leases_held _ subset_refl] by (auto simp: system_inv_def)
qed (use assms(2) in \<open>auto simp: system_inv_def entered_well_def released_well_def session_inv_def\<close>)

lemma session_steps_inv: "(session_step uuid)\<^sup>*\<^sup>* z z' \<Longrightarrow> inj uuid \<Longrightarrow> system_inv uuid z \<Longrightarrow> system_inv uuid z'"
  by (induction rule: rtranclp_induct) (auto intro: session_step_inv)

definition new_session :: "world \<Rightarrow> pin_system" where
  "new_session w = \<lparr>sys_tables = w, sys_session = \<lparr>registered = [], objects = []\<rparr>, sys_stopped = False, sys_held = [], sys_own = {}, sys_running = Idle\<rparr>"

text \<open>
  C12: A query in progress keeps its lease. However the queries, sweeps and the closing of a session
  interleave with one another, with failing statements and with other sessions that delete only leases of
  their own, every query between its admission and its return has its lease row in the table, for its scope
  and its generation; and when no section is running, it refers to the pin registered for its scope, which counts its holders.
\<close>

theorem session_query_keeps_lease:
  assumes "inj uuid" "(session_step uuid)\<^sup>*\<^sup>* (new_session w) z" "(sc, i, q) \<in> set (sys_held z)"
  shows "lease_present q (sys_tables z) \<and> q_scope q = sc
    \<and> (sys_running z = Idle \<longrightarrow> map_of (registered (sys_session z)) sc = Some i
         \<and> holders (objects (sys_session z) ! i) = int (held_on i (sys_held z)))"
proof -
  have "system_inv uuid (new_session w)"
    by (simp add: system_inv_def new_session_def session_inv_def session_wf_def leases_held_def pin_ids_def)
  from session_steps_inv [OF assms(2,1) this] have inv: "system_inv uuid z" .
  have "holders (objects (sys_session z) ! i) = int (held_on i (sys_held z)) \<and> map_of (registered (sys_session z)) sc = Some i" if "sys_running z = Idle"
  proof -
    have wf: "session_wf (sys_session z) (sys_held z)" using inv that by (simp add: system_inv_def session_inv_def)
    then have "map_of (registered (sys_session z)) sc = Some i" using assms(3) by (auto simp: session_wf_def)
    with wf show ?thesis by (auto simp: session_wf_def dest: map_of_SomeD)
  qed
  then show ?thesis using inv assms(3) by (auto simp: system_inv_def leases_held_def safe_lease_def)
qed

lemma enter_runs:
  "sys_running z = Entering sc m \<Longrightarrow> run uuid m (sys_tables z) = (Inr x, w') \<Longrightarrow>
   \<exists>own'. (session_step uuid)\<^sup>*\<^sup>* z (z\<lparr>sys_tables := w', sys_own := own', sys_running := Entering sc (Return x)\<rparr>)"
proof (induction m arbitrary: z)
  case (Return y)
  then have "z = z\<lparr>sys_tables := w', sys_own := sys_own z, sys_running := Entering sc (Return x)\<rparr>" by simp
  then show ?case by (metis rtranclp.rtrancl_refl)
next
  case (Step s k)
  obtain w1 r where e: "exec_stmt uuid s (sys_tables z) = (w1, r)" by (cases "exec_stmt uuid s (sys_tables z)")
  let ?z = "z\<lparr>sys_tables := w1, sys_own := sys_own z \<union> inserted s, sys_running := Entering sc (k r)\<rparr>"
  have "session_step uuid z ?z" by (rule session_step.enter_statement [OF Step.prems(1) e])
  moreover obtain own' where "(session_step uuid)\<^sup>*\<^sup>* ?z (?z\<lparr>sys_tables := w', sys_own := own', sys_running := Entering sc (Return x)\<rparr>)"
    using Step.IH [of "k r" ?z] Step.prems(2) e by auto
  ultimately have "(session_step uuid)\<^sup>*\<^sup>* z (?z\<lparr>sys_tables := w', sys_own := own', sys_running := Entering sc (Return x)\<rparr>)"
    by (rule converse_rtranclp_into_rtranclp)
  then show ?case by auto
qed simp

lemma enter_alone:
  assumes "sys_running z = Idle" "run uuid (enter_query (sys_stopped z) (sys_session z) sc legacy now) (sys_tables z) = (Inr (s', Inr (i, q)), w')"
  shows "\<exists>own'. (session_step uuid)\<^sup>*\<^sup>* z (z\<lparr>sys_tables := w', sys_own := own', sys_session := s', sys_held := (sc, i, q) # sys_held z\<rparr>)"
proof -
  let ?z = "z\<lparr>sys_running := Entering sc (enter_query (sys_stopped z) (sys_session z) sc legacy now)\<rparr>"
  have first: "session_step uuid z ?z" by (rule session_step.enter [OF assms(1)])
  obtain own' where own': "(session_step uuid)\<^sup>*\<^sup>* ?z (?z\<lparr>sys_tables := w', sys_own := own', sys_running := Entering sc (Return (s', Inr (i, q)))\<rparr>)"
    using enter_runs [of ?z sc _ uuid "(s', Inr (i, q))" w'] assms(2) by auto
  let ?y = "?z\<lparr>sys_tables := w', sys_own := own', sys_running := Entering sc (Return (s', Inr (i, q)))\<rparr>"
  have "session_step uuid ?y (?y\<lparr>sys_session := s', sys_held := (sc, i, q) # sys_held ?y, sys_running := Idle\<rparr>)"
    by (rule session_step.entered) simp
  moreover have "?y\<lparr>sys_session := s', sys_held := (sc, i, q) # sys_held ?y, sys_running := Idle\<rparr>
      = z\<lparr>sys_tables := w', sys_own := own', sys_session := s', sys_held := (sc, i, q) # sys_held z\<rparr>" using assms(1) by simp
  ultimately have "(session_step uuid)\<^sup>*\<^sup>* z (z\<lparr>sys_tables := w', sys_own := own', sys_session := s', sys_held := (sc, i, q) # sys_held z\<rparr>)"
    using converse_rtranclp_into_rtranclp [OF first rtranclp.rtrancl_into_rtrancl [OF own']] by metis
  then show ?thesis by blast
qed

theorem session_query_keeps_lease_witness:
  "\<exists>z i q. (session_step ex_uuid)\<^sup>*\<^sup>* (new_session ex_ready) z \<and> sys_held z = [(ex_scope, i, q)]
     \<and> q_generation q = ''g1'' \<and> lease_present q (sys_tables z) \<and> holders (objects (sys_session z) ! i) = 1"
proof -
  define enter where "enter = run ex_uuid (enter_query False \<lparr>registered = [], objects = []\<rparr> ex_scope ex_scope 0) ex_ready"
  have fresh: "inj ex_uuid" by (auto simp: inj_def ex_uuid_def)
  have admitted: "case fst enter of Inr (s, Inr (i, q)) \<Rightarrow> q_generation q = ''g1'' | _ \<Rightarrow> False" unfolding enter_def by code_simp
  obtain r w where enter: "enter = (r, w)" by (cases enter)
  with admitted obtain s out where r: "r = Inr (s, out)" by (cases r) auto
  with admitted enter obtain iq where "out = Inr iq" by (cases out) auto
  with admitted enter r obtain i q where e: "enter = (Inr (s, Inr (i, q)), w)" "q_generation q = ''g1''" by (cases iq) auto
  obtain own' where reached: "(session_step ex_uuid)\<^sup>*\<^sup>* (new_session ex_ready)
      ((new_session ex_ready)\<lparr>sys_tables := w, sys_own := own', sys_session := s, sys_held := [(ex_scope, i, q)]\<rparr>)"
    using enter_alone [of "new_session ex_ready" ex_uuid ex_scope ex_scope 0 s i q w] e(1) by (auto simp: new_session_def enter_def)
  let ?z = "(new_session ex_ready)\<lparr>sys_tables := w, sys_own := own', sys_session := s, sys_held := [(ex_scope, i, q)]\<rparr>"
  have "lease_present q (sys_tables ?z) \<and> holders (objects (sys_session ?z) ! i) = 1"
    using session_query_keeps_lease [OF fresh reached, of ex_scope i q] by (simp add: new_session_def held_on_def)
  with reached e(2) show ?thesis by (intro exI [of _ ?z] exI [of _ i] exI [of _ q]) simp
qed

end
