(* ===== verification/Keyed_Table.thy ===== *)
theory Keyed_Table
  imports Prelude
begin

text \<open>
  Tables with a primary key, as lists of rows in physical order: \<open>keyed_put\<close> is
  \<^verbatim>\<open>INSERT ... ON CONFLICT (key) DO UPDATE\<close> of one row and \<open>keyed_find\<close> a lookup by key. The state table
  of the warehouse and a collection of the search store are both such tables. The locale
  \<open>keyed_store\<close> is what publication relies on of either, with the lemma that reconciling a table
  against its upstream makes it exactly the upstream.
\<close>

definition keyed_find :: "('r \<Rightarrow> 'k) \<Rightarrow> 'r list \<Rightarrow> 'k \<Rightarrow> 'r option" where
  "keyed_find key t k = find (\<lambda>x. key x = k) t"

definition keyed_put :: "('r \<Rightarrow> 'k) \<Rightarrow> 'r \<Rightarrow> 'r list \<Rightarrow> 'r list" where
  "keyed_put key r t =
     (if key r \<in> key ` set t then map (\<lambda>x. if key x = key r then r else x) t else t @ [r])"

lemma keyed_find_None: "keyed_find key t k = None \<longleftrightarrow> k \<notin> key ` set t"
  by (auto simp: keyed_find_def find_None_iff)

lemma keyed_find_absent [simp]: "k \<notin> key ` set t \<Longrightarrow> keyed_find key t k = None"
  by (simp add: keyed_find_None)

lemma keyed_find_Nil [simp]: "keyed_find key [] k = None"
  by (simp add: keyed_find_def)

lemma keyed_find_Cons: "keyed_find key (x # t) k = (if key x = k then Some x else keyed_find key t k)"
  by (simp add: keyed_find_def)

lemma keyed_find_append: "keyed_find key (t @ u) k = (case keyed_find key t k of None \<Rightarrow> keyed_find key u k | Some x \<Rightarrow> Some x)"
  by (induction t) (auto simp: keyed_find_Cons)

lemma keyed_find_SomeD: "keyed_find key t k = Some x \<Longrightarrow> x \<in> set t \<and> key x = k"
  by (auto simp: keyed_find_def find_Some_iff)

lemma keyed_find_mem: "distinct (map key t) \<Longrightarrow> x \<in> set t \<Longrightarrow> keyed_find key t (key x) = Some x"
  by (induction t) (auto simp: keyed_find_Cons)

lemma map_keyed_find:
  "keyed_find key (map (\<lambda>x. if key x = key r then r else x) t) k =
     (if k = key r \<and> key r \<in> key ` set t then Some r else keyed_find key t k)"
  by (induction t) (auto simp: keyed_find_Cons)

lemma keyed_find_put: "keyed_find key (keyed_put key r t) k = (if k = key r then Some r else keyed_find key t k)"
  by (cases "key r \<in> key ` set t")
    (auto simp: keyed_put_def map_keyed_find keyed_find_append keyed_find_Cons keyed_find_None split: option.splits)

lemma keys_put: "key ` set (keyed_put key r t) = insert (key r) (key ` set t)"
  by (auto simp: keyed_put_def)

lemma distinct_put: "distinct (map key t) \<Longrightarrow> distinct (map key (keyed_put key r t))"
proof -
  have "map key (map (\<lambda>x. if key x = key r then r else x) t) = map key t" by simp
  then show "distinct (map key t) \<Longrightarrow> ?thesis" by (auto simp: keyed_put_def simp del: map_map)
qed

lemma keyed_find_puts:
  assumes "distinct (map key rs)"
  shows "keyed_find key (fold (keyed_put key) rs t) k =
    (case keyed_find key rs k of None \<Rightarrow> keyed_find key t k | Some r \<Rightarrow> Some r)"
  using assms
proof (induction rs arbitrary: t)
  case (Cons r rs)
  show ?case
  proof (cases "k = key r")
    case True
    with Cons.prems have "k \<notin> key ` set rs" by simp
    then have "keyed_find key rs k = None" by simp
    with True Cons show ?thesis by (simp add: keyed_find_Cons keyed_find_put)
  next
    case False
    with Cons show ?thesis by (simp add: keyed_find_Cons keyed_find_put cong: option.case_cong)
  qed
qed simp

lemma distinct_puts: "distinct (map key t) \<Longrightarrow> distinct (map key (fold (keyed_put key) rs t))"
  by (induction rs arbitrary: t) (auto simp: distinct_put)

lemma keyed_find_drop:
  "keyed_find key (filter (\<lambda>x. key x \<notin> S) t) k = (if k \<in> S then None else keyed_find key t k)"
  by (induction t) (auto simp: keyed_find_Cons)

lemma distinct_drop: "distinct (map key t) \<Longrightarrow> distinct (map key (filter P t))"
  by (induction t) auto

lemma length_keyed: "distinct (map key t) \<Longrightarrow> length t = card {k. keyed_find key t k \<noteq> None}"
proof -
  assume "distinct (map key t)"
  then have "length t = card (key ` set t)" by (metis distinct_card length_map set_map)
  moreover have "{k. keyed_find key t k \<noteq> None} = key ` set t" by (auto simp: keyed_find_None)
  ultimately show ?thesis by simp
qed

section \<open>Reconciling a table with its upstream\<close>

text \<open>
  \<open>look\<close> reads the value under a key, \<open>put\<close> and \<open>remove\<close> are the two writes of the publication loop;
  \<open>key\<close> and \<open>val\<close> are the key and the value of the rows that are written.
\<close>

locale keyed_store =
  fixes look :: "'t \<Rightarrow> string \<Rightarrow> 'v option"
    and put :: "'r list \<Rightarrow> 't \<Rightarrow> 't"
    and remove :: "string list \<Rightarrow> 't \<Rightarrow> 't"
    and key :: "'r \<Rightarrow> string"
    and val :: "'r \<Rightarrow> 'v"
  assumes look_put: "distinct (map key rs) \<Longrightarrow>
      look (put rs t) k = (case keyed_find key rs k of None \<Rightarrow> look t k | Some r \<Rightarrow> Some (val r))"
    and look_remove: "look (remove ks t) k = (if k \<in> set ks then None else look t k)"
begin

definition current :: "'r list \<Rightarrow> 't \<Rightarrow> bool" where
  "current rows t \<longleftrightarrow> (\<forall>r \<in> set rows. look t (key r) = Some (val r))"

lemma current_put:
  assumes "distinct (map key rs)" "current others t"
    and "\<And>r s. \<lbrakk>r \<in> set rs; s \<in> set others; key r = key s\<rbrakk> \<Longrightarrow> val r = val s"
  shows "current (others @ rs) (put rs t)"
proof -
  have "look (put rs t) (key s) = Some (val s)" if s: "s \<in> set others" for s
  proof (cases "keyed_find key rs (key s)")
    case None
    with s assms(1,2) show ?thesis by (simp add: current_def look_put)
  next
    case (Some r)
    have "r \<in> set rs" "key r = key s" using keyed_find_SomeD [OF Some] by simp_all
    with s assms(3) have "val r = val s" by blast
    with Some assms(1) show ?thesis by (simp add: look_put)
  qed
  moreover have "look (put rs t) (key r) = Some (val r)" if "r \<in> set rs" for r
    using that assms(1) by (simp add: look_put keyed_find_mem)
  ultimately show ?thesis by (auto simp: current_def)
qed

lemma current_remove: "current rows t \<Longrightarrow> set ks \<inter> key ` set rows = {} \<Longrightarrow> current rows (remove ks t)"
  by (auto simp: current_def look_remove)

lemma current_exact:
  assumes "distinct (map key rows)" "current rows t" "\<And>k. look t k \<noteq> None \<Longrightarrow> k \<in> key ` set rows"
  shows "look t k = map_option val (keyed_find key rows k)"
proof (cases "keyed_find key rows k")
  case None
  then show ?thesis using assms(3) [of k] by (cases "look t k") (auto simp: keyed_find_None)
next
  case (Some r)
  have "r \<in> set rows" "key r = k" using keyed_find_SomeD [OF Some] by simp_all
  with Some assms(2) show ?thesis by (auto simp: current_def)
qed

end

end
