(* ===== verification/State_Table.thy ===== *)
theory State_Table
  imports Warehouse Keyed_Table
begin

text \<open>
  The table of published records (\<^verbatim>\<open>stel_state\<close>): one row per scope and record key with the
  fingerprint of what was published and the code version that published it. The operations are those
  of \<^verbatim>\<open>adapters/base.py\<close> and their SQL statements in \<^verbatim>\<open>adapters/duckdb.py\<close>; a statement, or a block
  under \<^verbatim>\<open>_transaction\<close>, is one step that happens or not. The list is the table in its physical order.

  The locale \<open>state_store\<close> is what the publication code relies on: a partial map per scope, with
  lookups of a subset of keys, upserts and deletions. It is interpreted for the statements here.
\<close>

section \<open>Rows and records\<close>

record state_row =
  sr_scope :: state_scope
  sr_key :: string
  sr_fingerprint :: string
  sr_version :: string
  sr_last_run :: int

record state_record =
  st_key :: string
  st_fingerprint :: string
  st_version :: string

datatype state_error =
    EmptyField
  | DuplicateRecords
  | EmptyKey
  | DuplicateKeys
  | TooManyKeys
  | DuplicateAcrossBatches
  | StaleStateFence

type_synonym state_value = "string \<times> string"

definition new_state_record :: "string \<Rightarrow> string \<Rightarrow> string \<Rightarrow> state_error + state_record" where
  "new_state_record key fp version =
     rbind (guard (key \<noteq> [] \<and> fp \<noteq> [] \<and> version \<noteq> []) EmptyField)
       (\<lambda>_. Inr \<lparr>st_key = key, st_fingerprint = fp, st_version = version\<rparr>)"

definition validate_state_records :: "state_record list \<Rightarrow> state_error + unit" where
  "validate_state_records rs = guard (distinct (map st_key rs)) DuplicateRecords"

definition validate_state_keys :: "string list \<Rightarrow> state_error + unit" where
  "validate_state_keys ks =
     rbind (guard ([] \<notin> set ks) EmptyKey) (\<lambda>_. guard (distinct ks) DuplicateKeys)"

definition max_state_subset_keys :: int where
  "max_state_subset_keys = 100000"

section \<open>Statements\<close>

definition scope_state :: "state_scope \<Rightarrow> state_row list \<Rightarrow> state_row list" where
  "scope_state sc t = filter (\<lambda>r. sr_scope r = sc) t"

definition row_of :: "state_scope \<Rightarrow> int \<Rightarrow> state_record \<Rightarrow> state_row" where
  "row_of sc now r = \<lparr>sr_scope = sc, sr_key = st_key r, sr_fingerprint = st_fingerprint r,
     sr_version = st_version r, sr_last_run = now\<rparr>"

definition state_key :: "state_row \<Rightarrow> state_scope \<times> string" where
  "state_key x = (sr_scope x, sr_key x)"

definition sql_upsert_rows :: "state_scope \<Rightarrow> int \<Rightarrow> state_record list \<Rightarrow> state_row list \<Rightarrow> state_row list" where
  "sql_upsert_rows sc now rs t = fold (keyed_put state_key) (map (row_of sc now) rs) t"

definition sql_insert_rows :: "state_scope \<Rightarrow> int \<Rightarrow> state_record list \<Rightarrow> state_row list \<Rightarrow> state_row list option" where
  "sql_insert_rows sc now rs t =
     (if distinct (map st_key rs) \<and> (\<forall>r \<in> set rs. (sc, st_key r) \<notin> state_key ` set t)
      then Some (t @ map (row_of sc now) rs) else None)"

definition sql_clear_rows :: "state_scope \<Rightarrow> state_row list \<Rightarrow> state_row list" where
  "sql_clear_rows sc t = filter (\<lambda>x. sr_scope x \<noteq> sc) t"

definition sql_delete_rows :: "state_scope \<Rightarrow> string list \<Rightarrow> state_row list \<Rightarrow> state_row list" where
  "sql_delete_rows sc ks t = filter (\<lambda>x. \<not> (sr_scope x = sc \<and> sr_key x \<in> set ks)) t"

section \<open>Operations of the adapter\<close>

definition fetch_state :: "state_scope \<Rightarrow> state_row list \<Rightarrow> (string \<times> state_value) list" where
  "fetch_state sc t = dict_of (map (\<lambda>r. (sr_key r, (sr_fingerprint r, sr_version r))) (scope_state sc t))"

definition fetch_state_subset ::
  "state_scope \<Rightarrow> string list \<Rightarrow> state_row list \<Rightarrow> state_error + (string \<times> state_value) list" where
  "fetch_state_subset sc ks t =
     rbind (validate_state_keys ks) (\<lambda>_.
     rbind (guard (int (length ks) \<le> max_state_subset_keys) TooManyKeys) (\<lambda>_.
       Inr (if ks = [] then []
         else dict_of (map (\<lambda>r. (sr_key r, (sr_fingerprint r, sr_version r)))
           (filter (\<lambda>r. sr_key r \<in> set ks) (scope_state sc t))))))"

definition upsert_state :: "state_scope \<Rightarrow> int \<Rightarrow> state_record list \<Rightarrow> state_row list \<Rightarrow> state_error + state_row list" where
  "upsert_state sc now rs t =
     rbind (validate_state_records rs) (\<lambda>_. Inr (if rs = [] then t else sql_upsert_rows sc now rs t))"

definition replace_state :: "state_scope \<Rightarrow> int \<Rightarrow> state_record list \<Rightarrow> state_row list \<Rightarrow> state_error + state_row list" where
  "replace_state sc now rs t =
     rbind (validate_state_records rs) (\<lambda>_.
       case sql_insert_rows sc now rs (sql_clear_rows sc t) of
         None \<Rightarrow> Inl DuplicateRecords | Some t' \<Rightarrow> Inr t')"

definition clear_state :: "state_scope \<Rightarrow> state_row list \<Rightarrow> state_row list" where
  "clear_state sc t = sql_clear_rows sc t"

definition delete_state :: "state_scope \<Rightarrow> string list \<Rightarrow> state_row list \<Rightarrow> state_error + state_row list" where
  "delete_state sc ks t =
     rbind (validate_state_keys ks) (\<lambda>_. Inr (if ks = [] then t else sql_delete_rows sc ks t))"

text \<open>
  \<^verbatim>\<open>replace_state_scope\<close>: batches are validated as they are pulled, inside the transaction; any failure
  rolls it back. The fence is the ledger claim that must still hold, checked first.
\<close>

record state_scope_fence =
  f_publication_id :: string
  f_token :: int

definition verify_state_fence :: "state_scope \<Rightarrow> state_scope_fence \<Rightarrow> world \<Rightarrow> state_error + unit" where
  "verify_state_fence sc f w =
     guard (length (filter (\<lambda>r. publication_id r = Some (f_publication_id f) \<and> fencing_token r = f_token f)
       (scope_rows sc w)) = 1) StaleStateFence"

fun insert_batches :: "state_scope \<Rightarrow> int \<Rightarrow> state_record list list \<Rightarrow> nat \<Rightarrow> state_row list \<Rightarrow> state_error + (nat \<times> state_row list)" where
  "insert_batches sc now [] written t = Inr (written, t)"
| "insert_batches sc now (b # bs) written t =
     rbind (validate_state_records b) (\<lambda>_.
       if b = [] then insert_batches sc now bs written t
       else (case sql_insert_rows sc now b t of
           None \<Rightarrow> Inl DuplicateAcrossBatches
         | Some t' \<Rightarrow> insert_batches sc now bs (written + length b) t'))"

definition replace_state_scope ::
  "state_scope \<Rightarrow> int \<Rightarrow> state_record list list \<Rightarrow> state_scope_fence option \<Rightarrow> world \<Rightarrow> state_row list
   \<Rightarrow> (state_error + nat) \<times> state_row list" where
  "replace_state_scope sc now bs fence w t =
     (case rbind (case fence of None \<Rightarrow> Inr () | Some f \<Rightarrow> verify_state_fence sc f w)
        (\<lambda>_. insert_batches sc now bs 0 (sql_clear_rows sc t)) of
        Inl e \<Rightarrow> (Inl e, t) | Inr (n, t') \<Rightarrow> (Inr n, t'))"

section \<open>The table as a map\<close>

definition state_pk :: "state_row list \<Rightarrow> bool" where
  "state_pk t \<longleftrightarrow> distinct (map state_key t)"

definition state_value_of :: "state_row \<Rightarrow> state_value" where
  "state_value_of r = (sr_fingerprint r, sr_version r)"

definition state_at :: "state_scope \<Rightarrow> state_row list \<Rightarrow> string \<Rightarrow> state_value option" where
  "state_at sc t k = map_option state_value_of (keyed_find state_key t (sc, k))"

lemma row_of_simps [simp]:
  "sr_scope (row_of sc now r) = sc"
  "sr_key (row_of sc now r) = st_key r"
  "sr_fingerprint (row_of sc now r) = st_fingerprint r"
  "sr_version (row_of sc now r) = st_version r"
  "state_key (row_of sc now r) = (sc, st_key r)"
  "state_value_of (row_of sc now r) = (st_fingerprint r, st_version r)"
  by (simp_all add: row_of_def state_key_def state_value_of_def)

lemma keyed_find_rows:
  "keyed_find state_key (map (row_of sc now) rs) (sc', k) =
     (if sc' = sc then map_option (row_of sc now) (keyed_find st_key rs k) else None)"
  by (induction rs) (auto simp: keyed_find_Cons)

lemma distinct_rows: "distinct (map state_key (map (row_of sc now) rs)) = distinct (map st_key rs)"
  by (induction rs) (auto simp: image_iff)

lemma state_at_upsert:
  "distinct (map st_key rs) \<Longrightarrow> state_at sc' (sql_upsert_rows sc now rs t) k =
     (case if sc' = sc then keyed_find st_key rs k else None of
        None \<Rightarrow> state_at sc' t k | Some r \<Rightarrow> Some (st_fingerprint r, st_version r))"
  unfolding state_at_def sql_upsert_rows_def
  by (subst keyed_find_puts) (auto simp: distinct_rows keyed_find_rows simp del: map_map split: option.splits)

lemma state_at_delete:
  "state_at sc' (sql_delete_rows sc ks t) k = (if sc' = sc \<and> k \<in> set ks then None else state_at sc' t k)"
proof -
  have "sql_delete_rows sc ks t = filter (\<lambda>x. state_key x \<notin> {sc} \<times> set ks) t"
    by (auto simp: sql_delete_rows_def state_key_def intro: filter_cong)
  then show ?thesis by (simp add: state_at_def keyed_find_drop)
qed

lemma state_at_clear: "state_at sc' (sql_clear_rows sc t) k = (if sc' = sc then None else state_at sc' t k)"
proof -
  have "sql_clear_rows sc t = filter (\<lambda>x. state_key x \<notin> {sc} \<times> UNIV) t"
    by (auto simp: sql_clear_rows_def state_key_def intro: filter_cong)
  then show ?thesis by (simp add: state_at_def keyed_find_drop)
qed

lemma state_pk_writes:
  "state_pk t \<Longrightarrow> state_pk (sql_upsert_rows sc now rs t)"
  "state_pk t \<Longrightarrow> state_pk (sql_delete_rows sc ks t)"
  "state_pk t \<Longrightarrow> state_pk (sql_clear_rows sc t)"
  by (simp_all add: state_pk_def sql_upsert_rows_def sql_delete_rows_def sql_clear_rows_def distinct_puts distinct_drop)

lemma sql_insert_rows_Some:
  assumes "sql_insert_rows sc now rs t = Some t'"
  shows "t' = sql_upsert_rows sc now rs t \<and> distinct (map st_key rs)"
proof -
  have fresh: "fold (keyed_put key) rows t = t @ rows"
    if "distinct (map key rows)" "key ` set rows \<inter> key ` set t = {}" for key :: "state_row \<Rightarrow> _" and rows t
    using that by (induction rows arbitrary: t) (auto simp: keyed_put_def)
  have "distinct (map st_key rs)" "t' = t @ map (row_of sc now) rs"
      "state_key ` set (map (row_of sc now) rs) \<inter> state_key ` set t = {}"
    using assms by (auto simp: sql_insert_rows_def image_iff split: if_splits) (metis prod.inject)
  then show ?thesis by (simp add: sql_upsert_rows_def fresh distinct_rows del: map_map)
qed

text \<open>A lookup of a subset of keys is the map restricted to them.\<close>

lemma map_of_distinct_rows:
  assumes "distinct (map state_key t)"
  shows "map_of (map (\<lambda>r. (sr_key r, state_value_of r)) (filter (\<lambda>r. sr_scope r = sc \<and> P (sr_key r)) t)) k =
      (if P k then map_option state_value_of (keyed_find state_key t (sc, k)) else None)
    \<and> distinct (map sr_key (filter (\<lambda>r. sr_scope r = sc \<and> P (sr_key r)) t))"
  using assms by (induction t) (auto simp: keyed_find_Cons state_key_def image_iff)

lemma fetch_state_subset_ok:
  assumes "state_pk t" "distinct ks" "[] \<notin> set ks" "int (length ks) \<le> max_state_subset_keys"
  obtains d where "fetch_state_subset sc ks t = Inr d" "map_of d = state_at sc t |` set ks"
proof -
  let ?f = "\<lambda>r. (sr_key r, state_value_of r)"
  let ?rows = "filter (\<lambda>r. sr_scope r = sc \<and> sr_key r \<in> set ks) t"
  note rows = map_of_distinct_rows [of t sc "\<lambda>k. k \<in> set ks"]
  have "distinct (map fst (map ?f ?rows))" using rows assms(1) by (simp add: state_pk_def comp_def)
  then have d: "dict_of (map ?f ?rows) = map ?f ?rows" by (rule dict_of_distinct)
  have "fetch_state_subset sc ks t = Inr (if ks = [] then [] else map ?f ?rows)"
    using assms d by (simp add: fetch_state_subset_def validate_state_keys_def guard_def scope_state_def
        state_value_of_def conj_commute)
  moreover have "map_of (if ks = [] then [] else map ?f ?rows) = state_at sc t |` set ks"
    using rows assms(1) by (auto simp: fun_eq_iff restrict_map_def state_at_def state_pk_def)
  ultimately show ?thesis by (rule that)
qed

text \<open>The operations in terms of the map.\<close>

lemma upsert_state_ok:
  "distinct (map st_key rs) \<Longrightarrow> upsert_state sc now rs t = Inr (sql_upsert_rows sc now rs t)"
  by (simp add: upsert_state_def validate_state_records_def guard_def sql_upsert_rows_def)

lemma delete_state_ok:
  "distinct ks \<Longrightarrow> [] \<notin> set ks \<Longrightarrow> delete_state sc ks t = Inr (sql_delete_rows sc ks t)"
  by (simp add: delete_state_def validate_state_keys_def guard_def sql_delete_rows_def)

interpretation state: keyed_store "state_at sc" "sql_upsert_rows sc now" "sql_delete_rows sc" st_key
    "\<lambda>r. (st_fingerprint r, st_version r)" for sc now
  by unfold_locales (simp_all add: state_at_upsert state_at_delete)

end
