(* ===== verification/Hashing.thy ===== *)
theory Hashing
  imports Prelude "HOL-Library.Multiset" "HOL-Library.Word"
begin

text \<open>
  Canonical values and fingerprints (\<^verbatim>\<open>src/stel/hashing.py\<close>): the tagged form a value is brought
  into, its JSON text, and the framed bytes that are hashed. A value carries the identity of its
  Python type where the source records it; mappings are lists of entries and sets lists of elements,
  in iteration order. A float is its 64 bits; dates and times are their ISO text; a value the source
  converts before it is encoded (a decimal, a pydantic special) carries the converted value; a value
  that \<^verbatim>\<open>to_jsonable_python\<close> does not convert, which raises, is outside the type.

  The digest itself (\<^verbatim>\<open>hashlib.blake2b\<close>) is a parameter of \<open>canonical_fingerprint\<close>.
\<close>

section \<open>JSON text\<close>

datatype jval = JStr string | JBool bool | JFold bool | JList "jval list"

definition hex_char :: "nat \<Rightarrow> char" where
  "hex_char n = char_of (if n < 10 then 48 + n else 87 + n)"

definition esc :: "char \<Rightarrow> string" where
  "esc c =
     (if c = CHR 0x22 then [CHR 0x5C, CHR 0x22]
      else if c = CHR 0x5C then [CHR 0x5C, CHR 0x5C]
      else if c = CHR 0x0A then [CHR 0x5C, CHR ''n'']
      else if c = CHR 0x0D then [CHR 0x5C, CHR ''r'']
      else if c = CHR 0x09 then [CHR 0x5C, CHR ''t'']
      else if c = CHR 0x0C then [CHR 0x5C, CHR ''f'']
      else if c = CHR 0x08 then [CHR 0x5C, CHR ''b'']
      else if (of_char c :: nat) < 32 then [CHR 0x5C, CHR ''u'', CHR ''0'', CHR ''0'',
        hex_char (of_char c div 16), hex_char (of_char c mod 16)]
      else [c])"

definition json_string :: "string \<Rightarrow> string" where
  "json_string s = CHR 0x22 # concat (map esc s) @ [CHR 0x22]"

fun encoded_json :: "jval \<Rightarrow> string" where
  "encoded_json (JStr s) = json_string s"
| "encoded_json (JBool b) = (if b then ''true'' else ''false'')"
| "encoded_json (JFold b) = (if b then ''1'' else ''0'')"
| "encoded_json (JList xs) = CHR ''['' # py_join '','' (map encoded_json xs) @ '']''"

section \<open>Canonical values\<close>

datatype hval =
    HNone
  | HBool bool
  | HInt int
  | HFloat "64 word"
  | HComplex "64 word" "64 word"
  | HStr string
  | HBytes string
  | HBytearray string
  | HMemoryview string
  | HDatetime string bool
  | HDate string
  | HTime string bool
  | HPath string string
  | HEnum string hval
  | HModel string hval
  | HSpecial string hval
  | HSeq string "hval list"
  | HMap string "(hval \<times> hval) list"
  | HSet string "hval list"

fun nat_digits :: "nat \<Rightarrow> string" where
  "nat_digits n = (if n < 10 then [char_of (48 + n)] else nat_digits (n div 10) @ [char_of (48 + n mod 10)])"

declare nat_digits.simps [simp del]

definition py_str_int :: "int \<Rightarrow> string" where
  "py_str_int n = (if n < 0 then CHR ''-'' # nat_digits (nat (- n)) else nat_digits (nat n))"

fun hex_digits :: "nat \<Rightarrow> nat \<Rightarrow> string" where
  "hex_digits 0 n = []"
| "hex_digits (Suc k) n = hex_digits k (n div 16) @ [hex_char (n mod 16)]"

definition bytes_hex :: "string \<Rightarrow> string" where
  "bytes_hex bs = concat (map (\<lambda>b. hex_digits 2 (of_char b)) bs)"

fun canonical_value :: "hval \<Rightarrow> jval" where
  "canonical_value HNone = JList [JStr ''none'']"
| "canonical_value (HBool b) = JList [JStr ''bool'', JBool b]"
| "canonical_value (HInt n) = JList [JStr ''int'', JStr (py_str_int n)]"
| "canonical_value (HFloat x) = JList [JStr ''float'', JStr (hex_digits 16 (unat x))]"
| "canonical_value (HComplex re im) = JList [JStr ''complex'', JStr (hex_digits 16 (unat re)), JStr (hex_digits 16 (unat im))]"
| "canonical_value (HStr s) = JList [JStr ''string'', JStr s]"
| "canonical_value (HBytes b) = JList [JStr ''bytes'', JStr (bytes_hex b)]"
| "canonical_value (HBytearray b) = JList [JStr ''bytearray'', JStr (bytes_hex b)]"
| "canonical_value (HMemoryview b) = JList [JStr ''memoryview'', JStr (bytes_hex b)]"
| "canonical_value (HDatetime t later) = JList [JStr ''datetime'', JStr t, JFold later]"
| "canonical_value (HDate t) = JList [JStr ''date'', JStr t]"
| "canonical_value (HTime t later) = JList [JStr ''time'', JStr t, JFold later]"
| "canonical_value (HPath ty p) = JList [JStr ''path'', JStr ty, JStr p]"
| "canonical_value (HEnum ty v) = JList [JStr ''enum'', JStr ty, canonical_value v]"
| "canonical_value (HModel ty v) = JList [JStr ''pydantic_model'', JStr ty, canonical_value v]"
| "canonical_value (HSpecial ty v) = JList [JStr ''special'', JStr ty, canonical_value v]"
| "canonical_value (HSeq ty vs) = JList [JStr ''sequence'', JStr ty, JList (map canonical_value vs)]"
| "canonical_value (HMap ty kvs) = JList [JStr ''mapping'', JStr ty,
     JList (sort_key encoded_json (map (\<lambda>(k, v). JList [canonical_value k, canonical_value v]) kvs))]"
| "canonical_value (HSet ty vs) = JList [JStr ''set'', JStr ty, JList (sort_key encoded_json (map canonical_value vs))]"

definition canonical_json :: "hval \<Rightarrow> string" where
  "canonical_json v = encoded_json (canonical_value v)"

section \<open>Fingerprints\<close>

text \<open>\<^verbatim>\<open>encode("utf-8")\<close> of code points below 256, as a list of bytes.\<close>

definition utf8_char :: "char \<Rightarrow> nat list" where
  "utf8_char c = (let n = of_char c in if n < 128 then [n] else [192 + n div 64, 128 + n mod 64])"

definition utf8 :: "string \<Rightarrow> nat list" where
  "utf8 s = concat (map utf8_char s)"

definition canonical_bytes :: "hval \<Rightarrow> nat list" where
  "canonical_bytes v = utf8 (canonical_json v)"

fun to_bytes_big :: "nat \<Rightarrow> nat \<Rightarrow> nat list" where
  "to_bytes_big 0 n = []"
| "to_bytes_big (Suc k) n = to_bytes_big k (n div 256) @ [n mod 256]"

definition frame :: "nat list \<Rightarrow> nat list" where
  "frame v = to_bytes_big 8 (length v) @ v"

definition fingerprint_prefix :: "nat list" where
  "fingerprint_prefix = utf8 ''dbt-ml-canonical-fingerprint''"

definition hashed_bytes :: "string \<Rightarrow> int \<Rightarrow> hval \<Rightarrow> nat list" where
  "hashed_bytes domain version v =
     fingerprint_prefix @ frame (utf8 domain) @ frame (utf8 (py_str_int version)) @ frame (canonical_bytes v)"

datatype hash_error = EmptyDomain | BadVersion | BadDigestSize

definition canonical_fingerprint :: "(int \<Rightarrow> nat list \<Rightarrow> string) \<Rightarrow> hval \<Rightarrow> string \<Rightarrow> int \<Rightarrow> int \<Rightarrow> hash_error + string" where
  "canonical_fingerprint digest v domain version digest_size =
     rbind (guard (domain \<noteq> []) EmptyDomain) (\<lambda>_.
     rbind (guard (1 \<le> version) BadVersion) (\<lambda>_.
     rbind (guard (1 \<le> digest_size \<and> digest_size \<le> 64) BadDigestSize) (\<lambda>_.
       Inr (digest digest_size (hashed_bytes domain version v)))))"

end
