(* ===== verification/Hashing_Props.thy ===== *)
theory Hashing_Props
  imports Hashing
begin

text \<open>
  What a fingerprint identifies: the hashed bytes determine the domain, the version and the value up
  to the order in which its mappings and sets were iterated, and do not depend on that order.
\<close>

section \<open>The JSON text determines the value\<close>

definition hex_value :: "char \<Rightarrow> nat" where
  "hex_value c = (let n = of_char c in if n < 58 then n - 48 else n - 87)"

lemma hex_value_char [simp]: "k < 16 \<Longrightarrow> hex_value (hex_char k) = k"
  by (auto simp: hex_value_def hex_char_def Let_def)

definition unesc :: "string \<Rightarrow> (char \<times> string) option" where
  "unesc s = (case s of [] \<Rightarrow> None | c # s \<Rightarrow>
     if c \<noteq> CHR 0x5C then (if c = CHR 0x22 then None else Some (c, s)) else (case s of [] \<Rightarrow> None
     | d # t \<Rightarrow>
         if d = CHR ''n'' then Some (CHR 0x0A, t) else if d = CHR ''r'' then Some (CHR 0x0D, t)
         else if d = CHR ''t'' then Some (CHR 0x09, t) else if d = CHR ''f'' then Some (CHR 0x0C, t)
         else if d = CHR ''b'' then Some (CHR 0x08, t)
         else if d = CHR ''u'' then Some (char_of (16 * hex_value (t ! 2) + hex_value (t ! 3)), drop 4 t)
         else Some (d, t)))"

lemma unesc_control:
  assumes "n < 32"
  shows "unesc ([CHR 0x5C, CHR ''u'', CHR ''0'', CHR ''0'', hex_char (n div 16), hex_char (n mod 16)] @ s) = Some (char_of n, s)"
proof -
  have "n div 16 < 16" using assms by linarith
  then have "16 * hex_value (hex_char (n div 16)) + hex_value (hex_char (n mod 16)) = n" by simp
  then show ?thesis by (simp add: unesc_def)
qed

lemma unesc_esc: "unesc (esc c @ s) = Some (c, s)"
proof (cases "c \<in> {CHR 0x22, CHR 0x5C, CHR 0x0A, CHR 0x0D, CHR 0x09, CHR 0x0C, CHR 0x08}")
  case True
  then show ?thesis unfolding insert_iff empty_iff by (elim disjE) (simp_all add: esc_def unesc_def)
next
  case special: False
  then have plain: "esc c = (if (of_char c :: nat) < 32 then [CHR 0x5C, CHR ''u'', CHR ''0'', CHR ''0'',
        hex_char (of_char c div 16), hex_char (of_char c mod 16)] else [c])"
    unfolding esc_def insert_iff de_Morgan_disj by (simp only: if_False HOL.simp_thms)
  show ?thesis
  proof (cases "(of_char c :: nat) < 32")
    case True
    then show ?thesis unfolding plain using unesc_control [OF True, of s] by (simp only: if_True char_of_char)
  next
    case False
    have "c \<noteq> CHR 0x5C" "c \<noteq> CHR 0x22" using special by blast+
    with False show ?thesis unfolding plain unesc_def by simp
  qed
qed

lemma esc_eq: "esc c @ s = esc d @ t \<longleftrightarrow> c = d \<and> s = t"
proof
  assume "esc c @ s = esc d @ t"
  with unesc_esc [of c s] unesc_esc [of d t] have "Some (c, s) = Some (d, t)" by metis
  then show "c = d \<and> s = t" by simp
qed simp

lemma esc_not_quote: "esc c @ s \<noteq> CHR 0x22 # t"
proof
  assume "esc c @ s = CHR 0x22 # t"
  with unesc_esc [of c s] have "unesc (CHR 0x22 # t) = Some (c, s)" by metis
  then show False by (simp add: unesc_def)
qed

lemma json_string_prefix: "json_string s @ r = json_string t @ q \<longleftrightarrow> s = t \<and> r = q"
proof -
  have "concat (map esc s) @ CHR 0x22 # r = concat (map esc t) @ CHR 0x22 # q \<longleftrightarrow> s = t \<and> r = q"
  proof (induction s arbitrary: t)
    case Nil
    show ?case using esc_not_quote [of "hd t" "concat (map esc (tl t)) @ CHR 0x22 # q" r] by (cases t) auto
  next
    case (Cons c s)
    show ?case
      using esc_not_quote [of c "concat (map esc s) @ CHR 0x22 # r" q] by (cases t) (auto simp: esc_eq Cons.IH)
  qed
  then show ?thesis by (simp add: json_string_def)
qed

lemma py_join_Cons: "py_join sep (x # xs) = x @ (if xs = [] then [] else sep @ py_join sep xs)"
  by (cases xs) auto

lemma encoded_json_start: "\<exists>c t. encoded_json a = c # t \<and> c \<noteq> CHR '']''"
  by (cases a) (auto simp: json_string_def)

lemma joined_prefix:
  assumes item: "\<And>x y r q. x \<in> set xs \<Longrightarrow> encoded_json x @ r = encoded_json y @ q \<longleftrightarrow> x = y \<and> r = q"
  shows "py_join '','' (map encoded_json xs) @ CHR '']'' # r = py_join '','' (map encoded_json ys) @ CHR '']'' # q
    \<longleftrightarrow> xs = ys \<and> r = q"
  using item
proof (induction xs arbitrary: ys)
  case Nil
  show ?case using encoded_json_start [of "hd ys"] by (cases ys) (auto simp: py_join_Cons)
next
  case (Cons x xs)
  show ?case
  proof (cases ys)
    case Nil
    then show ?thesis using encoded_json_start [of x] by (auto simp: py_join_Cons)
  next
    case (Cons y zs)
    have rest: "py_join '','' (map encoded_json xs) @ CHR '']'' # r = py_join '','' (map encoded_json zs) @ CHR '']'' # q
      \<longleftrightarrow> xs = zs \<and> r = q"
      using Cons.IH Cons.prems by simp
    have "x \<in> set (x # xs)" by simp
    note first = Cons.prems [OF this]
    show ?thesis using rest by (auto simp: \<open>ys = _\<close> py_join_Cons first)
  qed
qed

lemma encoded_json_prefix: "encoded_json a @ r = encoded_json b @ q \<longleftrightarrow> a = b \<and> r = q"
proof (induction a arbitrary: b r q)
  case (JStr s)
  show ?case by (cases b) (simp_all add: json_string_prefix, auto simp: json_string_def)
next
  case (JBool x)
  show ?case by (cases b) (auto simp: json_string_def)
next
  case (JFold x)
  show ?case by (cases b) (auto simp: json_string_def)
next
  case (JList xs)
  show ?case
  proof (cases b)
    case (JList ys)
    then show ?thesis using joined_prefix [of xs r ys q] JList.IH by simp
  qed (auto simp: json_string_def)
qed

lemma inj_encoded_json: "inj encoded_json"
  using encoded_json_prefix [of _ "[]" _ "[]"] by (auto intro: injI)

section \<open>Numbers and bytes\<close>

definition decimal_value :: "string \<Rightarrow> nat" where
  "decimal_value = foldl (\<lambda>a c. 10 * a + (of_char c - 48)) 0"

lemma decimal_value_nat_digits: "decimal_value (nat_digits n) = n"
  by (induction n rule: nat_digits.induct) (subst nat_digits.simps, auto simp: decimal_value_def)

lemma nat_digits_start: "\<exists>c t. nat_digits n = c # t \<and> c \<noteq> CHR ''-''"
proof (induction n rule: nat_digits.induct)
  case (1 n)
  have "char_of (48 + n) \<noteq> CHR ''-''" if "n < 10" for n :: nat
  proof
    assume "char_of (48 + n) = CHR ''-''"
    then have "(of_char (char_of (48 + n)) :: nat) = of_char (CHR ''-'')" by simp
    with that show False by simp
  qed
  with 1 show ?case by (subst (1) nat_digits.simps) (cases "n < 10"; auto)
qed

lemma py_str_int_eq: "py_str_int a = py_str_int b \<longleftrightarrow> a = b"
proof
  assume eq: "py_str_int a = py_str_int b"
  have sign: "a < 0 \<longleftrightarrow> b < 0"
    using eq nat_digits_start [of "nat a"] nat_digits_start [of "nat b"]
    by (cases "a < 0"; cases "b < 0") (auto simp: py_str_int_def)
  with eq have "nat_digits (nat \<bar>a\<bar>) = nat_digits (nat \<bar>b\<bar>)" by (cases "a < 0") (simp_all add: py_str_int_def)
  then have "nat \<bar>a\<bar> = nat \<bar>b\<bar>" by (metis decimal_value_nat_digits)
  with sign show "a = b" by linarith
qed simp

lemma length_hex_digits [simp]: "length (hex_digits k n) = k"
  by (induction k arbitrary: n) auto

lemma hex_digits_eq:
  assumes "n < 16 ^ k" "m < 16 ^ k"
  shows "hex_digits k n = hex_digits k m \<longleftrightarrow> n = m"
  using assms
proof (induction k arbitrary: n m)
  case (Suc k)
  have "n div 16 < 16 ^ k" "m div 16 < 16 ^ k" using Suc.prems by (simp_all add: less_mult_imp_div_less mult.commute)
  note IH = Suc.IH [OF this]
  have "hex_char (n mod 16) = hex_char (m mod 16) \<longleftrightarrow> n mod 16 = m mod 16"
    using hex_value_char [of "n mod 16"] hex_value_char [of "m mod 16"] by (metis mod_less_divisor zero_less_numeral)
  with IH show ?case by simp (metis div_mult_mod_eq)
qed simp

lemma hex_word_eq: "hex_digits 16 (unat x) = hex_digits 16 (unat y) \<longleftrightarrow> x = y" for x y :: "64 word"
proof -
  have "unat z < 16 ^ 16" for z :: "64 word" using unsigned_less [of z] by simp
  then show ?thesis by (simp add: hex_digits_eq word_unat_eq_iff)
qed

lemma of_char_less: "(of_char c :: nat) < 256"
  using of_char_of [of "of_char c :: nat"] by (metis char_of_char mod_less_divisor of_char_of zero_less_numeral)

lemma hex_byte_eq: "hex_digits 2 (of_char c) = hex_digits 2 (of_char d) \<longleftrightarrow> c = d"
  using hex_digits_eq [of "of_char c" 2 "of_char d"] of_char_less [of c] of_char_less [of d] by simp

lemma bytes_hex_eq: "bytes_hex a = bytes_hex b \<longleftrightarrow> a = b"
proof (induction a arbitrary: b)
  case Nil
  show ?case by (cases b) (auto simp: bytes_hex_def numeral_2_eq_2)
next
  case (Cons c a)
  show ?case
  proof (cases b)
    case (Cons d b')
    then show ?thesis using Cons.IH [of b'] by (auto simp: bytes_hex_def hex_byte_eq simp del: hex_digits.simps)
  qed (simp add: bytes_hex_def numeral_2_eq_2)
qed

section \<open>Values up to iteration order\<close>

text \<open>A value whose mappings and sets are unordered.\<close>

datatype hshape =
    SLeaf hval
  | SEnum string hshape
  | SModel string hshape
  | SSpecial string hshape
  | SSeq string "hshape list"
  | SMap string "(hshape \<times> hshape) multiset"
  | SSet string "hshape multiset"

fun shape :: "hval \<Rightarrow> hshape" where
  "shape (HEnum ty v) = SEnum ty (shape v)"
| "shape (HModel ty v) = SModel ty (shape v)"
| "shape (HSpecial ty v) = SSpecial ty (shape v)"
| "shape (HSeq ty vs) = SSeq ty (map shape vs)"
| "shape (HMap ty kvs) = SMap ty (mset (map (\<lambda>(k, v). (shape k, shape v)) kvs))"
| "shape (HSet ty vs) = SSet ty (mset (map shape vs))"
| "shape v = SLeaf v"

lemma mset_map_transfer:
  assumes "mset (map f xs) = mset (map f ys)"
    and "\<And>x y. \<lbrakk>x \<in> set xs; y \<in> set ys; f x = f y\<rbrakk> \<Longrightarrow> g x = g y"
  shows "mset (map g xs) = mset (map g ys)"
  using assms
proof (induction xs arbitrary: ys)
  case (Cons x xs)
  have "f x \<in> set (map f ys)" using Cons.prems(1) by (metis list.set_intros(1) list.simps(9) mset_eq_setD)
  then obtain y where y: "y \<in> set ys" "f x = f y" by auto
  then obtain us vs where ys: "ys = us @ y # vs" by (meson split_list)
  have "mset (map f xs) = mset (map f (us @ vs))" using Cons.prems(1) y(2) by (simp add: ys)
  then have "mset (map g xs) = mset (map g (us @ vs))" using Cons.prems(2) by (intro Cons.IH) (auto simp: ys)
  moreover have "g x = g y" using Cons.prems(2) y by simp
  ultimately show ?case by (simp add: ys)
qed simp

lemma sorted_by_text_eq: "sort_key encoded_json xs = sort_key encoded_json ys \<longleftrightarrow> mset xs = mset ys"
proof
  assume "sort_key encoded_json xs = sort_key encoded_json ys"
  then show "mset xs = mset ys" by (metis mset_sort)
next
  assume eq: "mset xs = mset ys"
  have texts: "map encoded_json (sort_key encoded_json zs) = sort (map encoded_json zs)" for zs
    by (rule properties_for_sort [symmetric]) simp_all
  have "mset (map encoded_json xs) = mset (map encoded_json ys)" using eq by simp
  then have "sort (map encoded_json xs) = sort (map encoded_json ys)" by (intro properties_for_sort) simp_all
  then show "sort_key encoded_json xs = sort_key encoded_json ys"
    unfolding texts [symmetric] using inj_encoded_json by (simp add: inj_map_eq_map)
qed

lemma canonical_value_shape: "canonical_value a = canonical_value b \<longleftrightarrow> shape a = shape b"
proof (induction a arbitrary: b)
  case (HSeq ty vs)
  have "map canonical_value vs = map canonical_value ws \<longleftrightarrow> map shape vs = map shape ws" for ws
    using HSeq.IH by (auto simp: list_eq_iff_nth_eq)
  then show ?case by (cases b) simp_all
next
  case (HMap ty kvs)
  have "mset (map (\<lambda>(k, v). JList [canonical_value k, canonical_value v]) kvs)
      = mset (map (\<lambda>(k, v). JList [canonical_value k, canonical_value v]) kws)
    \<longleftrightarrow> mset (map (\<lambda>(k, v). (shape k, shape v)) kvs) = mset (map (\<lambda>(k, v). (shape k, shape v)) kws)" for kws
    by (intro iffI; erule mset_map_transfer) (auto simp: HMap.IH)
  then show ?case by (cases b) (simp_all add: sorted_by_text_eq)
next
  case (HSet ty vs)
  have "mset (map canonical_value vs) = mset (map canonical_value ws) \<longleftrightarrow> mset (map shape vs) = mset (map shape ws)" for ws
    by (intro iffI; erule mset_map_transfer) (auto simp: HSet.IH)
  then show ?case by (cases b) (simp_all add: sorted_by_text_eq)
qed (case_tac [!] b, simp_all add: py_str_int_eq hex_word_eq bytes_hex_eq del: hex_digits.simps)

text \<open>
  The canonical JSON text of a value is the same for two values exactly when they have the same
  types and contents, up to the order in which mappings and sets are iterated.
\<close>

theorem canonical_json_identifies: "canonical_json a = canonical_json b \<longleftrightarrow> shape a = shape b"
  by (simp add: canonical_json_def inj_eq [OF inj_encoded_json] canonical_value_shape)

section \<open>The framed bytes\<close>

lemma utf8_eq: "utf8 s = utf8 t \<longleftrightarrow> s = t"
proof (induction s arbitrary: t)
  case Nil
  show ?case by (cases t) (auto simp: utf8_def utf8_char_def Let_def)
next
  case (Cons c s)
  show ?case
  proof (cases t)
    case (Cons d t')
    have first: "utf8_char c @ r = utf8_char d @ q \<longleftrightarrow> c = d \<and> r = q" for r q
    proof -
      have "of_char c = (of_char d :: nat)" if "(of_char c :: nat) div 64 = of_char d div 64" "(of_char c :: nat) mod 64 = of_char d mod 64"
        using that by (metis div_mult_mod_eq)
      then show ?thesis
        using of_char_less [of c] of_char_less [of d] by (auto simp: utf8_char_def Let_def split: if_splits)
    qed
    then show ?thesis using Cons.IH [of t'] by (simp add: utf8_def \<open>t = _\<close>)
  qed (simp add: utf8_def utf8_char_def Let_def)
qed

lemma length_to_bytes_big [simp]: "length (to_bytes_big k n) = k"
  by (induction k arbitrary: n) auto

lemma to_bytes_big_eq: "\<lbrakk>n < 256 ^ k; m < 256 ^ k\<rbrakk> \<Longrightarrow> to_bytes_big k n = to_bytes_big k m \<longleftrightarrow> n = m"
proof (induction k arbitrary: n m)
  case (Suc k)
  have "n div 256 < 256 ^ k" "m div 256 < 256 ^ k" using Suc.prems by (simp_all add: less_mult_imp_div_less mult.commute)
  then show ?case using Suc.IH [of "n div 256" "m div 256"] by simp (metis div_mult_mod_eq)
qed simp

lemma frame_prefix:
  assumes "length v < 2 ^ 64" "length w < 2 ^ 64"
  shows "frame v @ r = frame w @ q \<longleftrightarrow> v = w \<and> r = q"
proof
  assume eq: "frame v @ r = frame w @ q"
  then have "to_bytes_big 8 (length v) = to_bytes_big 8 (length w)"
    unfolding frame_def append_assoc by (subst (asm) append_eq_append_conv) simp_all
  with assms have "length v = length w" by (subst (asm) to_bytes_big_eq) simp_all
  with eq show "v = w \<and> r = q" by (simp add: frame_def)
qed simp

lemma hashed_bytes_eq:
  assumes "length (utf8 d) < 2 ^ 64" "length (utf8 e) < 2 ^ 64"
    "length (utf8 (py_str_int v)) < 2 ^ 64" "length (utf8 (py_str_int u)) < 2 ^ 64"
    "length (canonical_bytes a) < 2 ^ 64" "length (canonical_bytes b) < 2 ^ 64"
  shows "hashed_bytes d v a = hashed_bytes e u b \<longleftrightarrow> d = e \<and> v = u \<and> shape a = shape b"
  using frame_prefix [OF assms(1,2)] frame_prefix [OF assms(3,4)] frame_prefix [OF assms(5,6), of "[]" "[]"]
  by (simp add: hashed_bytes_def utf8_eq py_str_int_eq canonical_bytes_def canonical_json_def
      inj_eq [OF inj_encoded_json] canonical_value_shape)

lemma canonical_fingerprint_Inr:
  "canonical_fingerprint digest v d n k = Inr x \<longleftrightarrow>
     d \<noteq> [] \<and> 1 \<le> n \<and> 1 \<le> k \<and> k \<le> 64 \<and> x = digest k (hashed_bytes d n v)"
  by (auto simp: canonical_fingerprint_def rbind_def guard_def)

definition fits_frame :: "string \<Rightarrow> int \<Rightarrow> hval \<Rightarrow> bool" where
  "fits_frame d v a \<longleftrightarrow> length (utf8 d) < 2 ^ 64 \<and> length (utf8 (py_str_int v)) < 2 ^ 64 \<and> length (canonical_bytes a) < 2 ^ 64"

definition demo_digest :: "int \<Rightarrow> nat list \<Rightarrow> string" where
  "demo_digest k bs = map char_of bs"

definition demo_set :: "hval list \<Rightarrow> hval" where
  "demo_set vs = HSet ''builtins.set'' vs"

text \<open>
  C30: Two fingerprints of the same size are equal exactly when the domain, the version and the value
  (up to the iteration order of mappings and sets) are equal, provided that the digest does not
  collide on the two byte strings that are hashed: the framing lets no part run into the next.
\<close>

theorem fingerprints_identify:
  assumes "canonical_fingerprint digest a d v k = Inr x" "canonical_fingerprint digest b e u k = Inr y"
    and "fits_frame d v a" "fits_frame e u b"
    and no_collision: "digest k (hashed_bytes d v a) = digest k (hashed_bytes e u b) \<Longrightarrow> hashed_bytes d v a = hashed_bytes e u b"
  shows "x = y \<longleftrightarrow> d = e \<and> v = u \<and> shape a = shape b"
  using assms hashed_bytes_eq [of d e v u a b] unfolding fits_frame_def canonical_fingerprint_Inr by metis

theorem fingerprints_identify_witness:
  "(\<exists>x. canonical_fingerprint demo_digest (demo_set [HInt 10, HBool True]) ''rows'' 1 16 = Inr x
      \<and> canonical_fingerprint demo_digest (demo_set [HBool True, HInt 10]) ''rows'' 1 16 = Inr x)
   \<and> shape (demo_set [HInt 10, HBool True]) = shape (demo_set [HBool True, HInt 10])"
proof -
  let ?a = "demo_set [HInt 10, HBool True]" and ?b = "demo_set [HBool True, HInt 10]"
  have same: "hashed_bytes ''rows'' 1 ?a = hashed_bytes ''rows'' 1 ?b" by code_simp
  have "length (utf8 ''rows'') < 200" "length (utf8 (py_str_int 1)) < 200"
    "length (canonical_bytes ?a) < 200" "length (canonical_bytes ?b) < 200" by code_simp+
  then have fits: "fits_frame ''rows'' 1 ?a" "fits_frame ''rows'' 1 ?b" by (simp_all add: fits_frame_def)
  obtain x where x: "canonical_fingerprint demo_digest ?a ''rows'' 1 16 = Inr x" by (simp add: canonical_fingerprint_Inr)
  obtain y where y: "canonical_fingerprint demo_digest ?b ''rows'' 1 16 = Inr y" by (simp add: canonical_fingerprint_Inr)
  have "x = y" using x y same by (simp add: canonical_fingerprint_Inr)
  with fingerprints_identify [OF x y fits same] x y show ?thesis by blast
qed

end
