(* ===== verification/State_Pages.thy ===== *)
theory State_Pages
  imports State_Table Hashing_Props
begin

text \<open>
  Ordered, paged reads of one state scope: opaque cursors (\<^verbatim>\<open>encode_state_cursor\<close>,
  \<^verbatim>\<open>decode_state_cursor\<close> of \<^verbatim>\<open>adapters/base.py\<close>, over the standard library's base64 and UTF-8), the
  checked reader (\<^verbatim>\<open>StatePageReader.fetch_page\<close>), the DuckDB page query (\<^verbatim>\<open>_open_state_page_reader\<close> of
  \<^verbatim>\<open>adapters/duckdb.py\<close>, on the snapshot the reader was opened on), the validated stream of
  \<^verbatim>\<open>state_reconciliation.py\<close> and the batches of \<^verbatim>\<open>execution/search.py\<close>.

  A generator is modelled by what a consumer has received after \<open>n\<close> requests.
\<close>

section \<open>Base64 and UTF-8\<close>

definition b64_char :: "nat \<Rightarrow> char" where
  "b64_char n = (if n < 26 then char_of (65 + n) else if n < 52 then char_of (71 + n)
     else if n < 62 then char_of (n - 4) else if n = 62 then CHR ''-'' else CHR ''_'')"

text \<open>The decoder also reads the two characters of the standard alphabet.\<close>

definition b64_value :: "char \<Rightarrow> nat option" where
  "b64_value c = (let n = of_char c in
     if 65 \<le> n \<and> n \<le> 90 then Some (n - 65) else if 97 \<le> n \<and> n \<le> 122 then Some (n - 71)
     else if 48 \<le> n \<and> n \<le> 57 then Some (n + 4) else if n = 45 \<or> n = 43 then Some 62
     else if n = 95 \<or> n = 47 then Some 63 else None)"

fun urlsafe_b64encode :: "nat list \<Rightarrow> string" where
  "urlsafe_b64encode [] = []"
| "urlsafe_b64encode [a] = [b64_char (a div 4), b64_char (a mod 4 * 16), CHR ''='', CHR ''='']"
| "urlsafe_b64encode [a, b] =
     [b64_char (a div 4), b64_char (a mod 4 * 16 + b div 16), b64_char (b mod 16 * 4), CHR ''='']"
| "urlsafe_b64encode (a # b # c # bs) =
     [b64_char (a div 4), b64_char (a mod 4 * 16 + b div 16), b64_char (b mod 16 * 4 + c div 64), b64_char (c mod 64)]
       @ urlsafe_b64encode bs"

text \<open>
  The lenient decoder: characters outside the alphabet are skipped, padding ends the data once it
  completes a group, and an unfinished group is an error (\<open>None\<close>). The arguments are the position in
  the group, the bits left over and the padding seen.
\<close>

fun a2b_base64 :: "nat \<Rightarrow> nat \<Rightarrow> nat \<Rightarrow> string \<Rightarrow> nat list option" where
  "a2b_base64 quad left pads [] = (if quad = 0 then Some [] else None)"
| "a2b_base64 quad left pads (c # s) =
     (if c = CHR ''='' then
        (if 2 \<le> quad \<and> 4 \<le> quad + pads + 1 then Some []
         else a2b_base64 quad left (if 2 \<le> quad then pads + 1 else pads) s)
      else case b64_value c of
        None \<Rightarrow> a2b_base64 quad left pads s
      | Some v \<Rightarrow>
          if quad = 0 then a2b_base64 1 v 0 s
          else if quad = 1 then map_option (Cons (left * 4 + v div 16)) (a2b_base64 2 (v mod 16) 0 s)
          else if quad = 2 then map_option (Cons (left * 16 + v div 4)) (a2b_base64 3 (v mod 4) 0 s)
          else map_option (Cons (left * 64 + v)) (a2b_base64 0 0 0 s))"

definition urlsafe_b64decode :: "string \<Rightarrow> nat list option" where
  "urlsafe_b64decode s = (if \<exists>c \<in> set s. 128 \<le> (of_char c :: nat) then None else a2b_base64 0 0 0 s)"

text \<open>Sequences of more than two bytes denote code points beyond the strings of the model.\<close>

fun utf8_decode :: "nat list \<Rightarrow> string option" where
  "utf8_decode [] = Some []"
| "utf8_decode (n # bs) =
     (if n < 128 then map_option (Cons (char_of n)) (utf8_decode bs)
      else case bs of [] \<Rightarrow> None
        | m # bs' \<Rightarrow> if 194 \<le> n \<and> n \<le> 195 \<and> 128 \<le> m \<and> m < 192
            then map_option (Cons (char_of ((n - 192) * 64 + (m - 128)))) (utf8_decode bs') else None)"

section \<open>Cursors and pages\<close>

datatype page_error =
    CursorInvalid
  | ForeignCursor
  | MalformedCursor
  | ReaderClosed
  | PageTooLarge
  | PageUnordered
  | PagesUnordered
  | EmptyPageNotFinal
  | CursorStuck
  | BadPageSize
  | NoTimeTravel
  | ProbeUnavailable
  | EmptyPageField

record state_page_record = state_record +
  committed_at :: int

record state_page =
  page_records :: "state_page_record list"
  next_cursor :: "string option"

definition max_state_cursor_chars :: int where
  "max_state_cursor_chars = 8192"

definition max_state_page_size :: int where
  "max_state_page_size = 100000"

definition validate_state_cursor :: "string option \<Rightarrow> page_error + unit" where
  "validate_state_cursor c = (case c of None \<Rightarrow> Inr ()
     | Some c \<Rightarrow> guard (c \<noteq> [] \<and> int (length c) \<le> max_state_cursor_chars) CursorInvalid)"

definition encode_state_cursor :: "string \<Rightarrow> string \<Rightarrow> page_error + string" where
  "encode_state_cursor nonce last_key =
     (let cursor = nonce @ CHR '':'' # urlsafe_b64encode (utf8 last_key) in
      rbind (validate_state_cursor (Some cursor)) (\<lambda>_. Inr cursor))"

definition decode_state_cursor :: "string option \<Rightarrow> string \<Rightarrow> page_error + string option" where
  "decode_state_cursor cursor nonce = (case cursor of None \<Rightarrow> Inr None
     | Some c \<Rightarrow> rbind (validate_state_cursor (Some c)) (\<lambda>_.
         let prefix = takeWhile (\<lambda>x. x \<noteq> CHR '':'') c; rest = dropWhile (\<lambda>x. x \<noteq> CHR '':'') c in
         if rest = [] \<or> prefix \<noteq> nonce then Inl ForeignCursor
         else case Option.bind (urlsafe_b64decode (tl rest)) utf8_decode of
             None \<Rightarrow> Inl MalformedCursor | Some k \<Rightarrow> Inr (Some k)))"

definition new_page_record :: "state_row \<Rightarrow> page_error + state_page_record" where
  "new_page_record r =
     rbind (guard (sr_key r \<noteq> [] \<and> sr_fingerprint r \<noteq> [] \<and> sr_version r \<noteq> []) EmptyPageField)
       (\<lambda>_. Inr \<lparr>st_key = sr_key r, st_fingerprint = sr_fingerprint r, st_version = sr_version r,
          committed_at = sr_last_run r\<rparr>)"

fun page_record_list :: "state_row list \<Rightarrow> page_error + state_page_record list" where
  "page_record_list [] = Inr []"
| "page_record_list (r # rs) = rbind (new_page_record r) (\<lambda>x. rbind (page_record_list rs) (\<lambda>xs. Inr (x # xs)))"

section \<open>The reader\<close>

text \<open>\<open>fetch_page\<close> wraps a fetch function of any adapter.\<close>

type_synonym page_fetch = "string option \<Rightarrow> page_error + state_page"

definition fetch_page :: "int \<Rightarrow> bool \<Rightarrow> page_fetch \<Rightarrow> page_fetch" where
  "fetch_page page_size closed fetch cursor =
     rbind (guard (\<not> closed) ReaderClosed) (\<lambda>_.
     rbind (validate_state_cursor cursor) (\<lambda>_.
     rbind (fetch cursor) (\<lambda>page.
     rbind (guard (int (length (page_records page)) \<le> page_size) PageTooLarge) (\<lambda>_.
     rbind (validate_state_cursor (next_cursor page)) (\<lambda>_.
     rbind (guard (sorted_wrt (<) (map st_key (page_records page))) PageUnordered) (\<lambda>_.
       Inr page))))))"

text \<open>
  What the read is restricted to: keys absent from a relation (its key column as text, \<open>None\<close> when the
  relation cannot be read), possibly as of an instant, or keys absent from another scope.
\<close>

datatype absence_probe = NoProbe | RelationProbe "string list option" "int option" | ScopeProbe state_scope

record page_request =
  rq_scope :: state_scope
  rq_page_size :: int
  rq_absent_from :: absence_probe

fun probe_hit :: "absence_probe \<Rightarrow> state_row list \<Rightarrow> string \<Rightarrow> bool" where
  "probe_hit NoProbe t k = False"
| "probe_hit (RelationProbe keys as_of) t k = (case keys of None \<Rightarrow> False | Some ks \<Rightarrow> k \<in> set ks)"
| "probe_hit (ScopeProbe sc) t k = ((sc, k) \<in> state_key ` set t)"

definition selected_rows :: "page_request \<Rightarrow> state_row list \<Rightarrow> string option \<Rightarrow> state_row list" where
  "selected_rows rq t after = sort_key sr_key (filter (\<lambda>r. sr_scope r = rq_scope rq
     \<and> (case after of None \<Rightarrow> True | Some k \<Rightarrow> k < sr_key r) \<and> \<not> probe_hit (rq_absent_from rq) t (sr_key r)) t)"

definition duckdb_fetch :: "page_request \<Rightarrow> string \<Rightarrow> state_row list \<Rightarrow> page_fetch" where
  "duckdb_fetch rq nonce t cursor =
     rbind (decode_state_cursor cursor nonce) (\<lambda>after.
     rbind (page_record_list (take (nat (rq_page_size rq)) (selected_rows rq t after))) (\<lambda>records.
     rbind (if int (length records) = rq_page_size rq
            then rbind (encode_state_cursor nonce (st_key (last records))) (\<lambda>c. Inr (Some c)) else Inr None)
       (\<lambda>c. Inr \<lparr>page_records = records, next_cursor = c\<rparr>)))"

definition open_state_page_reader :: "page_request \<Rightarrow> string \<Rightarrow> state_row list \<Rightarrow> page_error + page_fetch" where
  "open_state_page_reader rq nonce t =
     rbind (guard (1 \<le> rq_page_size rq \<and> rq_page_size rq \<le> max_state_page_size) BadPageSize) (\<lambda>_.
     rbind (case rq_absent_from rq of RelationProbe keys as_of \<Rightarrow>
              rbind (guard (as_of = None) NoTimeTravel) (\<lambda>_. guard (keys \<noteq> None) ProbeUnavailable)
            | _ \<Rightarrow> Inr ()) (\<lambda>_.
       Inr (fetch_page (rq_page_size rq) False (duckdb_fetch rq nonce t))))"

section \<open>Streams of pages\<close>

datatype stream_end = More | Exhausted | Failed page_error

definition regresses :: "string option \<Rightarrow> string \<Rightarrow> bool" where
  "regresses last_key first_key = (case last_key of None \<Rightarrow> False | Some k \<Rightarrow> first_key \<le> k)"

fun iter_validated_state_pages ::
  "nat \<Rightarrow> page_fetch \<Rightarrow> string option \<Rightarrow> string option \<Rightarrow> state_page_record list list \<times> stream_end" where
  "iter_validated_state_pages 0 fetch cursor last_key = ([], More)"
| "iter_validated_state_pages (Suc n) fetch cursor last_key =
     (case fetch cursor of Inl e \<Rightarrow> ([], Failed e) | Inr page \<Rightarrow>
       let records = page_records page in
       if records \<noteq> [] \<and> regresses last_key (st_key (hd records)) then ([], Failed PagesUnordered)
       else let yielded = (if records = [] then [] else [records]);
              last_key = (if records = [] then last_key else Some (st_key (last records))) in
         if next_cursor page = None then (yielded, Exhausted)
         else if records = [] then (yielded, Failed EmptyPageNotFinal)
         else if next_cursor page = cursor then (yielded, Failed CursorStuck)
         else (case iter_validated_state_pages n fetch (next_cursor page) last_key of
             (pages, r) \<Rightarrow> (yielded @ pages, r)))"

definition iter_stale_pages ::
  "nat \<Rightarrow> state_scope \<Rightarrow> int \<Rightarrow> string list option \<Rightarrow> int option \<Rightarrow> string \<Rightarrow> state_row list
   \<Rightarrow> state_page_record list list \<times> stream_end" where
  "iter_stale_pages n sc page_size upstream_keys as_of nonce t =
     (case open_state_page_reader \<lparr>rq_scope = sc, rq_page_size = page_size,
         rq_absent_from = RelationProbe upstream_keys as_of\<rparr> nonce t of
        Inl e \<Rightarrow> ([], Failed e)
      | Inr fetch \<Rightarrow> iter_validated_state_pages n fetch None None)"

fun state_batches :: "nat \<Rightarrow> page_fetch \<Rightarrow> string option \<Rightarrow> state_record list list \<times> stream_end" where
  "state_batches 0 fetch cursor = ([], More)"
| "state_batches (Suc n) fetch cursor =
     (case fetch cursor of Inl e \<Rightarrow> ([], Failed e) | Inr page \<Rightarrow>
       if page_records page = [] then ([], Exhausted)
       else let batch = map (\<lambda>r. \<lparr>st_key = st_key r, st_fingerprint = st_fingerprint r, st_version = st_version r\<rparr>) (page_records page) in
         if next_cursor page = None then ([batch], Exhausted)
         else (case state_batches n fetch (next_cursor page) of (bs, r) \<Rightarrow> (batch # bs, r)))"

end
