(* ===== verification/Pages_Props.thy ===== *)
theory Pages_Props
  imports State_Pages
begin

text \<open>
  Paged state reads: cursors read back, a validated stream is strictly ascending whatever the adapter
  returns, and the DuckDB reader streams exactly the records that are stale.
\<close>

section \<open>Cursors read back\<close>

lemma b64_char_code:
  "n < 64 \<Longrightarrow> (of_char (b64_char n) :: nat) = (if n < 26 then 65 + n else if n < 52 then 71 + n
     else if n < 62 then n - 4 else if n = 62 then 45 else 95)"
  by (simp add: b64_char_def)

lemma b64_value_char: "n < 64 \<Longrightarrow> b64_value (b64_char n) = Some n"
  by (auto simp: b64_value_def b64_char_code Let_def)

lemma b64_char_plain: "n < 64 \<Longrightarrow> b64_char n \<noteq> CHR ''='' \<and> (of_char (b64_char n) :: nat) < 128"
proof -
  assume n: "n < 64"
  have "b64_value (CHR ''='') = None" by (simp add: b64_value_def)
  with b64_value_char [OF n] show ?thesis by (auto simp: b64_char_code n)
qed

lemma a2b_step:
  "v < 64 \<Longrightarrow> a2b_base64 quad left pads (b64_char v # s) =
     (if quad = 0 then a2b_base64 1 v 0 s
      else if quad = 1 then map_option (Cons (left * 4 + v div 16)) (a2b_base64 2 (v mod 16) 0 s)
      else if quad = 2 then map_option (Cons (left * 16 + v div 4)) (a2b_base64 3 (v mod 4) 0 s)
      else map_option (Cons (left * 64 + v)) (a2b_base64 0 0 0 s))"
  using b64_value_char [of v] b64_char_plain [of v] by simp

lemma group_bounds:
  fixes a b c :: nat
  assumes "a < 256" "b < 256" "c < 256"
  shows "a div 4 < 64" "a mod 4 * 16 < 64" "a mod 4 * 16 + b div 16 < 64" "b mod 16 * 4 < 64" "b mod 16 * 4 + c div 64 < 64"
proof -
  have "a div 4 < 64" "b div 16 < 16" "c div 64 < 4" using assms by (simp_all add: div_less_iff_less_mult)
  moreover have "a mod 4 < 4" "b mod 16 < 16" by simp_all
  ultimately show "a div 4 < 64" "a mod 4 * 16 < 64" "a mod 4 * 16 + b div 16 < 64" "b mod 16 * 4 < 64"
      "b mod 16 * 4 + c div 64 < 64" by linarith+
qed

lemma group_bytes:
  fixes a b c :: nat
  assumes "a < 256" "b < 256" "c < 256"
  shows "a div 4 * 4 + (a mod 4 * 16 + b div 16) div 16 = a" "a div 4 * 4 + (a mod 4 * 16) div 16 = a"
    "(a mod 4 * 16 + b div 16) mod 16 * 16 + (b mod 16 * 4 + c div 64) div 4 = b"
    "(a mod 4 * 16 + b div 16) mod 16 * 16 + (b mod 16 * 4) div 4 = b"
    "(b mod 16 * 4 + c div 64) mod 4 * 64 + c mod 64 = c"
proof -
  have "b div 16 < 16" "c div 64 < 4" using assms by (simp_all add: div_less_iff_less_mult)
  then have "(a mod 4 * 16 + b div 16) div 16 = a mod 4" "(b mod 16 * 4 + c div 64) div 4 = b mod 16"
    "(a mod 4 * 16 + b div 16) mod 16 = b div 16" "(b mod 16 * 4 + c div 64) mod 4 = c div 64"
    by simp_all
  then show "a div 4 * 4 + (a mod 4 * 16 + b div 16) div 16 = a" "a div 4 * 4 + (a mod 4 * 16) div 16 = a"
    "(a mod 4 * 16 + b div 16) mod 16 * 16 + (b mod 16 * 4 + c div 64) div 4 = b"
    "(a mod 4 * 16 + b div 16) mod 16 * 16 + (b mod 16 * 4) div 4 = b"
    "(b mod 16 * 4 + c div 64) mod 4 * 64 + c mod 64 = c" by simp_all
qed

lemma b64_round_trip: "(\<forall>b \<in> set bs. b < 256) \<Longrightarrow> a2b_base64 0 0 0 (urlsafe_b64encode bs) = Some bs"
proof (induction bs rule: urlsafe_b64encode.induct)
  case (2 a)
  then show ?case using group_bounds [of a 0 0] group_bytes [of a 0 0] by (simp add: a2b_step del: a2b_base64.simps(2)) simp
next
  case (3 a b)
  then show ?case using group_bounds [of a b 0] group_bytes [of a b 0] by (simp add: a2b_step del: a2b_base64.simps(2)) simp
next
  case (4 a b c bs)
  then show ?case using group_bounds [of a b c] group_bytes [of a b c] by (simp add: a2b_step del: a2b_base64.simps(2))
qed simp

lemma b64_ascii: "(\<forall>b \<in> set bs. b < 256) \<Longrightarrow> \<forall>x \<in> set (urlsafe_b64encode bs). (of_char x :: nat) < 128"
proof (induction bs rule: urlsafe_b64encode.induct)
  case (2 a)
  then show ?case using group_bounds [of a 0 0] by (simp add: b64_char_plain)
next
  case (3 a b)
  then show ?case using group_bounds [of a b 0] by (simp add: b64_char_plain)
next
  case (4 a b c bs)
  then show ?case using group_bounds [of a b c] by (simp add: b64_char_plain)
qed simp

lemma utf8_char_wide: "\<lbrakk>\<not> n < 128; n < 256\<rbrakk> \<Longrightarrow> 2 \<le> n div 64 \<and> n div 64 \<le> 3" for n :: nat
  using div_le_mono [of 128 n 64] div_le_mono [of n 255 64] by simp

lemma utf8_bytes: "\<forall>b \<in> set (utf8 s). b < 256"
proof -
  have "\<forall>b \<in> set (utf8_char c). b < 256" for c
    using utf8_char_wide [of "of_char c"] of_char_less [of c] by (auto simp: utf8_char_def Let_def)
  then show ?thesis by (auto simp: utf8_def)
qed

lemma utf8_decode_char: "utf8_decode (utf8_char c @ bs) = map_option (Cons c) (utf8_decode bs)"
  using utf8_char_wide [of "of_char c"] of_char_less [of c] by (simp add: utf8_char_def Let_def)

lemma utf8_round_trip: "utf8_decode (utf8 s) = Some s"
  by (induction s) (simp_all add: utf8_def utf8_decode_char)

lemma cursor_reads_back:
  assumes "CHR '':'' \<notin> set nonce" "encode_state_cursor nonce k = Inr c"
  shows "decode_state_cursor (Some c) nonce = Inr (Some k)"
proof -
  have c: "c = nonce @ CHR '':'' # urlsafe_b64encode (utf8 k)" "validate_state_cursor (Some c) = Inr ()"
    using assms(2) by (auto simp: encode_state_cursor_def Let_def rbind_eq_Inr)
  have "takeWhile (\<lambda>x. x \<noteq> CHR '':'') c = nonce" "dropWhile (\<lambda>x. x \<noteq> CHR '':'') c = CHR '':'' # urlsafe_b64encode (utf8 k)"
    unfolding c(1) using assms(1) by (induction nonce) auto
  moreover have "urlsafe_b64decode (urlsafe_b64encode (utf8 k)) = Some (utf8 k)"
    using b64_ascii [of "utf8 k"] utf8_bytes [of k] by (auto simp: urlsafe_b64decode_def b64_round_trip not_le)
  ultimately show ?thesis using c(2) by (simp add: decode_state_cursor_def utf8_round_trip)
qed

section \<open>Validated streams ascend\<close>

lemma fetch_page_Inr:
  "fetch_page sz closed fetch cursor = Inr page \<Longrightarrow>
     fetch cursor = Inr page \<and> int (length (page_records page)) \<le> sz \<and> sorted_wrt (<) (map st_key (page_records page))"
  by (auto simp: fetch_page_def rbind_eq_Inr)

lemma sorted_last_ge:
  fixes key :: "'a \<Rightarrow> 'b::linorder"
  shows "sorted_wrt (<) (map key xs) \<Longrightarrow> x \<in> set xs \<Longrightarrow> key x \<le> key (last xs)"
  by (induction xs) (auto simp: less_imp_le split: if_splits)

lemma sorted_hd_le:
  fixes key :: "'a \<Rightarrow> 'b::linorder"
  shows "sorted_wrt (<) (map key xs) \<Longrightarrow> x \<in> set xs \<Longrightarrow> key (hd xs) \<le> key x"
  by (cases xs) (auto simp: less_imp_le)

lemma iter_go_on:
  assumes "fetch cursor = Inr page" "page_records page \<noteq> []"
    "\<not> regresses last_key (st_key (hd (page_records page)))" "\<not> (next_cursor page = None \<or> next_cursor page = cursor)"
  shows "iter_validated_state_pages (Suc n) fetch cursor last_key =
    (case iter_validated_state_pages n fetch (next_cursor page) (Some (st_key (last (page_records page)))) of
       (pages, r) \<Rightarrow> (page_records page # pages, r))"
proof -
  obtain c where "next_cursor page = Some c" "Some c \<noteq> cursor" using assms(4) by auto
  with assms(2) show ?thesis
    unfolding iter_validated_state_pages.simps assms(1) sum.case Let_def
    by (subst if_not_P, use assms(3) in blast) simp
qed

lemma stream_ascends:
  assumes "iter_validated_state_pages n (fetch_page sz closed fetch) cursor last_key = (pages, r)"
  shows "(\<forall>p \<in> set pages. p \<noteq> [] \<and> int (length p) \<le> sz) \<and> sorted_wrt (<) (map st_key (concat pages))
    \<and> (\<forall>k. last_key = Some k \<longrightarrow> (\<forall>x \<in> set (concat pages). k < st_key x))"
  using assms
proof (induction n arbitrary: cursor last_key pages r)
  case (Suc n)
  show ?case
  proof (cases "fetch_page sz closed fetch cursor")
    case (Inl e)
    with Suc.prems show ?thesis by simp
  next
    case (Inr page)
    note page = fetch_page_Inr [OF Inr]
    let ?rs = "page_records page"
    show ?thesis
    proof (cases "?rs = [] \<or> regresses last_key (st_key (hd ?rs))")
      case True
      with Suc.prems Inr show ?thesis by (auto simp: Let_def split: if_splits prod.splits)
    next
      case False
      have above: "\<forall>k. last_key = Some k \<longrightarrow> (\<forall>x \<in> set ?rs. k < st_key x)"
        using False page by (auto simp: regresses_def not_le intro: less_le_trans sorted_hd_le)
      show ?thesis
      proof (cases "next_cursor page = None \<or> next_cursor page = cursor")
        case True
        with False Suc.prems Inr have "pages = [?rs]" by (auto simp: Let_def split: if_splits)
        with page above False show ?thesis by simp
      next
        case go_on: False
        obtain ps e where rest: "iter_validated_state_pages n (fetch_page sz closed fetch) (next_cursor page)
            (Some (st_key (last ?rs))) = (ps, e)" by fastforce
        have "\<not> regresses last_key (st_key (hd ?rs))" "?rs \<noteq> []" using False by simp_all
        with go_on rest Suc.prems iter_go_on [of "fetch_page sz closed fetch" cursor page last_key n] Inr
        have pages: "pages = ?rs # ps" by simp
        note IH = Suc.IH [OF rest]
        have later: "st_key x < st_key y" if "x \<in> set ?rs" "y \<in> set (concat ps)" for x y
        proof -
          have "st_key x \<le> st_key (last ?rs)" using that page by (simp add: sorted_last_ge)
          moreover have "st_key (last ?rs) < st_key y" using that IH by auto
          ultimately show ?thesis by (rule le_less_trans)
        qed
        have "\<forall>k. last_key = Some k \<longrightarrow> (\<forall>y \<in> set (concat ps). k < st_key y)"
          using above later False by (metis hd_in_set less_trans)
        with IH page above later False show ?thesis by (auto simp: pages sorted_wrt_append)
      qed
    qed
  qed
qed simp

section \<open>The DuckDB reader streams the whole selection\<close>

definition page_record_of :: "state_row \<Rightarrow> state_page_record" where
  "page_record_of r = \<lparr>st_key = sr_key r, st_fingerprint = sr_fingerprint r, st_version = sr_version r, committed_at = sr_last_run r\<rparr>"

definition readable :: "string \<Rightarrow> state_scope \<Rightarrow> state_row list \<Rightarrow> bool" where
  "readable nonce sc t \<longleftrightarrow> CHR '':'' \<notin> set nonce \<and> state_pk t
     \<and> (\<forall>r \<in> set t. sr_scope r = sc \<longrightarrow> sr_key r \<noteq> [] \<and> sr_fingerprint r \<noteq> [] \<and> sr_version r \<noteq> []
          \<and> is_ok (encode_state_cursor nonce (sr_key r)))"

lemma page_record_of_key [simp]: "st_key (page_record_of r) = sr_key r"
  by (simp add: page_record_of_def)

lemma keys_of_page_records: "map st_key (map page_record_of rs) = map sr_key rs"
  by simp

lemma page_record_list_ok:
  "\<forall>r \<in> set rs. sr_key r \<noteq> [] \<and> sr_fingerprint r \<noteq> [] \<and> sr_version r \<noteq> [] \<Longrightarrow>
     page_record_list rs = Inr (map page_record_of rs)"
  by (induction rs) (simp_all add: new_page_record_def guard_def page_record_of_def)

lemma selected_rows_after: "selected_rows rq t (Some k) = filter (\<lambda>r. k < sr_key r) (selected_rows rq t None)"
  unfolding selected_rows_def filter_sort filter_filter
  by (rule arg_cong [where f = "sort_key sr_key"], rule filter_cong [OF refl]) (simp add: conj_ac)

lemma set_selected_rows:
  "set (selected_rows rq t None) = {r \<in> set t. sr_scope r = rq_scope rq \<and> \<not> probe_hit (rq_absent_from rq) t (sr_key r)}"
  by (auto simp: selected_rows_def)

lemma sorted_keys: "mset (map f (sort_key f xs)) = mset (map f xs)"
  by simp

lemma selected_rows_ascend:
  assumes "state_pk t"
  shows "sorted_wrt (<) (map sr_key (selected_rows rq t None))"
proof -
  have "distinct (map sr_key (filter (\<lambda>r. sr_scope r = sc \<and> Q r) t))" for sc Q
    using assms unfolding state_pk_def by (induction t) (auto simp: state_key_def image_iff)
  then have "distinct (map sr_key (selected_rows rq t None))"
    unfolding selected_rows_def by (subst mset_eq_imp_distinct_iff [OF sorted_keys]) simp
  moreover have "sorted (map sr_key (selected_rows rq t None))" by (simp add: selected_rows_def)
  ultimately show ?thesis by (simp add: strict_sorted_iff)
qed

lemma filter_above:
  assumes "sorted_wrt (<) (map sr_key (pre @ suf))" "pre \<noteq> []"
  shows "filter (\<lambda>r. sr_key (last pre) < sr_key r) (pre @ suf) = suf"
proof -
  have "\<not> sr_key (last pre) < sr_key r" if "r \<in> set pre" for r
    using sorted_last_ge [of sr_key pre r] that assms(1) by (simp add: sorted_wrt_append not_less)
  moreover have "sr_key (last pre) < sr_key r" if "r \<in> set suf" for r
    using that assms by (simp add: sorted_wrt_append)
  ultimately show ?thesis by (simp add: filter_empty_conv)
qed

lemma duckdb_page:
  assumes "readable nonce (rq_scope rq) t" "1 \<le> rq_page_size rq"
    and split: "selected_rows rq t None = pre @ suf"
    and cursor: "if pre = [] then cursor = None else (\<exists>c. cursor = Some c \<and> encode_state_cursor nonce (sr_key (last pre)) = Inr c)"
  shows "\<exists>page. fetch_page (rq_page_size rq) False (duckdb_fetch rq nonce t) cursor = Inr page
    \<and> page_records page = map page_record_of (take (nat (rq_page_size rq)) suf)
    \<and> (if int (length suf) < rq_page_size rq then next_cursor page = None
       else \<exists>c. next_cursor page = Some c \<and> encode_state_cursor nonce (sr_key (last (take (nat (rq_page_size rq)) suf))) = Inr c)"
proof -
  let ?n = "nat (rq_page_size rq)" and ?rows = "take (nat (rq_page_size rq)) suf"
  have nonce: "CHR '':'' \<notin> set nonce" and pk: "state_pk t" using assms(1) by (simp_all add: readable_def)
  have sorted: "sorted_wrt (<) (map sr_key (pre @ suf))" using selected_rows_ascend [OF pk, of rq] split by simp
  have ok: "sr_key r \<noteq> [] \<and> sr_fingerprint r \<noteq> [] \<and> sr_version r \<noteq> [] \<and> is_ok (encode_state_cursor nonce (sr_key r))"
    if "r \<in> set (pre @ suf)" for r
    using that assms(1) unfolding split [symmetric] set_selected_rows readable_def by blast
  obtain after where after: "decode_state_cursor cursor nonce = Inr after" "selected_rows rq t after = suf" "validate_state_cursor cursor = Inr ()"
  proof (cases "pre = []")
    case True
    with cursor split that [of None] show ?thesis by (simp add: decode_state_cursor_def validate_state_cursor_def)
  next
    case False
    with cursor obtain c where c: "cursor = Some c" "encode_state_cursor nonce (sr_key (last pre)) = Inr c" by auto
    have "selected_rows rq t (Some (sr_key (last pre))) = suf"
      unfolding selected_rows_after split by (rule filter_above [OF sorted False])
    moreover have "validate_state_cursor cursor = Inr ()"
      using c by (auto simp: encode_state_cursor_def Let_def rbind_eq_Inr)
    ultimately show ?thesis using that [of "Some (sr_key (last pre))"] cursor_reads_back [OF nonce c(2)] c(1) by simp
  qed
  have records: "page_record_list ?rows = Inr (map page_record_of ?rows)"
    using ok by (intro page_record_list_ok) (auto dest: in_set_takeD)
  have ascending: "sorted_wrt (<) (map st_key (map page_record_of ?rows))"
    using sorted by (simp add: sorted_wrt_append comp_def take_map [symmetric] sorted_wrt_take)
  show ?thesis
  proof (cases "int (length suf) < rq_page_size rq")
    case True
    then have "duckdb_fetch rq nonce t cursor = Inr \<lparr>page_records = map page_record_of ?rows, next_cursor = None\<rparr>"
      using after records by (simp add: duckdb_fetch_def)
    with True after(3) ascending show ?thesis
      by (simp add: fetch_page_def guard_def validate_state_cursor_def)
  next
    case False
    then have len: "int (length ?rows) = rq_page_size rq" using assms(2) by simp
    then have "?rows \<noteq> []" using assms(2) by auto
    then have last: "last ?rows \<in> set suf" using last_in_set in_set_takeD by fast
    then obtain c where c: "encode_state_cursor nonce (sr_key (last ?rows)) = Inr c" using ok [of "last ?rows"] by (auto simp: is_ok_iff)
    have "st_key (last (map page_record_of ?rows)) = sr_key (last ?rows)" using \<open>?rows \<noteq> []\<close> by (simp add: last_map)
    then have "duckdb_fetch rq nonce t cursor = Inr \<lparr>page_records = map page_record_of ?rows, next_cursor = Some c\<rparr>"
      using after records c len by (simp add: duckdb_fetch_def)
    moreover have "validate_state_cursor (Some c) = Inr ()" using c by (auto simp: encode_state_cursor_def Let_def rbind_eq_Inr)
    ultimately show ?thesis using False after(3) ascending c len by (simp add: fetch_page_def guard_def)
  qed
qed

lemma encode_inj:
  assumes "CHR '':'' \<notin> set nonce" "encode_state_cursor nonce k = Inr c" "encode_state_cursor nonce l = Inr c"
  shows "k = l"
  using cursor_reads_back [OF assms(1,2)] cursor_reads_back [OF assms(1,3)] by simp

lemma iter_duckdb:
  assumes "readable nonce (rq_scope rq) t" "1 \<le> rq_page_size rq"
    and "selected_rows rq t None = pre @ suf" "length suf < n"
    and "if pre = [] then cursor = None \<and> last_key = None
      else last_key = Some (sr_key (last pre)) \<and> (\<exists>c. cursor = Some c \<and> encode_state_cursor nonce (sr_key (last pre)) = Inr c)"
  shows "\<exists>pages. iter_validated_state_pages n (fetch_page (rq_page_size rq) False (duckdb_fetch rq nonce t)) cursor last_key = (pages, Exhausted)
    \<and> concat pages = map page_record_of suf"
  using assms(3-5)
proof (induction n arbitrary: pre suf cursor last_key)
  case (Suc n)
  let ?fetch = "fetch_page (rq_page_size rq) False (duckdb_fetch rq nonce t)"
  let ?rows = "take (nat (rq_page_size rq)) suf"
  have "if pre = [] then cursor = None else (\<exists>c. cursor = Some c \<and> encode_state_cursor nonce (sr_key (last pre)) = Inr c)"
    using Suc.prems(3) by (auto split: if_splits)
  from duckdb_page [OF assms(1,2) Suc.prems(1) this] obtain page where page: "?fetch cursor = Inr page"
    "page_records page = map page_record_of ?rows"
    "if int (length suf) < rq_page_size rq then next_cursor page = None
     else \<exists>c. next_cursor page = Some c \<and> encode_state_cursor nonce (sr_key (last ?rows)) = Inr c" by blast
  have sorted: "sorted_wrt (<) (map sr_key (pre @ suf))"
    using selected_rows_ascend [of t rq] Suc.prems(1) assms(1) by (simp add: readable_def)
  have ordered: "\<not> regresses last_key (st_key (hd (page_records page)))" if "?rows \<noteq> []"
  proof -
    have "hd ?rows \<in> set suf" using that hd_in_set in_set_takeD by fast
    then have "pre \<noteq> [] \<Longrightarrow> sr_key (last pre) < sr_key (hd ?rows)" using sorted by (simp add: sorted_wrt_append)
    moreover have "st_key (hd (page_records page)) = sr_key (hd ?rows)" using that page(2) by (simp add: hd_map)
    ultimately show ?thesis using Suc.prems(3) by (auto simp: regresses_def not_le split: if_splits)
  qed
  show ?case
  proof (cases "int (length suf) < rq_page_size rq")
    case True
    then have "next_cursor page = None" "?rows = suf" using page(3) by simp_all
    with page(1,2) ordered show ?thesis by (cases "suf = []") (auto simp: Let_def)
  next
    case False
    then obtain c where c: "next_cursor page = Some c" "encode_state_cursor nonce (sr_key (last ?rows)) = Inr c" using page(3) by auto
    have ne: "?rows \<noteq> []" using False assms(2) by auto
    then have "0 < nat (rq_page_size rq)" "0 < length suf" using ne by auto
    then have "suf = ?rows @ drop (nat (rq_page_size rq)) suf" "length (drop (nat (rq_page_size rq)) suf) < n"
      using Suc.prems(2) by (simp_all, linarith)
    moreover have "Some c \<noteq> cursor"
    proof
      assume "Some c = cursor"
      with Suc.prems(3) c(2) have pre: "pre \<noteq> []" "sr_key (last pre) = sr_key (last ?rows)"
        using assms(1) by (auto simp: readable_def intro: encode_inj split: if_splits)
      have "last ?rows \<in> set suf" using ne last_in_set in_set_takeD by fast
      then have "sr_key (last pre) < sr_key (last ?rows)" using pre(1) sorted by (simp add: sorted_wrt_append)
      with pre(2) show False by simp
    qed
    moreover obtain pages where "iter_validated_state_pages n ?fetch (Some c) (Some (sr_key (last ?rows))) = (pages, Exhausted)"
        "concat pages = map page_record_of (drop (nat (rq_page_size rq)) suf)"
      using Suc.IH [where pre = "pre @ ?rows" and suf = "drop (nat (rq_page_size rq)) suf"
          and last_key = "Some (sr_key (last ?rows))" and cursor = "Some c"]
        Suc.prems(1) ne c(2) calculation(2) by auto
    ultimately show ?thesis
      using iter_go_on [of ?fetch cursor page last_key n] page(1,2) ordered [OF ne] ne c(1)
      by (simp add: last_map) (metis append_take_drop_id map_append)
  qed
qed simp

lemma open_ok:
  "1 \<le> rq_page_size rq \<Longrightarrow> rq_page_size rq \<le> max_state_page_size \<Longrightarrow>
    (\<forall>keys as_of. rq_absent_from rq = RelationProbe keys as_of \<longrightarrow> as_of = None \<and> keys \<noteq> None) \<Longrightarrow>
    open_state_page_reader rq nonce t = Inr (fetch_page (rq_page_size rq) False (duckdb_fetch rq nonce t))"
  by (auto simp: open_state_page_reader_def guard_def split: absence_probe.splits)

lemma state_batches_iter:
  assumes "iter_validated_state_pages n fetch cursor last_key = (pages, Exhausted)"
  shows "state_batches n fetch cursor = (map (map (\<lambda>r. \<lparr>st_key = st_key r, st_fingerprint = st_fingerprint r, st_version = st_version r\<rparr>)) pages, Exhausted)"
  using assms
  by (induction n arbitrary: cursor last_key pages) (auto simp: Let_def split: sum.splits if_splits prod.splits)

section \<open>Properties\<close>

text \<open>
  C31: A cursor a reader hands out is read back to the key it was made from, and only by that reader: a
  reader with another nonce refuses it.
\<close>

theorem state_cursor_round_trip:
  assumes "CHR '':'' \<notin> set nonce" "encode_state_cursor nonce k = Inr c"
  shows "decode_state_cursor (Some c) nonce = Inr (Some k)
    \<and> (CHR '':'' \<notin> set other \<and> other \<noteq> nonce \<longrightarrow> decode_state_cursor (Some c) other = Inl ForeignCursor)"
proof -
  have c: "c = nonce @ CHR '':'' # urlsafe_b64encode (utf8 k)" "validate_state_cursor (Some c) = Inr ()"
    using assms(2) by (auto simp: encode_state_cursor_def Let_def rbind_eq_Inr)
  have "takeWhile (\<lambda>x. x \<noteq> CHR '':'') c = nonce" unfolding c(1) using assms(1) by (induction nonce) auto
  then have "decode_state_cursor (Some c) other = Inl ForeignCursor" if "other \<noteq> nonce"
    using that c(2) by (simp add: decode_state_cursor_def)
  with cursor_reads_back [OF assms] show ?thesis by blast
qed

theorem state_cursor_round_trip_witness:
  "\<exists>c. encode_state_cursor ''a1b2'' ''doc-7'' = Inr c
     \<and> decode_state_cursor (Some c) ''a1b2'' = Inr (Some ''doc-7'') \<and> decode_state_cursor (Some c) ''ffff'' = Inl ForeignCursor"
proof -
  let ?c = "''a1b2:ZG9jLTc=''"
  have c: "encode_state_cursor ''a1b2'' ''doc-7'' = Inr ?c" by code_simp
  have n: "CHR '':'' \<notin> set ''a1b2''" "CHR '':'' \<notin> set ''ffff'' \<and> ''ffff'' \<noteq> ''a1b2''" by simp_all
  from state_cursor_round_trip [OF n(1) c, of "''ffff''"] n(2) c show ?thesis by blast
qed

text \<open>
  Whatever pages an adapter returns, the stream a reconciliation consumes is strictly ascending in
  the record key, page after page, with non-empty pages of at most the requested size: at every moment no
  record has been skipped back to or repeated.
\<close>

theorem state_stream_ascends:
  assumes "iter_validated_state_pages n (fetch_page page_size False fetch) None None = (pages, outcome)"
  shows "sorted_wrt (<) (map st_key (concat pages)) \<and> list_all (\<lambda>p. p \<noteq> [] \<and> int (length p) \<le> page_size) pages"
  using stream_ascends [OF assms] by (simp add: list_all_iff)

definition demo_scope :: state_scope where
  "demo_scope = \<lparr>model_name = ''docs'', stage = ''retrieval_publish'', target_identity = ''t1''\<rparr>"

definition demo_row :: "string \<Rightarrow> string \<Rightarrow> state_row" where
  "demo_row k fp = \<lparr>sr_scope = demo_scope, sr_key = k, sr_fingerprint = fp, sr_version = ''v1'', sr_last_run = 5\<rparr>"

definition demo_state :: "state_row list" where
  "demo_state = [demo_row ''d3'' ''f3'', demo_row ''d1'' ''f1'', demo_row ''d2'' ''f2'']"

theorem state_stream_ascends_witness:
  "\<exists>pages. iter_validated_state_pages 4 (fetch_page 2 False (duckdb_fetch
        \<lparr>rq_scope = demo_scope, rq_page_size = 2, rq_absent_from = NoProbe\<rparr> ''n1'' demo_state)) None None = (pages, Exhausted)
     \<and> sorted_wrt (<) (map st_key (concat pages)) \<and> list_all (\<lambda>p. p \<noteq> [] \<and> int (length p) \<le> 2) pages"
proof -
  let ?run = "iter_validated_state_pages 4 (fetch_page 2 False (duckdb_fetch
        \<lparr>rq_scope = demo_scope, rq_page_size = 2, rq_absent_from = NoProbe\<rparr> ''n1'' demo_state)) None None"
  have "snd ?run = Exhausted" by code_simp
  then have run: "?run = (fst ?run, Exhausted)" by (metis prod.collapse)
  from state_stream_ascends [OF run] run show ?thesis by blast
qed

text \<open>
  C32: Stale discovery is complete and ends: over a readable scope the stream ends after at most one
  request more than there are stale records, and its records are exactly the scope's rows whose keys the
  upstream relation lacks, each once, in ascending order. For an empty upstream that is every row.
\<close>

theorem stale_pages_exact:
  assumes "readable nonce sc t" "1 \<le> page_size" "page_size \<le> max_state_page_size"
    and "length (scope_state sc t) < n"
  shows "\<exists>pages. iter_stale_pages n sc page_size (Some upstream) None nonce t = (pages, Exhausted)
    \<and> concat pages = map page_record_of (sort_key sr_key (filter (\<lambda>r. sr_key r \<notin> set upstream) (scope_state sc t)))
    \<and> sorted_wrt (<) (map st_key (concat pages))"
proof -
  let ?rq = "\<lparr>rq_scope = sc, rq_page_size = page_size, rq_absent_from = RelationProbe (Some upstream) None\<rparr>"
  have sel: "selected_rows ?rq t None = sort_key sr_key (filter (\<lambda>r. sr_key r \<notin> set upstream) (scope_state sc t))"
    by (auto simp: selected_rows_def scope_state_def intro!: arg_cong [where f = "sort_key sr_key"] filter_cong)
  have "length (selected_rows ?rq t None) < n"
    using assms(4) le_less_trans [OF length_filter_le] by (simp add: sel)
  with iter_duckdb [of nonce ?rq t "[]" "selected_rows ?rq t None" n None None] assms(1,2)
  obtain pages where pages: "iter_validated_state_pages n (fetch_page page_size False (duckdb_fetch ?rq nonce t)) None None = (pages, Exhausted)"
    "concat pages = map page_record_of (selected_rows ?rq t None)" by auto
  moreover have "iter_stale_pages n sc page_size (Some upstream) None nonce t = (pages, Exhausted)"
    using pages(1) assms(2,3) by (simp add: iter_stale_pages_def open_ok)
  ultimately show ?thesis using stream_ascends [OF pages(1)] by (simp add: sel)
qed

theorem stale_pages_exact_witness:
  "readable ''n1'' demo_scope demo_state
   \<and> (\<exists>pages. iter_stale_pages 10 demo_scope 2 (Some [''d2'']) None ''n1'' demo_state = (pages, Exhausted)
        \<and> map st_key (concat pages) = [''d1'', ''d3''])"
proof -
  have h: "readable ''n1'' demo_scope demo_state" "(1 :: int) \<le> 2" "2 \<le> max_state_page_size" "length (scope_state demo_scope demo_state) < 10"
    by (code_simp, code_simp, code_simp, code_simp)
  have stale: "map sr_key (sort_key sr_key (filter (\<lambda>r. sr_key r \<notin> set [''d2'']) (scope_state demo_scope demo_state))) = [''d1'', ''d3'']"
    by code_simp
  obtain pages where pages: "iter_stale_pages 10 demo_scope 2 (Some [''d2'']) None ''n1'' demo_state = (pages, Exhausted)"
      "concat pages = map page_record_of (sort_key sr_key (filter (\<lambda>r. sr_key r \<notin> set [''d2'']) (scope_state demo_scope demo_state)))"
    using stale_pages_exact [OF h, of "[''d2'']"] by (elim exE conjE) (rule that)
  have "map st_key (concat pages) = [''d1'', ''d3'']" unfolding pages(2) keys_of_page_records by (rule stale)
  with h(1) pages(1) show ?thesis by (intro conjI exI)
qed

end
