(* ===== verification/Py_Values.thy ===== *)
theory Py_Values
  imports Prelude "HOL-Library.Log_Nat"
begin

text \<open>
  The values a configuration file parses to, as Python objects. A finite \<^verbatim>\<open>float\<close> is the rational
  it denotes, so comparisons of floats are exact; \<open>py_float\<close> is the conversion \<^verbatim>\<open>float(n)\<close> of an
  integer: exact below two to the 53, rounded half to even above it, and \<^verbatim>\<open>OverflowError\<close>
  (\<open>None\<close>) from the first integer that rounds to two to the 1024.
\<close>

datatype pyfloat = Finite rat | Infinite bool | NaN

datatype pyval =
    PyNone
  | PyBool bool
  | PyInt int
  | PyFloat pyfloat
  | PyStr string
  | PyList "pyval list"
  | PyDict "(pyval \<times> pyval) list"
  | PyOther string

definition round_even :: "int \<Rightarrow> nat \<Rightarrow> int" where
  "round_even a e = (let q = a div 2 ^ e; r = a mod 2 ^ e
     in (if 2 * r > 2 ^ e \<or> 2 * r = 2 ^ e \<and> odd q then q + 1 else q) * 2 ^ e)"

definition round_double :: "int \<Rightarrow> int" where
  "round_double a = (if a < 2 ^ 53 then a else round_even a (nat (bitlen a) - 53))"

definition py_float :: "int \<Rightarrow> rat option" where
  "py_float n = (let m = round_double \<bar>n\<bar>
     in if m \<ge> 2 ^ 1024 then None else Some (of_int (sgn n * m)))"

lemma py_float_small: "\<bar>n\<bar> < 2 ^ 53 \<Longrightarrow> py_float n = Some (of_int n)"
proof -
  assume n: "\<bar>n\<bar> < 2 ^ 53"
  have "(2::int) ^ 53 \<le> 2 ^ 1024" by (rule power_increasing) simp_all
  with n have "\<not> \<bar>n\<bar> \<ge> 2 ^ 1024" by linarith
  with n show ?thesis by (simp add: py_float_def round_double_def Let_def mult_sgn_abs)
qed

lemma round_even_ge: "a div 2 ^ e * 2 ^ e \<le> round_even a e"
  by (simp add: round_even_def Let_def)

lemma round_double_ge:
  assumes "2 ^ k \<le> a" "53 \<le> k"
  shows "2 ^ k \<le> round_double a"
proof -
  have pos: "0 < a" using assms(1) by (rule order.strict_trans2 [rotated]) simp
  let ?b = "nat (bitlen a)"
  have "nat (bitlen a - 1) = ?b - 1" by simp
  then have le: "2 ^ (?b - 1) \<le> a" and lt: "a < 2 ^ ?b"
    using bitlen_bounds [OF pos] by metis+
  have "(2::int) ^ k < 2 ^ ?b" using assms(1) lt by linarith
  then have k: "k < ?b" by simp
  let ?e = "?b - 53"
  define c :: int where "c = 2 ^ 52"
  have "?b - 1 = 52 + ?e" using k assms(2) by simp
  then have c: "2 ^ (?b - 1) = c * 2 ^ ?e" by (simp only: c_def power_add)
  then have "c \<le> a div 2 ^ ?e"
    using zdiv_mono1 [of "c * 2 ^ ?e" a "2 ^ ?e"] le by simp
  then have "c * 2 ^ ?e \<le> a div 2 ^ ?e * 2 ^ ?e" by (simp add: mult_right_mono)
  moreover have "(2::int) ^ k \<le> c * 2 ^ ?e"
    unfolding c [symmetric] using k by (intro power_increasing) simp_all
  moreover have "\<not> a < 2 ^ 53"
    using assms power_increasing [of 53 k "2::int"] by linarith
  ultimately have "2 ^ k \<le> round_even a ?e" "\<not> a < 2 ^ 53"
    using round_even_ge [of a ?e] by linarith+
  then show ?thesis by (simp only: round_double_def if_False)
qed

lemma py_float_overflow: "2 ^ 1024 \<le> n \<Longrightarrow> py_float n = None"
proof -
  assume n: "2 ^ 1024 \<le> n"
  then have "\<bar>n\<bar> = n" using zero_le_power [of "2::int" 1024] by linarith
  moreover have "2 ^ 1024 \<le> round_double n" by (rule round_double_ge [OF n]) simp
  ultimately show ?thesis by (simp add: py_float_def Let_def)
qed

fun is_str :: "pyval \<Rightarrow> bool" where
  "is_str (PyStr s) = True"
| "is_str _ = False"

fun str_of :: "pyval \<Rightarrow> string" where
  "str_of (PyStr s) = s"
| "str_of _ = []"

text \<open>\<^verbatim>\<open>isinstance(v, int) and not isinstance(v, bool)\<close>.\<close>

fun is_plain_int :: "pyval \<Rightarrow> bool" where
  "is_plain_int (PyInt n) = True"
| "is_plain_int _ = False"

fun int_of :: "pyval \<Rightarrow> int" where
  "int_of (PyInt n) = n"
| "int_of _ = 0"

fun is_bool :: "pyval \<Rightarrow> bool" where
  "is_bool (PyBool b) = True"
| "is_bool _ = False"

lemma is_str_iff: "is_str v \<longleftrightarrow> (\<exists>s. v = PyStr s)"
  by (cases v) auto

text \<open>
  \<^verbatim>\<open>==\<close> where one side is a scalar: numbers of any type compare by value (\<^verbatim>\<open>True == 1 == 1.0\<close>),
  a NaN equals nothing, and values of different types differ.
\<close>

fun py_number :: "pyval \<Rightarrow> pyfloat option" where
  "py_number (PyBool b) = Some (Finite (if b then 1 else 0))"
| "py_number (PyInt n) = Some (Finite (of_int n))"
| "py_number (PyFloat x) = Some x"
| "py_number _ = None"

definition py_eq :: "pyval \<Rightarrow> pyval \<Rightarrow> bool" where
  "py_eq v w = (case py_number v of
       Some x \<Rightarrow> x \<noteq> NaN \<and> py_number w = Some x
     | None \<Rightarrow> v = w)"

definition py_in :: "pyval \<Rightarrow> pyval list \<Rightarrow> bool" where
  "py_in v vs \<longleftrightarrow> list_ex (py_eq v) vs"

lemma py_eq_str [simp]: "py_eq v (PyStr s) \<longleftrightarrow> v = PyStr s" "py_eq (PyStr s) v \<longleftrightarrow> v = PyStr s"
  by (cases v; auto simp: py_eq_def)+

lemma py_in_strs [simp]: "py_in v (map PyStr ss) \<longleftrightarrow> (\<exists>s \<in> set ss. v = PyStr s)"
  by (auto simp: py_in_def list_ex_iff)

section \<open>Rows\<close>

text \<open>A row or a JSON object with string keys; \<open>row_get\<close> is \<^verbatim>\<open>row.get(key)\<close>.\<close>

type_synonym row = "(string \<times> pyval) list"

definition row_get :: "row \<Rightarrow> string \<Rightarrow> pyval" where
  "row_get r k = (case map_of r k of None \<Rightarrow> PyNone | Some v \<Rightarrow> v)"

end
