(* ===== verification/Publication.thy ===== *)
theory Publication
  imports Pages_Props Py_Values
begin

text \<open>
  Publishing a search index in bounded pages: classification of upstream rows against recorded state
  (\<^verbatim>\<open>state_reconciliation.py\<close>), and the page loop, stale deletion and validation of
  \<^verbatim>\<open>_run_search_model\<close> (\<^verbatim>\<open>execution/search.py\<close>) over the collection of the DuckDB search store
  (\<^verbatim>\<open>retrieval/duckdb.py\<close>) and the state table.

  A run is the list of its effects: each is one durable write (or a check of the claim), computed from
  the state the run reads before it. A publisher that dies, loses its claim, or meets a failing store
  has carried out a prefix of that list. Indexes, stamps and the progress of segmented reads are not
  part of the model; in this store \<^verbatim>\<open>append\<close> is the keyed upsert.
\<close>

section \<open>Classifying a batch\<close>

record upstream_record =
  ur_key :: string
  ur_fingerprint :: string

record batch_classification =
  bc_new :: "upstream_record list"
  bc_changed :: "upstream_record list"
  bc_unchanged :: "upstream_record list"

definition unchanged_in :: "(string \<times> state_value) list \<Rightarrow> string \<Rightarrow> bool \<Rightarrow> upstream_record \<Rightarrow> bool" where
  "unchanged_in prior version force r =
     (case map_of prior (ur_key r) of None \<Rightarrow> False
      | Some (fp, v) \<Rightarrow> \<not> force \<and> fp = ur_fingerprint r \<and> v = version)"

fun classify_batch ::
  "upstream_record list \<Rightarrow> (string \<times> state_value) list \<Rightarrow> string \<Rightarrow> bool \<Rightarrow> batch_classification" where
  "classify_batch [] prior version force = \<lparr>bc_new = [], bc_changed = [], bc_unchanged = []\<rparr>"
| "classify_batch (r # rs) prior version force =
     (let rest = classify_batch rs prior version force in
      if map_of prior (ur_key r) = None then rest\<lparr>bc_new := r # bc_new rest\<rparr>
      else if unchanged_in prior version force r then rest\<lparr>bc_unchanged := r # bc_unchanged rest\<rparr>
      else rest\<lparr>bc_changed := r # bc_changed rest\<rparr>)"

section \<open>The search store\<close>

record indexed_row =
  record_id :: string
  row_values :: row
  input_fingerprint :: string

definition store_upsert :: "indexed_row list \<Rightarrow> indexed_row list \<Rightarrow> indexed_row list" where
  "store_upsert rows c = fold (keyed_put record_id) rows c"

definition store_delete :: "string list \<Rightarrow> indexed_row list \<Rightarrow> indexed_row list" where
  "store_delete ids c = filter (\<lambda>r. record_id r \<notin> set ids) c"

section \<open>Effects of a run\<close>

record publish_world =
  collection :: "indexed_row list option"
  pub_state :: "state_row list"

record publish_run =
  pr_scope :: state_scope
  pr_version :: string
  pr_page_size :: int
  pr_rebuild :: bool
  pr_seeded :: bool
  pr_resumed :: bool
  pr_subset :: bool
  pr_complete_resume :: bool
  pr_governed :: bool

datatype publish_effect =
    HeartbeatClaim
  | VerifyClaim
  | CreateCollection
  | StoreDelete "string list"
  | StoreWrite "indexed_row list"
  | WriteState "state_record list"
  | DropState "string list"

fun apply_effect :: "publish_run \<Rightarrow> int \<Rightarrow> publish_effect \<Rightarrow> publish_world \<Rightarrow> publish_world" where
  "apply_effect run now (StoreDelete ids) w = w\<lparr>collection := map_option (store_delete ids) (collection w)\<rparr>"
| "apply_effect run now (StoreWrite rows) w = w\<lparr>collection := map_option (store_upsert rows) (collection w)\<rparr>"
| "apply_effect run now CreateCollection w = w\<lparr>collection := Some []\<rparr>"
| "apply_effect run now (WriteState rs) w = w\<lparr>pub_state := sql_upsert_rows (pr_scope run) now rs (pub_state w)\<rparr>"
| "apply_effect run now (DropState ks) w = w\<lparr>pub_state := sql_delete_rows (pr_scope run) ks (pub_state w)\<rparr>"
| "apply_effect run now HeartbeatClaim w = w"
| "apply_effect run now VerifyClaim w = w"

definition apply_effects :: "publish_run \<Rightarrow> int \<Rightarrow> publish_effect list \<Rightarrow> publish_world \<Rightarrow> publish_world" where
  "apply_effects run now es w = fold (apply_effect run now) es w"

datatype publish_error = StateFailure state_error | StreamFailure page_error | RowCountMismatch

section \<open>One page\<close>

definition pending_rows :: "indexed_row list \<Rightarrow> batch_classification \<Rightarrow> indexed_row list" where
  "pending_rows rows outcome =
     filter (\<lambda>r. record_id r \<in> ur_key ` set (bc_new outcome @ bc_changed outcome)) rows"

fun pending_state :: "string \<Rightarrow> indexed_row list \<Rightarrow> state_error + state_record list" where
  "pending_state version [] = Inr []"
| "pending_state version (r # rs) =
     rbind (new_state_record (record_id r) (input_fingerprint r) version) (\<lambda>x.
     rbind (pending_state version rs) (\<lambda>xs. Inr (x # xs)))"

definition write_effects :: "publish_run \<Rightarrow> bool \<Rightarrow> (string \<times> state_value) list \<Rightarrow> indexed_row list \<Rightarrow> publish_effect list" where
  "write_effects run exists prior pending =
     (let changed_ids = map record_id (filter (\<lambda>r. map_of prior (record_id r) \<noteq> None) pending) in
      [VerifyClaim] @ (if exists then [] else [CreateCollection])
      @ (if pr_governed run \<and> changed_ids \<noteq> [] then [StoreDelete changed_ids] else [])
      @ [StoreWrite pending, VerifyClaim])"

definition page_effects ::
  "publish_run \<Rightarrow> bool \<Rightarrow> indexed_row list \<Rightarrow> publish_world \<Rightarrow> publish_effect list \<times> publish_error option" where
  "page_effects run force rows w =
     (let records = map (\<lambda>r. \<lparr>ur_key = record_id r, ur_fingerprint = input_fingerprint r\<rparr>) rows in
      case (if records = [] then Inr [] else fetch_state_subset (pr_scope run) (map ur_key records) (pub_state w)) of
        Inl e \<Rightarrow> ([HeartbeatClaim], Some (StateFailure e))
      | Inr prior \<Rightarrow>
          let pending = pending_rows rows (classify_batch records prior (pr_version run) force) in
          if pending = [] then ([HeartbeatClaim], None)
          else let writes = [HeartbeatClaim] @ write_effects run (collection w \<noteq> None) prior pending in
            case rbind (pending_state (pr_version run) pending)
                (\<lambda>rs. rbind (validate_state_records rs) (\<lambda>_. Inr rs)) of
              Inl e \<Rightarrow> (writes, Some (StateFailure e))
            | Inr rs \<Rightarrow> (writes @ [WriteState rs], None))"

section \<open>The run\<close>

fun publish_pages ::
  "publish_run \<Rightarrow> int \<Rightarrow> bool \<Rightarrow> indexed_row list list \<Rightarrow> publish_world \<Rightarrow> publish_effect list \<times> publish_error option" where
  "publish_pages run now force [] w = ([], None)"
| "publish_pages run now force (p # ps) w =
     (case page_effects run force p w of
        (es, Some e) \<Rightarrow> (es, Some e)
      | (es, None) \<Rightarrow> (case publish_pages run now force ps (apply_effects run now es w) of (rest, r) \<Rightarrow> (es @ rest, r)))"

definition stale_effects ::
  "publish_run \<Rightarrow> string list option \<Rightarrow> string \<Rightarrow> publish_world \<Rightarrow> publish_effect list \<times> publish_error option" where
  "stale_effects run upstream_keys nonce w =
     (if (\<not> pr_rebuild run \<or> pr_seeded run \<or> pr_resumed run) \<and> \<not> pr_subset run \<and> \<not> pr_complete_resume run then
        (case iter_stale_pages (Suc (length (pub_state w))) (pr_scope run) (pr_page_size run) upstream_keys None nonce (pub_state w) of
          (pages, outcome) \<Rightarrow>
            (concat (map (\<lambda>p. [VerifyClaim, StoreDelete (map st_key p), DropState (map st_key p)]) pages),
             case outcome of Failed e \<Rightarrow> Some (StreamFailure e) | _ \<Rightarrow> None))
      else ([], None))"

definition rows_valid :: "publish_run \<Rightarrow> nat \<Rightarrow> publish_world \<Rightarrow> bool" where
  "rows_valid run rows_seen w =
     (case collection w of None \<Rightarrow> False
      | Some c \<Rightarrow> pr_complete_resume run \<or> (if pr_subset run then rows_seen \<le> length c else length c = rows_seen))"

definition publish ::
  "publish_run \<Rightarrow> int \<Rightarrow> string \<Rightarrow> string list option \<Rightarrow> indexed_row list list \<Rightarrow> publish_world
   \<Rightarrow> publish_effect list \<times> publish_error option" where
  "publish run now nonce upstream_keys pages w =
     (case publish_pages run now (collection w = None) (if pr_complete_resume run then [] else pages) w of
        (es, Some e) \<Rightarrow> (es, Some e)
      | (es, None) \<Rightarrow>
          let w1 = apply_effects run now es w in
          (case stale_effects run upstream_keys nonce w1 of
             (ds, Some e) \<Rightarrow> (es @ ds, Some e)
           | (ds, None) \<Rightarrow>
               let cs = (if collection (apply_effects run now ds w1) = None then [VerifyClaim, CreateCollection] else []);
                   w2 = apply_effects run now (ds @ cs) w1 in
               (es @ ds @ cs, if rows_valid run (length (concat pages)) w2 then None else Some RowCountMismatch)))"

end
