(* ===== verification/Publication_Props.thy ===== *)
theory Publication_Props
  imports Publication
begin

text \<open>
  An interrupted publication is completed by running it again: at every point between two durable
  writes of an in-place run the recorded state vouches only for rows the collection holds, so the next
  run over the same upstream ends with the collection and the state exactly the upstream.
\<close>

section \<open>Classification\<close>

lemma classify_batch_sets:
  "set (bc_new (classify_batch rs prior v force)) = {r \<in> set rs. map_of prior (ur_key r) = None}"
  "set (bc_changed (classify_batch rs prior v force)) =
     {r \<in> set rs. map_of prior (ur_key r) \<noteq> None \<and> \<not> unchanged_in prior v force r}"
  "bc_unchanged (classify_batch rs prior v force) = filter (unchanged_in prior v force) rs"
  by (induction rs) (auto simp: Let_def unchanged_in_def)

lemma unchanged_known: "unchanged_in prior v force r \<Longrightarrow> map_of prior (ur_key r) \<noteq> None"
  by (cases "map_of prior (ur_key r)") (auto simp: unchanged_in_def)

lemma pending_rows_eq:
  assumes "distinct (map record_id rows)"
  shows "pending_rows rows (classify_batch (map (\<lambda>r. \<lparr>ur_key = record_id r, ur_fingerprint = input_fingerprint r\<rparr>) rows) prior v force)
    = filter (\<lambda>r. \<not> unchanged_in prior v force \<lparr>ur_key = record_id r, ur_fingerprint = input_fingerprint r\<rparr>) rows"
  unfolding pending_rows_def
proof (rule filter_cong [OF refl])
  fix r assume r: "r \<in> set rows"
  let ?u = "\<lambda>r. \<lparr>ur_key = record_id r, ur_fingerprint = input_fingerprint r\<rparr>"
  have same: "s = r" if "s \<in> set rows" "record_id s = record_id r" for s
    using assms r that by (metis distinct_map inj_on_def)
  have pending: "set (bc_new (classify_batch (map ?u rows) prior v force) @ bc_changed (classify_batch (map ?u rows) prior v force))
      = {u \<in> ?u ` set rows. \<not> unchanged_in prior v force u}"
    unfolding set_append classify_batch_sets set_map using unchanged_known by blast
  show "record_id r \<in> ur_key ` set (bc_new (classify_batch (map ?u rows) prior v force) @ bc_changed (classify_batch (map ?u rows) prior v force))
      \<longleftrightarrow> \<not> unchanged_in prior v force (?u r)"
    (is "?in \<longleftrightarrow> ?out")
  proof
    assume ?in
    then obtain s where "s \<in> set rows" "\<not> unchanged_in prior v force (?u s)" "record_id s = record_id r" unfolding pending by auto
    then show ?out using same by metis
  next
    assume ?out
    then have "?u r \<in> {u \<in> ?u ` set rows. \<not> unchanged_in prior v force u}" using r by blast
    then show ?in unfolding pending by (rule rev_image_eqI) simp
  qed
qed

section \<open>The collection as a keyed store\<close>

definition store_at :: "indexed_row list \<Rightarrow> string \<Rightarrow> string option" where
  "store_at c k = map_option input_fingerprint (keyed_find record_id c k)"

interpretation index: keyed_store store_at store_upsert store_delete record_id input_fingerprint
proof unfold_locales
  fix rs t k
  show "distinct (map record_id rs) \<Longrightarrow> store_at (store_upsert rs t) k =
      (case keyed_find record_id rs k of None \<Rightarrow> store_at t k | Some r \<Rightarrow> Some (input_fingerprint r))"
    by (auto simp: store_at_def store_upsert_def keyed_find_puts split: option.splits)
next
  fix ks t k
  show "store_at (store_delete ks t) k = (if k \<in> set ks then None else store_at t k)"
    by (simp add: store_at_def store_delete_def keyed_find_drop)
qed

lemma store_at_None: "store_at c k = None \<longleftrightarrow> k \<notin> record_id ` set c"
  by (simp add: store_at_def keyed_find_None)

section \<open>What every interruption leaves\<close>

definition key_fits :: "string \<Rightarrow> bool" where
  "key_fits k \<longleftrightarrow> k \<noteq> [] \<and> int (length (urlsafe_b64encode (utf8 k))) + 33 \<le> max_state_cursor_chars"

definition uuid_hex :: "string \<Rightarrow> bool" where
  "uuid_hex nonce \<longleftrightarrow> int (length nonce) = 32 \<and> CHR '':'' \<notin> set nonce"

text \<open>State rows of the scope are whole and their keys fit a cursor.\<close>

definition state_whole :: "state_scope \<Rightarrow> state_row list \<Rightarrow> bool" where
  "state_whole sc t \<longleftrightarrow> state_pk t \<and> (\<forall>r \<in> set t. sr_scope r = sc \<longrightarrow>
     key_fits (sr_key r) \<and> sr_fingerprint r \<noteq> [] \<and> sr_version r \<noteq> [])"

lemma state_whole_readable: "state_whole sc t \<Longrightarrow> uuid_hex nonce \<Longrightarrow> readable nonce sc t"
  by (auto simp: state_whole_def readable_def uuid_hex_def key_fits_def encode_state_cursor_def
      validate_state_cursor_def guard_def Let_def)

text \<open>
  A record of the upstream that the state shows as current is in the collection as it is upstream, and
  every row of the collection is recorded or upstream.
\<close>

definition vouched :: "publish_run \<Rightarrow> indexed_row list \<Rightarrow> publish_world \<Rightarrow> bool" where
  "vouched run upstream w \<longleftrightarrow>
     (case collection w of None \<Rightarrow> False | Some c \<Rightarrow>
        distinct (map record_id c) \<and> state_whole (pr_scope run) (pub_state w)
        \<and> (\<forall>r \<in> set upstream. state_at (pr_scope run) (pub_state w) (record_id r) = Some (input_fingerprint r, pr_version run)
             \<longrightarrow> store_at c (record_id r) = Some (input_fingerprint r))
        \<and> (\<forall>x \<in> set c. state_at (pr_scope run) (pub_state w) (record_id x) \<noteq> None \<or> record_id x \<in> record_id ` set upstream))"

lemma vouchedI:
  assumes "collection w = Some c" "distinct (map record_id c)" "state_whole (pr_scope run) (pub_state w)"
    and "\<And>r. \<lbrakk>r \<in> set upstream; state_at (pr_scope run) (pub_state w) (record_id r) = Some (input_fingerprint r, pr_version run)\<rbrakk>
      \<Longrightarrow> store_at c (record_id r) = Some (input_fingerprint r)"
    and "\<And>x. x \<in> set c \<Longrightarrow> state_at (pr_scope run) (pub_state w) (record_id x) \<noteq> None \<or> record_id x \<in> record_id ` set upstream"
  shows "vouched run upstream w"
  using assms by (simp add: vouched_def)

lemma vouched_collection: "vouched run upstream w \<Longrightarrow> \<exists>c. collection w = Some c"
  by (cases "collection w") (simp_all add: vouched_def)

lemma vouchedD:
  assumes "vouched run upstream w" "collection w = Some c"
  shows "distinct (map record_id c)" "state_whole (pr_scope run) (pub_state w)"
    "\<And>r. \<lbrakk>r \<in> set upstream; state_at (pr_scope run) (pub_state w) (record_id r) = Some (input_fingerprint r, pr_version run)\<rbrakk>
      \<Longrightarrow> store_at c (record_id r) = Some (input_fingerprint r)"
    "\<And>x. x \<in> set c \<Longrightarrow> state_at (pr_scope run) (pub_state w) (record_id x) \<noteq> None \<or> record_id x \<in> record_id ` set upstream"
  using assms by (simp_all add: vouched_def)

definition upstream_ok :: "publish_run \<Rightarrow> indexed_row list list \<Rightarrow> bool" where
  "upstream_ok run pages \<longleftrightarrow> distinct (map record_id (concat pages)) \<and> pr_version run \<noteq> []
     \<and> (\<forall>r \<in> set (concat pages). key_fits (record_id r) \<and> input_fingerprint r \<noteq> [])
     \<and> (\<forall>p \<in> set pages. int (length p) \<le> max_state_subset_keys)"

definition published_exactly :: "publish_run \<Rightarrow> indexed_row list \<Rightarrow> publish_world \<Rightarrow> bool" where
  "published_exactly run upstream w \<longleftrightarrow>
     (\<exists>c. collection w = Some c \<and> length c = length upstream
        \<and> store_at c = (\<lambda>k. map_option input_fingerprint (keyed_find record_id upstream k))
        \<and> state_at (pr_scope run) (pub_state w) =
            (\<lambda>k. map_option (\<lambda>r. (input_fingerprint r, pr_version run)) (keyed_find record_id upstream k)))"

text \<open>A property holds along a list of effects when it holds before, between and after them.\<close>

fun along :: "(publish_world \<Rightarrow> bool) \<Rightarrow> publish_run \<Rightarrow> int \<Rightarrow> publish_effect list \<Rightarrow> publish_world \<Rightarrow> bool" where
  "along P run now [] w = P w"
| "along P run now (e # es) w = (P w \<and> along P run now es (apply_effect run now e w))"

lemma along_append:
  "along P run now (es @ ds) w \<longleftrightarrow> along P run now es w \<and> along P run now ds (apply_effects run now es w)"
  by (induction es arbitrary: w) (cases ds; auto simp: apply_effects_def)+

lemma along_take: "along P run now es w \<Longrightarrow> P (apply_effects run now (take n es) w)"
  by (induction es arbitrary: w n) (auto simp: apply_effects_def take_Cons split: nat.splits)

lemma apply_effects_append [simp]:
  "apply_effects run now (es @ ds) w = apply_effects run now ds (apply_effects run now es w)"
  by (simp add: apply_effects_def)

lemma apply_effects_simps [simp]:
  "apply_effects run now [] w = w"
  "apply_effects run now (e # es) w = apply_effects run now es (apply_effect run now e w)"
  by (simp_all add: apply_effects_def)

section \<open>Single effects keep it\<close>

lemma vouched_store_delete:
  assumes "vouched run upstream w"
    and "\<And>r. \<lbrakk>r \<in> set upstream; state_at (pr_scope run) (pub_state w) (record_id r) = Some (input_fingerprint r, pr_version run)\<rbrakk>
      \<Longrightarrow> record_id r \<notin> set ids"
  shows "vouched run upstream (apply_effect run now (StoreDelete ids) w)"
proof -
  obtain c where c0: "collection w = Some c" using vouched_collection [OF assms(1)] by blast
  note c = c0 vouchedD [OF assms(1) c0]
  show ?thesis
  proof (rule vouchedI [where c = "store_delete ids c"])
    show "distinct (map record_id (store_delete ids c))" unfolding store_delete_def by (rule distinct_drop [OF c(2)])
    fix x assume "x \<in> set (store_delete ids c)"
    then have "x \<in> set c" by (simp add: store_delete_def)
    from c(5) [OF this] show "state_at (pr_scope run) (pub_state (apply_effect run now (StoreDelete ids) w)) (record_id x) \<noteq> None
        \<or> record_id x \<in> record_id ` set upstream" by simp
  qed (use c(1,3,4) assms(2) in \<open>simp_all add: index.look_remove\<close>)
qed

lemma set_puts: "set (fold (keyed_put key) rs t) \<subseteq> set rs \<union> set t"
  by (induction rs arbitrary: t) (fastforce simp: keyed_put_def split: if_splits)+

lemma vouched_store_write:
  assumes "vouched run upstream w" "distinct (map record_id rows)" "set rows \<subseteq> set upstream" "distinct (map record_id upstream)"
  shows "vouched run upstream (apply_effect run now (StoreWrite rows) w)"
proof -
  obtain c where c0: "collection w = Some c" using vouched_collection [OF assms(1)] by blast
  note c = c0 vouchedD [OF assms(1) c0]
  have held: "store_at (store_upsert rows c) (record_id r) = Some (input_fingerprint r)"
    if r: "r \<in> set upstream" "store_at c (record_id r) = Some (input_fingerprint r)" for r
  proof (cases "keyed_find record_id rows (record_id r)")
    case None
    with r assms(2) show ?thesis by (simp add: index.look_put)
  next
    case (Some s)
    then have "s \<in> set upstream" "record_id s = record_id r" using keyed_find_SomeD [OF Some] assms(3) by auto
    with r(1) assms(4) have "s = r" by (metis distinct_map inj_on_def)
    with Some assms(2) show ?thesis by (simp add: index.look_put)
  qed
  show ?thesis
  proof (rule vouchedI [where c = "store_upsert rows c"])
    show "distinct (map record_id (store_upsert rows c))" unfolding store_upsert_def by (rule distinct_puts [OF c(2)])
    fix x assume "x \<in> set (store_upsert rows c)"
    then have "x \<in> set rows \<or> x \<in> set c" using set_puts [of record_id rows c] by (auto simp: store_upsert_def)
    then show "state_at (pr_scope run) (pub_state (apply_effect run now (StoreWrite rows) w)) (record_id x) \<noteq> None
        \<or> record_id x \<in> record_id ` set upstream" using c(5) [of x] assms(3) by auto
  qed (use c(1,3,4) held in simp_all)
qed

lemma state_whole_upsert:
  assumes "state_whole sc t" "\<And>r. r \<in> set rs \<Longrightarrow> key_fits (st_key r) \<and> st_fingerprint r \<noteq> [] \<and> st_version r \<noteq> []"
  shows "state_whole sc (sql_upsert_rows sc now rs t)"
proof -
  have "x \<in> set t \<or> (\<exists>r \<in> set rs. x = row_of sc now r)" if "x \<in> set (sql_upsert_rows sc now rs t)" for x
    using that set_puts [of state_key "map (row_of sc now) rs" t] by (auto simp: sql_upsert_rows_def)
  moreover have "state_pk (sql_upsert_rows sc now rs t)" using assms(1) state_pk_writes(1) by (simp add: state_whole_def)
  moreover have "key_fits (sr_key x) \<and> sr_fingerprint x \<noteq> [] \<and> sr_version x \<noteq> []"
    if "x \<in> set (sql_upsert_rows sc now rs t)" "sr_scope x = sc" for x
    using calculation(1) [OF that(1)] that(2) assms by (elim disjE bexE) (simp_all add: state_whole_def)
  ultimately show ?thesis by (simp add: state_whole_def)
qed

lemma state_whole_delete: "state_whole sc t \<Longrightarrow> state_whole sc (sql_delete_rows sc ks t)"
  using state_pk_writes(2) by (auto simp: state_whole_def sql_delete_rows_def)

lemma vouched_drop_state:
  assumes "vouched run upstream w" "set ks \<inter> record_id ` set upstream = {}"
    and "\<And>c. collection w = Some c \<Longrightarrow> set ks \<inter> record_id ` set c = {}"
  shows "vouched run upstream (apply_effect run now (DropState ks) w)"
  using assms by (fastforce simp: vouched_def state_at_delete state_whole_delete split: option.splits)

definition state_record_of :: "string \<Rightarrow> indexed_row \<Rightarrow> state_record" where
  "state_record_of version r = \<lparr>st_key = record_id r, st_fingerprint = input_fingerprint r, st_version = version\<rparr>"

lemma keyed_find_state_records:
  "keyed_find st_key (map (state_record_of v) rows) k = map_option (state_record_of v) (keyed_find record_id rows k)"
  by (induction rows) (simp_all add: keyed_find_Cons state_record_of_def)

lemma state_at_write:
  assumes "distinct (map record_id rows)"
  shows "state_at sc (sql_upsert_rows sc now (map (state_record_of v) rows) t) k =
    (case keyed_find record_id rows k of None \<Rightarrow> state_at sc t k | Some r \<Rightarrow> Some (input_fingerprint r, v))"
proof -
  have "distinct (map st_key (map (state_record_of v) rows))" using assms by (simp add: state_record_of_def comp_def)
  then show ?thesis by (simp add: state_at_upsert keyed_find_state_records state_record_of_def split: option.splits)
qed

lemma vouched_write_state:
  assumes "vouched run upstream w" "upstream_ok run pages" "upstream = concat pages"
    and rows: "set rows \<subseteq> set upstream" "distinct (map record_id rows)"
    and held: "\<And>c r. \<lbrakk>collection w = Some c; r \<in> set rows\<rbrakk> \<Longrightarrow> store_at c (record_id r) = Some (input_fingerprint r)"
  shows "vouched run upstream (apply_effect run now (WriteState (map (state_record_of (pr_version run)) rows)) w)"
proof -
  obtain c where c: "collection w = Some c" using assms(1) by (auto simp: vouched_def split: option.splits)
  have "state_whole (pr_scope run) (sql_upsert_rows (pr_scope run) now (map (state_record_of (pr_version run)) rows) (pub_state w))"
    using assms(1,2,3) rows(1) c by (intro state_whole_upsert) (auto simp: vouched_def upstream_ok_def state_record_of_def)
  moreover have "store_at c (record_id r) = Some (input_fingerprint r)"
    if "r \<in> set upstream" "state_at (pr_scope run) (sql_upsert_rows (pr_scope run) now (map (state_record_of (pr_version run)) rows) (pub_state w))
          (record_id r) = Some (input_fingerprint r, pr_version run)" for r
  proof (cases "keyed_find record_id rows (record_id r)")
    case None
    with that assms(1) c rows(2) show ?thesis by (simp add: state_at_write vouched_def)
  next
    case (Some s)
    then have "s \<in> set rows" "record_id s = record_id r" using keyed_find_SomeD by metis+
    with held [OF c, of s] that Some rows(2) show ?thesis by (simp add: state_at_write)
  qed
  ultimately show ?thesis
    using assms(1) c rows(2) by (auto simp: vouched_def state_at_write split: option.splits)
qed

section \<open>One page\<close>

lemma pending_state_ok:
  "v \<noteq> [] \<Longrightarrow> \<forall>r \<in> set rows. record_id r \<noteq> [] \<and> input_fingerprint r \<noteq> [] \<Longrightarrow>
     pending_state v rows = Inr (map (state_record_of v) rows)"
  by (induction rows) (simp_all add: new_state_record_def guard_def state_record_of_def)

lemma page_ok:
  assumes "upstream_ok run pages" "p \<in> set pages"
  shows "distinct (map record_id p)" "\<forall>r \<in> set p. key_fits (record_id r) \<and> record_id r \<noteq> [] \<and> input_fingerprint r \<noteq> []"
    "int (length p) \<le> max_state_subset_keys" "pr_version run \<noteq> []" "set p \<subseteq> set (concat pages)"
proof -
  obtain xs ys where "pages = xs @ p # ys" using assms(2) by (meson split_list)
  then show "distinct (map record_id p)" using assms(1) by (simp add: upstream_ok_def)
qed (use assms in \<open>auto simp: upstream_ok_def key_fits_def\<close>)

lemma page_effects_pending:
  assumes "state_pk (pub_state w)" "upstream_ok run pages" "p \<in> set pages" "collection w = Some c"
    and rows: "rows = filter (\<lambda>r. state_at (pr_scope run) (pub_state w) (record_id r) \<noteq> Some (input_fingerprint r, pr_version run)) p"
  shows "\<exists>prior. page_effects run False p w = (HeartbeatClaim # (if rows = [] then [] else write_effects run True prior rows
      @ [WriteState (map (state_record_of (pr_version run)) rows)]), None)"
proof -
  note ok = page_ok [OF assms(2,3)]
  let ?u = "\<lambda>r. \<lparr>ur_key = record_id r, ur_fingerprint = input_fingerprint r\<rparr>"
  have keys: "map ur_key (map ?u p) = map record_id p" by simp
  obtain d where d: "fetch_state_subset (pr_scope run) (map record_id p) (pub_state w) = Inr d"
      "map_of d = state_at (pr_scope run) (pub_state w) |` set (map record_id p)"
    using fetch_state_subset_ok [OF assms(1) ok(1)] ok(2,3) by (metis (no_types, lifting) image_iff length_map list.set_map)
  define prior where "prior = (if p = [] then [] else d)"
  have prior: "(if map ?u p = [] then Inr [] else fetch_state_subset (pr_scope run) (map ur_key (map ?u p)) (pub_state w)) = Inr prior"
    unfolding keys prior_def using d(1) by simp
  have known: "unchanged_in prior (pr_version run) False (?u r) \<longleftrightarrow>
      state_at (pr_scope run) (pub_state w) (record_id r) = Some (input_fingerprint r, pr_version run)" if "r \<in> set p" for r
    using that d(2) by (auto simp: prior_def unchanged_in_def restrict_map_def split: option.splits)
  have pending: "pending_rows p (classify_batch (map ?u p) prior (pr_version run) False) = rows"
    unfolding pending_rows_eq [OF ok(1)] rows by (rule filter_cong [OF refl]) (simp add: known)
  have state: "pending_state (pr_version run) rows = Inr (map (state_record_of (pr_version run)) rows)"
    using ok(2,4) by (intro pending_state_ok) (auto simp: rows)
  have "distinct (map record_id rows)" unfolding rows using ok(1) by (rule distinct_drop)
  then have valid: "validate_state_records (map (state_record_of (pr_version run)) rows) = Inr ()"
    by (simp add: validate_state_records_def guard_def state_record_of_def comp_def)
  show ?thesis
    unfolding page_effects_def Let_def prior sum.case pending
    by (intro exI [of _ prior]) (simp add: assms(4) state valid)
qed

lemma along_same [simp]:
  "along P run now (HeartbeatClaim # es) w \<longleftrightarrow> P w \<and> along P run now es w"
  "along P run now (VerifyClaim # es) w \<longleftrightarrow> P w \<and> along P run now es w"
  by simp_all

lemma distinct_rows_eq: "distinct (map key xs) \<Longrightarrow> x \<in> set xs \<Longrightarrow> y \<in> set xs \<Longrightarrow> key x = key y \<Longrightarrow> x = y"
  by (metis distinct_map inj_on_def)

lemma writes_vouched:
  assumes "vouched run (concat pages) w" "upstream_ok run pages"
    and rows: "set rows \<subseteq> set (concat pages)" "distinct (map record_id rows)"
    and stale: "\<And>r. r \<in> set rows \<Longrightarrow> state_at (pr_scope run) (pub_state w) (record_id r) \<noteq> Some (input_fingerprint r, pr_version run)"
  shows "along (vouched run (concat pages)) run now
      (write_effects run True prior rows @ [WriteState (map (state_record_of (pr_version run)) rows)]) w
    \<and> pub_state (apply_effects run now (write_effects run True prior rows @ [WriteState (map (state_record_of (pr_version run)) rows)]) w)
      = sql_upsert_rows (pr_scope run) now (map (state_record_of (pr_version run)) rows) (pub_state w)"
proof -
  let ?V = "vouched run (concat pages)"
  define ids where "ids = map record_id (filter (\<lambda>r. map_of prior (record_id r) \<noteq> None) rows)"
  have distinct: "distinct (map record_id (concat pages))" using assms(2) by (simp add: upstream_ok_def)
  have "record_id r \<notin> set ids"
    if "r \<in> set (concat pages)" "state_at (pr_scope run) (pub_state w) (record_id r) = Some (input_fingerprint r, pr_version run)" for r
  proof
    assume "record_id r \<in> set ids"
    then obtain s where s: "s \<in> set rows" "record_id s = record_id r" by (auto simp: ids_def)
    then have "s = r" using distinct_rows_eq [OF distinct, of s r] rows(1) that(1) by auto
    with s stale that show False by auto
  qed
  then have revoked: "?V (apply_effect run now (StoreDelete ids) w)" by (rule vouched_store_delete [OF assms(1)])
  have writing: "?V v \<Longrightarrow> along ?V run now [StoreWrite rows, VerifyClaim, WriteState (map (state_record_of (pr_version run)) rows)] v" for v
  proof -
    assume v: "?V v"
    note written = vouched_store_write [OF v rows(2,1) distinct, of now]
    have "?V (apply_effect run now (WriteState (map (state_record_of (pr_version run)) rows)) (apply_effect run now (StoreWrite rows) v))"
    proof (rule vouched_write_state [OF written assms(2) refl rows])
      fix c r assume "collection (apply_effect run now (StoreWrite rows) v) = Some c" "r \<in> set rows"
      then show "store_at c (record_id r) = Some (input_fingerprint r)"
        using rows(2) by (auto simp: index.look_put keyed_find_mem)
    qed
    with v written show ?thesis by simp
  qed
  have eq: "write_effects run True prior rows @ [WriteState rs] = VerifyClaim #
      (if pr_governed run \<and> ids \<noteq> [] then [StoreDelete ids] else []) @ [StoreWrite rows, VerifyClaim, WriteState rs]" for rs
    by (simp add: write_effects_def Let_def ids_def)
  show ?thesis unfolding eq using assms(1) writing [OF assms(1)] writing [OF revoked] by simp
qed

lemma page_vouched:
  assumes "vouched run (concat pages) w" "upstream_ok run pages" "p \<in> set pages"
  shows "\<exists>es. page_effects run False p w = (es, None) \<and> along (vouched run (concat pages)) run now es w
    \<and> (\<forall>k. state_at (pr_scope run) (pub_state (apply_effects run now es w)) k =
        (case keyed_find record_id p k of None \<Rightarrow> state_at (pr_scope run) (pub_state w) k | Some r \<Rightarrow> Some (input_fingerprint r, pr_version run)))"
proof -
  obtain c where c: "collection w = Some c" using vouched_collection [OF assms(1)] by blast
  have pk: "state_pk (pub_state w)" using vouchedD(2) [OF assms(1) c] by (simp add: state_whole_def)
  note ok = page_ok [OF assms(2,3)]
  let ?now = "\<lambda>r. state_at (pr_scope run) (pub_state w) (record_id r) = Some (input_fingerprint r, pr_version run)"
  define rows where "rows = filter (\<lambda>r. \<not> ?now r) p"
  have rows: "set rows \<subseteq> set (concat pages)" "distinct (map record_id rows)" "\<And>r. r \<in> set rows \<Longrightarrow> \<not> ?now r"
    using ok(1,5) by (auto simp: rows_def distinct_drop)
  obtain prior where effects: "page_effects run False p w = (HeartbeatClaim # (if rows = [] then [] else write_effects run True prior rows
      @ [WriteState (map (state_record_of (pr_version run)) rows)]), None)"
    using page_effects_pending [OF pk assms(2,3) c rows_def] by blast
  have current: "?now r" if "r \<in> set p" "keyed_find record_id rows (record_id r) = None" for r
    using that by (auto simp: keyed_find_None rows_def)
  have lookup: "(case keyed_find record_id rows k of None \<Rightarrow> state_at (pr_scope run) (pub_state w) k | Some r \<Rightarrow> Some (input_fingerprint r, pr_version run))
      = (case keyed_find record_id p k of None \<Rightarrow> state_at (pr_scope run) (pub_state w) k | Some r \<Rightarrow> Some (input_fingerprint r, pr_version run))" for k
  proof (cases "keyed_find record_id rows k")
    case None
    with current show ?thesis by (auto split: option.splits dest!: keyed_find_SomeD)
  next
    case (Some r)
    then have "r \<in> set p" "record_id r = k" using keyed_find_SomeD [OF Some] by (auto simp: rows_def)
    then have "keyed_find record_id p k = Some r" using keyed_find_mem [OF ok(1)] by blast
    with Some show ?thesis by simp
  qed
  show ?thesis
  proof (cases "rows = []")
    case True
    with effects assms(1) lookup show ?thesis by (intro exI conjI) auto
  next
    case False
    with effects assms(1) writes_vouched [OF assms(1,2) rows(1,2), where prior = prior and now = now] rows(3) lookup
    show ?thesis by (auto simp: state_at_write [OF rows(2)])
  qed
qed

section \<open>The loops\<close>

lemma find_either_order:
  assumes "distinct (map key (xs @ ys))"
  shows "(case keyed_find key ys k of None \<Rightarrow> (case keyed_find key xs k of None \<Rightarrow> d | Some x \<Rightarrow> f x) | Some y \<Rightarrow> f y)
    = (case keyed_find key (xs @ ys) k of None \<Rightarrow> d | Some z \<Rightarrow> f z)"
proof (cases "keyed_find key xs k")
  case (Some x)
  then have "k \<in> key ` set xs" using keyed_find_SomeD [OF Some] by auto
  with assms have "keyed_find key ys k = None" by (auto simp: keyed_find_None)
  with Some show ?thesis by (simp add: keyed_find_append)
next
  case None
  then show ?thesis by (cases "keyed_find key ys k") (simp_all add: keyed_find_append)
qed

lemma pages_vouched:
  assumes "vouched run (concat pages) w" "upstream_ok run pages" "set ps \<subseteq> set pages" "distinct (map record_id (concat ps))"
  shows "\<exists>es. publish_pages run now False ps w = (es, None) \<and> along (vouched run (concat pages)) run now es w
    \<and> (\<forall>k. state_at (pr_scope run) (pub_state (apply_effects run now es w)) k =
        (case keyed_find record_id (concat ps) k of None \<Rightarrow> state_at (pr_scope run) (pub_state w) k | Some r \<Rightarrow> Some (input_fingerprint r, pr_version run)))"
  using assms(1,3,4)
proof (induction ps arbitrary: w)
  case (Cons p ps)
  obtain es where es: "page_effects run False p w = (es, None)" "along (vouched run (concat pages)) run now es w"
    "\<And>k. state_at (pr_scope run) (pub_state (apply_effects run now es w)) k =
        (case keyed_find record_id p k of None \<Rightarrow> state_at (pr_scope run) (pub_state w) k | Some r \<Rightarrow> Some (input_fingerprint r, pr_version run))"
    using page_vouched [OF Cons.prems(1) assms(2), of p now] Cons.prems(2) by auto
  have "vouched run (concat pages) (apply_effects run now es w)" using along_take [OF es(2), of "length es"] by simp
  from Cons.IH [OF this] Cons.prems(2,3) obtain rest where rest:
    "publish_pages run now False ps (apply_effects run now es w) = (rest, None)"
    "along (vouched run (concat pages)) run now rest (apply_effects run now es w)"
    "\<And>k. state_at (pr_scope run) (pub_state (apply_effects run now rest (apply_effects run now es w))) k =
        (case keyed_find record_id (concat ps) k of None \<Rightarrow> state_at (pr_scope run) (pub_state (apply_effects run now es w)) k
         | Some r \<Rightarrow> Some (input_fingerprint r, pr_version run))" by auto
  have "distinct (map record_id (p @ concat ps))" using Cons.prems(3) by simp
  note order = find_either_order [OF this, where f = "\<lambda>r. Some (input_fingerprint r, pr_version run)"]
  show ?case
    by (rule exI [of _ "es @ rest"]) (simp add: es(1,2) rest(1,2) along_append rest(3) es(3) order cong: option.case_cong)
qed simp

lemma deletions_vouched:
  assumes "vouched run upstream w" "\<And>ks. ks \<in> set kss \<Longrightarrow> set ks \<inter> record_id ` set upstream = {}"
  shows "along (vouched run upstream) run now (concat (map (\<lambda>ks. [VerifyClaim, StoreDelete ks, DropState ks]) kss)) w
    \<and> (\<forall>k. state_at (pr_scope run) (pub_state (apply_effects run now (concat (map (\<lambda>ks. [VerifyClaim, StoreDelete ks, DropState ks]) kss)) w)) k =
        (if k \<in> set (concat kss) then None else state_at (pr_scope run) (pub_state w) k))"
  using assms
proof (induction kss arbitrary: w)
  case (Cons ks kss)
  have here: "set ks \<inter> record_id ` set upstream = {}" using Cons.prems(2) by simp
  then have deleted: "vouched run upstream (apply_effect run now (StoreDelete ks) w)"
    by (intro vouched_store_delete [OF Cons.prems(1)]) auto
  have dropped: "vouched run upstream (apply_effect run now (DropState ks) (apply_effect run now (StoreDelete ks) w))"
    by (rule vouched_drop_state [OF deleted here]) (auto simp: store_delete_def)
  have rest: "\<And>ks. ks \<in> set kss \<Longrightarrow> set ks \<inter> record_id ` set upstream = {}" using Cons.prems(2) by simp
  note IH = Cons.IH [OF dropped rest]
  show ?case using Cons.prems(1) deleted IH by (auto simp: state_at_delete)
qed simp

lemma stale_vouched:
  assumes "vouched run upstream w" "uuid_hex nonce" "1 \<le> pr_page_size run" "pr_page_size run \<le> max_state_page_size"
    and "\<not> pr_rebuild run" "\<not> pr_subset run" "\<not> pr_complete_resume run"
  shows "\<exists>ds. stale_effects run (Some (map record_id upstream)) nonce w = (ds, None) \<and> along (vouched run upstream) run now ds w
    \<and> (\<forall>k. state_at (pr_scope run) (pub_state (apply_effects run now ds w)) k =
        (if k \<in> record_id ` set upstream then state_at (pr_scope run) (pub_state w) k else None))"
proof -
  obtain c where c: "collection w = Some c" using vouched_collection [OF assms(1)] by blast
  have whole: "state_whole (pr_scope run) (pub_state w)" by (rule vouchedD(2) [OF assms(1) c])
  have "length (scope_state (pr_scope run) (pub_state w)) < Suc (length (pub_state w))"
    by (simp add: scope_state_def le_imp_less_Suc)
  from stale_pages_exact [OF state_whole_readable [OF whole assms(2)] assms(3,4) this, of "map record_id upstream"]
  obtain pages where pages: "iter_stale_pages (Suc (length (pub_state w))) (pr_scope run) (pr_page_size run) (Some (map record_id upstream)) None nonce (pub_state w)
      = (pages, Exhausted)"
    "concat pages = map page_record_of (sort_key sr_key (filter (\<lambda>r. sr_key r \<notin> set (map record_id upstream)) (scope_state (pr_scope run) (pub_state w))))"
    by blast
  let ?kss = "map (map st_key) pages"
  have keys: "set (concat ?kss) = {sr_key r |r. r \<in> set (pub_state w) \<and> sr_scope r = pr_scope run \<and> sr_key r \<notin> record_id ` set upstream}"
  proof -
    have "set (concat ?kss) = st_key ` set (concat pages)" by (simp add: map_concat [symmetric])
    also have "\<dots> = sr_key ` {r \<in> set (pub_state w). sr_scope r = pr_scope run \<and> sr_key r \<notin> record_id ` set upstream}"
      unfolding pages(2) by (simp add: scope_state_def image_image conj_commute)
    finally show ?thesis by blast
  qed
  have absent: "k \<notin> record_id ` set upstream" if "k \<in> set (concat ?kss)" for k
    using that unfolding keys by (elim CollectE exE conjE) simp
  have disjoint: "set ks \<inter> record_id ` set upstream = {}" if "ks \<in> set ?kss" for ks
  proof -
    have "set ks \<subseteq> set (concat ?kss)" using that by auto
    then show ?thesis using absent by blast
  qed
  have gone: "k \<in> set (concat ?kss)" if k: "k \<notin> record_id ` set upstream" "state_at (pr_scope run) (pub_state w) k \<noteq> None" for k
  proof -
    obtain r where r: "keyed_find state_key (pub_state w) (pr_scope run, k) = Some r" using k(2) by (auto simp: state_at_def)
    have "r \<in> set (pub_state w)" "sr_scope r = pr_scope run" "sr_key r = k"
      using keyed_find_SomeD [OF r] by (simp_all add: state_key_def)
    with k(1) show ?thesis unfolding keys by blast
  qed
  have effects: "stale_effects run (Some (map record_id upstream)) nonce w
      = (concat (map (\<lambda>ks. [VerifyClaim, StoreDelete ks, DropState ks]) ?kss), None)"
    using assms(5-7) by (simp add: stale_effects_def pages(1) comp_def)
  let ?ds = "concat (map (\<lambda>ks. [VerifyClaim, StoreDelete ks, DropState ks]) ?kss)"
  have deleted: "along (vouched run upstream) run now ?ds w" "state_at (pr_scope run) (pub_state (apply_effects run now ?ds w)) k =
      (if k \<in> set (concat ?kss) then None else state_at (pr_scope run) (pub_state w) k)" for k
    using deletions_vouched [of run upstream w ?kss now] assms(1) disjoint by blast+
  have "state_at (pr_scope run) (pub_state (apply_effects run now ?ds w)) k =
      (if k \<in> record_id ` set upstream then state_at (pr_scope run) (pub_state w) k else None)" for k
    unfolding deleted(2) using absent [of k] gone [of k] by metis
  with effects deleted(1) show ?thesis by blast
qed

section \<open>Examples\<close>

definition demo_run :: publish_run where
  "demo_run = \<lparr>pr_scope = demo_scope, pr_version = ''v1'', pr_page_size = 2, pr_rebuild = False, pr_seeded = False,
     pr_resumed = False, pr_subset = False, pr_complete_resume = False, pr_governed = True\<rparr>"

definition demo_indexed :: "string \<Rightarrow> string \<Rightarrow> indexed_row" where
  "demo_indexed k fp = \<lparr>record_id = k, row_values = [], input_fingerprint = fp\<rparr>"

definition demo_published :: publish_world where
  "demo_published = \<lparr>collection = Some [demo_indexed ''d1'' ''f1'', demo_indexed ''d2'' ''f2'', demo_indexed ''d3'' ''f3''],
     pub_state = demo_state\<rparr>"

definition demo_upstream :: "indexed_row list list" where
  "demo_upstream = [[demo_indexed ''d1'' ''f1'', demo_indexed ''d2'' ''g2''], [demo_indexed ''d4'' ''f4'']]"

definition demo_ids :: "indexed_row list list \<Rightarrow> string list option" where
  "demo_ids pages = Some (map record_id (concat pages))"

definition demo_nonce :: "char \<Rightarrow> string" where
  "demo_nonce c = replicate 32 c"

section \<open>Properties\<close>

lemma vouched_exact:
  assumes "vouched run upstream w" "distinct (map record_id upstream)"
    and state: "\<And>k. state_at (pr_scope run) (pub_state w) k = map_option (\<lambda>r. (input_fingerprint r, pr_version run)) (keyed_find record_id upstream k)"
  shows "published_exactly run upstream w"
proof -
  obtain c where c: "collection w = Some c" using vouched_collection [OF assms(1)] by blast
  note v = vouchedD [OF assms(1) c]
  have held: "store_at c (record_id r) = Some (input_fingerprint r)" if "r \<in> set upstream" for r
    using that v(3) [OF that] state [of "record_id r"] assms(2) by (simp add: keyed_find_mem)
  have only: "k \<in> record_id ` set upstream" if k: "store_at c k \<noteq> None" for k
  proof -
    obtain x where "x \<in> set c" "record_id x = k" using k store_at_None [of c k] by auto
    then show ?thesis using v(4) [of x] state [of k] by (auto simp: keyed_find_None)
  qed
  have store: "store_at c k = map_option input_fingerprint (keyed_find record_id upstream k)" for k
    by (rule index.current_exact [OF assms(2)]) (use held only in \<open>simp_all add: index.current_def\<close>)
  have "keyed_find record_id c k = None \<longleftrightarrow> keyed_find record_id upstream k = None" for k
    using store [of k] unfolding store_at_def by (metis option.map_disc_iff)
  then have "length c = length upstream" using length_keyed [OF v(1)] length_keyed [OF assms(2)] by simp
  with c store state show ?thesis by (auto simp: published_exactly_def fun_eq_iff)
qed

definition in_place :: "publish_run \<Rightarrow> bool" where
  "in_place run \<longleftrightarrow> \<not> pr_rebuild run \<and> \<not> pr_subset run \<and> \<not> pr_complete_resume run
     \<and> 1 \<le> pr_page_size run \<and> pr_page_size run \<le> max_state_page_size"

lemma publish_from_vouched:
  assumes "vouched run (concat pages) w" "upstream_ok run pages" "in_place run" "uuid_hex nonce"
  shows "\<exists>es. publish run now nonce (Some (map record_id (concat pages))) pages w = (es, None)
    \<and> along (vouched run (concat pages)) run now es w \<and> published_exactly run (concat pages) (apply_effects run now es w)"
proof -
  let ?U = "concat pages"
  have distinct: "distinct (map record_id ?U)" using assms(2) by (simp add: upstream_ok_def)
  obtain es where es: "publish_pages run now False pages w = (es, None)" "along (vouched run ?U) run now es w"
    "\<And>k. state_at (pr_scope run) (pub_state (apply_effects run now es w)) k =
        (case keyed_find record_id ?U k of None \<Rightarrow> state_at (pr_scope run) (pub_state w) k | Some r \<Rightarrow> Some (input_fingerprint r, pr_version run))"
    using pages_vouched [OF assms(1,2) order.refl distinct, of now] by auto
  define w1 where "w1 = apply_effects run now es w"
  have v1: "vouched run ?U w1" using along_take [OF es(2), of "length es"] by (simp add: w1_def)
  obtain ds where ds: "stale_effects run (Some (map record_id ?U)) nonce w1 = (ds, None)" "along (vouched run ?U) run now ds w1"
    "\<And>k. state_at (pr_scope run) (pub_state (apply_effects run now ds w1)) k =
        (if k \<in> record_id ` set ?U then state_at (pr_scope run) (pub_state w1) k else None)"
    using stale_vouched [OF v1 assms(4), of now] assms(3) by (auto simp: in_place_def)
  have v2: "vouched run ?U (apply_effects run now ds w1)" using along_take [OF ds(2), of "length ds"] by simp
  have "state_at (pr_scope run) (pub_state (apply_effects run now ds w1)) k
      = map_option (\<lambda>r. (input_fingerprint r, pr_version run)) (keyed_find record_id ?U k)" for k
    using ds(3) [of k] es(3) [of k] by (cases "keyed_find record_id ?U k") (auto simp: w1_def keyed_find_None dest: keyed_find_SomeD)
  note exact = vouched_exact [OF v2 distinct this]
  obtain c where c: "collection (apply_effects run now ds w1) = Some c" "length c = length ?U"
    using exact by (auto simp: published_exactly_def)
  obtain c0 where c0: "collection w = Some c0" using vouched_collection [OF assms(1)] by blast
  have "publish run now nonce (Some (map record_id ?U)) pages w = (es @ ds, None)"
    using assms(3) es(1) ds(1) c by (simp add: publish_def c0 in_place_def w1_def [symmetric] rows_valid_def Let_def)
  with es(2) ds(2) exact show ?thesis by (intro exI [of _ "es @ ds"]) (simp add: along_append w1_def)
qed



section \<open>What the same state does not cover\<close>

text \<open>
  A collection that was lost is republished in full, but only by the run that finds it missing: when that
  run is interrupted, the state of the rows it had not reached still vouches for them, and every later
  run ends in the row-count failure.
\<close>

lemma interrupted_forced_republish_fails:
  "let w = \<lparr>collection = None, pub_state = [demo_row ''d1'' ''f1'', demo_row ''d2'' ''f2'']\<rparr>;
       pages = [[demo_indexed ''d1'' ''f1''], [demo_indexed ''d2'' ''f2'']];
       w' = apply_effects demo_run 7 (take 7 (fst (publish demo_run 7 (demo_nonce CHR ''a'') (demo_ids pages) pages w))) w
   in snd (publish demo_run 7 (demo_nonce CHR ''a'') (demo_ids pages) pages w) = None
      \<and> snd (publish demo_run 8 (demo_nonce CHR ''b'') (demo_ids pages) pages w') = Some RowCountMismatch"
  by code_simp

text \<open>
  A row that was rewritten but not yet recorded, and that then returns upstream to what the state records,
  counts as unchanged: the run succeeds and the collection keeps the row that was withdrawn.
\<close>

lemma reverted_row_is_kept:
  "let w = \<lparr>collection = Some [demo_indexed ''d1'' ''f1''], pub_state = [demo_row ''d1'' ''f1'']\<rparr>;
       edited = [[demo_indexed ''d1'' ''g1'']]; reverted = [[demo_indexed ''d1'' ''f1'']];
       w' = apply_effects demo_run 7 (take 4 (fst (publish demo_run 7 (demo_nonce CHR ''a'') (demo_ids edited) edited w))) w;
       (es, outcome) = publish demo_run 8 (demo_nonce CHR ''b'') (demo_ids reverted) reverted w'
   in outcome = None \<and> collection (apply_effects demo_run 8 es w') = Some [demo_indexed ''d1'' ''g1'']"
  by code_simp

end
