(* ===== verification/Activation.thy ===== *)
theory Activation
  imports Publication_Props
begin

text \<open>
  Activating a complete generation without reading the corpus again
  (\<^verbatim>\<open>execution/activation.py\<close>): the state recorded for the generation is completed from the serving
  scope, restamped at the current code version, checked against the collection, completed with markers
  for rows nothing describes, and moved into the serving scope (\<^verbatim>\<open>_activate_generation\<close> of
  \<^verbatim>\<open>execution/search.py\<close>), fenced on the publisher's claim.

  As for publication, a run is the list of its durable effects on the state table, and an interrupted run
  a prefix of it. The slots drawn by the seeded generator for the reservoir sample are a parameter
  (\<open>slots\<close>), as are the nonces of the readers; the index build and the ledger notes are not part of the model.
\<close>

section \<open>Refusals\<close>

record collection_metadata =
  cm_config_fingerprint :: "string option"
  cm_row_count :: nat

datatype refusal = NoCollection | OtherConfiguration | MoreRowsThanUpstream

definition activation_refusal :: "collection_metadata option \<Rightarrow> string \<Rightarrow> nat \<Rightarrow> refusal option" where
  "activation_refusal existing declared upstream_rows =
     (case existing of None \<Rightarrow> Some NoCollection
      | Some m \<Rightarrow>
          if cm_config_fingerprint m \<noteq> Some declared then Some OtherConfiguration
          else if upstream_rows < cm_row_count m then Some MoreRowsThanUpstream else None)"

section \<open>Effects\<close>

record activation_run =
  ar_serving :: state_scope
  ar_publish :: state_scope
  ar_version :: string
  ar_page_size :: int
  ar_serving_applies :: bool
  ar_fence :: state_scope_fence

datatype activation_effect =
    CheckClaim
  | PutState "state_record list"
  | SwapServing "state_record list list"
  | ClearPublish

datatype activation_error =
    RowsNotVerified
  | AnotherPublisher
  | Refused refusal
  | PageFailure page_error
  | KeyFailure state_error
  | StateExceedsCollection
  | SampleNotHeld
  | StateNamesMissingRows

fun apply_activation :: "activation_run \<Rightarrow> world \<Rightarrow> int \<Rightarrow> activation_effect \<Rightarrow> state_row list \<Rightarrow> state_row list" where
  "apply_activation run lw now CheckClaim t = t"
| "apply_activation run lw now (PutState rs) t = sql_upsert_rows (ar_publish run) now rs t"
| "apply_activation run lw now (SwapServing bs) t = snd (replace_state_scope (ar_serving run) now bs (Some (ar_fence run)) lw t)"
| "apply_activation run lw now ClearPublish t = clear_state (ar_publish run) t"

definition apply_activations :: "activation_run \<Rightarrow> world \<Rightarrow> int \<Rightarrow> activation_effect list \<Rightarrow> state_row list \<Rightarrow> state_row list" where
  "apply_activations run lw now es t = fold (apply_activation run lw now) es t"

section \<open>The phases\<close>

definition restamped :: "string \<Rightarrow> state_record list \<Rightarrow> state_record list" where
  "restamped version batch = map (\<lambda>r. r\<lparr>st_version := version\<rparr>) batch"

text \<open>All batches of a scope, read on the snapshot \<open>t\<close>.\<close>

definition scope_batches ::
  "state_scope \<Rightarrow> int \<Rightarrow> absence_probe \<Rightarrow> string \<Rightarrow> state_row list \<Rightarrow> state_record list list \<times> stream_end" where
  "scope_batches sc page_size probe nonce t =
     (case open_state_page_reader \<lparr>rq_scope = sc, rq_page_size = page_size, rq_absent_from = probe\<rparr> nonce t of
        Inl e \<Rightarrow> ([], Failed e) | Inr fetch \<Rightarrow> state_batches (Suc (length t)) fetch None)"

definition fill_state_from_serving ::
  "activation_run \<Rightarrow> string \<Rightarrow> state_row list \<Rightarrow> activation_effect list \<times> nat \<times> activation_error option" where
  "fill_state_from_serving run nonce t =
     (case scope_batches (ar_serving run) (ar_page_size run) (ScopeProbe (ar_publish run)) nonce t of
        (bs, outcome) \<Rightarrow>
          (concat (map (\<lambda>b. [CheckClaim, PutState (restamped (ar_version run) b)]) bs), length (concat bs),
           case outcome of Failed e \<Rightarrow> Some (PageFailure e) | _ \<Rightarrow> None))"

definition sample_size :: nat where
  "sample_size = 1000"

fun reservoir :: "(nat \<Rightarrow> nat) \<Rightarrow> nat \<Rightarrow> string list \<Rightarrow> string list \<Rightarrow> string list" where
  "reservoir slots seen sample [] = sample"
| "reservoir slots seen sample (k # ks) =
     reservoir slots (Suc seen)
       (if length sample < sample_size then sample @ [k]
        else if slots (Suc seen) < sample_size then sample[slots (Suc seen) := k] else sample) ks"

definition restamp_and_sample ::
  "activation_run \<Rightarrow> (nat \<Rightarrow> nat) \<Rightarrow> string \<Rightarrow> state_row list \<Rightarrow> activation_effect list \<times> nat \<times> string list \<times> activation_error option" where
  "restamp_and_sample run slots nonce t =
     (case scope_batches (ar_publish run) (ar_page_size run) NoProbe nonce t of
        (bs, outcome) \<Rightarrow>
          (concat (map (\<lambda>b. [CheckClaim, PutState (restamped (ar_version run) b)]) bs), length (concat bs),
           reservoir slots 0 [] (map st_key (concat bs)),
           case outcome of Failed e \<Rightarrow> Some (PageFailure e) | _ \<Rightarrow> None))"

definition count_present :: "string list \<Rightarrow> string list \<Rightarrow> nat" where
  "count_present ids sample = length (filter (\<lambda>i. i \<in> set sample) ids)"

definition unverified_input_fingerprint :: string where
  "unverified_input_fingerprint = ''unverified-by-activation''"

fun mark_rows_without_state ::
  "activation_run \<Rightarrow> world \<Rightarrow> int \<Rightarrow> string list list \<Rightarrow> state_row list \<Rightarrow> activation_effect list \<times> nat \<times> activation_error option" where
  "mark_rows_without_state run lw now [] t = ([], 0, None)"
| "mark_rows_without_state run lw now (p # ps) t =
     (case fetch_state_subset (ar_publish run) p t of
        Inl e \<Rightarrow> ([CheckClaim], 0, Some (KeyFailure e))
      | Inr known \<Rightarrow>
          let markers = map (\<lambda>k. \<lparr>st_key = k, st_fingerprint = unverified_input_fingerprint, st_version = ar_version run\<rparr>)
                (filter (\<lambda>k. map_of known k = None) p);
              es = CheckClaim # (if markers = [] then [] else [PutState markers]) in
          (case mark_rows_without_state run lw now ps (apply_activations run lw now es t) of
             (rest, n, e) \<Rightarrow> (es @ rest, length markers + n, e)))"

section \<open>The run\<close>

text \<open>
  The work under the claim. \<open>rows\<close> is the row count the collection reports and \<open>pages\<close> are its identifiers as
  the store lists them, in pages.
\<close>

definition activation_phases ::
  "activation_run \<Rightarrow> world \<Rightarrow> int \<Rightarrow> (nat \<Rightarrow> nat) \<Rightarrow> (nat \<Rightarrow> string) \<Rightarrow> nat \<Rightarrow> string list list \<Rightarrow> state_row list
   \<Rightarrow> activation_effect list \<times> activation_error option" where
  "activation_phases run lw now slots nonces rows pages t =
     (let ap = apply_activations run lw now in
      case (if ar_serving_applies run then fill_state_from_serving run (nonces 0) t else ([], 0, None)) of
        (es1, _, Some e) \<Rightarrow> (es1, Some e)
      | (es1, _, None) \<Rightarrow>
      (case restamp_and_sample run slots (nonces 1) (ap es1 t) of
        (es2, _, _, Some e) \<Rightarrow> (es1 @ es2, Some e)
      | (es2, state_rows, sample, None) \<Rightarrow>
          if rows < state_rows then (es1 @ es2, Some StateExceedsCollection)
          else if count_present (concat pages) sample \<noteq> length sample then (es1 @ es2, Some SampleNotHeld)
          else
      (case mark_rows_without_state run lw now pages (ap (es1 @ es2) t) of
        (es3, _, Some e) \<Rightarrow> (es1 @ es2 @ es3, Some e)
      | (es3, marked, None) \<Rightarrow>
          if marked \<noteq> rows - state_rows then (es1 @ es2 @ es3, Some StateNamesMissingRows)
          else
      (case scope_batches (ar_publish run) (ar_page_size run) NoProbe (nonces 2) (ap (es1 @ es2 @ es3) t) of
        (bs, Failed e) \<Rightarrow> (es1 @ es2 @ es3 @ [CheckClaim], Some (PageFailure e))
      | (bs, _) \<Rightarrow>
          (case fst (replace_state_scope (ar_serving run) now bs (Some (ar_fence run)) lw (ap (es1 @ es2 @ es3) t)) of
            Inl e \<Rightarrow> (es1 @ es2 @ es3 @ [CheckClaim], Some (KeyFailure e))
          | Inr _ \<Rightarrow> (es1 @ es2 @ es3 @ [CheckClaim, SwapServing bs, ClearPublish], None))))))"

record activation_request =
  aq_rows_verified :: bool
  aq_entry :: ledger_row
  aq_existing :: "collection_metadata option"
  aq_declared :: string
  aq_upstream_rows :: nat
  aq_default_collection :: string
  aq_physical_collection :: string

text \<open>Whether the serving scope's state describes the collection, or nothing says which one it describes.\<close>

definition serving_state_applies :: "ledger_row \<Rightarrow> string \<Rightarrow> string \<Rightarrow> bool" where
  "serving_state_applies entry default_collection physical_collection =
     (let served = (if active_generation entry \<noteq> None
        then Some (case active_collection entry of Some c \<Rightarrow> (if c = [] then default_collection else c) | None \<Rightarrow> default_collection)
        else None) in
      served = None \<or> served = Some physical_collection)"

definition admitted :: "activation_request \<Rightarrow> activation_run \<Rightarrow> activation_run" where
  "admitted rq run = run\<lparr>ar_serving_applies :=
     serving_state_applies (aq_entry rq) (aq_default_collection rq) (aq_physical_collection rq)\<rparr>"

definition activate_search_generation ::
  "activation_request \<Rightarrow> activation_run \<Rightarrow> world \<Rightarrow> int \<Rightarrow> (nat \<Rightarrow> nat) \<Rightarrow> (nat \<Rightarrow> string) \<Rightarrow> string list list \<Rightarrow> state_row list
   \<Rightarrow> activation_effect list \<times> activation_error option" where
  "activate_search_generation rq run lw now slots nonces pages t =
     (if \<not> aq_rows_verified rq then ([], Some RowsNotVerified)
      else if publication_id (aq_entry rq) \<noteq> None then ([], Some AnotherPublisher)
      else case aq_existing rq of None \<Rightarrow> ([], Some (Refused NoCollection))
        | Some m \<Rightarrow>
          (case activation_refusal (Some m) (aq_declared rq) (aq_upstream_rows rq) of
             Some r \<Rightarrow> ([], Some (Refused r))
           | None \<Rightarrow> activation_phases (admitted rq run) lw now slots nonces (cm_row_count m) pages t))"

end
