(* ===== verification/Retention.thy ===== *)
theory Retention
  imports Serving_Refines Activation
begin

text \<open>
  Retirement of superseded generations (\<^verbatim>\<open>retrieval/retention.py\<close>): which collections are generations
  nothing can reach, which of them a new build may resume into, and the sweep that drops the rest. The
  sweep is a program over the serving tables with drops in between, run beside any other coordinator calls.
  The store is the list of its collections; \<open>inspect\<close> is what it reports of one.
\<close>

section \<open>Names\<close>

definition generation_marker :: string where
  "generation_marker = ''__g''"

definition token_char :: "char \<Rightarrow> bool" where
  "token_char c \<longleftrightarrow> (let n = of_char c :: nat in 97 \<le> n \<and> n \<le> 122 \<or> 48 \<le> n \<and> n \<le> 57)"

definition generation_token_ok :: "string \<Rightarrow> bool" where
  "generation_token_ok s \<longleftrightarrow> 1 \<le> length s \<and> length s \<le> 16 \<and> list_all token_char s"

datatype name_error = BadToken | ReservedSuffix | InvalidName

definition validate_generation_token :: "string \<Rightarrow> name_error + string" where
  "validate_generation_token v = (if generation_token_ok v then Inr v else Inl BadToken)"

text \<open>The search for the suffix; the end of the pattern also matches before a final newline.\<close>

definition generation_shaped :: "string \<Rightarrow> bool" where
  "generation_shaped name \<longleftrightarrow> list_ex (\<lambda>i.
     let rest = drop (i + length generation_marker) name in
     take (length generation_marker) (drop i name) = generation_marker
     \<and> (generation_token_ok rest \<or> rest \<noteq> [] \<and> last rest = CHR 0x0A \<and> generation_token_ok (butlast rest))) [0..<length name]"

definition reject_generation_shaped_collection_name :: "string \<Rightarrow> name_error + string" where
  "reject_generation_shaped_collection_name physical =
     (if generation_shaped physical then Inl ReservedSuffix else Inr physical)"

definition collection_identifier :: "string \<Rightarrow> bool" where
  "collection_identifier s \<longleftrightarrow> (let letter = (\<lambda>c. let n = of_char c :: nat in 65 \<le> n \<and> n \<le> 90 \<or> 97 \<le> n \<and> n \<le> 122 \<or> n = 95);
       digit = (\<lambda>c. let n = of_char c :: nat in 48 \<le> n \<and> n \<le> 57) in
     case s of [] \<Rightarrow> False | c # cs \<Rightarrow> letter c \<and> length cs \<le> 127 \<and> list_all (\<lambda>c. letter c \<or> digit c) cs)"

text \<open>\<open>formatted\<close> is the configured template filled in with project, target and logical collection.\<close>

definition physical_collection :: "string \<Rightarrow> string option \<Rightarrow> name_error + string" where
  "physical_collection formatted generation =
     rbind (reject_generation_shaped_collection_name formatted) (\<lambda>physical.
     rbind (case generation of None \<Rightarrow> Inr physical
        | Some g \<Rightarrow> rbind (validate_generation_token g) (\<lambda>token. Inr (physical @ ''__g'' @ token))) (\<lambda>physical.
     if collection_identifier physical then Inr physical else Inl InvalidName))"

section \<open>Classification\<close>

definition generation_prefix :: "string \<Rightarrow> string" where
  "generation_prefix physical = physical @ generation_marker"

definition superseded_among :: "string list \<Rightarrow> string \<Rightarrow> string option \<Rightarrow> string list" where
  "superseded_among names pfx active =
     sort (filter (\<lambda>name. take (length pfx) name = pfx \<and> generation_token_ok (drop (length pfx) name) \<and> Some name \<noteq> active) names)"

definition resumable_generation ::
  "(string \<Rightarrow> collection_metadata option) \<Rightarrow> string list \<Rightarrow> string \<Rightarrow> string option \<Rightarrow> string \<Rightarrow> string option" where
  "resumable_generation inspect names pfx active fingerprint =
     (let candidates = List.map_filter (\<lambda>name. case inspect name of None \<Rightarrow> None
            | Some m \<Rightarrow> if cm_config_fingerprint m \<noteq> Some fingerprint then None else Some (cm_row_count m, name))
          (superseded_among names pfx active) in
      if candidates = [] then None
      else let best = Max (set (map fst candidates)) in
        Some (hd (sort (map snd (filter (\<lambda>c. fst c = best) candidates)))))"

section \<open>The sweep\<close>

record sweep =
  sw_lease :: publish_lease
  sw_private_builds :: bool
  sw_prefix :: string
  sw_active :: "string option"
  sw_spare :: "string option"

text \<open>Where a sweep stands between its calls to the warehouse.\<close>

datatype sweep_point =
    NotSupported
  | ListCollections
  | DropCollection string "string list" "string list"
  | Retired "string list"

definition retire_superseded_generations :: "sweep \<Rightarrow> sweep_point prog" where
  "retire_superseded_generations sw =
     (if \<not> sw_private_builds sw then Return NotSupported
      else bindp (verify_publish (sw_lease sw)) (\<lambda>_.
        bindp (serving_status_of (p_scope (sw_lease sw))) (\<lambda>entry.
          Return (if e_query_leases entry \<noteq> 0 then Retired [] else ListCollections))))"

fun next_drop :: "sweep \<Rightarrow> string list \<Rightarrow> string list \<Rightarrow> sweep_point prog" where
  "next_drop sw [] retired = Return (Retired retired)"
| "next_drop sw (n # ns) retired =
     (if Some n = sw_spare sw then next_drop sw ns retired
      else bindp (verify_publish (sw_lease sw)) (\<lambda>_. Return (DropCollection n ns retired)))"

text \<open>
  One step of a sweep among other sessions: a step of the others, a statement of the sweep (which may
  fail), the listing, a drop, or any change to the store's collections by somebody else. A refused drop
  ends the sweep: no further step of it is taken.
\<close>

inductive sweep_step ::
  "(nat \<Rightarrow> string) \<Rightarrow> sweep \<Rightarrow> world \<times> 'a prog list \<times> string list \<times> sweep_point prog \<Rightarrow>
   world \<times> 'a prog list \<times> string list \<times> sweep_point prog \<Rightarrow> bool" for uuid sw where
  others: "pool_step uuid (w, ps) (w', ps') \<Longrightarrow> sweep_step uuid sw (w, ps, cs, m) (w', ps', cs, m)"
| statement: "exec_stmt uuid s w = (w', r) \<Longrightarrow> sweep_step uuid sw (w, ps, cs, Step s k) (w', ps, cs, k r)"
| fault: "sweep_step uuid sw (w, ps, cs, Step s k) (w, ps, cs, k Fault)"
| listed: "sweep_step uuid sw (w, ps, cs, Return ListCollections)
     (w, ps, cs, next_drop sw (superseded_among cs (sw_prefix sw) (sw_active sw)) [])"
| dropped: "sweep_step uuid sw (w, ps, cs, Return (DropCollection n ns retired))
     (w, ps, filter (\<lambda>c. c \<noteq> n) cs, next_drop sw ns (if n \<in> set cs then retired @ [n] else retired))"
| elsewhere: "sweep_step uuid sw (w, ps, cs, m) (w, ps, cs', m)"

end
