(* ===== verification/Retention_Props.thy ===== *)
theory Retention_Props
  imports Retention
begin

text \<open>
  The sweep drops only generations of its own collection, never one that is served, pinned by a reader or
  being built, whatever other sessions do meanwhile.
\<close>

section \<open>Names\<close>

lemma token_no_underscore: "generation_token_ok t \<Longrightarrow> CHR ''_'' \<notin> set t"
  by (auto simp: generation_token_ok_def list_all_iff token_char_def)

lemma marker_split:
  assumes "a @ generation_marker @ t = b @ generation_marker @ u" "generation_token_ok t" "generation_token_ok u"
  shows "a = b \<and> t = u"
proof -
  define f where "f x = dropWhile (\<lambda>c. c \<noteq> CHR ''_'') (rev x)" for x
  have f: "f (x @ generation_marker @ y) = ''__'' @ rev x" if "generation_token_ok y" for x y
  proof -
    have "dropWhile (\<lambda>c. c \<noteq> CHR ''_'') (rev y @ ''g__'' @ rev x) = dropWhile (\<lambda>c. c \<noteq> CHR ''_'') (''g__'' @ rev x)"
      using token_no_underscore [OF that] by (intro dropWhile_append2) auto
    then show ?thesis by (simp add: f_def generation_marker_def)
  qed
  have "''__'' @ rev a = ''__'' @ rev b" using f [OF assms(2), of a] f [OF assms(3), of b] assms(1) by simp
  then show ?thesis using assms(1) by simp
qed

lemma generation_name_shaped:
  assumes "generation_token_ok t"
  shows "generation_shaped (b @ generation_marker @ t)"
proof -
  let ?name = "b @ generation_marker @ t"
  have "take (length generation_marker) (drop (length b) ?name) = generation_marker"
    "generation_token_ok (drop (length b + length generation_marker) ?name)" "length b < length ?name"
    using assms by (simp_all add: generation_marker_def)
  then show ?thesis unfolding generation_shaped_def Let_def list_ex_iff set_upt
    by (intro bexI [of _ "length b"]) auto
qed

lemma physical_collection_Inr:
  assumes "physical_collection formatted generation = Inr n"
  shows "\<not> generation_shaped formatted
    \<and> (case generation of None \<Rightarrow> n = formatted | Some g \<Rightarrow> generation_token_ok g \<and> n = formatted @ generation_marker @ g)"
  using assms
  by (cases generation; cases "generation_shaped formatted")
     (simp_all add: physical_collection_def reject_generation_shaped_collection_name_def validate_generation_token_def
        generation_marker_def split: if_split_asm)

lemma superseded_iff:
  "n \<in> set (superseded_among names (generation_prefix base) active) \<longleftrightarrow>
     n \<in> set names \<and> Some n \<noteq> active \<and> (\<exists>t. generation_token_ok t \<and> n = base @ generation_marker @ t)"
  by (auto simp: superseded_among_def generation_prefix_def append_eq_conv_conj)
     (metis append_assoc append_take_drop_id)

text \<open>
  The sweep's classification cannot take a neighbour's collection. A name it lists for one collection
  is never the base name another collection resolves to, and never a generation of another collection.
\<close>

theorem superseded_never_a_sibling:
  assumes "n \<in> set (superseded_among names (generation_prefix base) active)"
    and "physical_collection formatted generation = Inr n"
  shows "generation \<noteq> None \<and> formatted = base"
proof -
  obtain t where t: "generation_token_ok t" "n = base @ generation_marker @ t" using assms(1) by (auto simp: superseded_iff)
  show ?thesis
  proof (cases generation)
    case None
    with physical_collection_Inr [OF assms(2)] generation_name_shaped [OF t(1), of base] t(2) show ?thesis by simp
  next
    case (Some g)
    with physical_collection_Inr [OF assms(2)] have g: "generation_token_ok g" "n = formatted @ generation_marker @ g" by simp_all
    have "base @ generation_marker @ t = formatted @ generation_marker @ g" using t(2) g(2) by (rule trans [OF sym])
    then have "base = formatted" using marker_split t(1) g(1) by blast
    with Some show ?thesis by blast
  qed
qed

theorem superseded_never_a_sibling_witness:
  "superseded_among [''ctx'', ''ctx__g1a'', ''ctx__g2'', ''ctx__gx_y'', ''ctx2__g1''] (generation_prefix ''ctx'') (Some ''ctx__g2'') = [''ctx__g1a'']
   \<and> physical_collection ''ctx'' (Some ''1a'') = Inr ''ctx__g1a''
   \<and> (Some ''1a'' \<noteq> None \<and> ''ctx'' = ''ctx'')"
proof -
  have h: "superseded_among [''ctx'', ''ctx__g1a'', ''ctx__g2'', ''ctx__gx_y'', ''ctx2__g1''] (generation_prefix ''ctx'') (Some ''ctx__g2'') = [''ctx__g1a'']"
    "physical_collection ''ctx'' (Some ''1a'') = Inr ''ctx__g1a''" by (code_simp, code_simp)
  have "''ctx__g1a'' \<in> set (superseded_among [''ctx'', ''ctx__g1a'', ''ctx__g2'', ''ctx__gx_y'', ''ctx2__g1''] (generation_prefix ''ctx'') (Some ''ctx__g2''))"
    unfolding h(1) by simp
  from superseded_never_a_sibling [OF this h(2)] h show ?thesis by blast
qed

section \<open>Resuming\<close>

lemma resumable_candidate:
  assumes "resumable_generation inspect names pfx active fp = Some n"
  shows "n \<in> set (superseded_among names pfx active) \<and> (\<exists>m. inspect n = Some m \<and> cm_config_fingerprint m = Some fp
    \<and> (\<forall>n' m'. n' \<in> set (superseded_among names pfx active) \<longrightarrow> inspect n' = Some m' \<longrightarrow> cm_config_fingerprint m' = Some fp
         \<longrightarrow> cm_row_count m' < cm_row_count m \<or> cm_row_count m' = cm_row_count m \<and> n \<le> n'))"
proof -
  define pick where "pick = (\<lambda>name. case inspect name of None \<Rightarrow> None
      | Some m \<Rightarrow> if cm_config_fingerprint m \<noteq> Some fp then None else Some (cm_row_count m, name))"
  define cands where "cands = List.map_filter pick (superseded_among names pfx active)"
  define best where "best = Max (set (map fst cands))"
  define named where "named = sort (map snd (filter (\<lambda>c. fst c = best) cands))"
  have ne: "cands \<noteq> []" and n: "n = hd named"
    using assms by (auto simp: resumable_generation_def Let_def cands_def [unfolded pick_def] best_def named_def split: if_splits)
  have mem: "(c, k) \<in> set cands \<longleftrightarrow> k \<in> set (superseded_among names pfx active) \<and>
      (\<exists>m. inspect k = Some m \<and> cm_config_fingerprint m = Some fp \<and> cm_row_count m = c)" for c k
    by (auto simp: cands_def pick_def List.map_filter_def image_iff split: option.splits if_splits)
  have top_count: "best \<in> fst ` set cands" using ne Max_in [of "set (map fst cands)"] by (simp add: best_def)
  then have "set named \<noteq> {}" by (auto simp: named_def)
  moreover have "sorted named" by (simp add: named_def)
  ultimately have "n \<in> set named" and least: "\<forall>k \<in> set named. n \<le> k" using n by (cases named; auto)+
  then have "(best, n) \<in> set cands" by (auto simp: named_def)
  moreover have "c < best \<or> c = best \<and> n \<le> k" if "(c, k) \<in> set cands" for c k
  proof -
    have "c \<le> best" unfolding best_def using that by (intro Max_ge) force+
    moreover have "n \<le> k" if "c = best" using least \<open>(c, k) \<in> set cands\<close> that by (force simp: named_def)
    ultimately show ?thesis by linarith
  qed
  moreover from this have "k \<in> set (superseded_among names pfx active) \<Longrightarrow> inspect k = Some m \<Longrightarrow> cm_config_fingerprint m = Some fp \<Longrightarrow>
      cm_row_count m < best \<or> cm_row_count m = best \<and> n \<le> k" for k m unfolding mem by blast
  ultimately show ?thesis unfolding mem by blast
qed

section \<open>What the sweep relies on while others run\<close>

text \<open>The publisher's claim stands, on the given pointers.\<close>

definition claim_stands :: "publish_lease \<Rightarrow> string option \<Rightarrow> string option \<Rightarrow> world \<Rightarrow> bool" where
  "claim_stands p g c w \<longleftrightarrow> (case scope_rows (p_scope p) w of
     [r] \<Rightarrow> holds_claim p r \<and> active_generation r = g \<and> active_collection r = c | _ \<Rightarrow> False)"

definition pins_on :: "state_scope \<Rightarrow> string option \<Rightarrow> world \<Rightarrow> bool" where
  "pins_on sc g w \<longleftrightarrow> list_all (\<lambda>l. Some (lease_generation l) = g) (scope_leases sc w)"

fun spares_claim :: "publish_lease \<Rightarrow> stmt \<Rightarrow> bool" where
  "spares_claim p (Finish p' f) = (finish_ok f \<and> p_publication_id p' \<noteq> p_publication_id p)"
| "spares_claim p s = ordinary_stmt s"

fun completes :: "publish_lease \<Rightarrow> call \<Rightarrow> bool" where
  "completes p (MarkReady p' _ _ _ _) = (p_publication_id p' = p_publication_id p)"
| "completes p (MarkFailed p' _ _ _ _ _) = (p_publication_id p' = p_publication_id p)"
| "completes p _ = False"

lemma claim_standsE:
  assumes "claim_stands p g c w"
  obtains r where "scope_rows (p_scope p) w = [r]" "row_scope r = p_scope p" "publication_id r = Some (p_publication_id p)"
    "fencing_token r = p_token p" "active_generation r = g" "active_collection r = c"
  using assms by (auto simp: claim_stands_def holds_claim_def split: list.splits)

lemma claim_stands_cong: "scope_rows (p_scope p) w' = scope_rows (p_scope p) w \<Longrightarrow> claim_stands p g c w' = claim_stands p g c w"
  by (simp add: claim_stands_def)

lemma claim_stands_update:
  assumes "claim_stands p g c w" "\<And>r. q r \<Longrightarrow> row_scope (f r) = row_scope r"
    and "\<And>r. row_scope r = p_scope p \<Longrightarrow> publication_id r = Some (p_publication_id p) \<Longrightarrow> fencing_token r = p_token p \<Longrightarrow> q r \<Longrightarrow>
      publication_id (f r) = publication_id r \<and> fencing_token (f r) = fencing_token r
      \<and> active_generation (f r) = active_generation r \<and> active_collection (f r) = active_collection r"
  shows "claim_stands p g c (update_where q f w)"
proof (rule claim_standsE [OF assms(1)])
  fix r assume r: "scope_rows (p_scope p) w = [r]" "row_scope r = p_scope p" "publication_id r = Some (p_publication_id p)"
    "fencing_token r = p_token p" "active_generation r = g" "active_collection r = c"
  have "scope_rows (p_scope p) (update_where q f w) = [if q r then f r else r]"
    using scope_rows_update_where [of q f "p_scope p" w] assms(2) r(1) by simp
  then show ?thesis using r assms(2,3) by (auto simp: claim_stands_def holds_claim_def)
qed

lemma exec_keeps_claim:
  assumes "spares_claim p s" "claim_stands p g c w"
  shows "claim_stands p g c (fst (exec_stmt uuid s w))"
proof (rule claim_standsE [OF assms(2)])
  fix r assume r: "scope_rows (p_scope p) w = [r]" "row_scope r = p_scope p" "publication_id r = Some (p_publication_id p)"
    "fencing_token r = p_token p" "active_generation r = g" "active_collection r = c"
  have single: "single_row (p_scope p) w" using r(1) by (simp add: single_row_def)
  show ?thesis
  proof (cases s)
    case (CollapsePlaceholders sc)
    then show ?thesis using assms(2) claim_stands_cong [OF collapse_same [OF single]] by simp
  next
    case (InsertPlaceholder sc rid)
    have "scope_rows (p_scope p) (sql_insert_placeholder sc rid w) = scope_rows (p_scope p) w"
      using r(1) by (auto simp: sql_insert_placeholder_def scope_rows_def)
    note claim_stands_cong [OF this, THEN iffD2, OF assms(2)]
    with InsertPlaceholder show ?thesis by simp
  next
    case (Claim a)
    show ?thesis unfolding Claim exec_stmt.simps fst_conv sql_claim_def
      by (rule claim_stands_update [OF assms(2)]) (simp_all add: claim_admitted_def)
  next
    case (Finish p' f)
    have other: "p_publication_id p' \<noteq> p_publication_id p" using assms(1) Finish by simp
    show ?thesis unfolding Finish exec_stmt.simps fst_conv sql_finish_def
      by (rule claim_stands_update [OF assms(2)]) (use other in \<open>simp_all add: holds_claim_def finished_row_def\<close>)
  next
    case (RequestDrain sc token until)
    show ?thesis unfolding RequestDrain exec_stmt.simps fst_conv sql_request_drain_def
      by (rule claim_stands_update [OF assms(2)]) simp_all
  qed (use assms in \<open>simp_all add: sql_heartbeat_def sql_progress_def sql_record_mirror_def claim_stands_update\<close>,
    simp_all add: claim_stands_def scope_rows_def sql_insert_lease_def sql_delete_lease_def)
qed

lemma exec_keeps_pins:
  assumes "spares_claim p s" "claim_stands p g c w" "pins_on (p_scope p) g w"
  shows "pins_on (p_scope p) g (fst (exec_stmt uuid s w))"
proof (cases s)
  case (InsertLease l now)
  show ?thesis
  proof (rule claim_standsE [OF assms(2)])
    fix r assume r: "scope_rows (p_scope p) w = [r]" "active_generation r = g"
    have "Some (lease_generation l) = g" if admitted: "lease_scope l = p_scope p" "list_ex (lease_admitted l now) (ledger w)"
    proof -
      obtain r' where "r' \<in> set (ledger w)" "lease_admitted l now r'" using admitted(2) by (auto simp: list_ex_iff)
      then have "r' \<in> set (scope_rows (p_scope p) w)" "active_generation r' = Some (lease_generation l)"
        using admitted(1) by (auto simp: scope_rows_def lease_admitted_def)
      with r show ?thesis by simp
    qed
    with InsertLease assms(3) show ?thesis by (auto simp: sql_insert_lease_def pins_on_def scope_leases_def)
  qed
next
  case (DeleteLease i)
  with assms(3) show ?thesis by (auto simp: sql_delete_lease_def pins_on_def scope_leases_def list_all_iff)
qed (use assms in \<open>simp_all add: pins_on_def scope_leases_def sql_claim_def sql_finish_def sql_request_drain_def sql_heartbeat_def
    sql_progress_def sql_record_mirror_def sql_insert_placeholder_def sql_collapse_placeholders_def\<close>)

interpretation claim_inv: table_invariant uuid "spares_claim p" "\<lambda>_. True" "claim_stands p g c" for uuid p g c
  by unfold_locales (simp_all add: exec_keeps_claim, simp add: claim_stands_def scope_rows_def)

interpretation pins_inv: table_invariant uuid "spares_claim p" "\<lambda>_. True" "\<lambda>w. claim_stands p g c w \<and> pins_on (p_scope p) g w" for uuid p g c
proof unfold_locales
  show "claim_stands p g c (w\<lparr>clock := t\<rparr>) \<and> pins_on (p_scope p) g (w\<lparr>clock := t\<rparr>)"
    if "claim_stands p g c w \<and> pins_on (p_scope p) g w" for w t
    using that by (simp add: claim_stands_def pins_on_def scope_rows_def scope_leases_def)
  show "claim_stands p g c (fst (exec_stmt uuid s w)) \<and> pins_on (p_scope p) g (fst (exec_stmt uuid s w))"
    if "spares_claim p s" "claim_stands p g c w \<and> pins_on (p_scope p) g w" for s w
    using that exec_keeps_claim exec_keeps_pins by blast
qed simp_all

section \<open>The sweep\<close>

lemma only_stmts_both: "only_stmts a good m \<Longrightarrow> only_stmts b good m \<Longrightarrow> only_stmts (\<lambda>s. a s \<and> b s) good m"
  by (induction m) auto

fun not_finishing :: "publish_lease \<Rightarrow> stmt \<Rightarrow> bool" where
  "not_finishing p (Finish p' f) = (p_publication_id p' \<noteq> p_publication_id p)"
| "not_finishing p _ = True"

lemma spares_claim_iff: "spares_claim p s \<longleftrightarrow> ordinary_stmt s \<and> not_finishing p s"
  by (cases s) auto

lemma only_finish_other [issues]: "p_publication_id p' \<noteq> p_publication_id p \<Longrightarrow> only_stmts (not_finishing p) good (finish p' f)"
  by (auto simp: finish_def intro!: only_stmts_bindp_any issues split: option.splits)

lemma call_not_finishing: "\<not> completes p c \<Longrightarrow> only_stmts (not_finishing p) good (call_prog c)"
proof (cases c)
  case (MarkFailed p' code cs coll g fp)
  moreover assume "\<not> completes p c"
  ultimately show ?thesis
    by (auto simp: mark_failed_def validate_safe_error_code_def Let_def intro!: only_stmts_bindp_any issues split: option.splits)
next
  case (RecoverCall live sc conf)
  then show ?thesis
    by (auto simp: ignore_def recover_def refuse_unless_owner_provably_dead_def serving_status_of_def lease_count_def Let_def
        intro!: only_stmts_bindp_any issues split: option.splits)
qed (auto simp: ignore_def acquire_publish_def verify_publish_def heartbeat_def rekey_scope_def
  record_progress_def mark_ready_def acquire_query_def refresh_query_def Let_def
  validate_query_def release_query_def record_mirror_def serving_status_of_def scope_exists_def
  admit_query_def ensure_row_def request_query_drain_def lease_count_def raise_if_rekey_pending_def
  intro!: only_stmts_bindp_any only_stmts_catchp issues split: option.splits)

lemma call_spares_claim: "ordinary c \<Longrightarrow> \<not> completes p c \<Longrightarrow> only_stmts (spares_claim p) good (call_prog c)"
  using only_stmts_both [OF ordinary_issues call_not_finishing] by (simp add: spares_claim_iff [abs_def])

text \<open>Points of the sweep that come only after it has seen no pins.\<close>

fun unpinned_point :: "sweep_point \<Rightarrow> bool" where
  "unpinned_point ListCollections = True"
| "unpinned_point (DropCollection n ns retired) = True"
| "unpinned_point _ = False"

primrec before_count :: "state_scope \<Rightarrow> sweep_point prog \<Rightarrow> bool" where
  "before_count sc (Return x) = (\<not> unpinned_point x)"
| "before_count sc (Raise e) = True"
| "before_count sc (Step s k) = (\<forall>r. before_count sc (k r)
     \<or> s = CountLeases sc \<and> r = Count 0 \<or> s = SelectLedger sc \<and> r = Rows [])"

fun reads_only :: "stmt \<Rightarrow> bool" where
  "reads_only (SelectLedger sc) = True"
| "reads_only (CountLeases sc) = True"
| "reads_only _ = False"

lemma reads_only_keeps: "reads_only s \<Longrightarrow> fst (exec_stmt uuid s w) = w"
  by (cases s) auto

definition droppable :: "sweep \<Rightarrow> string \<Rightarrow> bool" where
  "droppable sw n \<longleftrightarrow> (\<exists>cs. n \<in> set (superseded_among cs (sw_prefix sw) (sw_active sw)))"

fun point_ok :: "sweep \<Rightarrow> sweep_point \<Rightarrow> bool" where
  "point_ok sw (DropCollection n ns retired) = (list_all (droppable sw) (n # ns) \<and> Some n \<noteq> sw_spare sw)"
| "point_ok sw _ = True"

definition sweep_ok :: "sweep \<Rightarrow> string option \<Rightarrow> string option \<Rightarrow> world \<times> 'a prog list \<times> string list \<times> sweep_point prog \<Rightarrow> bool" where
  "sweep_ok sw g c = (\<lambda>(w, ps, cs, m). claim_stands (sw_lease sw) g c w
     \<and> list_all (only_stmts (spares_claim (sw_lease sw)) (\<lambda>_. True)) ps
     \<and> only_stmts reads_only (\<lambda>_. True) m \<and> returns (\<lambda>_. True) (point_ok sw) m
     \<and> (before_count (p_scope (sw_lease sw)) m \<or> pins_on (p_scope (sw_lease sw)) g w))"

lemma verify_publish_reads: "only_stmts reads_only (\<lambda>_. True) (verify_publish p)"
  by (auto simp: verify_publish_def intro!: only_stmts_bindp_any issues split: option.splits)

lemma next_drop_ok:
  "list_all (droppable sw) ns \<Longrightarrow> only_stmts reads_only (\<lambda>_. True) (next_drop sw ns retired) \<and> returns (\<lambda>_. True) (point_ok sw) (next_drop sw ns retired)"
  by (induction ns) (auto intro!: only_stmts_bindp_any verify_publish_reads returns_bindp [where q = "\<lambda>_. True"])

lemma before_count_bindp:
  assumes "\<And>x. before_count sc (f x)"
  shows "before_count sc (bindp m f)"
  using assms by (induction m) auto

lemma retire_ok:
  "only_stmts reads_only (\<lambda>_. True) (retire_superseded_generations sw)"
  "returns (\<lambda>_. True) (point_ok sw) (retire_superseded_generations sw)"
  "before_count (p_scope (sw_lease sw)) (retire_superseded_generations sw)"
proof -
  show "only_stmts reads_only (\<lambda>_. True) (retire_superseded_generations sw)"
    by (auto simp: retire_superseded_generations_def serving_status_of_def lease_count_def
        intro!: only_stmts_bindp_any verify_publish_reads issues split: option.splits)
  show "returns (\<lambda>_. True) (point_ok sw) (retire_superseded_generations sw)"
    by (auto simp: retire_superseded_generations_def intro!: returns_bindp [where q = "\<lambda>_. True"])
  show "before_count (p_scope (sw_lease sw)) (retire_superseded_generations sw)"
    by (auto simp: retire_superseded_generations_def serving_status_of_def read_row_def one_row_def lease_count_def issue_defs
        entry_of_row_def intro!: before_count_bindp split: reply.splits list.splits)
qed

lemma superseded_droppable: "list_all (droppable sw) (superseded_among cs (sw_prefix sw) (sw_active sw))"
  by (auto simp: list_all_iff droppable_def)

lemma sweep_step_ok:
  assumes "sweep_step uuid sw st st'" "sweep_ok sw g c st"
  shows "sweep_ok sw g c st'"
  using assms(1)
proof (cases rule: sweep_step.cases)
  case (others w ps w' ps' cs m)
  have h: "claim_stands (sw_lease sw) g c w" "list_all (only_stmts (spares_claim (sw_lease sw)) (\<lambda>_. True)) ps"
    using assms(2) others by (simp_all add: sweep_ok_def)
  show ?thesis
    using assms(2) others claim_inv.pool_step_keeps [OF others(3) h] pins_inv.pool_step_keeps [OF others(3) _ h(2), of g c] h(1)
    by (auto simp: sweep_ok_def)
next
  case (statement s w w' r ps cs k)
  have reads: "reads_only s" and claim: "claim_stands (sw_lease sw) g c w" using assms(2) statement by (simp_all add: sweep_ok_def)
  have w': "w' = w" using reads_only_keeps [OF reads, of uuid w] statement by simp
  have "before_count (p_scope (sw_lease sw)) (k r) \<or> pins_on (p_scope (sw_lease sw)) g w"
  proof (cases "before_count (p_scope (sw_lease sw)) (Step s k)")
    case True
    then have "before_count (p_scope (sw_lease sw)) (k r) \<or> s = CountLeases (p_scope (sw_lease sw)) \<and> r = Count 0
        \<or> s = SelectLedger (p_scope (sw_lease sw)) \<and> r = Rows []" by simp
    then show ?thesis
    proof (elim disjE)
      assume "s = CountLeases (p_scope (sw_lease sw)) \<and> r = Count 0"
      then have "scope_leases (p_scope (sw_lease sw)) w = []" using statement by auto
      then show ?thesis by (simp add: pins_on_def)
    next
      assume "s = SelectLedger (p_scope (sw_lease sw)) \<and> r = Rows []"
      then have "scope_rows (p_scope (sw_lease sw)) w = []" using statement by auto
      then show ?thesis using claim by (simp add: claim_stands_def)
    qed simp
  next
    case False
    then show ?thesis using assms(2) statement by (simp add: sweep_ok_def del: before_count.simps)
  qed
  then show ?thesis using assms(2) statement w' by (auto simp: sweep_ok_def simp del: before_count.simps)
next
  case (fault w ps cs s k)
  then show ?thesis using assms(2) by (auto simp: sweep_ok_def)
next
  case (listed w ps cs)
  then show ?thesis using assms(2) next_drop_ok [OF superseded_droppable] by (simp add: sweep_ok_def)
next
  case (dropped w ps cs n ns retired)
  then show ?thesis using assms(2) next_drop_ok [of sw ns] by (simp add: sweep_ok_def)
next
  case (elsewhere w ps cs m cs')
  then show ?thesis using assms(2) by (simp add: sweep_ok_def)
qed

lemma sweep_steps_ok: "(sweep_step uuid sw)\<^sup>*\<^sup>* st st' \<Longrightarrow> sweep_ok sw g c st \<Longrightarrow> sweep_ok sw g c st'"
  by (induction rule: rtranclp_induct) (auto intro: sweep_step_ok)


lemma sweep_runs:
  "run uuid m w = (Inr x, w') \<Longrightarrow> (sweep_step uuid sw)\<^sup>*\<^sup>* (w, ps, cs, m) (w', ps, cs, Return x)"
proof (induction m arbitrary: w)
  case (Step s k)
  obtain w1 r where e: "exec_stmt uuid s w = (w1, r)" by (cases "exec_stmt uuid s w")
  with Step.prems have "run uuid (k r) w1 = (Inr x, w')" by simp
  with Step.IH have "(sweep_step uuid sw)\<^sup>*\<^sup>* (w1, ps, cs, k r) (w', ps, cs, Return x)" by blast
  then show ?case using sweep_step.statement [OF e] by (rule converse_rtranclp_into_rtranclp [rotated])
qed simp_all

definition ex_rebuilding :: world where
  "ex_rebuilding = snd (run ex_uuid (acquire_publish ex_scope (ex_request True)) ex_ready)"

definition ex_sweep :: sweep where
  "ex_sweep = \<lparr>sw_lease = ex_lease\<lparr>p_publication_id := ex_uuid 3, p_token := 2\<rparr>, sw_private_builds = True, sw_prefix = generation_prefix ''docs'',
     sw_active = Some ''docs'', sw_spare = Some ''docs__g9''\<rparr>"


end
