(* ===== verification/Activation_Props.thy ===== *)
theory Activation_Props
  imports Activation
begin

text \<open>
  Activation is atomic for the serving scope: whenever it stops, the serving state is what it was or
  describes exactly the rows of the activated collection.
\<close>

section \<open>Reading a whole scope\<close>

definition record_of_row :: "state_row \<Rightarrow> state_record" where
  "record_of_row r = \<lparr>st_key = sr_key r, st_fingerprint = sr_fingerprint r, st_version = sr_version r\<rparr>"

definition readable_probe :: "absence_probe \<Rightarrow> bool" where
  "readable_probe p \<longleftrightarrow> (\<forall>keys as_of. p \<noteq> RelationProbe keys as_of)"

lemma scope_batches_exact:
  assumes "readable nonce sc t" "1 \<le> page_size" "page_size \<le> max_state_page_size" "readable_probe probe"
  shows "\<exists>bs. scope_batches sc page_size probe nonce t = (bs, Exhausted)
    \<and> concat bs = map record_of_row (selected_rows \<lparr>rq_scope = sc, rq_page_size = page_size, rq_absent_from = probe\<rparr> t None)"
proof -
  let ?rq = "\<lparr>rq_scope = sc, rq_page_size = page_size, rq_absent_from = probe\<rparr>"
  have "length (selected_rows ?rq t None) < Suc (length t)"
    by (simp add: selected_rows_def le_imp_less_Suc)
  with iter_duckdb [of nonce ?rq t "[]" "selected_rows ?rq t None" "Suc (length t)" None None] assms(1,2)
  obtain pages where pages: "iter_validated_state_pages (Suc (length t)) (fetch_page page_size False (duckdb_fetch ?rq nonce t)) None None = (pages, Exhausted)"
    "concat pages = map page_record_of (selected_rows ?rq t None)" by auto
  have opened: "open_state_page_reader ?rq nonce t = Inr (fetch_page page_size False (duckdb_fetch ?rq nonce t))"
    using open_ok [of ?rq nonce t] assms(2-4) by (simp add: readable_probe_def)
  let ?f = "\<lambda>r. \<lparr>st_key = st_key r, st_fingerprint = st_fingerprint r, st_version = st_version r\<rparr>"
  have "concat (map (map ?f) pages) = map ?f (concat pages)" by (simp add: map_concat)
  also have "\<dots> = map record_of_row (selected_rows ?rq t None)"
    unfolding pages(2) by (simp add: page_record_of_def record_of_row_def)
  finally show ?thesis using state_batches_iter [OF pages(1)] opened by (auto simp: scope_batches_def)
qed

lemma find_selected:
  assumes "state_pk t"
  shows "keyed_find st_key (map record_of_row (selected_rows rq t None)) k =
    (if probe_hit (rq_absent_from rq) t k then None else map_option record_of_row (keyed_find state_key t (rq_scope rq, k)))"
  (is "?found = ?expected")
proof (cases "\<exists>r \<in> set t. sr_scope r = rq_scope rq \<and> sr_key r = k \<and> \<not> probe_hit (rq_absent_from rq) t k")
  case True
  then obtain r where r: "r \<in> set t" "sr_scope r = rq_scope rq" "sr_key r = k" "\<not> probe_hit (rq_absent_from rq) t k" by blast
  have "distinct (map sr_key (selected_rows rq t None))"
    using selected_rows_ascend [OF assms] strict_sorted_iff by blast
  then have "distinct (map st_key (map record_of_row (selected_rows rq t None)))" by (simp add: record_of_row_def comp_def)
  moreover have "record_of_row r \<in> set (map record_of_row (selected_rows rq t None))" using r by (auto simp: set_selected_rows)
  ultimately have "?found = Some (record_of_row r)" using keyed_find_mem [of st_key _ "record_of_row r"] r(3) by (auto simp: record_of_row_def)
  moreover have "keyed_find state_key t (rq_scope rq, k) = Some r"
    using keyed_find_mem [of state_key t r] assms r(1-3) by (auto simp: state_pk_def state_key_def)
  ultimately show ?thesis using r(4) by simp
next
  case False
  then have "k \<notin> st_key ` set (map record_of_row (selected_rows rq t None))" by (auto simp: set_selected_rows record_of_row_def)
  then have "?found = None" by simp
  moreover have "?expected = None" using False by (auto simp: keyed_find_None state_key_def image_iff)
  ultimately show ?thesis by simp
qed

lemma distinct_selected:
  "state_pk t \<Longrightarrow> distinct (map st_key (map record_of_row (selected_rows rq t None)))"
  using selected_rows_ascend [of t rq] strict_sorted_iff by (auto simp: record_of_row_def comp_def)

section \<open>Writing to the generation's scope\<close>

lemma apply_activations_simps [simp]:
  "apply_activations run lw now [] t = t"
  "apply_activations run lw now (e # es) t = apply_activations run lw now es (apply_activation run lw now e t)"
  "apply_activations run lw now (es @ fs) t = apply_activations run lw now fs (apply_activations run lw now es t)"
  by (simp_all add: apply_activations_def)

text \<open>Only the swap and the final clearing reach beyond the generation's scope.\<close>

fun only_puts :: "activation_effect \<Rightarrow> bool" where
  "only_puts CheckClaim = True"
| "only_puts (PutState rs) = distinct (map st_key rs)"
| "only_puts _ = False"

lemma puts_keep_others:
  "list_all only_puts es \<Longrightarrow> sc \<noteq> ar_publish run \<Longrightarrow> state_at sc (apply_activations run lw now es t) = state_at sc t"
proof (induction es arbitrary: t)
  case (Cons e es)
  have "state_at sc (apply_activation run lw now e t) = state_at sc t"
    using Cons.prems by (cases e) (auto simp: state_at_upsert fun_eq_iff)
  with Cons show ?case by simp
qed simp

lemma find_restamped: "keyed_find st_key (restamped v b) k = map_option (\<lambda>r. r\<lparr>st_version := v\<rparr>) (keyed_find st_key b k)"
  by (induction b) (simp_all add: restamped_def keyed_find_Cons)

lemma keys_restamped [simp]: "map st_key (restamped v b) = map st_key b"
  by (simp add: restamped_def comp_def)

definition put_all :: "activation_run \<Rightarrow> state_record list list \<Rightarrow> activation_effect list" where
  "put_all run bs = concat (map (\<lambda>b. [CheckClaim, PutState (restamped (ar_version run) b)]) bs)"

lemma put_all_only_puts: "distinct (map st_key (concat bs)) \<Longrightarrow> list_all only_puts (put_all run bs)"
  by (induction bs) (simp_all add: put_all_def)

lemma put_all_at:
  assumes "distinct (map st_key (concat bs))"
  shows "state_at (ar_publish run) (apply_activations run lw now (put_all run bs) t) k =
    (case keyed_find st_key (concat bs) k of None \<Rightarrow> state_at (ar_publish run) t k | Some r \<Rightarrow> Some (st_fingerprint r, ar_version run))"
  using assms
proof (induction bs arbitrary: t)
  case (Cons b bs)
  let ?t = "sql_upsert_rows (ar_publish run) now (restamped (ar_version run) b) t"
  have "state_at (ar_publish run) ?t k =
      (case keyed_find st_key b k of None \<Rightarrow> state_at (ar_publish run) t k | Some r \<Rightarrow> Some (st_fingerprint r, ar_version run))"
    using Cons.prems by (simp add: state_at_upsert find_restamped split: option.splits)
  moreover have "distinct (map st_key (b @ concat bs))" using Cons.prems by simp
  note find_either_order [OF this, where f = "\<lambda>r. Some (st_fingerprint r, ar_version run)" and d = "state_at (ar_publish run) t k" and k = k]
  ultimately show ?case using Cons.IH [of ?t] Cons.prems by (simp add: put_all_def cong: option.case_cong)
qed (simp add: put_all_def)

lemma put_all_whole:
  assumes "state_whole (ar_publish run) t" "ar_version run \<noteq> []"
    and "\<And>r. r \<in> set (concat bs) \<Longrightarrow> key_fits (st_key r) \<and> st_fingerprint r \<noteq> []"
  shows "state_whole (ar_publish run) (apply_activations run lw now (put_all run bs) t)"
  using assms(1,3)
proof (induction bs arbitrary: t)
  case (Cons b bs)
  have "state_whole (ar_publish run) (sql_upsert_rows (ar_publish run) now (restamped (ar_version run) b) t)"
    using Cons.prems assms(2) by (intro state_whole_upsert) (auto simp: restamped_def)
  with Cons show ?case by (simp add: put_all_def)
qed (simp add: put_all_def)

lemma selected_fits:
  assumes "state_whole (rq_scope rq) t" "r \<in> set (map record_of_row (selected_rows rq t None))"
  shows "key_fits (st_key r) \<and> st_fingerprint r \<noteq> []"
  using assms by (auto simp: state_whole_def set_selected_rows record_of_row_def)

section \<open>The phases\<close>

definition activation_ok :: "activation_run \<Rightarrow> (nat \<Rightarrow> string) \<Rightarrow> state_row list \<Rightarrow> bool" where
  "activation_ok run nonces t \<longleftrightarrow> ar_serving run \<noteq> ar_publish run \<and> ar_version run \<noteq> []
     \<and> 1 \<le> ar_page_size run \<and> ar_page_size run \<le> max_state_page_size
     \<and> uuid_hex (nonces 0) \<and> uuid_hex (nonces 1) \<and> uuid_hex (nonces 2)
     \<and> state_whole (ar_serving run) t \<and> state_whole (ar_publish run) t"

text \<open>The fingerprint activation has for a key before it looks at the collection.\<close>

definition known_fingerprint :: "activation_run \<Rightarrow> state_row list \<Rightarrow> string \<Rightarrow> string option" where
  "known_fingerprint run t k =
     (case state_at (ar_publish run) t k of Some v \<Rightarrow> Some (fst v)
      | None \<Rightarrow> if ar_serving_applies run then map_option fst (state_at (ar_serving run) t k) else None)"

lemma fill_phase:
  assumes "activation_ok run nonces t" "ar_serving_applies run"
  shows "\<exists>bs. fill_state_from_serving run (nonces 0) t = (put_all run bs, length (concat bs), None)
    \<and> distinct (map st_key (concat bs)) \<and> (\<forall>r \<in> set (concat bs). key_fits (st_key r) \<and> st_fingerprint r \<noteq> [])
    \<and> (\<forall>k. map_option fst (state_at (ar_publish run) (apply_activations run lw now (put_all run bs) t) k) = known_fingerprint run t k)"
proof -
  let ?rq = "\<lparr>rq_scope = ar_serving run, rq_page_size = ar_page_size run, rq_absent_from = ScopeProbe (ar_publish run)\<rparr>"
  have whole: "state_whole (ar_serving run) t" and pk: "state_pk t" using assms(1) by (simp_all add: activation_ok_def state_whole_def)
  have probe: "readable_probe (ScopeProbe (ar_publish run))" by (simp add: readable_probe_def)
  have nonce: "uuid_hex (nonces 0)" and page_size: "1 \<le> ar_page_size run" "ar_page_size run \<le> max_state_page_size"
    using assms(1) by (simp_all add: activation_ok_def)
  obtain bs where bs: "scope_batches (ar_serving run) (ar_page_size run) (ScopeProbe (ar_publish run)) (nonces 0) t = (bs, Exhausted)"
      "concat bs = map record_of_row (selected_rows ?rq t None)"
    using scope_batches_exact [OF state_whole_readable [OF whole nonce] page_size probe] by blast
  have distinct: "distinct (map st_key (concat bs))" unfolding bs(2) by (rule distinct_selected [OF pk])
  have hit: "probe_hit (ScopeProbe (ar_publish run)) t k \<longleftrightarrow> state_at (ar_publish run) t k \<noteq> None" for k
    by (simp add: state_at_def keyed_find_None)
  have "map_option fst (state_at (ar_publish run) (apply_activations run lw now (put_all run bs) t) k) = known_fingerprint run t k" for k
  proof (cases "state_at (ar_publish run) t k")
    case None
    then have "keyed_find st_key (concat bs) k = map_option record_of_row (keyed_find state_key t (ar_serving run, k))"
      unfolding bs(2) find_selected [OF pk] using hit [of k] by simp
    with None assms(2) show ?thesis unfolding put_all_at [OF distinct]
      by (cases "keyed_find state_key t (ar_serving run, k)")
        (simp_all add: known_fingerprint_def state_at_def record_of_row_def state_value_of_def)
  next
    case (Some v)
    then have "keyed_find st_key (concat bs) k = None" unfolding bs(2) find_selected [OF pk] using hit [of k] by simp
    with Some show ?thesis unfolding put_all_at [OF distinct] by (simp add: known_fingerprint_def)
  qed
  moreover have "fill_state_from_serving run (nonces 0) t = (put_all run bs, length (concat bs), None)"
    by (simp add: fill_state_from_serving_def bs(1) put_all_def)
  moreover have "\<forall>r \<in> set (concat bs). key_fits (st_key r) \<and> st_fingerprint r \<noteq> []"
    unfolding bs(2) using selected_fits [of ?rq t] whole by simp
  ultimately show ?thesis using distinct by blast
qed

lemma restamp_phase:
  assumes "state_whole (ar_publish run) t" "uuid_hex nonce" "1 \<le> ar_page_size run" "ar_page_size run \<le> max_state_page_size"
  shows "\<exists>bs. restamp_and_sample run slots nonce t = (put_all run bs, length (concat bs), reservoir slots 0 [] (map st_key (concat bs)), None)
    \<and> distinct (map st_key (concat bs)) \<and> (\<forall>r \<in> set (concat bs). key_fits (st_key r) \<and> st_fingerprint r \<noteq> [])
    \<and> st_key ` set (concat bs) = {k. state_at (ar_publish run) t k \<noteq> None}
    \<and> (\<forall>k. state_at (ar_publish run) (apply_activations run lw now (put_all run bs) t) k =
         map_option (\<lambda>v. (fst v, ar_version run)) (state_at (ar_publish run) t k))"
proof -
  let ?rq = "\<lparr>rq_scope = ar_publish run, rq_page_size = ar_page_size run, rq_absent_from = NoProbe\<rparr>"
  have pk: "state_pk t" using assms(1) by (simp add: state_whole_def)
  obtain bs where bs: "scope_batches (ar_publish run) (ar_page_size run) NoProbe nonce t = (bs, Exhausted)"
      "concat bs = map record_of_row (selected_rows ?rq t None)"
    using scope_batches_exact [OF state_whole_readable [OF assms(1,2)] assms(3,4), of NoProbe] by (auto simp: readable_probe_def)
  have distinct: "distinct (map st_key (concat bs))" unfolding bs(2) by (rule distinct_selected [OF pk])
  have find: "keyed_find st_key (concat bs) k = map_option record_of_row (keyed_find state_key t (ar_publish run, k))" for k
    unfolding bs(2) find_selected [OF pk] by simp
  have "state_at (ar_publish run) (apply_activations run lw now (put_all run bs) t) k =
      map_option (\<lambda>v. (fst v, ar_version run)) (state_at (ar_publish run) t k)" for k
    unfolding put_all_at [OF distinct] find
    by (auto simp: state_at_def record_of_row_def state_value_of_def split: option.splits)
  moreover have "st_key ` set (concat bs) = {k. keyed_find st_key (concat bs) k \<noteq> None}" by (auto simp: keyed_find_None)
  then have "st_key ` set (concat bs) = {k. state_at (ar_publish run) t k \<noteq> None}" by (simp add: find state_at_def del: set_concat)
  moreover have "\<forall>r \<in> set (concat bs). key_fits (st_key r) \<and> st_fingerprint r \<noteq> []"
    unfolding bs(2) using selected_fits [of ?rq t] assms(1) by simp
  moreover have "restamp_and_sample run slots nonce t = (put_all run bs, length (concat bs), reservoir slots 0 [] (map st_key (concat bs)), None)"
    by (simp add: restamp_and_sample_def bs(1) put_all_def)
  ultimately show ?thesis using distinct by blast
qed

lemma mark_phase:
  assumes "state_whole (ar_publish run) t" "ar_version run \<noteq> []" "distinct (concat ps)" "\<forall>k \<in> set (concat ps). key_fits k"
    and "\<forall>p \<in> set ps. int (length p) \<le> max_state_subset_keys"
  shows "\<exists>es. mark_rows_without_state run lw now ps t = (es, card {k \<in> set (concat ps). state_at (ar_publish run) t k = None}, None)
    \<and> list_all only_puts es \<and> state_whole (ar_publish run) (apply_activations run lw now es t)
    \<and> (\<forall>k. state_at (ar_publish run) (apply_activations run lw now es t) k =
         (if k \<in> set (concat ps) \<and> state_at (ar_publish run) t k = None then Some (unverified_input_fingerprint, ar_version run)
          else state_at (ar_publish run) t k))"
  using assms(1,3-5)
proof (induction ps arbitrary: t)
  case (Cons p ps)
  let ?sc = "ar_publish run"
  have pk: "state_pk t" using Cons.prems(1) by (simp add: state_whole_def)
  have "[] \<notin> set p" using Cons.prems(3) by (auto simp: key_fits_def)
  then obtain known where known: "fetch_state_subset ?sc p t = Inr known" "map_of known = state_at ?sc t |` set p"
    using fetch_state_subset_ok [OF pk, of p ?sc] Cons.prems(2,4) by auto
  let ?mark = "\<lambda>k. \<lparr>st_key = k, st_fingerprint = unverified_input_fingerprint, st_version = ar_version run\<rparr>"
  define new where "new = filter (\<lambda>k. state_at ?sc t k = None) p"
  have new: "filter (\<lambda>k. map_of known k = None) p = new"
    unfolding new_def by (rule filter_cong [OF refl]) (simp add: known(2))
  define es where "es = CheckClaim # (if map ?mark new = [] then [] else [PutState (map ?mark new)])"
  have distinct: "distinct (map st_key (map ?mark new))" using Cons.prems(2) by (simp add: new_def comp_def)
  have find: "keyed_find st_key (map ?mark new) k = (if k \<in> set new then Some (?mark k) else None)" for k
    by (induction new) (auto simp: keyed_find_Cons)
  have put: "apply_activations run lw now es t = sql_upsert_rows ?sc now (map ?mark new) t"
    by (simp add: es_def sql_upsert_rows_def)
  have at: "state_at ?sc (apply_activations run lw now es t) k =
      (if k \<in> set new then Some (unverified_input_fingerprint, ar_version run) else state_at ?sc t k)" for k
    unfolding put state_at_upsert [OF distinct] by (simp add: find)
  have whole: "state_whole ?sc (apply_activations run lw now es t)"
    unfolding put using Cons.prems(1,3) assms(2)
    by (intro state_whole_upsert) (auto simp: new_def unverified_input_fingerprint_def)
  obtain rest where rest: "mark_rows_without_state run lw now ps (apply_activations run lw now es t)
      = (rest, card {k \<in> set (concat ps). state_at ?sc (apply_activations run lw now es t) k = None}, None)"
    "list_all only_puts rest" "state_whole ?sc (apply_activations run lw now rest (apply_activations run lw now es t))"
    "\<forall>k. state_at ?sc (apply_activations run lw now rest (apply_activations run lw now es t)) k =
       (if k \<in> set (concat ps) \<and> state_at ?sc (apply_activations run lw now es t) k = None then Some (unverified_input_fingerprint, ar_version run)
        else state_at ?sc (apply_activations run lw now es t) k)"
    using Cons.IH [OF whole] Cons.prems(2-4) by auto
  have disjoint: "set p \<inter> set (concat ps) = {}" using Cons.prems(2) by simp
  have count: "length new + card {k \<in> set (concat ps). state_at ?sc (apply_activations run lw now es t) k = None}
      = card {k \<in> set (concat (p # ps)). state_at ?sc t k = None}"
  proof -
    have "distinct new" using Cons.prems(2) by (simp add: new_def)
    then have "length new = card (set new)" by (simp add: distinct_card)
    moreover have "{k \<in> set (concat ps). state_at ?sc (apply_activations run lw now es t) k = None} = {k \<in> set (concat ps). state_at ?sc t k = None}"
      using disjoint by (auto simp: at new_def)
    moreover have "{k \<in> set (concat (p # ps)). state_at ?sc t k = None} = set new \<union> {k \<in> set (concat ps). state_at ?sc t k = None}"
      by (auto simp: new_def)
    moreover have "set new \<inter> {k \<in> set (concat ps). state_at ?sc t k = None} = {}" using disjoint by (auto simp: new_def)
    ultimately show ?thesis by (simp add: card_Un_disjoint del: set_concat)
  qed
  have result: "mark_rows_without_state run lw now (p # ps) t = (es @ rest, card {k \<in> set (concat (p # ps)). state_at ?sc t k = None}, None)"
    unfolding mark_rows_without_state.simps known(1) sum.case Let_def new es_def [symmetric] rest(1) prod.case count [symmetric] by simp
  have puts: "list_all only_puts (es @ rest)" using rest(2) distinct by (simp add: es_def)
  have final: "state_at ?sc (apply_activations run lw now (es @ rest) t) k =
      (if k \<in> set (concat (p # ps)) \<and> state_at ?sc t k = None then Some (unverified_input_fingerprint, ar_version run) else state_at ?sc t k)" for k
    using rest(4) [rule_format, of k] at [of k] disjoint by (auto simp: new_def)
  have "state_whole ?sc (apply_activations run lw now (es @ rest) t)" using rest(3) by simp
  with result puts final show ?case by blast
qed simp

section \<open>The swap\<close>

lemma insert_batches_at:
  assumes "insert_batches sc now bs n t = Inr (m, t')" "distinct (map st_key (concat bs))"
  shows "state_at sc' t' k = (case if sc' = sc then keyed_find st_key (concat bs) k else None of
      None \<Rightarrow> state_at sc' t k | Some r \<Rightarrow> Some (st_fingerprint r, st_version r))"
  using assms
proof (induction bs arbitrary: n t)
  case (Cons b bs)
  show ?case
  proof (cases "b = []")
    case True
    with Cons.prems(1) have "insert_batches sc now bs n t = Inr (m, t')" by (auto simp: rbind_def split: sum.splits)
    with Cons True show ?thesis by simp
  next
    case False
    with Cons.prems(1) obtain t1 where t1: "sql_insert_rows sc now b t = Some t1" "insert_batches sc now bs (n + length b) t1 = Inr (m, t')"
      by (auto simp: rbind_def split: sum.splits option.splits)
    from sql_insert_rows_Some [OF t1(1)] have t1_at: "state_at sc' t1 k = (case if sc' = sc then keyed_find st_key b k else None of
        None \<Rightarrow> state_at sc' t k | Some r \<Rightarrow> Some (st_fingerprint r, st_version r))"
      by (simp add: state_at_upsert)
    have "distinct (map st_key (b @ concat bs))" using Cons.prems(2) by simp
    note find_either_order [OF this, where f = "\<lambda>r. Some (st_fingerprint r, st_version r)" and d = "state_at sc' t k" and k = k]
    with Cons.IH [OF t1(2)] Cons.prems(2) t1_at show ?thesis by (cases "sc' = sc") (simp_all cong: option.case_cong)
  qed
qed simp

lemma replace_at:
  assumes "fst (replace_state_scope sc now bs fence lw t) = Inr m" "distinct (map st_key (concat bs))"
  shows "state_at sc (snd (replace_state_scope sc now bs fence lw t)) k =
    map_option (\<lambda>r. (st_fingerprint r, st_version r)) (keyed_find st_key (concat bs) k)"
proof -
  obtain t' where t': "insert_batches sc now bs 0 (sql_clear_rows sc t) = Inr (m, t')" "snd (replace_state_scope sc now bs fence lw t) = t'"
    using assms(1) by (auto simp: replace_state_scope_def rbind_def split: sum.splits option.splits)
  show ?thesis unfolding t'(2) insert_batches_at [OF t'(1) assms(2)] by (simp add: state_at_clear split: option.splits)
qed

section \<open>A whole run\<close>

text \<open>
  The serving state activation is to leave: exactly the collection's identifiers, each with the fingerprint
  known for it or the marker, at the current version.
\<close>

definition activated :: "activation_run \<Rightarrow> string list \<Rightarrow> state_row list \<Rightarrow> string \<Rightarrow> state_value option" where
  "activated run ids t k =
     (if k \<in> set ids
      then Some (case known_fingerprint run t k of None \<Rightarrow> unverified_input_fingerprint | Some fp \<Rightarrow> fp, ar_version run)
      else None)"

definition listing_ok :: "string list list \<Rightarrow> bool" where
  "listing_ok pages \<longleftrightarrow> distinct (concat pages) \<and> (\<forall>k \<in> set (concat pages). key_fits k)
     \<and> (\<forall>p \<in> set pages. int (length p) \<le> max_state_subset_keys)"

text \<open>
  As many rows without state as the two counts say: then no state key is missing from the collection.
\<close>

lemma no_ghost_keys:
  assumes "finite S" "distinct ids" "card {k \<in> set ids. k \<notin> S} = length ids - card S" "card S \<le> length ids"
  shows "S \<subseteq> set ids"
proof -
  have "set ids = {k \<in> set ids. k \<notin> S} \<union> (S \<inter> set ids)" by auto
  then have "length ids = card {k \<in> set ids. k \<notin> S} + card (S \<inter> set ids)"
    using card_Un_disjoint [of "{k \<in> set ids. k \<notin> S}" "S \<inter> set ids"] distinct_card [OF assms(2)] by fastforce
  then have "card (S \<inter> set ids) = card S" using assms(3,4) by simp
  then have "S \<inter> set ids = S" using card_subset_eq [OF assms(1)] by blast
  then show ?thesis by blast
qed

lemma fill_or_skip:
  assumes "activation_ok run nonces t"
  shows "\<exists>es n. (if ar_serving_applies run then fill_state_from_serving run (nonces 0) t else ([], 0, None)) = (es, n, None)
    \<and> list_all only_puts es \<and> state_whole (ar_publish run) (apply_activations run lw now es t)
    \<and> (\<forall>k. map_option fst (state_at (ar_publish run) (apply_activations run lw now es t) k) = known_fingerprint run t k)"
proof (cases "ar_serving_applies run")
  case True
  obtain bs where bs: "fill_state_from_serving run (nonces 0) t = (put_all run bs, length (concat bs), None)"
    "distinct (map st_key (concat bs))" "\<forall>r \<in> set (concat bs). key_fits (st_key r) \<and> st_fingerprint r \<noteq> []"
    "\<forall>k. map_option fst (state_at (ar_publish run) (apply_activations run lw now (put_all run bs) t) k) = known_fingerprint run t k"
    using fill_phase [OF assms True, of lw now] by (elim exE conjE) blast
  have "state_whole (ar_publish run) (apply_activations run lw now (put_all run bs) t)"
    using assms bs(3) by (intro put_all_whole) (auto simp: activation_ok_def)
  with bs(1,4) put_all_only_puts [OF bs(2)] True show ?thesis by simp
next
  case False
  with assms show ?thesis by (auto simp: activation_ok_def known_fingerprint_def split: option.split)
qed

lemma restamped_exactly:
  assumes "state_whole (ar_publish run) t" "activation_ok run nonces t0"
  shows "\<exists>es n sample. restamp_and_sample run slots (nonces 1) t = (es, n, sample, None)
    \<and> list_all only_puts es \<and> state_whole (ar_publish run) (apply_activations run lw now es t)
    \<and> finite {k. state_at (ar_publish run) t k \<noteq> None} \<and> n = card {k. state_at (ar_publish run) t k \<noteq> None}
    \<and> (\<forall>k. state_at (ar_publish run) (apply_activations run lw now es t) k =
         map_option (\<lambda>v. (fst v, ar_version run)) (state_at (ar_publish run) t k))"
proof -
  have settings: "uuid_hex (nonces 1)" "1 \<le> ar_page_size run" "ar_page_size run \<le> max_state_page_size" "ar_version run \<noteq> []"
    using assms(2) by (simp_all add: activation_ok_def)
  obtain bs where bs: "restamp_and_sample run slots (nonces 1) t =
      (put_all run bs, length (concat bs), reservoir slots 0 [] (map st_key (concat bs)), None)"
    "distinct (map st_key (concat bs))" "\<forall>r \<in> set (concat bs). key_fits (st_key r) \<and> st_fingerprint r \<noteq> []"
    "st_key ` set (concat bs) = {k. state_at (ar_publish run) t k \<noteq> None}"
    "\<forall>k. state_at (ar_publish run) (apply_activations run lw now (put_all run bs) t) k =
         map_option (\<lambda>v. (fst v, ar_version run)) (state_at (ar_publish run) t k)"
    using restamp_phase [OF assms(1) settings(1-3), of slots lw now] by (elim exE conjE) blast
  have "state_whole (ar_publish run) (apply_activations run lw now (put_all run bs) t)"
    using bs(3) by (intro put_all_whole [OF assms(1) settings(4)]) blast
  moreover have "length (concat bs) = card {k. state_at (ar_publish run) t k \<noteq> None}"
    using distinct_card [OF bs(2)] bs(4) by (simp del: set_concat)
  moreover have "finite {k. state_at (ar_publish run) t k \<noteq> None}" unfolding bs(4) [symmetric] by (rule finite_imageI) (rule finite_set)
  ultimately show ?thesis using bs(1,5) put_all_only_puts [OF bs(2)] by blast
qed

lemma swap_exactly:
  assumes "state_whole (ar_publish run) t" "activation_ok run nonces t0"
  shows "\<exists>bs. scope_batches (ar_publish run) (ar_page_size run) NoProbe (nonces 2) t = (bs, Exhausted)
    \<and> (\<forall>m. fst (replace_state_scope (ar_serving run) now bs (Some (ar_fence run)) lw t) = Inr m \<longrightarrow>
        (\<forall>k. state_at (ar_serving run) (apply_activation run lw now (SwapServing bs) t) k = state_at (ar_publish run) t k))"
proof -
  let ?rq = "\<lparr>rq_scope = ar_publish run, rq_page_size = ar_page_size run, rq_absent_from = NoProbe\<rparr>"
  have settings: "uuid_hex (nonces 2)" "1 \<le> ar_page_size run" "ar_page_size run \<le> max_state_page_size"
    using assms(2) by (simp_all add: activation_ok_def)
  have pk: "state_pk t" using assms(1) by (simp add: state_whole_def)
  obtain bs where bs: "scope_batches (ar_publish run) (ar_page_size run) NoProbe (nonces 2) t = (bs, Exhausted)"
      "concat bs = map record_of_row (selected_rows ?rq t None)"
    using scope_batches_exact [OF state_whole_readable [OF assms(1) settings(1)] settings(2,3), of NoProbe] by (auto simp: readable_probe_def)
  have distinct: "distinct (map st_key (concat bs))" unfolding bs(2) by (rule distinct_selected [OF pk])
  have find: "keyed_find st_key (concat bs) k = map_option record_of_row (keyed_find state_key t (ar_publish run, k))" for k
    unfolding bs(2) find_selected [OF pk] by simp
  have "state_at (ar_serving run) (apply_activation run lw now (SwapServing bs) t) k = state_at (ar_publish run) t k"
    if "fst (replace_state_scope (ar_serving run) now bs (Some (ar_fence run)) lw t) = Inr m" for m k
    unfolding apply_activation.simps replace_at [OF that distinct] find
    by (cases "keyed_find state_key t (ar_publish run, k)") (simp_all add: state_at_def record_of_row_def state_value_of_def)
  with bs(1) show ?thesis by blast
qed

text \<open>
  The shape of every run: writes to the generation's scope, followed on success by the swap, which leaves
  the specified serving state, and the clearing of the generation's scope.
\<close>

definition run_shape :: "activation_run \<Rightarrow> world \<Rightarrow> int \<Rightarrow> string list \<Rightarrow> state_row list \<Rightarrow> activation_effect list \<times> activation_error option \<Rightarrow> bool" where
  "run_shape run lw now ids t result \<longleftrightarrow> (\<exists>pre. list_all only_puts pre \<and>
     (case result of (es, Some e) \<Rightarrow> es = pre
      | (es, None) \<Rightarrow> \<exists>bs. es = pre @ [SwapServing bs, ClearPublish]
          \<and> (\<forall>k. state_at (ar_serving run) (apply_activations run lw now (pre @ [SwapServing bs]) t) k = activated run ids t k)))"

lemma run_shape_failed: "list_all only_puts es \<Longrightarrow> run_shape run lw now ids t (es, Some e)"
  by (auto simp: run_shape_def)

lemma activation_shape:
  assumes "activation_ok run nonces t" "listing_ok pages"
  shows "run_shape run lw now (concat pages) t (activation_phases run lw now slots nonces (length (concat pages)) pages t)"
proof -
  let ?ap = "apply_activations run lw now" and ?sc = "ar_publish run" and ?v = "ar_version run"
  define ids where "ids = concat pages"
  have listing: "distinct ids" "\<forall>k \<in> set ids. key_fits k" "\<forall>p \<in> set pages. int (length p) \<le> max_state_subset_keys"
    using assms(2) by (simp_all add: listing_ok_def ids_def)
  have version: "?v \<noteq> []" using assms(1) by (simp add: activation_ok_def)
  obtain es1 n1 where fill: "(if ar_serving_applies run then fill_state_from_serving run (nonces 0) t else ([], 0, None)) = (es1, n1, None)"
    "list_all only_puts es1" "state_whole ?sc (?ap es1 t)"
    "\<forall>k. map_option fst (state_at ?sc (?ap es1 t) k) = known_fingerprint run t k"
    using fill_or_skip [OF assms(1), of lw now] by (elim exE conjE) blast
  let ?S = "{k. state_at ?sc (?ap es1 t) k \<noteq> None}"
  have S: "k \<in> ?S \<longleftrightarrow> known_fingerprint run t k \<noteq> None" for k unfolding fill(4) [rule_format, symmetric] by simp
  obtain es2 n2 sample where restamp: "restamp_and_sample run slots (nonces 1) (?ap es1 t) = (es2, n2, sample, None)"
    "list_all only_puts es2" "state_whole ?sc (?ap es2 (?ap es1 t))" "finite ?S" "n2 = card ?S"
    "\<forall>k. state_at ?sc (?ap es2 (?ap es1 t)) k = map_option (\<lambda>v. (fst v, ?v)) (state_at ?sc (?ap es1 t) k)"
    using restamped_exactly [OF fill(3) assms(1), of slots lw now] by (elim exE conjE) blast
  let ?t2 = "?ap es2 (?ap es1 t)"
  have t2_at: "state_at ?sc ?t2 k = map_option (\<lambda>fp. (fp, ?v)) (known_fingerprint run t k)" for k
    unfolding fill(4) [rule_format, symmetric] restamp(6) [rule_format] by (simp add: option.map_comp comp_def)
  obtain es3 where mark: "mark_rows_without_state run lw now pages ?t2 = (es3, card {k \<in> set ids. state_at ?sc ?t2 k = None}, None)"
    "list_all only_puts es3" "state_whole ?sc (?ap es3 ?t2)"
    "\<forall>k. state_at ?sc (?ap es3 ?t2) k = (if k \<in> set ids \<and> state_at ?sc ?t2 k = None then Some (unverified_input_fingerprint, ?v) else state_at ?sc ?t2 k)"
    using mark_phase [OF restamp(3) version listing [unfolded ids_def], of lw now] unfolding ids_def by (elim exE conjE) blast
  obtain bs where swap: "scope_batches ?sc (ar_page_size run) NoProbe (nonces 2) (?ap es3 ?t2) = (bs, Exhausted)"
    "\<forall>m. fst (replace_state_scope (ar_serving run) now bs (Some (ar_fence run)) lw (?ap es3 ?t2)) = Inr m \<longrightarrow>
        (\<forall>k. state_at (ar_serving run) (apply_activation run lw now (SwapServing bs) (?ap es3 ?t2)) k = state_at ?sc (?ap es3 ?t2) k)"
    using swap_exactly [OF mark(3) assms(1), of now lw] by (elim exE conjE) blast
  let ?replace = "fst (replace_state_scope (ar_serving run) now bs (Some (ar_fence run)) lw (?ap es3 ?t2))"
  let ?marked = "card {k \<in> set ids. state_at ?sc ?t2 k = None}"
  let ?pre = "es1 @ es2 @ es3 @ [CheckClaim]"
  have run: "activation_phases run lw now slots nonces (length ids) pages t =
      (if length ids < n2 then (es1 @ es2, Some StateExceedsCollection)
       else if count_present ids sample \<noteq> length sample then (es1 @ es2, Some SampleNotHeld)
       else if ?marked \<noteq> length ids - n2 then (es1 @ es2 @ es3, Some StateNamesMissingRows)
       else case ?replace of Inl e \<Rightarrow> (?pre, Some (KeyFailure e)) | Inr _ \<Rightarrow> (?pre @ [SwapServing bs, ClearPublish], None))"
    unfolding activation_phases_def Let_def fill(1) ids_def [symmetric] prod.case option.case restamp(1)
      apply_activations_simps(3) mark(1) swap(1) stream_end.case by (simp split: sum.split)
  have puts: "list_all only_puts (es1 @ es2)" "list_all only_puts (es1 @ es2 @ es3)" "list_all only_puts ?pre"
    using fill(2) restamp(2) mark(2) by simp_all
  have swapped: "state_at (ar_serving run) (?ap (?pre @ [SwapServing bs]) t) k = activated run ids t k"
    if "?replace = Inr m" "n2 \<le> length ids" "?marked = length ids - n2" for m k
  proof -
    have "{k \<in> set ids. k \<notin> ?S} = {k \<in> set ids. state_at ?sc ?t2 k = None}" 
      unfolding S t2_at by simp
    then have "?S \<subseteq> set ids" using no_ghost_keys [OF restamp(4) listing(1)] that(2,3) restamp(5) by simp
    then have "k \<notin> set ids \<Longrightarrow> known_fingerprint run t k = None" using S by blast
    then have "state_at ?sc (?ap es3 ?t2) k = activated run ids t k"
      unfolding mark(4) [rule_format] t2_at by (auto simp: activated_def split: option.split)
    with swap(2) that(1) show ?thesis by simp
  qed
  show ?thesis
    unfolding ids_def [symmetric] run using puts swapped
    by (auto simp: run_shape_failed run_shape_def split: sum.split)
qed

lemma take_puts: "list_all P pre \<Longrightarrow> n \<le> length pre \<Longrightarrow> list_all P (take n (pre @ es))"
  by (auto simp: list_all_iff dest: in_set_takeD)

lemma serving_after_prefix:
  assumes "run_shape run lw now ids t (es, outcome)" "ar_serving run \<noteq> ar_publish run"
  shows "state_at (ar_serving run) (apply_activations run lw now (take n es) t) =
    (if outcome = None \<and> length es \<le> Suc n then activated run ids t else state_at (ar_serving run) t)"
proof -
  obtain pre where pre: "list_all only_puts pre" "outcome \<noteq> None \<longrightarrow> es = pre"
    "outcome = None \<longrightarrow> (\<exists>bs. es = pre @ [SwapServing bs, ClearPublish]
        \<and> (\<forall>k. state_at (ar_serving run) (apply_activations run lw now (pre @ [SwapServing bs]) t) k = activated run ids t k))"
    using assms(1) by (cases outcome) (auto simp: run_shape_def)
  have kept: "state_at (ar_serving run) (apply_activations run lw now (take n (pre @ rest)) t) = state_at (ar_serving run) t"
    if "n \<le> length pre" for rest
    using puts_keep_others [OF take_puts [OF pre(1) that] assms(2)] by blast
  have cleared: "state_at (ar_serving run) (apply_activation run lw now ClearPublish t') = state_at (ar_serving run) t'" for t'
    using assms(2) by (simp add: clear_state_def state_at_clear fun_eq_iff)
  show ?thesis
  proof (cases outcome)
    case (Some e)
    have "list_all only_puts (take n pre)" using pre(1) by (auto simp: list_all_iff dest: in_set_takeD)
    with Some pre(2) show ?thesis using puts_keep_others [OF _ assms(2)] by auto
  next
    case None
    with pre(3) obtain bs where bs: "es = pre @ [SwapServing bs, ClearPublish]"
      "\<forall>k. state_at (ar_serving run) (apply_activations run lw now (pre @ [SwapServing bs]) t) k = activated run ids t k" by blast
    show ?thesis
    proof (cases "length es \<le> Suc n")
      case True
      define t1 where "t1 = apply_activations run lw now (pre @ [SwapServing bs]) t"
      have "apply_activations run lw now (take n es) t = (if length es \<le> n then apply_activation run lw now ClearPublish t1 else t1)"
        using True bs(1) by (cases "n = Suc (length pre)") (auto simp: t1_def)
      moreover have "state_at (ar_serving run) t1 = activated run ids t" unfolding t1_def using bs(2) by blast
      ultimately show ?thesis using None True cleared [of t1] by simp
    next
      case False
      then show ?thesis using kept [of "[SwapServing bs, ClearPublish]"] bs(1) None by simp
    qed
  qed
qed

lemma admitted_simps [simp]:
  "ar_serving (admitted rq run) = ar_serving run" "ar_publish (admitted rq run) = ar_publish run"
  "ar_fence (admitted rq run) = ar_fence run"
  by (simp_all add: admitted_def)

lemma apply_admitted [simp]: "apply_activations (admitted rq run) lw now es t = apply_activations run lw now es t"
proof (induction es arbitrary: t)
  case (Cons e es)
  then show ?case by (cases e) simp_all
qed simp

section \<open>Atomicity\<close>

text \<open>
  C33: An activation is atomic for the serving state. Interrupted after any number of its durable effects,
  it leaves the serving scope as it was, unless it has come to the swap; then the scope lists exactly the
  identifiers the collection holds, each at the current version, with the fingerprint recorded in the
  generation's scope, or else (when the serving state describes the same collection) in the serving scope,
  or else the marker that no reconciliation takes for current. A run that ends in an error never reaches the swap.
\<close>

theorem activation_is_atomic:
  assumes "activation_ok run nonces t" "listing_ok pages"
    and "\<And>m. aq_existing rq = Some m \<Longrightarrow> cm_row_count m = length (concat pages)"
    and "activate_search_generation rq run lw now slots nonces pages t = (es, outcome)"
  shows "state_at (ar_serving run) (apply_activations run lw now (take n es) t) =
    (if outcome = None \<and> length es \<le> Suc n then activated (admitted rq run) (concat pages) t else state_at (ar_serving run) t)"
proof -
  have "activation_ok (admitted rq run) nonces t" using assms(1) by (simp add: activation_ok_def admitted_def)
  note shape = activation_shape [OF this assms(2), of lw now slots]
  have "run_shape (admitted rq run) lw now (concat pages) t (es, outcome)"
    using assms(3,4) shape run_shape_failed [of "[]"]
    by (auto simp: activate_search_generation_def split: if_splits option.splits)
  note serving_after_prefix [OF this, of n]
  then show ?thesis using assms(1) by (simp add: activation_ok_def)
qed

definition demo_activation :: activation_run where
  "demo_activation = \<lparr>ar_serving = demo_scope, ar_publish = demo_scope\<lparr>stage := ''retrieval_publish:g2''\<rparr>, ar_version = ''v2'',
     ar_page_size = 2, ar_serving_applies = False, ar_fence = \<lparr>f_publication_id = ''p1'', f_token = 4\<rparr>\<rparr>"

definition demo_recorded :: "state_row list" where
  "demo_recorded = (demo_row ''d2'' ''g2'')\<lparr>sr_scope := ar_publish demo_activation\<rparr> # demo_state"

definition demo_ledger :: world where
  "demo_ledger = \<lparr>ledger = [(placeholder_row demo_scope ''r1'')\<lparr>publication_id := Some ''p1'', fencing_token := 4\<rparr>],
     leases = [], clock = 10, drawn = 0\<rparr>"

definition demo_listing :: "string list list" where
  "demo_listing = [[''d2'', ''d4''], [''d1'', ''d3'']]"

definition demo_activation_request :: activation_request where
  "demo_activation_request = \<lparr>aq_rows_verified = True, aq_entry = placeholder_row demo_scope ''r1'',
     aq_existing = Some \<lparr>cm_config_fingerprint = Some ''c1'', cm_row_count = 4\<rparr>, aq_declared = ''c1'', aq_upstream_rows = 5,
     aq_default_collection = ''docs'', aq_physical_collection = ''docs_g2''\<rparr>"

theorem activation_is_atomic_witness:
  "\<exists>es. activate_search_generation demo_activation_request demo_activation demo_ledger 9 (\<lambda>_. 0) (\<lambda>_. demo_nonce CHR ''a'')
      demo_listing demo_recorded = (es, None)
    \<and> map (state_at demo_scope (apply_activations demo_activation demo_ledger 9 (take 100 es) demo_recorded)) [''d1'', ''d2'', ''d3'', ''d4'', ''d5'']
      = [Some (''f1'', ''v2''), Some (''g2'', ''v2''), Some (''f3'', ''v2''), Some (unverified_input_fingerprint, ''v2''), None]"
proof -
  let ?run = "activate_search_generation demo_activation_request demo_activation demo_ledger 9 (\<lambda>_. 0) (\<lambda>_. demo_nonce CHR ''a'')
    demo_listing demo_recorded"
  have "snd ?run = None" "length (fst ?run) \<le> Suc 100" by (code_simp, code_simp)
  then obtain es where es: "?run = (es, None)" "length es \<le> Suc 100" by (cases ?run) simp
  have h: "activation_ok demo_activation (\<lambda>_. demo_nonce CHR ''a'') demo_recorded" "listing_ok demo_listing" by (code_simp, code_simp)
  have count: "cm_row_count m = length (concat demo_listing)" if "aq_existing demo_activation_request = Some m" for m
    using that by (auto simp: demo_activation_request_def demo_listing_def)
  have serving: "ar_serving demo_activation = demo_scope" by (simp add: demo_activation_def)
  have "state_at demo_scope (apply_activations demo_activation demo_ledger 9 (take 100 es) demo_recorded)
      = activated (admitted demo_activation_request demo_activation) (concat demo_listing) demo_recorded"
    using activation_is_atomic [OF h count es(1), of 100] es(2) unfolding serving by simp
  moreover have "map (activated (admitted demo_activation_request demo_activation) (concat demo_listing) demo_recorded)
      [''d1'', ''d2'', ''d3'', ''d4'', ''d5'']
      = [Some (''f1'', ''v2''), Some (''g2'', ''v2''), Some (''f3'', ''v2''), Some (unverified_input_fingerprint, ''v2''), None]" by code_simp
  ultimately show ?thesis using es(1) by simp
qed

end
