(* ===== verification/Fusion.thy ===== *)
theory Fusion
  imports Py_Values "HOL-Library.Product_Lexorder"
begin

text \<open>
  Ranking a search (\<^verbatim>\<open>search.py\<close>): reading a store's table into ranked rows, scoring one list, reciprocal
  rank fusion of several lists at record grain and at document grain, and the query that chooses between
  them. A table is the list of its rows; what the store answers is an argument (\<open>tables\<close>). Scores are the
  rationals the floats approximate, so additions and divisions are exact.
\<close>

section \<open>Rows\<close>

record ranked_row =
  rk_record_id :: string
  rk_values :: row
  rk_raw_score :: "rat option"
  rk_raw_score_kind :: "string option"

record scored_row =
  sc_record_id :: string
  sc_values :: row
  sc_score :: rat
  sc_raw_score :: "rat option"
  sc_raw_score_kind :: "string option"
  sc_contributing_ranks :: "(string \<times> nat) list"

datatype search_error = InvalidRecordId | ScoreOverflow | MissingDocumentScore

definition score_columns :: "string list" where
  "score_columns = [''_distance'', ''_score'', ''_relevance_score'']"

definition removeprefix_underscore :: "string \<Rightarrow> string" where
  "removeprefix_underscore s = (case s of c # cs \<Rightarrow> if c = CHR ''_'' then cs else s | [] \<Rightarrow> [])"

text \<open>The first score column with a finite number; an integer too large for a float raises.\<close>

fun first_score :: "row \<Rightarrow> string list \<Rightarrow> search_error + (rat \<times> string) option" where
  "first_score raw [] = Inr None"
| "first_score raw (name # names) =
     (case row_get raw name of
        PyInt n \<Rightarrow> (case py_float n of None \<Rightarrow> Inl ScoreOverflow | Some x \<Rightarrow> Inr (Some (x, removeprefix_underscore name)))
      | PyFloat (Finite x) \<Rightarrow> Inr (Some (x, removeprefix_underscore name))
      | _ \<Rightarrow> first_score raw names)"

fun rank_rows :: "string \<Rightarrow> string set \<Rightarrow> row list \<Rightarrow> search_error + ranked_row list" where
  "rank_rows id_field seen [] = Inr []"
| "rank_rows id_field seen (raw # raws) =
     (case row_get raw id_field of
        PyStr record_id \<Rightarrow>
          if record_id = [] then Inl InvalidRecordId
          else if record_id \<in> seen then rank_rows id_field seen raws
          else rbind (first_score raw score_columns) (\<lambda>found.
            rbind (rank_rows id_field (insert record_id seen) raws) (\<lambda>rest.
              Inr (\<lparr>rk_record_id = record_id, rk_values = filter (\<lambda>(k, v). k \<notin> set score_columns) raw,
                    rk_raw_score = map_option fst found, rk_raw_score_kind = map_option snd found\<rparr> # rest)))
      | _ \<Rightarrow> Inl InvalidRecordId)"

definition rank_table :: "string \<Rightarrow> row list \<Rightarrow> search_error + ranked_row list" where
  "rank_table id_field table = rank_rows id_field {} table"

definition score_single :: "string \<Rightarrow> ranked_row list \<Rightarrow> scored_row list" where
  "score_single label rows = map (\<lambda>(rank, r). \<lparr>sc_record_id = rk_record_id r, sc_values = rk_values r, sc_score = 1 / of_nat rank,
     sc_raw_score = rk_raw_score r, sc_raw_score_kind = rk_raw_score_kind r, sc_contributing_ranks = [(label, rank)]\<rparr>)
     (enumerate 1 rows)"

section \<open>Fusion at record grain\<close>

type_synonym legs = "(string \<times> scored_row list) list"

record fusing =
  fu_scores :: "(string \<times> rat) list"
  fu_values :: "(string \<times> row) list"
  fu_ranks :: "(string \<times> (string \<times> nat) list) list"

definition get_or :: "'v \<Rightarrow> ('k \<times> 'v) list \<Rightarrow> 'k \<Rightarrow> 'v" where
  "get_or d m k = (case map_of m k of None \<Rightarrow> d | Some v \<Rightarrow> v)"

definition fuse_row :: "nat \<Rightarrow> string \<Rightarrow> nat \<times> scored_row \<Rightarrow> fusing \<Rightarrow> fusing" where
  "fuse_row rank_constant name = (\<lambda>(rank, r) f.
     let i = sc_record_id r in
     f\<lparr>fu_scores := AList.update i (get_or 0 (fu_scores f) i + 1 / of_nat (rank_constant + rank)) (fu_scores f),
       fu_values := AList.update i (AList.updates (map fst (sc_values r)) (map snd (sc_values r)) (get_or [] (fu_values f) i)) (fu_values f),
       fu_ranks := AList.update i (AList.update name rank (get_or [] (fu_ranks f) i)) (fu_ranks f)\<rparr>)"

definition fuse_leg :: "nat \<Rightarrow> string \<times> scored_row list \<Rightarrow> fusing \<Rightarrow> fusing" where
  "fuse_leg rank_constant = (\<lambda>(name, rows) f. fold (fuse_row rank_constant name) (enumerate 1 rows) f)"

definition nonempty_legs :: "legs \<Rightarrow> legs" where
  "nonempty_legs ranked = sort_key fst (filter (\<lambda>(name, rows). rows \<noteq> []) ranked)"

definition fused :: "nat \<Rightarrow> legs \<Rightarrow> fusing" where
  "fused rank_constant ranked = fold (fuse_leg rank_constant) (nonempty_legs ranked) \<lparr>fu_scores = [], fu_values = [], fu_ranks = []\<rparr>"

definition rrf :: "nat \<Rightarrow> legs \<Rightarrow> scored_row list" where
  "rrf rank_constant ranked =
     (let f = fused rank_constant ranked;
          best = of_nat (length (nonempty_legs ranked)) / of_nat (rank_constant + 1);
          ordered = sort_key (\<lambda>i. (- get_or 0 (fu_scores f) i, i)) (map fst (fu_scores f)) in
      if nonempty_legs ranked = [] then []
      else map (\<lambda>i. \<lparr>sc_record_id = i, sc_values = get_or [] (fu_values f) i, sc_score = get_or 0 (fu_scores f) i / best,
        sc_raw_score = None, sc_raw_score_kind = None, sc_contributing_ranks = get_or [] (fu_ranks f) i\<rparr>) ordered)"

section \<open>Fusion at document grain\<close>

type_synonym document_key = "string \<times> string"

definition document_key :: "string \<Rightarrow> scored_row \<Rightarrow> document_key" where
  "document_key document_id_field r =
     (case row_get (sc_values r) document_id_field of
        PyStr d \<Rightarrow> if d \<noteq> [] then (''document'', d) else (''record'', sc_record_id r)
      | _ \<Rightarrow> (''record'', sc_record_id r))"

text \<open>One leg's contribution to the documents: the rank of a document is the number of documents seen so far.\<close>

fun score_documents :: "nat \<Rightarrow> string \<Rightarrow> document_key list \<Rightarrow> scored_row list \<Rightarrow> (document_key \<times> rat) list \<Rightarrow> (document_key \<times> rat) list" where
  "score_documents rank_constant field seen [] scores = scores"
| "score_documents rank_constant field seen (r # rs) scores =
     (let k = document_key field r in
      if k \<in> set seen then score_documents rank_constant field seen rs scores
      else score_documents rank_constant field (k # seen) rs
        (AList.update k (get_or 0 scores k + 1 / of_nat (rank_constant + length (k # seen))) scores))"

definition document_scores :: "nat \<Rightarrow> string \<Rightarrow> legs \<Rightarrow> (document_key \<times> rat) list" where
  "document_scores rank_constant field ranked =
     fold (\<lambda>(name, rows). score_documents rank_constant field [] rows) (sort_key fst ranked) []"

definition group_members :: "string \<Rightarrow> scored_row list \<Rightarrow> (document_key \<times> scored_row list) list" where
  "group_members field chunks =
     fold (\<lambda>r m. AList.update (document_key field r) (get_or [] m (document_key field r) @ [r]) m) chunks []"

definition rrf_by_document :: "nat \<Rightarrow> string \<Rightarrow> legs \<Rightarrow> search_error + scored_row list" where
  "rrf_by_document rank_constant field ranked =
     (let chunks = rrf rank_constant ranked;
          scores = document_scores rank_constant field ranked;
          best = of_nat (length (nonempty_legs ranked)) / of_nat (rank_constant + 1);
          members = group_members field chunks in
      if chunks = [] then Inr []
      else if \<not> list_all (\<lambda>(k, rows). map_of scores k \<noteq> None) members then Inl MissingDocumentScore
      else
        let documents = sort_key (\<lambda>k. (- get_or 0 scores k, snd k, fst k)) (map fst members) in
        Inr (concat (map (\<lambda>depth.
          map (\<lambda>k. (get_or [] members k ! depth)\<lparr>sc_score := get_or 0 scores k / best\<rparr>)
            (filter (\<lambda>k. depth < length (get_or [] members k)) documents))
          [0..<Max (set (map (\<lambda>(k, rows). length rows) members))])))"

section \<open>The query\<close>

datatype search_mode = VectorMode | TextMode | HybridMode

record search_tables =
  vector_table :: "row list"
  text_tables :: "(string \<times> row list) list"

fun score_fields :: "string \<Rightarrow> (string \<times> row list) list \<Rightarrow> search_error + legs" where
  "score_fields id_field [] = Inr []"
| "score_fields id_field ((field, table) # rest) =
     rbind (rank_table id_field table) (\<lambda>rows. rbind (score_fields id_field rest) (\<lambda>legs.
       let label = ''text:'' @ field in Inr ((label, score_single label rows) # legs)))"

definition rrf_constant :: nat where
  "rrf_constant = 60"

definition execute_query :: "search_mode \<Rightarrow> string \<Rightarrow> string option \<Rightarrow> search_tables \<Rightarrow> search_error + scored_row list" where
  "execute_query mode id_field document_id_field tables =
     rbind (if mode = TextMode then Inr [] else rbind (rank_table id_field (vector_table tables)) (\<lambda>rows. Inr (score_single ''vector'' rows))) (\<lambda>vector_rows.
     rbind (if mode = VectorMode then Inr [] else rbind (score_fields id_field (text_tables tables)) (\<lambda>by_field.
         Inr (if length by_field = 1 then snd (hd by_field) else rrf rrf_constant by_field))) (\<lambda>text_rows.
     case mode of VectorMode \<Rightarrow> Inr vector_rows | TextMode \<Rightarrow> Inr text_rows
     | HybridMode \<Rightarrow>
         let legs = [(''vector'', vector_rows), (''text'', text_rows)] in
         (case document_id_field of None \<Rightarrow> Inr (rrf rrf_constant legs) | Some f \<Rightarrow> rrf_by_document rrf_constant f legs)))"

definition candidate_limit :: "int option \<Rightarrow> int \<Rightarrow> int" where
  "candidate_limit requested limit = (case requested of Some n \<Rightarrow> if n \<noteq> 0 then n else min (max (limit * 4) 50) 1000
     | None \<Rightarrow> min (max (limit * 4) 50) 1000)"

end
