(* ===== verification/Fusion_Props.thy ===== *)
theory Fusion_Props
  imports Fusion "HOL-Library.Multiset"
begin

text \<open>
  What the fused ranking is: the records of all lists once each, by their summed reciprocal ranks; and at
  document grain, rounds of one chunk per document.
\<close>

section \<open>A small search for the witnesses\<close>

definition demo_table :: "(string \<times> string) list \<Rightarrow> row list" where
  "demo_table hits = map (\<lambda>(i, d). [(''id'', PyStr i), (''doc'', PyStr d), (''_distance'', PyFloat (Finite 1))]) hits"

definition demo_tables :: search_tables where
  "demo_tables = \<lparr>vector_table = demo_table [(''a1'', ''a''), (''a2'', ''a''), (''b1'', ''b'')],
     text_tables = [(''body'', demo_table [(''b1'', ''b''), (''c1'', ''c''), (''a2'', ''a'')])]\<rparr>"

definition demo_legs :: legs where
  "demo_legs = (case (rank_table ''id'' (vector_table demo_tables), score_fields ''id'' (text_tables demo_tables)) of
     (Inr rows, Inr legs) \<Rightarrow> (''vector'', score_single ''vector'' rows) # legs | _ \<Rightarrow> [])"

section \<open>Shares\<close>

fun share :: "nat \<Rightarrow> nat \<Rightarrow> scored_row list \<Rightarrow> string \<Rightarrow> rat" where
  "share k n [] i = 0"
| "share k n (r # rs) i = (if sc_record_id r = i then 1 / of_nat (k + n) else share k (Suc n) rs i)"

text \<open>What a leg contributes to a record: the reciprocal of its rank there, ranks counted from one.\<close>

abbreviation leg_share :: "nat \<Rightarrow> scored_row list \<Rightarrow> string \<Rightarrow> rat" where
  "leg_share k rows i \<equiv> share k 1 rows i"

definition total_share :: "nat \<Rightarrow> legs \<Rightarrow> string \<Rightarrow> rat" where
  "total_share k ranked i = sum_list (map (\<lambda>(name, rows). leg_share k rows i) ranked)"

definition leg_ids :: "scored_row list \<Rightarrow> string set" where
  "leg_ids rows = sc_record_id ` set rows"

lemma share_absent: "i \<notin> leg_ids rows \<Longrightarrow> share k n rows i = 0"
  by (induction rows arbitrary: n) (auto simp: leg_ids_def)

lemma share_bounds: "0 < n \<Longrightarrow> 0 \<le> share k n rows i \<and> share k n rows i \<le> 1 / of_nat (k + n)"
proof (induction rows arbitrary: n)
  case (Cons r rs)
  have "share k (Suc n) rs i \<le> 1 / of_nat (k + Suc n)" "0 \<le> share k (Suc n) rs i" using Cons.IH [of "Suc n"] by auto
  moreover have "(1 :: rat) / of_nat (k + Suc n) \<le> 1 / of_nat (k + n)" using Cons.prems by (intro divide_left_mono) simp_all
  ultimately have "share k (Suc n) rs i \<le> 1 / of_nat (k + n)" by linarith
  with \<open>0 \<le> share k (Suc n) rs i\<close> show ?case by simp
qed simp

lemma share_positive: "0 < n \<Longrightarrow> i \<in> leg_ids rows \<Longrightarrow> 0 < share k n rows i"
  by (induction rows arbitrary: n) (auto simp: leg_ids_def)

section \<open>Accumulating\<close>

lemma get_or_update: "get_or d (AList.update k v m) j = (if j = k then v else get_or d m j)"
  by (simp add: get_or_def update_conv')

lemma fuse_row_scores:
  "get_or 0 (fu_scores (fuse_row k name (n, r) f)) i =
     get_or 0 (fu_scores f) i + (if i = sc_record_id r then 1 / of_nat (k + n) else 0)"
  "fst ` set (fu_scores (fuse_row k name (n, r) f)) = insert (sc_record_id r) (fst ` set (fu_scores f))"
  "distinct (map fst (fu_scores f)) \<Longrightarrow> distinct (map fst (fu_scores (fuse_row k name (n, r) f)))"
  by (simp_all add: fuse_row_def Let_def get_or_update dom_update distinct_update)

lemma fuse_rows_scores:
  assumes "distinct (map sc_record_id rows)"
  shows "get_or 0 (fu_scores (fold (fuse_row k name) (enumerate n rows) f)) i = get_or 0 (fu_scores f) i + share k n rows i
    \<and> fst ` set (fu_scores (fold (fuse_row k name) (enumerate n rows) f)) = leg_ids rows \<union> fst ` set (fu_scores f)
    \<and> (distinct (map fst (fu_scores f)) \<longrightarrow> distinct (map fst (fu_scores (fold (fuse_row k name) (enumerate n rows) f))))"
  using assms
proof (induction rows arbitrary: n f)
  case (Cons r rs)
  let ?f = "fuse_row k name (n, r) f"
  have "share k (Suc n) rs i = 0" if "i = sc_record_id r" using Cons.prems that by (intro share_absent) (auto simp: leg_ids_def)
  with Cons.IH [of "Suc n" ?f] Cons.prems fuse_row_scores [where k = k and name = name and n = n and r = r and f = f] show ?case by (auto simp: leg_ids_def)
qed (simp add: leg_ids_def)

definition legs_distinct :: "legs \<Rightarrow> bool" where
  "legs_distinct ranked \<longleftrightarrow> list_all (\<lambda>(name, rows). distinct (map sc_record_id rows)) ranked"

lemma fuse_legs_scores:
  assumes "legs_distinct ranked"
  shows "get_or 0 (fu_scores (fold (fuse_leg k) ranked f)) i = get_or 0 (fu_scores f) i + total_share k ranked i
    \<and> fst ` set (fu_scores (fold (fuse_leg k) ranked f)) = (\<Union>(name, rows) \<in> set ranked. leg_ids rows) \<union> fst ` set (fu_scores f)
    \<and> (distinct (map fst (fu_scores f)) \<longrightarrow> distinct (map fst (fu_scores (fold (fuse_leg k) ranked f))))"
  using assms
proof (induction ranked arbitrary: f)
  case (Cons leg ranked)
  obtain name rows where leg: "leg = (name, rows)" by (cases leg)
  have "distinct (map sc_record_id rows)" "legs_distinct ranked" using Cons.prems leg by (simp_all add: legs_distinct_def)
  with Cons.IH [of "fuse_leg k leg f"] fuse_rows_scores [of rows k name 1 f i] leg show ?case
    by (auto simp: fuse_leg_def total_share_def)
qed (simp add: total_share_def)

section \<open>Record grain\<close>

lemma set_nonempty_legs: "set (nonempty_legs ranked) = {(name, rows) \<in> set ranked. rows \<noteq> []}"
  by (auto simp: nonempty_legs_def)

lemma nonempty_legs_distinct: "legs_distinct ranked \<Longrightarrow> legs_distinct (nonempty_legs ranked)"
  by (auto simp: legs_distinct_def list_all_iff set_nonempty_legs)

lemma total_share_bounds: "0 \<le> total_share k ranked i \<and> total_share k ranked i \<le> of_nat (length ranked) / of_nat (k + 1)"
proof (induction ranked)
  case (Cons leg ranked)
  obtain name rows where leg: "leg = (name, rows)" by (cases leg)
  have "total_share k (leg # ranked) i = leg_share k rows i + total_share k ranked i" by (simp add: total_share_def leg)
  moreover have "of_nat (length (leg # ranked)) / of_nat (k + 1) = (1 :: rat) / of_nat (k + 1) + of_nat (length ranked) / of_nat (k + 1)"
    by (simp add: add_divide_distrib)
  ultimately show ?case using Cons.IH share_bounds [of 1 k rows i] by linarith
qed (simp add: total_share_def)

lemma total_share_positive:
  assumes "(name, rows) \<in> set ranked" "i \<in> leg_ids rows"
  shows "0 < total_share k ranked i"
  using assms(1)
proof (induction ranked)
  case (Cons leg ranked)
  obtain name' rows' where leg: "leg = (name', rows')" by (cases leg)
  have sum: "total_share k (leg # ranked) i = leg_share k rows' i + total_share k ranked i" by (simp add: total_share_def leg)
  show ?case
  proof (cases "leg = (name, rows)")
    case True
    then show ?thesis using sum leg share_positive [OF _ assms(2), of 1 k] total_share_bounds [of k ranked i] by simp
  next
    case False
    then show ?thesis using sum Cons share_bounds [of 1 k rows' i] by auto
  qed
qed simp

definition ranks_before :: "scored_row \<Rightarrow> scored_row \<Rightarrow> bool" where
  "ranks_before x y \<longleftrightarrow> sc_score y < sc_score x \<or> sc_score y = sc_score x \<and> sc_record_id x < sc_record_id y"

definition best_share :: "nat \<Rightarrow> legs \<Rightarrow> rat" where
  "best_share k ranked = of_nat (length (nonempty_legs ranked)) / of_nat (k + 1)"

lemma best_share_positive: "nonempty_legs ranked \<noteq> [] \<Longrightarrow> 0 < best_share k ranked"
  by (simp add: best_share_def)

lemma sorted_key_strict:
  assumes "distinct xs" "inj_on f (set xs)"
  shows "sorted_wrt (\<lambda>x y. f x < f y) (sort_key f xs)"
proof -
  have "distinct (map f (sort_key f xs))" using assms by (simp add: distinct_map)
  then have "sorted_wrt (<) (map f (sort_key f xs))" by (simp add: strict_sorted_iff)
  then show ?thesis by (simp add: sorted_wrt_map)
qed

lemma rrf_shape:
  assumes "legs_distinct ranked"
  shows "distinct (map sc_record_id (rrf k ranked)) \<and> sc_record_id ` set (rrf k ranked) = (\<Union>(name, rows) \<in> set ranked. leg_ids rows)
    \<and> sorted_wrt ranks_before (rrf k ranked)
    \<and> (\<forall>x \<in> set (rrf k ranked). sc_score x = total_share k (nonempty_legs ranked) (sc_record_id x) / best_share k ranked
         \<and> 0 < sc_score x \<and> sc_score x \<le> 1)"
proof (cases "nonempty_legs ranked = []")
  case True
  then have "rows = []" if "(name, rows) \<in> set ranked" for name rows using that set_nonempty_legs [of ranked] by auto
  then show ?thesis using True by (auto simp: rrf_def leg_ids_def)
next
  case False
  let ?f = "fused k ranked" and ?legs = "nonempty_legs ranked"
  let ?ids = "sort_key (\<lambda>i. (- get_or 0 (fu_scores ?f) i, i)) (map fst (fu_scores ?f))"
  note scores = fuse_legs_scores [OF nonempty_legs_distinct [OF assms], where k = k and f = "\<lparr>fu_scores = [], fu_values = [], fu_ranks = []\<rparr>"]
  have score: "get_or 0 (fu_scores ?f) i = total_share k ?legs i" for i using scores [of i] by (simp add: fused_def get_or_def)
  have keys: "fst ` set (fu_scores ?f) = (\<Union>(name, rows) \<in> set ?legs. leg_ids rows)" "distinct (map fst (fu_scores ?f))"
    using scores by (simp_all add: fused_def)
  have rrf: "rrf k ranked = map (\<lambda>i. \<lparr>sc_record_id = i, sc_values = get_or [] (fu_values ?f) i, sc_score = total_share k ?legs i / best_share k ranked,
      sc_raw_score = None, sc_raw_score_kind = None, sc_contributing_ranks = get_or [] (fu_ranks ?f) i\<rparr>) ?ids"
    using False by (simp add: rrf_def Let_def score best_share_def)
  have ids: "map sc_record_id (rrf k ranked) = ?ids" by (simp add: rrf comp_def)
  have "leg_ids rows = {}" if "rows = []" for rows using that by (simp add: leg_ids_def)
  then have all_ids: "(\<Union>(name, rows) \<in> set ?legs. leg_ids rows) = (\<Union>(name, rows) \<in> set ranked. leg_ids rows)"
    by (auto simp: set_nonempty_legs)
  have best: "0 < best_share k ranked" by (rule best_share_positive [OF False])
  have "sorted_wrt (\<lambda>i j. (- total_share k ?legs i, i) < (- total_share k ?legs j, j)) ?ids"
    using sorted_key_strict [OF keys(2), of "\<lambda>i. (- total_share k ?legs i, i)"] by (simp add: score inj_on_def)
  then have "sorted_wrt ranks_before (rrf k ranked)"
    unfolding rrf sorted_wrt_map by (rule sorted_wrt_mono_rel [rotated]) (use best in \<open>auto simp: ranks_before_def divide_less_cancel\<close>)
  moreover have "0 < sc_score x \<and> sc_score x \<le> 1" if x: "x \<in> set (rrf k ranked)" for x
  proof -
    from x obtain i where i: "i \<in> fst ` set (fu_scores ?f)" "sc_score x = total_share k ?legs i / best_share k ranked" by (force simp: rrf)
    then obtain name rows where "(name, rows) \<in> set ?legs" "i \<in> leg_ids rows" unfolding keys(1) by auto
    then have "0 < total_share k ?legs i" by (rule total_share_positive)
    moreover have "total_share k ?legs i \<le> best_share k ranked" using total_share_bounds [of k ?legs i] by (simp add: best_share_def)
    ultimately show ?thesis using i(2) best by simp
  qed
  moreover have "sc_record_id ` set (rrf k ranked) = (\<Union>(name, rows) \<in> set ranked. leg_ids rows)"
    unfolding set_map [symmetric] ids set_sort unfolding set_map keys(1) all_ids ..
  moreover have "distinct (map sc_record_id (rrf k ranked))" using keys(2) by (simp add: ids)
  moreover have "sc_score x = total_share k ?legs (sc_record_id x) / best_share k ranked" if "x \<in> set (rrf k ranked)" for x
    using that by (auto simp: rrf)
  ultimately show ?thesis by blast
qed



section \<open>Document grain\<close>

text \<open>The document scores, as sums over legs of the reciprocal rank of the document in the leg's distinct documents.\<close>

lemma score_documents_keys:
  "set seen \<subseteq> fst ` set scores \<Longrightarrow>
   fst ` set (score_documents k field seen rows scores) = document_key field ` set rows \<union> fst ` set scores"
proof (induction rows arbitrary: seen scores)
  case (Cons r rs)
  let ?d = "document_key field r"
  show ?case
  proof (cases "?d \<in> set seen")
    case True
    with Cons.prems have "?d \<in> fst ` set scores" by blast
    moreover have "fst ` set (score_documents k field seen rs scores) = document_key field ` set rs \<union> fst ` set scores" by (rule Cons.IH [OF Cons.prems])
    ultimately show ?thesis using True by (simp add: insert_absorb)
  next
    case False
    let ?scores = "AList.update ?d (get_or 0 scores ?d + 1 / of_nat (k + length (?d # seen))) scores"
    have keys: "fst ` set ?scores = insert ?d (fst ` set scores)" by (simp add: dom_update)
    have "fst ` set (score_documents k field (?d # seen) rs ?scores) = document_key field ` set rs \<union> fst ` set ?scores"
      by (rule Cons.IH) (use Cons.prems keys in auto)
    then show ?thesis using False keys by (simp add: Let_def del: of_nat_Suc)
  qed
qed simp

lemma document_scores_keys: "fst ` set (document_scores k field ranked) = (\<Union>(name, rows) \<in> set ranked. document_key field ` set rows)"
proof -
  have "fst ` set (fold (\<lambda>(name, rows). score_documents k field [] rows) legs scores) =
      (\<Union>(name, rows) \<in> set legs. document_key field ` set rows) \<union> fst ` set scores" for legs :: legs and scores
  proof (induction legs arbitrary: scores)
    case (Cons leg legs)
    obtain name rows where leg: "leg = (name, rows)" by (cases leg)
    have "fst ` set (score_documents k field [] rows scores) = document_key field ` set rows \<union> fst ` set scores"
      by (rule score_documents_keys) simp
    with Cons.IH [of "score_documents k field [] rows scores"] leg show ?case by (simp add: Un_assoc Un_left_commute)
  qed simp
  then show ?thesis by (simp add: document_scores_def)
qed

text \<open>Grouping keeps the order within a document.\<close>

lemma group_members_get:
  "get_or [] (fold (\<lambda>r m. AList.update (document_key field r) (get_or [] m (document_key field r) @ [r]) m) chunks m) d =
     get_or [] m d @ filter (\<lambda>r. document_key field r = d) chunks"
  by (induction chunks arbitrary: m) (auto simp: get_or_update)

lemma group_members_keys:
  "fst ` set (fold (\<lambda>r m. AList.update (document_key field r) (get_or [] m (document_key field r) @ [r]) m) chunks m) =
     document_key field ` set chunks \<union> fst ` set m
   \<and> (distinct (map fst m) \<longrightarrow>
        distinct (map fst (fold (\<lambda>r m. AList.update (document_key field r) (get_or [] m (document_key field r) @ [r]) m) chunks m)))"
  by (induction chunks arbitrary: m) (auto simp: dom_update distinct_update)

lemma group_members:
  "get_or [] (group_members field chunks) d = filter (\<lambda>r. document_key field r = d) chunks"
  "fst ` set (group_members field chunks) = document_key field ` set chunks"
  "distinct (map fst (group_members field chunks))"
  using group_members_get [of field chunks "[]" d] group_members_keys [of field chunks "[]"]
  by (simp_all add: group_members_def get_or_def)

text \<open>
  The merged values of a record have its document identifier from one of the lists, so every document of
  the fused chunks has a score.
\<close>

definition values_from :: "string \<Rightarrow> scored_row set \<Rightarrow> fusing \<Rightarrow> bool" where
  "values_from field S f \<longleftrightarrow> fst ` set (fu_values f) = fst ` set (fu_scores f)
     \<and> (\<forall>i \<in> fst ` set (fu_values f). \<exists>r \<in> S. sc_record_id r = i \<and> row_get (sc_values r) field = row_get (get_or [] (fu_values f) i) field)"

lemma values_fromD:
  assumes "values_from field S f"
  shows "fst ` set (fu_values f) = fst ` set (fu_scores f)"
    and "i \<in> fst ` set (fu_values f) \<Longrightarrow> \<exists>r \<in> S. sc_record_id r = i \<and> row_get (sc_values r) field = row_get (get_or [] (fu_values f) i) field"
  using assms unfolding values_from_def by blast+

lemma map_of_updates_dict:
  assumes "distinct (map fst kvs)"
  shows "map_of (AList.updates (map fst kvs) (map snd kvs) al) = map_of al ++ map_of kvs"
proof -
  have "m(map fst kvs [\<mapsto>] map snd kvs) = m ++ map_of kvs" for m using assms
  proof (induction kvs arbitrary: m)
    case (Cons kv kvs)
    have "map_of kvs (fst kv) = None" using Cons.prems by (simp add: map_of_eq_None_iff)
    then have "m(fst kv \<mapsto> snd kv) ++ map_of kvs = m ++ (map_of kvs)(fst kv \<mapsto> snd kv)"
      by (auto simp: map_add_def fun_eq_iff split: option.split)
    moreover have "map_of (kv # kvs) = (map_of kvs)(fst kv \<mapsto> snd kv)" by (cases kv) simp
    moreover have "m(map fst (kv # kvs) [\<mapsto>] map snd (kv # kvs)) = (m(fst kv \<mapsto> snd kv))(map fst kvs [\<mapsto>] map snd kvs)" by simp
    moreover have "distinct (map fst kvs)" using Cons.prems by simp
    ultimately show ?case using Cons.IH by metis
  qed simp
  then show ?thesis by (simp add: updates_conv')
qed

lemma values_from_row:
  assumes "values_from field S f" "r \<in> S" "distinct (map fst (sc_values r))"
  shows "values_from field S (fuse_row k name (n, r) f)"
proof -
  let ?f = "fuse_row k name (n, r) f" and ?i = "sc_record_id r"
  have keys: "fst ` set (fu_values ?f) = insert ?i (fst ` set (fu_values f))" "fst ` set (fu_scores ?f) = insert ?i (fst ` set (fu_scores f))"
    by (simp_all add: fuse_row_def Let_def dom_update)
  have get: "get_or [] (fu_values ?f) i = (if i = ?i then AList.updates (map fst (sc_values r)) (map snd (sc_values r)) (get_or [] (fu_values f) i)
      else get_or [] (fu_values f) i)" for i by (simp add: fuse_row_def Let_def get_or_update)
  have "\<exists>r' \<in> S. sc_record_id r' = i \<and> row_get (sc_values r') field = row_get (get_or [] (fu_values ?f) i) field"
    if i: "i \<in> insert ?i (fst ` set (fu_values f))" for i
  proof (cases "i = ?i")
    case False
    then have "i \<in> fst ` set (fu_values f)" using i by blast
    from values_fromD(2) [OF assms(1) this] False show ?thesis unfolding get by simp
  next
    case True
    let ?old = "get_or [] (fu_values f) ?i"
    have merged: "row_get (get_or [] (fu_values ?f) i) field =
        (case map_of (sc_values r) field of Some v \<Rightarrow> v | None \<Rightarrow> row_get ?old field)"
      by (simp add: True get row_get_def map_of_updates_dict [OF assms(3)] map_add_def split: option.split)
    show ?thesis
    proof (cases "map_of (sc_values r) field")
      case (Some v)
      then show ?thesis using merged True assms(2) by (auto simp: row_get_def)
    next
      case None
      show ?thesis
      proof (cases "?i \<in> fst ` set (fu_values f)")
        case True
        from values_fromD(2) [OF assms(1) this] merged None \<open>i = ?i\<close> show ?thesis by simp
      next
        case False
        then have "?old = []" by (simp add: get_or_def map_of_eq_None_iff [THEN iffD2])
        then have "row_get (sc_values r) field = row_get (get_or [] (fu_values ?f) i) field" using merged None by (simp add: row_get_def)
        with True assms(2) show ?thesis by blast
      qed
    qed
  qed
  then show ?thesis unfolding values_from_def keys using values_fromD(1) [OF assms(1)] by blast
qed

definition legs_rows :: "legs \<Rightarrow> scored_row set" where
  "legs_rows ranked = (\<Union>(name, rows) \<in> set ranked. set rows)"

definition rows_are_dicts :: "legs \<Rightarrow> bool" where
  "rows_are_dicts ranked \<longleftrightarrow> list_all (\<lambda>(name, rows). list_all (\<lambda>r. distinct (map fst (sc_values r))) rows) ranked"

lemma fused_values_from:
  assumes "rows_are_dicts ranked"
  shows "values_from field (legs_rows ranked) (fused k ranked)"
proof -
  have leg: "values_from field S (fold (fuse_row k name) (enumerate n rows) f)"
    if "values_from field S f" "set rows \<subseteq> S" "list_all (\<lambda>r. distinct (map fst (sc_values r))) rows" for S name n rows f
    using that by (induction rows arbitrary: n f) (simp_all add: values_from_row)
  have "values_from field S (fold (fuse_leg k) legs f)" if "values_from field S f" "legs_rows legs \<subseteq> S" "rows_are_dicts legs" for S legs f
    using that
  proof (induction legs arbitrary: f)
    case (Cons l legs)
    obtain name rows where l: "l = (name, rows)" by (cases l)
    have "values_from field S (fuse_leg k l f)" unfolding l fuse_leg_def prod.case
      by (rule leg) (use Cons.prems l in \<open>auto simp: legs_rows_def rows_are_dicts_def\<close>)
    with Cons l show ?case by (auto simp: legs_rows_def rows_are_dicts_def)
  qed simp
  moreover have "rows_are_dicts (nonempty_legs ranked)" "legs_rows (nonempty_legs ranked) \<subseteq> legs_rows ranked"
    using assms by (auto simp: rows_are_dicts_def list_all_iff set_nonempty_legs legs_rows_def)
  moreover have "values_from field (legs_rows ranked) \<lparr>fu_scores = [], fu_values = [], fu_ranks = []\<rparr>" by (simp add: values_from_def)
  ultimately show ?thesis unfolding fused_def by blast
qed

lemma rrf_row:
  assumes "x \<in> set (rrf k ranked)"
  shows "sc_record_id x \<in> fst ` set (fu_scores (fused k ranked)) \<and> sc_values x = get_or [] (fu_values (fused k ranked)) (sc_record_id x)"
  using assms by (force simp: rrf_def Let_def split: if_splits)

lemma documents_scored:
  assumes "rows_are_dicts ranked" "x \<in> set (rrf k ranked)"
  shows "document_key field x \<in> fst ` set (document_scores k field ranked)"
proof -
  obtain r where r: "r \<in> legs_rows ranked" "sc_record_id r = sc_record_id x" "row_get (sc_values r) field = row_get (sc_values x) field"
    using values_fromD [OF fused_values_from [OF assms(1), of field k]] rrf_row [OF assms(2)] by metis
  have "document_key field x = document_key field r" unfolding document_key_def r(3) r(2) by (rule refl)
  with r(1) show ?thesis by (auto simp: document_scores_keys legs_rows_def)
qed

section \<open>Rounds\<close>

text \<open>
  Rounds over the documents in \<open>D\<close>: round \<open>d\<close> takes the element \<open>e d k\<close> of each document \<open>k\<close> with more than
  \<open>d\<close> members. \<open>key\<close> says which document an element is of.
\<close>

definition round :: "('k \<Rightarrow> nat) \<Rightarrow> (nat \<Rightarrow> 'k \<Rightarrow> 'a) \<Rightarrow> 'k list \<Rightarrow> nat \<Rightarrow> 'a list" where
  "round size_of e D d = map (e d) (filter (\<lambda>k. d < size_of k) D)"

definition rounds :: "('k \<Rightarrow> nat) \<Rightarrow> (nat \<Rightarrow> 'k \<Rightarrow> 'a) \<Rightarrow> 'k list \<Rightarrow> nat \<Rightarrow> 'a list" where
  "rounds size_of e D n = concat (map (round size_of e D) [0..<n])"

text \<open>How many elements of the same document come earlier in the list.\<close>

definition depth :: "('a \<Rightarrow> 'k) \<Rightarrow> 'a list \<Rightarrow> nat \<Rightarrow> nat" where
  "depth key xs a = length (filter (\<lambda>x. key x = key (xs ! a)) (take a xs))"

lemma depth_append [simp]: "a < length xs \<Longrightarrow> depth key (xs @ ys) a = depth key xs a"
  by (simp add: depth_def nth_append)

lemma filter_round:
  assumes "distinct D" "\<And>d k. k \<in> set D \<Longrightarrow> d < size_of k \<Longrightarrow> key (e d k) = k"
  shows "filter (\<lambda>x. key x = k) (round size_of e D d) = (if k \<in> set D \<and> d < size_of k then [e d k] else [])"
  using assms
proof (induction D)
  case (Cons j D)
  have "key (e d j) = j" if "d < size_of j" using Cons.prems(2) [of j d] that by simp
  moreover have "filter (\<lambda>x. key x = k) (round size_of e D d) = (if k \<in> set D \<and> d < size_of k then [e d k] else [])"
    using Cons by simp
  ultimately show ?case using Cons.prems(1) by (auto simp: round_def)
qed (simp add: round_def)

lemma filter_rounds:
  assumes "distinct D" "\<And>d k. k \<in> set D \<Longrightarrow> d < size_of k \<Longrightarrow> key (e d k) = k"
  shows "filter (\<lambda>x. key x = k) (rounds size_of e D n) = (if k \<in> set D then map (\<lambda>d. e d k) [0..<min n (size_of k)] else [])"
proof (induction n)
  case (Suc n)
  have "[0..<min (Suc n) (size_of k)] = [0..<min n (size_of k)] @ (if n < size_of k then [n] else [])"
    by (auto simp: min_def less_Suc_eq_le)
  moreover have "filter (\<lambda>x. key x = k) (round size_of e D n) = (if k \<in> set D \<and> n < size_of k then [e n k] else [])"
    by (rule filter_round) (use assms in auto)
  ultimately show ?case using Suc by (simp add: rounds_def)
qed (simp add: rounds_def)

lemma filter_take_distinct:
  assumes "distinct (map key xs)" "a < length xs"
  shows "filter (\<lambda>x. key x = key (xs ! a)) (take a xs) = []"
proof -
  have "key (xs ! b) \<noteq> key (xs ! a)" if "b < a" for b using assms that nth_eq_iff_index_eq [OF assms(1), of b a] by simp
  then show ?thesis by (auto simp: filter_empty_conv in_set_conv_nth)
qed

lemma depth_last_round:
  assumes "distinct D" "\<And>d k. k \<in> set D \<Longrightarrow> d < size_of k \<Longrightarrow> key (e d k) = k" "a < length (round size_of e D n)"
  shows "depth key (rounds size_of e D n @ round size_of e D n) (length (rounds size_of e D n) + a) = n"
proof -
  let ?r = "round size_of e D n" and ?rs = "rounds size_of e D n"
  obtain k where k: "k \<in> set D" "n < size_of k" "?r ! a = e n k"
    using assms(3) nth_mem [OF assms(3)] by (auto simp: round_def)
  have "map key ?r = filter (\<lambda>k. n < size_of k) D" using assms(2) by (auto simp: round_def comp_def intro!: map_idI)
  then have "distinct (map key ?r)" using assms(1) by simp
  from filter_take_distinct [OF this assms(3)] have "filter (\<lambda>x. key x = k) (take a ?r) = []" using k assms(2) by simp
  moreover have "filter (\<lambda>x. key x = k) ?rs = (if k \<in> set D then map (\<lambda>d. e d k) [0..<min n (size_of k)] else [])"
    by (rule filter_rounds) (use assms in auto)
  then have "length (filter (\<lambda>x. key x = k) ?rs) = n" using k by simp
  ultimately show ?thesis using k assms(2) by (simp add: depth_def nth_append)
qed

lemma upt_split: "[0..<m + n] = [0..<m] @ map (\<lambda>a. m + a) [0..<n]"
  by (induction n) simp_all

lemma depths_of_rounds:
  assumes "distinct D" "\<And>d k. k \<in> set D \<Longrightarrow> d < size_of k \<Longrightarrow> key (e d k) = k"
  shows "map (depth key (rounds size_of e D n)) [0..<length (rounds size_of e D n)]
    = concat (map (\<lambda>d. replicate (length (round size_of e D d)) d) [0..<n])"
proof (induction n)
  case (Suc n)
  let ?r = "round size_of e D n" and ?rs = "rounds size_of e D n"
  have step: "rounds size_of e D (Suc n) = ?rs @ ?r" by (simp add: rounds_def)
  have "[0..<length (?rs @ ?r)] = [0..<length ?rs] @ map (\<lambda>a. length ?rs + a) [0..<length ?r]"
    unfolding length_append by (rule upt_split)
  then have "map (depth key (?rs @ ?r)) [0..<length (?rs @ ?r)] =
      map (depth key (?rs @ ?r)) [0..<length ?rs] @ map (\<lambda>a. depth key (?rs @ ?r) (length ?rs + a)) [0..<length ?r]" by (simp add: comp_def)
  also have "map (depth key (?rs @ ?r)) [0..<length ?rs] = map (depth key ?rs) [0..<length ?rs]" by simp
  also have "map (\<lambda>a. depth key (?rs @ ?r) (length ?rs + a)) [0..<length ?r] = map (\<lambda>_. n) [0..<length ?r]"
    by (rule map_cong [OF refl], rule depth_last_round) (use assms in auto)
  also have "\<dots> = replicate (length ?r) n" by (simp add: map_replicate_const)
  finally show ?case using Suc step by simp
qed (simp add: rounds_def)

lemma sorted_replicates: "sorted (concat (map (\<lambda>d. replicate (f d) d) [0..<n]))"
proof (induction n)
  case (Suc n)
  have "\<forall>x \<in> set (concat (map (\<lambda>d. replicate (f d) d) [0..<n])). x < n" by (simp add: set_replicate_conv_if)
  with Suc show ?case by (simp add: sorted_append del: set_concat) (meson less_imp_le)
qed simp

lemma depth_below: "distinct D \<Longrightarrow> (\<And>d k. k \<in> set D \<Longrightarrow> d < size_of k \<Longrightarrow> key (e d k) = k) \<Longrightarrow> a < length (rounds size_of e D n) \<Longrightarrow>
    depth key (rounds size_of e D n) a < n"
proof -
  assume D: "distinct D" "\<And>d k. k \<in> set D \<Longrightarrow> d < size_of k \<Longrightarrow> key (e d k) = k" and a: "a < length (rounds size_of e D n)"
  have "map (depth key (rounds size_of e D n)) [0..<length (rounds size_of e D n)]
      = concat (map (\<lambda>d. replicate (length (round size_of e D d)) d) [0..<n])" by (rule depths_of_rounds) (use D in auto)
  moreover have "depth key (rounds size_of e D n) a \<in> set (map (depth key (rounds size_of e D n)) [0..<length (rounds size_of e D n)])" using a by simp
  ultimately show ?thesis by (auto simp: set_replicate_conv_if split: if_splits)
qed

lemma rounds_in_order:
  assumes "distinct D" "\<And>d k. k \<in> set D \<Longrightarrow> d < size_of k \<Longrightarrow> key (e d k) = k"
    and "sorted_wrt (\<lambda>j k. \<forall>d. Q (e d j) (e d k)) D"
    and "a < b" "b < length (rounds size_of e D n)" "depth key (rounds size_of e D n) a = depth key (rounds size_of e D n) b"
  shows "Q (rounds size_of e D n ! a) (rounds size_of e D n ! b)"
  using assms(5,6)
proof (induction n)
  case (Suc n)
  let ?r = "round size_of e D n" and ?rs = "rounds size_of e D n"
  have step: "rounds size_of e D (Suc n) = ?rs @ ?r" by (simp add: rounds_def)
  show ?case
  proof (cases "b < length ?rs")
    case True
    then show ?thesis using Suc assms(4) by (simp add: step nth_append)
  next
    case False
    obtain b' where b': "b = length ?rs + b'" using False by (metis not_less le_Suc_ex)
    then have b'_less: "b' < length ?r" using Suc.prems(1) step by simp
    have "depth key (?rs @ ?r) (length ?rs + b') = n" by (rule depth_last_round) (use assms(1,2) b'_less in auto)
    then have at_n: "depth key (?rs @ ?r) a = n" using Suc.prems(2) b' step by simp
    have "\<not> a < length ?rs"
    proof
      assume a: "a < length ?rs"
      have "depth key ?rs a < n" by (rule depth_below) (use assms(1,2) a in auto)
      with a at_n show False by simp
    qed
    then obtain a' where a': "a = length ?rs + a'" by (metis not_less le_Suc_ex)
    have "sorted_wrt Q ?r" unfolding round_def sorted_wrt_map
      by (rule sorted_wrt_mono_rel [OF _ sorted_wrt_filter [OF assms(3)]]) simp
    then have "Q (?r ! a') (?r ! b')" using assms(4) a' b' b'_less by (simp add: sorted_wrt_iff_nth_less)
    then show ?thesis using a' b' step by (simp add: nth_append)
  qed
qed (simp add: rounds_def)

section \<open>Document grain fusion\<close>

lemma document_key_score [simp]: "document_key field (r\<lparr>sc_score := s\<rparr>) = document_key field r"
  by (simp add: document_key_def split: pyval.split)

lemma document_rounds:
  assumes "rows_are_dicts ranked"
  shows "\<exists>r. rrf_by_document k field ranked = Inr r
    \<and> (\<forall>d. map sc_record_id (filter (\<lambda>x. document_key field x = d) r)
         = map sc_record_id (filter (\<lambda>x. document_key field x = d) (rrf k ranked)))
    \<and> sorted (map (depth (document_key field) r) [0..<length r])
    \<and> (\<forall>a b. a < b \<longrightarrow> b < length r \<longrightarrow> depth (document_key field) r a = depth (document_key field) r b \<longrightarrow> sc_score (r ! b) \<le> sc_score (r ! a))"
proof (cases "rrf k ranked = []")
  case True
  then show ?thesis by (auto simp: rrf_by_document_def)
next
  case False
  let ?chunks = "rrf k ranked" and ?scores = "document_scores k field ranked"
  define M where "M = (\<lambda>d. filter (\<lambda>r. document_key field r = d) ?chunks)"
  define e where "e = (\<lambda>n d. (M d ! n)\<lparr>sc_score := get_or 0 ?scores d / best_share k ranked\<rparr>)"
  define D where "D = sort_key (\<lambda>d. (- get_or 0 ?scores d, snd d, fst d)) (map fst (group_members field ?chunks))"
  define N where "N = Max (set (map (\<lambda>(d, rows). length rows) (group_members field ?chunks)))"
  note members = group_members [of field ?chunks]
  have scored: "list_all (\<lambda>(d, rows). map_of ?scores d \<noteq> None) (group_members field ?chunks)"
  proof -
    have "d \<in> fst ` set ?scores" if "d \<in> fst ` set (group_members field ?chunks)" for d
      using that documents_scored [OF assms] unfolding members(2) by auto
    then show ?thesis by (force simp: list_all_iff map_of_eq_None_iff)
  qed
  have D: "distinct D" "set D = document_key field ` set ?chunks" using members(2,3) by (simp_all add: D_def)
  have result: "rrf_by_document k field ranked = Inr (rounds (\<lambda>d. length (M d)) e D N)"
    using False scored by (simp add: rrf_by_document_def Let_def rounds_def round_def [abs_def] members(1) M_def e_def D_def N_def best_share_def comp_def)
  have key: "document_key field (e n d) = d" if "n < length (M d)" for n d
  proof -
    have "M d ! n \<in> set (M d)" using that by simp
    then show ?thesis by (simp add: e_def M_def)
  qed
  have longest: "length (M d) \<le> N" if "d \<in> set D" for d
  proof -
    from that obtain rows where rows: "(d, rows) \<in> set (group_members field ?chunks)" by (auto simp: D_def)
    then have "rows = M d" using members(1) [of d] members(3) by (simp add: M_def get_or_def map_of_is_SomeI)
    with rows show ?thesis unfolding N_def by (intro Max_ge) force+
  qed
  have same: "map sc_record_id (filter (\<lambda>x. document_key field x = d) (rounds (\<lambda>d. length (M d)) e D N)) = map sc_record_id (M d)" for d
  proof -
    have "filter (\<lambda>x. document_key field x = d) (rounds (\<lambda>d. length (M d)) e D N) =
        (if d \<in> set D then map (\<lambda>n. e n d) [0..<min N (length (M d))] else [])"
      by (rule filter_rounds) (use D key in auto)
    moreover have "M d = []" if "d \<notin> set D" using that D(2) by (auto simp: M_def filter_empty_conv)
    moreover have "map (\<lambda>n. sc_record_id (e n d)) [0..<length (M d)] = map (\<lambda>n. sc_record_id (M d ! n)) [0..<length (M d)]"
      by (simp add: e_def)
    moreover have "map (\<lambda>n. sc_record_id (M d ! n)) [0..<length (M d)] = map sc_record_id (M d)" by (rule nth_equalityI) simp_all
    ultimately show ?thesis using longest [of d] by (simp add: min_absorb2 comp_def)
  qed
  have "map (depth (document_key field) (rounds (\<lambda>d. length (M d)) e D N)) [0..<length (rounds (\<lambda>d. length (M d)) e D N)]
      = concat (map (\<lambda>n. replicate (length (round (\<lambda>d. length (M d)) e D n)) n) [0..<N])"
    by (rule depths_of_rounds) (use D key in auto)
  then have ordered: "sorted (map (depth (document_key field) (rounds (\<lambda>d. length (M d)) e D N)) [0..<length (rounds (\<lambda>d. length (M d)) e D N)])"
    using sorted_replicates by simp
  have best: "0 \<le> best_share k ranked" by (simp add: best_share_def)
  have "sorted (map (\<lambda>d. (- get_or 0 ?scores d, snd d, fst d)) D)" by (simp add: D_def)
  then have "sorted_wrt (\<lambda>j d. (- get_or 0 ?scores j, snd j, fst j) \<le> (- get_or 0 ?scores d, snd d, fst d)) D" by (simp only: sorted_map)
  then have "sorted_wrt (\<lambda>j d. \<forall>n. sc_score (e n d) \<le> sc_score (e n j)) D"
    by (rule sorted_wrt_mono_rel [rotated]) (use best in \<open>auto simp: e_def less_eq_prod_def intro: divide_right_mono\<close>)
  then have "sc_score (rounds (\<lambda>d. length (M d)) e D N ! b) \<le> sc_score (rounds (\<lambda>d. length (M d)) e D N ! a)"
    if "a < b" "b < length (rounds (\<lambda>d. length (M d)) e D N)"
      "depth (document_key field) (rounds (\<lambda>d. length (M d)) e D N) a = depth (document_key field) (rounds (\<lambda>d. length (M d)) e D N) b" for a b
    using rounds_in_order [of D "\<lambda>d. length (M d)" "document_key field" e "\<lambda>x y. sc_score y \<le> sc_score x" a b N] D key that by auto
  with result same ordered show ?thesis unfolding M_def by blast
qed

text \<open>
  Document-grain fusion never fails for want of a document's score, and reorders the record-grain
  ranking into rounds. Within a document the chunks keep their record-grain order (so every chunk appears
  exactly once); reading the result in order, the number of earlier chunks of the same document never
  decreases, so each document shows its best chunk before any shows a second; and within a round the
  documents descend by fused score.
\<close>

theorem document_fusion_interleaves:
  assumes "rows_are_dicts ranked"
  shows "\<exists>r. rrf_by_document k field ranked = Inr r
    \<and> (\<forall>d. map sc_record_id (filter (\<lambda>x. document_key field x = d) r)
         = map sc_record_id (filter (\<lambda>x. document_key field x = d) (rrf k ranked)))
    \<and> sorted (map (depth (document_key field) r) [0..<length r])
    \<and> (\<forall>a b. a < b \<longrightarrow> b < length r \<longrightarrow> depth (document_key field) r a = depth (document_key field) r b \<longrightarrow> sc_score (r ! b) \<le> sc_score (r ! a))"
  by (rule document_rounds [OF assms])

theorem document_fusion_interleaves_witness:
  "\<exists>r. rrf_by_document 60 ''doc'' demo_legs = Inr r \<and> map sc_record_id r = [''b1'', ''a2'', ''c1'', ''a1'']
     \<and> sorted (map (depth (document_key ''doc'') r) [0..<length r])"
proof -
  have "rows_are_dicts demo_legs"
    "map_sum id (map sc_record_id) (rrf_by_document 60 ''doc'' demo_legs) = Inr [''b1'', ''a2'', ''c1'', ''a1'']" by (code_simp, code_simp)
  with document_fusion_interleaves [of demo_legs 60 "''doc''"] show ?thesis by auto
qed

section \<open>The whole query\<close>

lemma mset_by_key:
  assumes "\<And>d. map f (filter (\<lambda>x. key x = d) xs) = map f (filter (\<lambda>x. key x = d) ys)"
  shows "mset (map f xs) = mset (map f ys)"
proof -
  have count: "count (mset (map (\<lambda>x. (key x, f x)) zs)) (d, i) = count (mset (map f (filter (\<lambda>x. key x = d) zs))) i" for zs d i
    by (induction zs) auto
  have "mset (map (\<lambda>x. (key x, f x)) xs) = mset (map (\<lambda>x. (key x, f x)) ys)"
    by (rule multiset_eqI) (metis assms count surj_pair)
  then have "image_mset snd (mset (map (\<lambda>x. (key x, f x)) xs)) = image_mset snd (mset (map (\<lambda>x. (key x, f x)) ys))" by simp
  then show ?thesis by (simp add: multiset.map_comp comp_def)
qed

definition table_ids :: "string \<Rightarrow> row list \<Rightarrow> string set" where
  "table_ids id_field table = {i. \<exists>raw \<in> set table. row_get raw id_field = PyStr i}"

definition table_of_dicts :: "row list \<Rightarrow> bool" where
  "table_of_dicts table \<longleftrightarrow> list_all (\<lambda>raw. distinct (map fst raw)) table"

lemma rank_rows_Inr:
  assumes "rank_rows id_field seen raws = Inr rows"
  shows "distinct (map rk_record_id rows) \<and> rk_record_id ` set rows = table_ids id_field raws - seen
    \<and> (table_of_dicts raws \<longrightarrow> (\<forall>r \<in> set rows. distinct (map fst (rk_values r))))"
  using assms
proof (induction raws arbitrary: seen rows)
  case (Cons raw raws)
  then obtain i where i: "row_get raw id_field = PyStr i" "i \<noteq> []" by (auto split: pyval.splits if_splits)
  have ids: "table_ids id_field (raw # raws) = insert i (table_ids id_field raws)" using i(1) by (auto simp: table_ids_def)
  have dicts: "table_of_dicts (raw # raws) \<longleftrightarrow> distinct (map fst raw) \<and> table_of_dicts raws" by (simp add: table_of_dicts_def)
  show ?case
  proof (cases "i \<in> seen")
    case True
    with Cons i have "rank_rows id_field seen raws = Inr rows" by simp
    with Cons.IH True show ?thesis unfolding ids dicts by blast
  next
    case False
    with Cons.prems i obtain found rest where rest: "rank_rows id_field (insert i seen) raws = Inr rest"
      "rows = \<lparr>rk_record_id = i, rk_values = filter (\<lambda>(k, v). k \<notin> set score_columns) raw,
          rk_raw_score = map_option fst found, rk_raw_score_kind = map_option snd found\<rparr> # rest"
      by (auto simp: rbind_eq_Inr)
    show ?thesis unfolding ids dicts rest(2) using Cons.IH [OF rest(1)] False
      by (auto simp: distinct_map_filter)
  qed
qed (simp add: table_ids_def)

lemma score_single_ids [simp]: "map sc_record_id (score_single label rows) = map rk_record_id rows"
  "map sc_values (score_single label rows) = map rk_values rows"
  by (rule nth_equalityI; simp add: score_single_def nth_enumerate_eq split_beta)+

definition leg_for :: "string \<Rightarrow> row list \<Rightarrow> scored_row list \<Rightarrow> bool" where
  "leg_for id_field table rows \<longleftrightarrow> distinct (map sc_record_id rows) \<and> leg_ids rows = table_ids id_field table
     \<and> (\<forall>r \<in> set rows. distinct (map fst (sc_values r)))"

lemma leg_for_table:
  assumes "rank_table id_field table = Inr rows" "table_of_dicts table"
  shows "leg_for id_field table (score_single label rows)"
proof -
  note ranked = rank_rows_Inr [OF assms(1) [unfolded rank_table_def]]
  have "leg_ids (score_single label rows) = rk_record_id ` set rows" unfolding leg_ids_def by (metis score_single_ids(1) list.set_map)
  moreover have "sc_values ` set (score_single label rows) = rk_values ` set rows" by (metis score_single_ids(2) list.set_map)
  ultimately show ?thesis using ranked assms(2) unfolding leg_for_def
    by (metis (no_types, lifting) Diff_empty imageE imageI score_single_ids(1))
qed

lemma score_fields_Inr:
  assumes "score_fields id_field tables = Inr ranked" "list_all (\<lambda>(field, table). table_of_dicts table) tables"
  shows "legs_distinct ranked \<and> rows_are_dicts ranked \<and> (\<Union>(name, rows) \<in> set ranked. leg_ids rows) = (\<Union>(field, table) \<in> set tables. table_ids id_field table)"
  using assms
proof (induction tables arbitrary: ranked)
  case (Cons ft tables)
  obtain field table where ft: "ft = (field, table)" by (cases ft)
  from Cons.prems ft obtain rows rest where rest: "rank_table id_field table = Inr rows" "score_fields id_field tables = Inr rest"
    "ranked = (''text:'' @ field, score_single (''text:'' @ field) rows) # rest" by (auto simp: rbind_eq_Inr Let_def)
  have "leg_for id_field table (score_single (''text:'' @ field) rows)" using leg_for_table [OF rest(1)] Cons.prems(2) ft by simp
  with Cons.IH [OF rest(2)] Cons.prems(2) ft rest(3) show ?case
    by (simp add: legs_distinct_def rows_are_dicts_def leg_for_def list_all_iff)
qed (auto simp: legs_distinct_def rows_are_dicts_def)

lemma rrf_rows_dicts:
  assumes "rows_are_dicts ranked" "x \<in> set (rrf k ranked)"
  shows "distinct (map fst (sc_values x))"
proof -
  let ?ok = "\<lambda>f. \<forall>i. distinct (map fst (get_or [] (fu_values f) i))"
  have row: "?ok (fuse_row k name nr f)" if "?ok f" for name nr f
    using that by (cases nr) (simp add: fuse_row_def Let_def get_or_update distinct_updates)
  have rows: "?ok (fold (fuse_row k name) nrs f)" if "?ok f" for name nrs f
    using that row by (induction nrs arbitrary: f) auto
  have "?ok (fold (fuse_leg k) legs f)" if "?ok f" for legs f
    using that
  proof (induction legs arbitrary: f)
    case (Cons leg legs)
    have "?ok (fuse_leg k leg f)" unfolding fuse_leg_def using rows [OF Cons.prems] by (cases leg) simp
    with Cons.IH show ?case by simp
  qed simp
  then have "?ok (fused k ranked)" unfolding fused_def by (simp add: get_or_def)
  with rrf_row [OF assms(2)] show ?thesis by simp
qed

text \<open>The identifiers a query can return: those of the tables its mode reads.\<close>

definition searched_ids :: "search_mode \<Rightarrow> string \<Rightarrow> search_tables \<Rightarrow> string set" where
  "searched_ids mode id_field tables =
     (if mode = TextMode then {} else table_ids id_field (vector_table tables))
     \<union> (if mode = VectorMode then {} else (\<Union>(field, table) \<in> set (text_tables tables). table_ids id_field table))"

definition tables_of_dicts :: "search_tables \<Rightarrow> bool" where
  "tables_of_dicts tables \<longleftrightarrow> table_of_dicts (vector_table tables) \<and> list_all (\<lambda>(field, table). table_of_dicts table) (text_tables tables)"

definition leg_of :: "string set \<Rightarrow> scored_row list \<Rightarrow> bool" where
  "leg_of ids rows \<longleftrightarrow> distinct (map sc_record_id rows) \<and> leg_ids rows = ids \<and> (\<forall>r \<in> set rows. distinct (map fst (sc_values r)))"

lemma rrf_leg_of:
  assumes "legs_distinct ranked" "rows_are_dicts ranked"
  shows "leg_of (\<Union>(name, rows) \<in> set ranked. leg_ids rows) (rrf k ranked)"
  using rrf_shape [OF assms(1)] rrf_rows_dicts [OF assms(2)] by (auto simp: leg_of_def leg_ids_def)

lemma fuse_two:
  assumes "leg_of A rows" "leg_of B rows'"
  shows "legs_distinct [(m, rows), (n, rows')] \<and> rows_are_dicts [(m, rows), (n, rows')]
    \<and> (\<Union>(name, rows) \<in> set [(m, rows), (n, rows')]. leg_ids rows) = A \<union> B"
  using assms by (simp add: legs_distinct_def rows_are_dicts_def leg_of_def list_all_iff)

lemma vector_leg:
  assumes "rbind (rank_table id_field table) (\<lambda>rows. Inr (score_single label rows)) = Inr rows" "table_of_dicts table"
  shows "leg_of (table_ids id_field table) rows"
  using assms leg_for_table by (auto simp: rbind_eq_Inr leg_for_def leg_of_def)

lemma text_leg:
  assumes "rbind (score_fields id_field tables) (\<lambda>by_field. Inr (if length by_field = 1 then snd (hd by_field) else rrf rrf_constant by_field)) = Inr rows"
    and "list_all (\<lambda>(field, table). table_of_dicts table) tables"
  shows "leg_of (\<Union>(field, table) \<in> set tables. table_ids id_field table) rows"
proof -
  obtain by_field where by_field: "score_fields id_field tables = Inr by_field"
    "rows = (if length by_field = 1 then snd (hd by_field) else rrf rrf_constant by_field)" using assms(1) by (auto simp: rbind_eq_Inr)
  note legs = score_fields_Inr [OF by_field(1) assms(2)]
  show ?thesis
  proof (cases "length by_field = 1")
    case True
    then obtain name leg where "by_field = [(name, leg)]" by (cases by_field) (auto simp: length_Suc_conv)
    with legs by_field(2) show ?thesis by (simp add: legs_distinct_def rows_are_dicts_def leg_of_def list_all_iff)
  next
    case False
    then show ?thesis using legs by_field(2) rrf_leg_of [of by_field rrf_constant] by simp
  qed
qed

lemma document_fusion_ids:
  assumes "legs_distinct ranked" "rows_are_dicts ranked"
  shows "\<exists>r. rrf_by_document k field ranked = Inr r \<and> distinct (map sc_record_id r)
    \<and> leg_ids r = (\<Union>(name, rows) \<in> set ranked. leg_ids rows)"
proof -
  obtain r where r: "rrf_by_document k field ranked = Inr r"
    "\<And>d. map sc_record_id (filter (\<lambda>x. document_key field x = d) r) = map sc_record_id (filter (\<lambda>x. document_key field x = d) (rrf k ranked))"
    using document_rounds [OF assms(2), of k field] by (elim exE conjE) blast
  from mset_by_key [OF r(2)] have same: "mset (map sc_record_id r) = mset (map sc_record_id (rrf k ranked))" .
  have "distinct (map sc_record_id r)" using rrf_shape [OF assms(1), of k] mset_eq_imp_distinct_iff [OF same] by blast
  moreover have "leg_ids r = (\<Union>(name, rows) \<in> set ranked. leg_ids rows)"
    using rrf_shape [OF assms(1), of k] mset_eq_setD [OF same] by (simp add: leg_ids_def)
  ultimately show ?thesis using r(1) by blast
qed

lemma empty_leg: "leg_of {} []"
  by (simp add: leg_of_def leg_ids_def)

lemma first_score_Inl: "first_score raw names = Inl e \<Longrightarrow> e = ScoreOverflow"
  by (induction raw names rule: first_score.induct) (auto split: pyval.splits pyfloat.splits option.splits)

lemma rank_rows_Inl: "rank_rows id_field seen raws = Inl e \<Longrightarrow> e \<in> {InvalidRecordId, ScoreOverflow}"
  by (induction id_field seen raws rule: rank_rows.induct) (auto simp: rbind_eq_Inl first_score_Inl split: pyval.splits if_splits)

lemma score_fields_Inl: "score_fields id_field tables = Inl e \<Longrightarrow> e \<in> {InvalidRecordId, ScoreOverflow}"
  by (induction id_field tables rule: score_fields.induct) (auto simp: rbind_eq_Inl rank_table_def Let_def dest: rank_rows_Inl)

text \<open>
  A search, whatever its mode and grain, ranks exactly the records of the tables it read, each once,
  or fails because the store returned a row without a usable identifier or an unrepresentable score; it never
  fails in the fusion itself.
\<close>

theorem search_ranks_each_record_once:
  assumes "tables_of_dicts tables"
  shows "(case execute_query mode id_field document_id_field tables of
      Inl e \<Rightarrow> e \<in> {InvalidRecordId, ScoreOverflow}
    | Inr r \<Rightarrow> distinct (map sc_record_id r) \<and> sc_record_id ` set r = searched_ids mode id_field tables)"
proof -
  let ?v = "if mode = TextMode then Inr [] else rbind (rank_table id_field (vector_table tables)) (\<lambda>rows. Inr (score_single ''vector'' rows))"
  let ?t = "if mode = VectorMode then Inr [] else rbind (score_fields id_field (text_tables tables)) (\<lambda>by_field.
      Inr (if length by_field = 1 then snd (hd by_field) else rrf rrf_constant by_field))"
  define V where "V = (if mode = TextMode then {} else table_ids id_field (vector_table tables))"
  define T where "T = (if mode = VectorMode then {} else (\<Union>(field, table) \<in> set (text_tables tables). table_ids id_field table))"
  have v: "case ?v of Inl e \<Rightarrow> e \<in> {InvalidRecordId, ScoreOverflow} | Inr rows \<Rightarrow> leg_of V rows"
    using vector_leg [of id_field "vector_table tables" "''vector''"] rank_rows_Inl [of id_field "{}" "vector_table tables"] assms
    by (auto simp: V_def tables_of_dicts_def empty_leg rbind_def rank_table_def split: sum.splits)
  have t: "case ?t of Inl e \<Rightarrow> e \<in> {InvalidRecordId, ScoreOverflow} | Inr rows \<Rightarrow> leg_of T rows"
  proof (cases "mode = VectorMode")
    case True
    then show ?thesis by (simp add: empty_leg T_def)
  next
    case False
    show ?thesis
    proof (cases "score_fields id_field (text_tables tables)")
      case (Inl e)
      then show ?thesis using False score_fields_Inl [OF Inl] by simp
    next
      case (Inr by_field)
      have "leg_of T (if length by_field = 1 then snd (hd by_field) else rrf rrf_constant by_field)"
        using text_leg [of id_field "text_tables tables"] Inr False assms by (simp add: tables_of_dicts_def T_def)
      then show ?thesis using False Inr by simp
    qed
  qed
  show ?thesis
  proof (cases ?v)
    case (Inl e)
    then show ?thesis using v unfolding execute_query_def Inl by simp
  next
    case vec: (Inr vector_rows)
    show ?thesis
    proof (cases ?t)
      case (Inl e)
      then show ?thesis using t unfolding execute_query_def vec Inl by simp
    next
      case texts: (Inr text_rows)
      have legs: "leg_of V vector_rows" "leg_of T text_rows" using v t unfolding vec texts by simp_all
      let ?legs = "[(''vector'', vector_rows), (''text'', text_rows)]"
      note fused = fuse_two [OF legs, of "''vector''" "''text''"]
      have "leg_of (V \<union> T) (rrf rrf_constant ?legs)" using rrf_leg_of fused by metis
      then have plain: "distinct (map sc_record_id (rrf rrf_constant ?legs)) \<and> sc_record_id ` set (rrf rrf_constant ?legs) = V \<union> T"
        unfolding leg_of_def leg_ids_def by blast
      have hybrid: "case (case document_id_field of None \<Rightarrow> Inr (rrf rrf_constant ?legs) | Some f \<Rightarrow> rrf_by_document rrf_constant f ?legs) of
          Inl e \<Rightarrow> False | Inr r \<Rightarrow> distinct (map sc_record_id r) \<and> sc_record_id ` set r = V \<union> T"
      proof (cases document_id_field)
        case None
        then show ?thesis using plain unfolding None option.case sum.case by blast
      next
        case (Some f)
        obtain r where r: "rrf_by_document rrf_constant f ?legs = Inr r" "distinct (map sc_record_id r)" "leg_ids r = V \<union> T"
          using document_fusion_ids [of ?legs rrf_constant f] fused by (elim exE conjE) metis
        show ?thesis using r(2,3) unfolding Some option.case r(1) sum.case leg_ids_def by blast
      qed
      have ids: "searched_ids mode id_field tables = V \<union> T" by (simp add: searched_ids_def V_def T_def)
      show ?thesis
      proof (cases mode)
        case VectorMode
        then show ?thesis using legs unfolding execute_query_def vec texts ids by (simp add: leg_of_def leg_ids_def T_def)
      next
        case TextMode
        then show ?thesis using legs unfolding execute_query_def vec texts ids by (simp add: leg_of_def leg_ids_def V_def)
      next
        case HybridMode
        have "execute_query mode id_field document_id_field tables =
            (case document_id_field of None \<Rightarrow> Inr (rrf rrf_constant ?legs) | Some f \<Rightarrow> rrf_by_document rrf_constant f ?legs)"
          unfolding execute_query_def vec texts using HybridMode by (simp add: Let_def)
        then show ?thesis using hybrid unfolding ids by (simp split: sum.splits)
      qed
    qed
  qed
qed

lemma map_sum_Inr: "map_sum id f x = Inr y \<Longrightarrow> \<exists>r. x = Inr r \<and> f r = y"
  by (cases x) auto

definition two_hits :: search_tables where
  "two_hits = \<lparr>vector_table = demo_table [(''a1'', ''a'')], text_tables = [(''body'', demo_table [(''b1'', ''b'')])]\<rparr>"

theorem search_ranks_each_record_once_witness:
  "\<exists>r. tables_of_dicts two_hits \<and> execute_query HybridMode ''id'' (Some ''doc'') two_hits = Inr r
     \<and> map sc_record_id r = [''a1'', ''b1''] \<and> searched_ids HybridMode ''id'' two_hits = {''a1'', ''b1''}"
proof -
  have h: "tables_of_dicts two_hits"
    "map_sum id (map sc_record_id) (execute_query HybridMode ''id'' (Some ''doc'') two_hits) = Inr [''a1'', ''b1'']" by (code_simp, code_simp)
  from map_sum_Inr [OF h(2)] obtain r where r: "execute_query HybridMode ''id'' (Some ''doc'') two_hits = Inr r" "map sc_record_id r = [''a1'', ''b1'']"
    by (elim exE conjE) (rule that)
  have "sc_record_id ` set r = searched_ids HybridMode ''id'' two_hits"
    using search_ranks_each_record_once [OF h(1), of HybridMode "''id''" "Some ''doc''", unfolded r(1) sum.case] by blast
  moreover have "sc_record_id ` set r = set [''a1'', ''b1'']" unfolding r(2) [symmetric] by simp
  ultimately have ids: "searched_ids HybridMode ''id'' two_hits = {''a1'', ''b1''}" by simp
  show ?thesis by (intro exI [of _ r] conjI h(1) r ids)
qed

end
