(* ===== verification/Bfs.thy ===== *)
theory Bfs
  imports Graph_Walk
begin

text \<open>
  \<^verbatim>\<open>_bfs\<close> of \<^verbatim>\<open>src/stel/dag.py\<close>: everything reachable from a node over an adjacency dictionary.
  The dictionary is an association list from a node to its neighbour set, the set a list; the
  loop takes the next node from the end of its worklist (\<^verbatim>\<open>queue.pop()\<close>). The visited set is
  kept as the list of nodes in the order they were added.
\<close>

type_synonym 'a graph = "('a \<times> 'a list) list"

definition adj_get :: "'a graph \<Rightarrow> 'a \<Rightarrow> 'a list" where
  "adj_get g n = (case map_of g n of None \<Rightarrow> [] | Some ns \<Rightarrow> ns)"

lemma adj_get_targets: "set (adj_get g n) \<subseteq> (\<Union>e \<in> set g. set (snd e))"
proof (cases "map_of g n")
  case (Some ns)
  from map_of_SomeD [OF this] Some show ?thesis by (fastforce simp: adj_get_def)
qed (simp add: adj_get_def)

lemma finite_adj_get: "finite (\<Union>n. set (adj_get g n))"
  by (rule finite_subset [of _ "\<Union>e \<in> set g. set (snd e)"]) (use adj_get_targets in fast, simp)

function bfs_loop :: "'a graph \<Rightarrow> 'a list \<Rightarrow> 'a list \<Rightarrow> 'a list" where
  "bfs_loop g queue visited =
     (if queue = [] then visited
      else let node = last queue; queue = butlast queue
        in if node \<in> set visited then bfs_loop g queue visited
           else bfs_loop g (queue @ adj_get g node) (visited @ [node]))"
  by pat_completeness auto

definition bfs_todo :: "'a graph \<Rightarrow> 'a list \<Rightarrow> 'a list \<Rightarrow> 'a set" where
  "bfs_todo g queue visited = (set queue \<union> (\<Union>e \<in> set g. set (snd e))) - set visited"

lemma set_last_butlast: "xs \<noteq> [] \<Longrightarrow> insert (last xs) (set (butlast xs)) = set xs"
  by (metis append_butlast_last_id list.set(2) list.simps(15) rotate1.simps(2) set_rotate1)

termination bfs_loop
proof (relation "measures [\<lambda>(g, q, v). card (bfs_todo g q v), \<lambda>(g, q, v). length q]", goal_cases)
  case 1
  show ?case by simp
next
  case (2 g queue visited x xa)
  then have "bfs_todo g xa visited = bfs_todo g queue visited"
    using set_last_butlast [of queue, symmetric] by (auto simp: bfs_todo_def)
  with 2 show ?case by auto
next
  case (3 g queue visited x xa)
  then have "bfs_todo g (xa @ adj_get g x) (visited @ [x]) \<subset> bfs_todo g queue visited"
    using set_last_butlast [of queue, symmetric] adj_get_targets [of g x] by (auto simp: bfs_todo_def)
  then have "card (bfs_todo g (xa @ adj_get g x) (visited @ [x])) < card (bfs_todo g queue visited)"
    by (rule psubset_card_mono [rotated]) (simp add: bfs_todo_def)
  then show ?case by simp
qed

declare bfs_loop.simps [simp del]

definition bfs :: "'a \<Rightarrow> 'a graph \<Rightarrow> 'a list" where
  "bfs start g = bfs_loop g (adj_get g start) []"

interpretation bfs_walk: worklist_walk "adj_get g" "\<lambda>q. (last q, butlast q)" "{}" "bfs_loop g" for g
proof unfold_locales
  show "finite (\<Union>x. set (adj_get g x))" by (rule finite_adj_get)
  show "set queue = insert x (set rest) \<and> length rest < length queue"
    if "queue \<noteq> []" "(last queue, butlast queue) = (x, rest)" for queue x rest
    using that set_last_butlast [of queue] by auto
  show "bfs_loop g queue out =
      (if queue = [] then out
       else case (last queue, butlast queue) of (x, rest) \<Rightarrow>
         if x \<in> {} \<union> set out then bfs_loop g rest out
         else bfs_loop g (rest @ adj_get g x) (out @ [x]))" for queue out
    by (subst bfs_loop.simps) (simp add: Let_def)
qed

lemma set_bfs: "set (bfs start g) = {y. (start, y) \<in> (succ_rel (adj_get g))\<^sup>+}"
  using bfs_walk.loop_set [of start g] by (simp add: bfs_def)

lemma distinct_bfs: "distinct (bfs start g)"
  using bfs_walk.loop_extends [of g "adj_get g start" "[]"] by (auto simp: bfs_def)

end
