(* ===== verification/Topo_Sort.thy ===== *)
theory Topo_Sort
  imports Bfs
begin

text \<open>
  The standard library's \<^verbatim>\<open>graphlib.TopologicalSorter\<close>, as the project graph uses it: the node
  table filled by \<^verbatim>\<open>add\<close>, the ready list and the predecessor counts of \<^verbatim>\<open>prepare\<close>, \<^verbatim>\<open>get_ready\<close>
  and \<^verbatim>\<open>done\<close>, and the loop \<^verbatim>\<open>while ts.is_active()\<close>. A graph is a dictionary from nodes to
  predecessor sets; a set is a duplicate-free list, whose order stands for the set's iteration
  order. \<^verbatim>\<open>prepare\<close> raises \<^verbatim>\<open>CycleError\<close> exactly for a cyclic graph; the names of the reported
  cycle are not modelled.

  The loop runs in rounds. \<open>arrange\<close> is what the caller does with a ready group before it marks
  the group done: nothing in \<^verbatim>\<open>static_order\<close>, sorting in \<^verbatim>\<open>ProjectDAG.parallel_batches\<close>. The
  number of nodes bounds the number of rounds, and \<open>groups_sorted\<close> shows that bound is enough.
\<close>

record 'a sorter =
  ts_nodes :: "'a list"
  ts_counts :: "('a \<times> int) list"
  ts_succs :: "'a graph"
  ts_ready :: "'a list"
  ts_passed :: nat
  ts_finished :: nat

definition ts_empty :: "'a sorter" where
  "ts_empty = \<lparr>ts_nodes = [], ts_counts = [], ts_succs = [], ts_ready = [],
     ts_passed = 0, ts_finished = 0\<rparr>"

text \<open>
  The predecessor count of a node, \<open>-1\<close> once it has been passed out and \<open>-2\<close> once it is done, and
  its successors.
\<close>

definition ts_npred :: "'a sorter \<Rightarrow> 'a \<Rightarrow> int" where
  "ts_npred ts n = (case map_of (ts_counts ts) n of None \<Rightarrow> 0 | Some k \<Rightarrow> k)"

definition ts_succ :: "'a sorter \<Rightarrow> 'a \<Rightarrow> 'a list" where
  "ts_succ ts = adj_get (ts_succs ts)"

definition ts_set_npred :: "'a \<Rightarrow> int \<Rightarrow> 'a sorter \<Rightarrow> 'a sorter" where
  "ts_set_npred n k ts = ts\<lparr>ts_counts := AList.update n k (ts_counts ts)\<rparr>"

definition ts_node :: "'a \<Rightarrow> 'a sorter \<Rightarrow> 'a sorter" where
  "ts_node n ts = (if n \<in> set (ts_nodes ts) then ts else ts\<lparr>ts_nodes := ts_nodes ts @ [n]\<rparr>)"

definition ts_edge :: "'a \<Rightarrow> 'a \<Rightarrow> 'a sorter \<Rightarrow> 'a sorter" where
  "ts_edge n p ts = (let ts = ts_node p ts
     in ts\<lparr>ts_succs := AList.update p (ts_succ ts p @ [n]) (ts_succs ts)\<rparr>)"

definition ts_add :: "'a \<times> 'a list \<Rightarrow> 'a sorter \<Rightarrow> 'a sorter" where
  "ts_add = (\<lambda>(n, preds) ts. let ts = ts_node n ts;
       ts = ts_set_npred n (ts_npred ts n + int (length preds)) ts
     in fold (ts_edge n) preds ts)"

definition ts_init :: "'a graph \<Rightarrow> 'a sorter" where
  "ts_init g = fold ts_add g ts_empty"

definition succs_of :: "'a graph \<Rightarrow> 'a \<Rightarrow> 'a list" where
  "succs_of g p = map fst (filter (\<lambda>(n, preds). p \<in> set preds) g)"

definition ts_prepare :: "'a sorter \<Rightarrow> 'a sorter" where
  "ts_prepare ts = ts\<lparr>ts_ready := filter (\<lambda>n. ts_npred ts n = 0) (ts_nodes ts)\<rparr>"

definition ts_is_active :: "'a sorter \<Rightarrow> bool" where
  "ts_is_active ts \<longleftrightarrow> ts_finished ts < ts_passed ts \<or> ts_ready ts \<noteq> []"

definition ts_get_ready :: "'a sorter \<Rightarrow> 'a list \<times> 'a sorter" where
  "ts_get_ready ts = (ts_ready ts,
     (fold (\<lambda>n. ts_set_npred n (-1)) (ts_ready ts) ts)\<lparr>ts_ready := [],
       ts_passed := ts_passed ts + length (ts_ready ts)\<rparr>)"

definition ts_release :: "'a \<Rightarrow> 'a sorter \<Rightarrow> 'a sorter" where
  "ts_release s ts = (let k = ts_npred ts s - 1; ts = ts_set_npred s k ts
     in if k = 0 then ts\<lparr>ts_ready := ts_ready ts @ [s]\<rparr> else ts)"

definition ts_done :: "'a \<Rightarrow> 'a sorter \<Rightarrow> 'a sorter" where
  "ts_done n ts = (let ts = ts_set_npred n (-2) ts;
       ts = fold ts_release (ts_succ ts n) ts
     in ts\<lparr>ts_finished := ts_finished ts + 1\<rparr>)"

fun ts_rounds :: "('a list \<Rightarrow> 'a list) \<Rightarrow> nat \<Rightarrow> 'a sorter \<Rightarrow> 'a list list option" where
  "ts_rounds arrange 0 ts = (if ts_is_active ts then None else Some [])"
| "ts_rounds arrange (Suc fuel) ts =
     (if \<not> ts_is_active ts then Some []
      else case ts_get_ready ts of (ready, ts) \<Rightarrow>
        let grp = arrange ready
        in map_option ((#) grp) (ts_rounds arrange fuel (fold ts_done grp ts)))"

definition ts_cyclic :: "'a graph \<Rightarrow> bool" where
  "ts_cyclic g \<longleftrightarrow> list_ex (\<lambda>n. n \<in> set (bfs n g)) (ts_nodes (ts_init g))"

text \<open>\<open>None\<close> is \<^verbatim>\<open>CycleError\<close>.\<close>

definition ts_groups :: "('a list \<Rightarrow> 'a list) \<Rightarrow> 'a graph \<Rightarrow> 'a list list option" where
  "ts_groups arrange g =
     (if ts_cyclic g then None
      else ts_rounds arrange (length (ts_nodes (ts_init g))) (ts_prepare (ts_init g)))"

definition static_order :: "'a graph \<Rightarrow> 'a list option" where
  "static_order g = map_option concat (ts_groups (\<lambda>ready. ready) g)"

section \<open>Filling the table\<close>

lemma ts_set_npred_simps [simp]:
  "ts_npred (ts_set_npred n k ts) = (ts_npred ts)(n := k)" "ts_succ (ts_set_npred n k ts) = ts_succ ts"
  "ts_nodes (ts_set_npred n k ts) = ts_nodes ts" "ts_ready (ts_set_npred n k ts) = ts_ready ts"
  "ts_passed (ts_set_npred n k ts) = ts_passed ts" "ts_finished (ts_set_npred n k ts) = ts_finished ts"
  by (auto simp: ts_set_npred_def ts_npred_def ts_succ_def update_conv')

lemma ts_field_simps [simp]:
  "ts_npred (ts\<lparr>ts_ready := r\<rparr>) = ts_npred ts" "ts_succ (ts\<lparr>ts_ready := r\<rparr>) = ts_succ ts"
  "ts_npred (ts\<lparr>ts_passed := n\<rparr>) = ts_npred ts" "ts_succ (ts\<lparr>ts_passed := n\<rparr>) = ts_succ ts"
  "ts_npred (ts\<lparr>ts_finished := n\<rparr>) = ts_npred ts" "ts_succ (ts\<lparr>ts_finished := n\<rparr>) = ts_succ ts"
  "ts_npred (ts\<lparr>ts_nodes := ns\<rparr>) = ts_npred ts" "ts_succ (ts\<lparr>ts_nodes := ns\<rparr>) = ts_succ ts"
  "ts_npred (ts\<lparr>ts_succs := g\<rparr>) = ts_npred ts"
  "ts_succ (ts\<lparr>ts_succs := AList.update p l (ts_succs ts)\<rparr>) = (ts_succ ts)(p := l)"
  by (auto simp: ts_npred_def ts_succ_def adj_get_def update_conv')

lemma ts_empty_simps [simp]: "ts_npred ts_empty = (\<lambda>_. 0)" "ts_succ ts_empty = (\<lambda>_. [])"
  by (auto simp: ts_empty_def ts_npred_def ts_succ_def adj_get_def)

lemma ts_node_simps [simp]:
  "ts_npred (ts_node n ts) = ts_npred ts" "ts_succ (ts_node n ts) = ts_succ ts"
  "ts_ready (ts_node n ts) = ts_ready ts" "ts_passed (ts_node n ts) = ts_passed ts"
  "ts_finished (ts_node n ts) = ts_finished ts"
  "set (ts_nodes (ts_node n ts)) = insert n (set (ts_nodes ts))"
  "distinct (ts_nodes (ts_node n ts)) = distinct (ts_nodes ts)"
  by (auto simp: ts_node_def)

lemma ts_succ_edge:
  "ts_succ ((ts_node p ts)\<lparr>ts_succs := AList.update p l (ts_succs (ts_node p ts))\<rparr>) = (ts_succ ts)(p := l)"
  by simp

lemma fold_ts_edge:
  fixes n :: 'a
  defines "r \<equiv> \<lambda>preds ts. fold (ts_edge n) preds ts"
  shows "ts_npred (r preds ts) = ts_npred ts" "ts_ready (r preds ts) = ts_ready ts"
    and "ts_passed (r preds ts) = ts_passed ts" "ts_finished (r preds ts) = ts_finished ts"
    and "set (ts_nodes (r preds ts)) = set preds \<union> set (ts_nodes ts)"
    and "distinct (ts_nodes (r preds ts)) = distinct (ts_nodes ts)"
    and "distinct preds \<Longrightarrow> ts_succ (r preds ts) p = ts_succ ts p @ (if p \<in> set preds then [n] else [])"
  unfolding r_def
  by (induction preds arbitrary: ts) (auto simp: ts_edge_def Let_def ts_succ_edge)

lemma ts_add_simps:
  "ts_npred (ts_add (n, ps) ts) = (ts_npred ts)(n := ts_npred ts n + int (length ps))"
  "ts_ready (ts_add (n, ps) ts) = ts_ready ts" "ts_passed (ts_add (n, ps) ts) = ts_passed ts"
  "ts_finished (ts_add (n, ps) ts) = ts_finished ts"
  "set (ts_nodes (ts_add (n, ps) ts)) = insert n (set ps \<union> set (ts_nodes ts))"
  "distinct (ts_nodes (ts_add (n, ps) ts)) = distinct (ts_nodes ts)"
  "distinct ps \<Longrightarrow> ts_succ (ts_add (n, ps) ts) p = ts_succ ts p @ (if p \<in> set ps then [n] else [])"
  by (auto simp: ts_add_def fold_ts_edge)

definition graph_ok :: "'a graph \<Rightarrow> bool" where
  "graph_ok g \<longleftrightarrow> distinct (map fst g) \<and> (\<forall>(n, ps) \<in> set g. distinct ps)"

definition graph_nodes :: "'a graph \<Rightarrow> 'a set" where
  "graph_nodes g = fst ` set g \<union> (\<Union>(n, ps) \<in> set g. set ps)"

lemma fold_ts_add:
  assumes "distinct (map fst g)" "\<forall>(n, ps) \<in> set g. distinct ps"
  shows "ts_npred (fold ts_add g ts) n = ts_npred ts n + int (length (adj_get g n))"
    and "ts_ready (fold ts_add g ts) = ts_ready ts" "ts_passed (fold ts_add g ts) = ts_passed ts"
    and "ts_finished (fold ts_add g ts) = ts_finished ts"
    and "set (ts_nodes (fold ts_add g ts)) = graph_nodes g \<union> set (ts_nodes ts)"
    and "distinct (ts_nodes (fold ts_add g ts)) = distinct (ts_nodes ts)"
    and "ts_succ (fold ts_add g ts) p = ts_succ ts p @ succs_of g p"
  using assms
proof (induction g arbitrary: ts)
  case Nil
  { case 1 show ?case by (simp add: adj_get_def) }
  { case 2 show ?case by simp }
  { case 3 show ?case by simp }
  { case 4 show ?case by simp }
  { case 5 show ?case by (simp add: graph_nodes_def) }
  { case 6 show ?case by simp }
  { case 7 show ?case by (simp add: succs_of_def) }
next
  case (Cons e g)
  obtain m ps where e: "e = (m, ps)" by (cases e)
  have d: "distinct ps" if "\<forall>(n, ps) \<in> set (e # g). distinct ps" using that e by auto
  have fresh: "map_of g m = None" if "distinct (map fst (e # g))"
    using that e by (auto simp: map_of_eq_None_iff)
  { case 1 with Cons.IH(1) [of "ts_add e ts"] fresh show ?case
      by (auto simp: e ts_add_simps adj_get_def) }
  { case 2 with Cons.IH(2) [of "ts_add e ts"] show ?case by (auto simp: e ts_add_simps) }
  { case 3 with Cons.IH(3) [of "ts_add e ts"] show ?case by (auto simp: e ts_add_simps) }
  { case 4 with Cons.IH(4) [of "ts_add e ts"] show ?case by (auto simp: e ts_add_simps) }
  { case 5 with Cons.IH(5) [of "ts_add e ts"] show ?case by (auto simp: e ts_add_simps graph_nodes_def) }
  { case 6 with Cons.IH(6) [of "ts_add e ts"] show ?case by (auto simp: e ts_add_simps) }
  { case 7 with Cons.IH(7) [of "ts_add e ts"] d show ?case by (auto simp: e ts_add_simps succs_of_def) }
qed

lemma set_succs_of:
  assumes "distinct (map fst g)"
  shows "set (succs_of g p) = {n. p \<in> set (adj_get g n)}" "distinct (succs_of g p)"
proof -
  show "set (succs_of g p) = {n. p \<in> set (adj_get g n)}"
    using assms by (force simp: succs_of_def adj_get_def map_of_eq_Some_iff split: option.splits)
  show "distinct (succs_of g p)"
    using assms by (auto simp: succs_of_def intro: distinct_map_filter)
qed

lemma adj_get_nodes: "p \<in> set (adj_get g n) \<Longrightarrow> n \<in> graph_nodes g \<and> p \<in> graph_nodes g"
proof (cases "map_of g n")
  case (Some ps)
  assume "p \<in> set (adj_get g n)"
  with map_of_SomeD [OF Some] Some show ?thesis by (force simp: adj_get_def graph_nodes_def)
qed (simp add: adj_get_def)

lemma finite_graph_nodes [simp]: "finite (graph_nodes g)"
  by (auto simp: graph_nodes_def)

section \<open>The state of the sorter\<close>

definition ts_inv :: "'a graph \<Rightarrow> 'a list \<Rightarrow> 'a list \<Rightarrow> 'a sorter \<Rightarrow> bool" where
  "ts_inv g D G ts \<longleftrightarrow> ts_succ ts = succs_of g
     \<and> distinct (D @ G @ ts_ready ts) \<and> set (D @ G @ ts_ready ts) \<subseteq> graph_nodes g
     \<and> (\<forall>n \<in> graph_nodes g - set (D @ G). ts_npred ts n = int (card (set (adj_get g n) - set D))
          \<and> (set (adj_get g n) \<subseteq> set D \<longleftrightarrow> n \<in> set (ts_ready ts)))
     \<and> (\<forall>n \<in> set (D @ G). set (adj_get g n) \<subseteq> set D)
     \<and> ts_finished ts = length D \<and> ts_passed ts = length D + length G"

lemma ts_inv_count:
  assumes "ts_inv g D G ts" "n \<in> graph_nodes g" "n \<notin> set D" "n \<notin> set G"
  shows "ts_npred ts n = int (card (set (adj_get g n) - set D))"
    and "set (adj_get g n) \<subseteq> set D \<longleftrightarrow> n \<in> set (ts_ready ts)"
proof -
  from assms(1) have "\<forall>n \<in> graph_nodes g - set (D @ G). ts_npred ts n = int (card (set (adj_get g n) - set D))
      \<and> (set (adj_get g n) \<subseteq> set D \<longleftrightarrow> n \<in> set (ts_ready ts))" unfolding ts_inv_def by (elim conjE)
  from bspec [OF this, of n] assms(2-4)
  show "ts_npred ts n = int (card (set (adj_get g n) - set D))"
    and "set (adj_get g n) \<subseteq> set D \<longleftrightarrow> n \<in> set (ts_ready ts)" by simp_all
qed

definition unblocked :: "'a graph \<Rightarrow> 'a set \<Rightarrow> 'a set" where
  "unblocked g D = {n \<in> graph_nodes g - D. set (adj_get g n) \<subseteq> D}"

lemma ts_inv_ready:
  assumes "ts_inv g D [] ts"
  shows "set (ts_ready ts) = unblocked g (set D)"
proof (intro equalityI subsetI)
  fix n
  assume n: "n \<in> set (ts_ready ts)"
  with assms have "n \<in> graph_nodes g - set D" by (auto simp: ts_inv_def)
  with n have "set (adj_get g n) \<subseteq> set D"
    using ts_inv_count [OF assms, of n] by simp
  with \<open>n \<in> graph_nodes g - set D\<close> show "n \<in> unblocked g (set D)" by (auto simp: unblocked_def)
next
  fix n
  assume n: "n \<in> unblocked g (set D)"
  then have "set (adj_get g n) \<subseteq> set D" "n \<in> graph_nodes g - set D" by (auto simp: unblocked_def)
  with ts_inv_count [OF assms, of n] show "n \<in> set (ts_ready ts)" by simp
qed

lemma ts_inv_start:
  assumes "graph_ok g"
  shows "ts_inv g [] [] (ts_prepare (ts_init g))"
proof -
  from assms have g: "distinct (map fst g)" "\<forall>(n, ps) \<in> set g. distinct ps"
    by (auto simp: graph_ok_def)
  note f = fold_ts_add [OF g, of ts_empty, folded ts_init_def]
  have "distinct (adj_get g n)" for n
    using g(2) by (auto simp: adj_get_def dest!: map_of_SomeD split: option.splits)
  then have "int (length (adj_get g n)) = int (card (set (adj_get g n)))" for n
    by (simp add: distinct_card)
  moreover have "ts_succ (ts_init g) = succs_of g"
    using f(7) by auto
  ultimately show ?thesis
    using f(1-6) by (auto simp: ts_inv_def ts_prepare_def) (auto simp: ts_empty_def)
qed

lemma fold_passed_out:
  defines "r \<equiv> \<lambda>ns ts. fold (\<lambda>n. ts_set_npred n (-1)) ns ts"
  shows "ts_npred (r ns ts) n = (if n \<in> set ns then -1 else ts_npred ts n)"
    and "ts_succ (r ns ts) = ts_succ ts" "ts_ready (r ns ts) = ts_ready ts"
    and "ts_finished (r ns ts) = ts_finished ts" "ts_passed (r ns ts) = ts_passed ts"
  unfolding r_def by (induction ns arbitrary: ts) auto

lemma ts_inv_get_ready:
  assumes "ts_inv g D [] ts" "ts_get_ready ts = (ready, ts')" "distinct G" "set G = set ready"
  shows "ts_inv g D G ts' \<and> ts_ready ts' = []"
proof -
  have r: "ready = ts_ready ts" "ts_ready ts' = []" "ts_succ ts' = ts_succ ts"
    "ts_npred ts' = (\<lambda>n. if n \<in> set ready then -1 else ts_npred ts n)"
    "ts_finished ts' = ts_finished ts" "ts_passed ts' = ts_passed ts + length ready"
    using assms(2) by (auto simp: ts_get_ready_def fold_passed_out)
  have "distinct ready" using assms(1) by (simp add: ts_inv_def r)
  then have "length G = length ready" using assms(3,4) by (metis distinct_card)
  moreover have "\<forall>n \<in> set G. set (adj_get g n) \<subseteq> set D"
    using ts_inv_ready [OF assms(1)] assms(4) r(1) by (auto simp: unblocked_def)
  ultimately show ?thesis
    using assms(1,3,4) r by (auto simp: ts_inv_def)
qed

lemma ts_release_simps:
  "ts_npred (ts_release s ts) = (ts_npred ts)(s := ts_npred ts s - 1)"
  "ts_ready (ts_release s ts) = ts_ready ts @ (if ts_npred ts s = 1 then [s] else [])"
  "ts_succ (ts_release s ts) = ts_succ ts" "ts_finished (ts_release s ts) = ts_finished ts"
  "ts_passed (ts_release s ts) = ts_passed ts"
  by (auto simp: ts_release_def Let_def)

lemma fold_ts_release:
  fixes ts :: "'a sorter"
  assumes "distinct ss"
  shows "ts_npred (fold ts_release ss ts) = (\<lambda>n. if n \<in> set ss then ts_npred ts n - 1 else ts_npred ts n)"
    and "ts_ready (fold ts_release ss ts) = ts_ready ts @ filter (\<lambda>s. ts_npred ts s = 1) ss"
    and "ts_succ (fold ts_release ss ts) = ts_succ ts" "ts_finished (fold ts_release ss ts) = ts_finished ts"
    and "ts_passed (fold ts_release ss ts) = ts_passed ts"
  using assms
proof (induction ss arbitrary: ts)
  case (Cons s ss)
  have same: "filter (\<lambda>s'. ts_npred (ts_release s ts) s' = 1) ss = filter (\<lambda>s. ts_npred ts s = 1) ss"
    if "distinct (s # ss)" for ts :: "'a sorter"
    using that by (intro filter_cong) (auto simp: ts_release_simps)
  { case 1 with Cons.IH(1) show ?case by (auto simp: ts_release_simps fun_eq_iff) }
  { case 2 with Cons.IH(2) [of "ts_release s ts"] same [of ts] show ?case by (simp add: ts_release_simps(2)) }
  { case 3 with Cons.IH(3) show ?case by (simp add: ts_release_simps) }
  { case 4 with Cons.IH(4) show ?case by (simp add: ts_release_simps) }
  { case 5 with Cons.IH(5) show ?case by (simp add: ts_release_simps) }
qed simp_all

lemma ts_inv_done:
  assumes g: "graph_ok g" and inv: "ts_inv g D (x # G) ts"
  shows "ts_inv g (D @ [x]) G (ts_done x ts)"
proof -
  from g have d: "distinct (map fst g)" by (simp add: graph_ok_def)
  note s = set_succs_of [OF d]
  let ?ts = "ts_done x ts" and ?S = "succs_of g x"
  have x: "x \<notin> set D" "x \<notin> set G" "x \<notin> set (ts_ready ts)" using inv by (auto simp: ts_inv_def)
  have f: "ts_succ ?ts = succs_of g" "ts_finished ?ts = length (D @ [x])"
    "ts_passed ?ts = length (D @ [x]) + length G"
    "ts_npred ?ts = (\<lambda>n. if n \<in> set ?S then ((ts_npred ts)(x := -2)) n - 1 else ((ts_npred ts)(x := -2)) n)"
    "ts_ready ?ts = ts_ready ts @ filter (\<lambda>s. ((ts_npred ts)(x := -2)) s = 1) ?S"
    using inv fold_ts_release [OF s(2)] by (simp_all add: ts_done_def ts_inv_def Let_def cong: if_cong)
  have later: "n \<notin> set (D @ x # G) \<and> n \<in> graph_nodes g \<and> n \<notin> set (ts_ready ts)" if "n \<in> set ?S" for n
  proof -
    have p: "x \<in> set (adj_get g n)" using that s(1) by auto
    then have n: "n \<in> graph_nodes g" by (simp add: adj_get_nodes)
    have out: "n \<notin> set (D @ x # G)" using inv p x(1) by (auto simp: ts_inv_def)
    with inv n have "ts_npred ts n = int (card (set (adj_get g n) - set D))"
      "set (adj_get g n) \<subseteq> set D \<longleftrightarrow> n \<in> set (ts_ready ts)" using ts_inv_count [OF inv, of n] by simp_all
    moreover have "set (adj_get g n) - set D \<noteq> {}" using p x(1) by blast
    ultimately show ?thesis using n out by auto
  qed
  have old: "ts_npred ts n = int (card (set (adj_get g n) - set D))"
    "set (adj_get g n) \<subseteq> set D \<longleftrightarrow> n \<in> set (ts_ready ts)"
    if "n \<in> graph_nodes g" "n \<notin> set (D @ x # G)" for n
    using ts_inv_count [OF inv] that by simp_all
  have count: "ts_npred ?ts n = int (card (set (adj_get g n) - set (D @ [x])))
      \<and> (set (adj_get g n) \<subseteq> set (D @ [x]) \<longleftrightarrow> n \<in> set (ts_ready ?ts))"
    if n: "n \<in> graph_nodes g - set ((D @ [x]) @ G)" for n
  proof (cases "n \<in> set ?S")
    case True
    then have p: "x \<in> set (adj_get g n) - set D" using s(1) x(1) by auto
    have "set (adj_get g n) - set (D @ [x]) = (set (adj_get g n) - set D) - {x}" by auto
    then have "card (set (adj_get g n) - set D) = Suc (card (set (adj_get g n) - set (D @ [x])))"
      using card.remove [of "set (adj_get g n) - set D" x] p by simp
    moreover from this have "card (set (adj_get g n) - set D) = 1 \<longleftrightarrow> set (adj_get g n) \<subseteq> set (D @ [x])"
      by auto
    ultimately show ?thesis
      using True n later [OF True] old [of n] by (auto simp: f)
  next
    case False
    then have "set (adj_get g n) - set (D @ [x]) = set (adj_get g n) - set D"
      "set (adj_get g n) \<subseteq> set (D @ [x]) \<longleftrightarrow> set (adj_get g n) \<subseteq> set D" using s(1) by auto
    with False n old [of n] show ?thesis by (auto simp: f)
  qed
  have "\<forall>n \<in> set (D @ x # G). set (adj_get g n) \<subseteq> set (D @ [x])"
    using inv by (auto simp: ts_inv_def)
  moreover have "distinct ((D @ [x]) @ G @ ts_ready ?ts)" "set ((D @ [x]) @ G @ ts_ready ?ts) \<subseteq> graph_nodes g"
    using inv later s(2) by (auto simp: ts_inv_def f)
  ultimately show ?thesis
    using count f(1-3) unfolding ts_inv_def by auto
qed

lemma ts_inv_group:
  assumes "graph_ok g" "ts_inv g D G ts"
  shows "ts_inv g (D @ G) [] (fold ts_done G ts)"
  using assms(2)
proof (induction G arbitrary: D ts)
  case Nil
  then show ?case by simp
next
  case (Cons x G)
  from Cons.IH [OF ts_inv_done [OF assms(1) Cons.prems]] show ?case by simp
qed

section \<open>The rounds\<close>

text \<open>
  The specification of the rounds: each group is exactly the set of nodes that are not done and
  whose predecessors all are, so no node runs before its predecessors and none later than it
  could.
\<close>

fun layered :: "'a graph \<Rightarrow> 'a set \<Rightarrow> 'a list list \<Rightarrow> bool" where
  "layered g D [] \<longleftrightarrow> True"
| "layered g D (b # bs) \<longleftrightarrow> b \<noteq> [] \<and> distinct b \<and> set b = unblocked g D \<and> layered g (D \<union> set b) bs"

lemma ts_rounds_layered:
  assumes "graph_ok g" "keeps_elements arrange" "ts_inv g D [] ts"
    and "card (graph_nodes g - set D) \<le> fuel"
  shows "\<exists>bs. ts_rounds arrange fuel ts = Some bs \<and> layered g (set D) bs
    \<and> unblocked g (set D \<union> set (concat bs)) = {}"
  using assms(3,4)
proof (induction fuel arbitrary: D ts)
  case (0 D ts)
  then have "unblocked g (set D) = {}" by (auto simp: unblocked_def)
  moreover from this 0 have "\<not> ts_is_active ts"
    using ts_inv_ready [OF 0(1)] by (auto simp: ts_is_active_def ts_inv_def)
  ultimately show ?case by simp
next
  case (Suc fuel D ts)
  note ready = ts_inv_ready [OF Suc.prems(1)]
  show ?case
  proof (cases "ts_ready ts = []")
    case True
    then have "\<not> ts_is_active ts" "unblocked g (set D) = {}"
      using Suc.prems(1) ready by (auto simp: ts_is_active_def ts_inv_def)
    then show ?thesis by simp
  next
    case False
    let ?b = "arrange (ts_ready ts)"
    obtain ts' where ts': "ts_get_ready ts = (ts_ready ts, ts')" by (simp add: ts_get_ready_def)
    have "distinct (ts_ready ts)" using Suc.prems(1) by (simp add: ts_inv_def)
    with assms(2) have b: "distinct ?b" "set ?b = set (ts_ready ts)" by (auto simp: keeps_elements_def)
    have inv: "ts_inv g (D @ ?b) [] (fold ts_done ?b ts')"
      using ts_inv_get_ready [OF Suc.prems(1) ts' b] by (intro ts_inv_group assms(1)) simp
    obtain x where "x \<in> set ?b" using b(2) False by (cases "ts_ready ts") auto
    then have "graph_nodes g - set (D @ ?b) \<subset> graph_nodes g - set D"
      using b ready by (auto simp: unblocked_def)
    then have "card (graph_nodes g - set (D @ ?b)) < card (graph_nodes g - set D)"
      by (rule psubset_card_mono [rotated]) simp
    with Suc.IH [OF inv] Suc.prems(2) obtain bs where bs:
      "ts_rounds arrange fuel (fold ts_done ?b ts') = Some bs"
      "layered g (set (D @ ?b)) bs" "unblocked g (set (D @ ?b) \<union> set (concat bs)) = {}" by auto
    have "ts_is_active ts" using False by (simp add: ts_is_active_def)
    with bs ts' have "ts_rounds arrange (Suc fuel) ts = Some (?b # bs)" by (simp add: Let_def)
    moreover have "?b \<noteq> []" using b(2) False by auto
    ultimately show ?thesis using bs b ready by (auto simp: Un_assoc)
  qed
qed

lemma layered_order:
  assumes "layered g D bs"
  shows "distinct (concat bs)" "set (concat bs) \<subseteq> graph_nodes g - D"
    and "concat bs = xs @ n # ys \<Longrightarrow> set (adj_get g n) \<subseteq> D \<union> set xs"
  using assms
proof (induction bs arbitrary: D xs)
  case Nil
  { case 1 show ?case by simp }
  { case 2 show ?case by simp }
  { case 3 then show ?case by simp }
next
  case (Cons b bs)
  have rest: "layered g (D \<union> set b) bs" "set b \<subseteq> graph_nodes g - D" if "layered g D (b # bs)" for D
    using that unfolding layered.simps unblocked_def by blast+
  note sub = Cons.IH(2) [OF rest(1)]
  { case 1
    from sub [OF this] have "set b \<inter> set (concat bs) = {}" by blast
    with Cons.IH(1) [OF rest(1) [OF 1]] 1 show ?case by simp }
  { case 2
    from sub [OF this] rest(2) [OF this] show ?case by (simp only: concat.simps set_append) blast }
  { case 3
    then have "b @ concat bs = xs @ n # ys" by simp
    then consider us where "xs = b @ us" "concat bs = us @ n # ys" | "n \<in> set b"
      by (auto simp: append_eq_append_conv2 Cons_eq_append_conv append_eq_Cons_conv)
    then show ?case
    proof cases
      case 1
      have "set (adj_get g n) \<subseteq> (D \<union> set b) \<union> set us"
        by (rule Cons.IH(3)) (use 1(2) rest(1) 3(2) in blast)+
      with 1(1) show ?thesis by auto
    next
      case 2
      with 3 show ?thesis by (auto simp: unblocked_def)
    qed }
qed

lemma unblocked_acyclic:
  assumes "unblocked g D = {}" "acyclic (succ_rel (adj_get g))"
  shows "graph_nodes g \<subseteq> D"
proof (rule ccontr)
  assume "\<not> graph_nodes g \<subseteq> D"
  then obtain x where x: "x \<in> graph_nodes g - D" by blast
  have "succ_rel (adj_get g) \<subseteq> graph_nodes g \<times> graph_nodes g" by (auto simp: adj_get_nodes)
  then have "finite (succ_rel (adj_get g))" by (rule finite_subset) simp
  then have "wf ((succ_rel (adj_get g))\<inverse>)" using assms(2) by (rule finite_acyclic_wf_converse)
  from wfE_min [OF this x] obtain n where n: "n \<in> graph_nodes g - D"
    "\<And>p. p \<in> set (adj_get g n) \<Longrightarrow> p \<notin> graph_nodes g - D" by auto
  then have "n \<in> unblocked g D" by (auto simp: unblocked_def dest: adj_get_nodes)
  with assms(1) show False by simp
qed

lemma set_ts_nodes: "graph_ok g \<Longrightarrow> set (ts_nodes (ts_init g)) = graph_nodes g \<and> distinct (ts_nodes (ts_init g))"
  using fold_ts_add(5,6) [of g ts_empty] by (auto simp: graph_ok_def ts_init_def ts_empty_def)

lemma ts_cyclic_iff:
  assumes "graph_ok g"
  shows "ts_cyclic g \<longleftrightarrow> \<not> acyclic (succ_rel (adj_get g))"
proof -
  have "n \<in> graph_nodes g" if "(n, n) \<in> (succ_rel (adj_get g))\<^sup>+" for n
    using tranclD [OF that] by (auto simp: adj_get_nodes)
  then show ?thesis
    using set_ts_nodes [OF assms] by (auto simp: ts_cyclic_def list_ex_iff set_bfs acyclic_def)
qed

lemma groups_sorted:
  assumes "graph_ok g" "keeps_elements arrange" "acyclic (succ_rel (adj_get g))"
  shows "\<exists>bs. ts_groups arrange g = Some bs \<and> layered g {} bs \<and> set (concat bs) = graph_nodes g"
proof -
  have "card (graph_nodes g) = length (ts_nodes (ts_init g))"
    using set_ts_nodes [OF assms(1)] by (metis distinct_card)
  then obtain bs where bs: "ts_groups arrange g = Some bs" "layered g {} bs"
    "unblocked g (set (concat bs)) = {}"
    using ts_rounds_layered [OF assms(1,2) ts_inv_start [OF assms(1)], of "length (ts_nodes (ts_init g))"]
      assms(1,3) by (auto simp: ts_groups_def ts_cyclic_iff)
  with unblocked_acyclic [OF bs(3) assms(3)] layered_order(2) [OF bs(2)] show ?thesis by auto
qed

text \<open>What a caller of \<^verbatim>\<open>static_order\<close> relies on.\<close>

definition topo_sorted :: "'a graph \<Rightarrow> 'a list \<Rightarrow> bool" where
  "topo_sorted g order \<longleftrightarrow> distinct order \<and> set order = graph_nodes g
     \<and> (\<forall>xs n ys. order = xs @ n # ys \<longrightarrow> set (adj_get g n) \<subseteq> set xs)"

lemma static_order_sorted:
  assumes "graph_ok g"
  shows "static_order g = None \<longleftrightarrow> \<not> acyclic (succ_rel (adj_get g))"
    and "static_order g = Some order \<Longrightarrow> topo_sorted g order"
proof -
  have id: "keeps_elements (\<lambda>xs. xs)" by (simp add: keeps_elements_def)
  show iff: "static_order g = None \<longleftrightarrow> \<not> acyclic (succ_rel (adj_get g))"
    using groups_sorted [OF assms id] ts_cyclic_iff [OF assms]
    by (auto simp: static_order_def ts_groups_def)
  show "topo_sorted g order" if o: "static_order g = Some order"
  proof -
    from o iff have "acyclic (succ_rel (adj_get g))" by auto
    from groups_sorted [OF assms id this] o obtain bs where
      bs: "layered g {} bs" "set (concat bs) = graph_nodes g" "order = concat bs"
      by (auto simp: static_order_def)
    then show ?thesis
      using layered_order(1) [OF bs(1)] layered_order(3) [OF bs(1)] by (auto simp: topo_sorted_def)
  qed
qed

end
