(* ===== verification/Refs.thy ===== *)
theory Refs
  imports Prelude
begin

text \<open>
  The reference expressions \<^verbatim>\<open>ref('name')\<close> and \<^verbatim>\<open>dbt_ref('name')\<close> of \<^verbatim>\<open>src/stel/dag.py\<close> (the
  pattern of \<^verbatim>\<open>ref\<close> is repeated in \<^verbatim>\<open>src/stel/test_specs.py\<close>). \<open>match_call\<close> is the regular
  expression of the pattern with \<open>fn\<close> for the function name with its one group; every repetition in it is
  followed by a character it cannot match, so matching needs no backtracking.
\<close>

definition is_quote :: "char \<Rightarrow> bool" where
  "is_quote c \<longleftrightarrow> c = CHR 0x27 \<or> c = CHR 0x22"

definition match_body :: "string \<Rightarrow> string option" where
  "match_body s =
     (let body = takeWhile (\<lambda>c. \<not> is_quote c) s
      in case dropWhile (\<lambda>c. \<not> is_quote c) s of
           [] \<Rightarrow> None
         | q # rest \<Rightarrow>
             if body = [] then None
             else case py_lstrip rest of
                 [] \<Rightarrow> None
               | c # tail \<Rightarrow> if c = CHR '')'' \<and> list_all py_isspace tail then Some body else None)"

definition match_call :: "string \<Rightarrow> string \<Rightarrow> string option" where
  "match_call fn s =
     (let s = py_lstrip s; head = fn @ ''(''
      in if \<not> py_startswith s head then None
         else case py_lstrip (drop (length head) s) of
             [] \<Rightarrow> None
           | q # rest \<Rightarrow> if is_quote q then match_body rest else None)"

definition parse_ref :: "string \<Rightarrow> string" where
  "parse_ref value = (case match_call ''ref'' value of Some name \<Rightarrow> name | None \<Rightarrow> py_strip value)"

definition is_dbt_ref :: "string \<Rightarrow> bool" where
  "is_dbt_ref value \<longleftrightarrow> match_call ''dbt_ref'' value \<noteq> None"

text \<open>\<open>None\<close> is \<^verbatim>\<open>ValueError\<close>.\<close>

definition parse_dbt_ref :: "string \<Rightarrow> string option" where
  "parse_dbt_ref value = match_call ''dbt_ref'' value"

lemma py_lstrip_spaces: "list_all py_isspace sp \<Longrightarrow> py_lstrip (sp @ s) = py_lstrip s"
  by (induction sp) (simp_all add: py_lstrip_def)

lemma match_body_iff:
  "match_body s = Some name \<longleftrightarrow>
     (\<exists>q sp tail. s = name @ q # sp @ CHR '')'' # tail \<and> is_quote q \<and> name \<noteq> []
        \<and> list_all (\<lambda>c. \<not> is_quote c) name \<and> list_all py_isspace sp \<and> list_all py_isspace tail)"
  (is "?l = ?r")
proof
  let ?p = "\<lambda>c. \<not> is_quote c"
  assume l: ?l
  then obtain q rest c tail where
    d: "dropWhile ?p s = q # rest" "py_lstrip rest = c # tail" "c = CHR '')''" "list_all py_isspace tail"
      "takeWhile ?p s = name" "name \<noteq> []"
    by (auto simp: match_body_def Let_def split: list.splits if_splits)
  have "s = name @ q # rest" using takeWhile_dropWhile_id [of ?p s] d by simp
  moreover have "rest = takeWhile py_isspace rest @ CHR '')'' # tail"
    using d(2,3) takeWhile_dropWhile_id [of py_isspace rest] by (simp add: py_lstrip_def)
  moreover have "is_quote q" using d(1) by (metis (mono_tags, lifting) dropWhile_eq_Cons_conv)
  moreover have "list_all ?p name" using d(5) by (auto simp: list_all_iff dest: set_takeWhileD)
  moreover have "list_all py_isspace (takeWhile py_isspace rest)"
    by (auto simp: list_all_iff dest: set_takeWhileD)
  ultimately show ?r using d(4,6) by (intro exI [of _ q] exI [of _ "takeWhile py_isspace rest"] exI [of _ tail]) simp
next
  assume ?r
  then obtain q sp tail where s: "s = name @ q # sp @ CHR '')'' # tail" "is_quote q" "name \<noteq> []"
    "list_all (\<lambda>c. \<not> is_quote c) name" "list_all py_isspace sp" "list_all py_isspace tail" by blast
  have "py_lstrip (sp @ CHR '')'' # tail) = CHR '')'' # tail"
    using s(5) by (simp add: py_lstrip_spaces) (simp add: py_lstrip_def py_isspace_def)
  moreover have "takeWhile (\<lambda>c. \<not> is_quote c) s = name"
    "dropWhile (\<lambda>c. \<not> is_quote c) s = q # sp @ CHR '')'' # tail"
    using s by (simp_all add: takeWhile_append dropWhile_append list_all_iff)
  ultimately show ?l using s by (simp add: match_body_def Let_def)
qed

text \<open>A reference is recognised however it is spaced and quoted, and yields the quoted name.\<close>

lemma match_call_complete:
  assumes "list_all py_isspace a" "list_all py_isspace b" "list_all py_isspace c" "list_all py_isspace d"
    and "is_quote q" "is_quote q'" "name \<noteq> []" "list_all (\<lambda>ch. \<not> is_quote ch) name"
    and "fn \<noteq> []" "\<not> py_isspace (hd fn)"
  shows "match_call fn (a @ fn @ ''('' @ b @ q # name @ q' # c @ CHR '')'' # d) = Some name"
proof -
  let ?tail = "b @ q # name @ q' # c @ CHR '')'' # d"
  obtain f fs where fn: "fn = f # fs" using assms(9) by (cases fn) auto
  have start: "py_lstrip (a @ fn @ ''('' @ ?tail) = (fn @ ''('') @ ?tail"
    using assms(1,10) fn by (simp add: py_lstrip_spaces) (simp add: py_lstrip_def)
  have "\<not> py_isspace q" using assms(5) by (auto simp: is_quote_def py_isspace_def)
  then have "py_lstrip ?tail = q # name @ q' # c @ CHR '')'' # d"
    using assms(2) by (simp add: py_lstrip_spaces) (simp add: py_lstrip_def)
  moreover have "match_body (name @ q' # c @ CHR '')'' # d) = Some name"
    using assms by (auto simp: match_body_iff)
  ultimately show ?thesis
    using assms(5) unfolding match_call_def Let_def start by (simp add: py_startswith_def)
qed

lemma match_call_name: "match_call fn s = Some name \<Longrightarrow> name \<noteq> [] \<and> list_all (\<lambda>c. \<not> is_quote c) name"
  by (auto simp: match_call_def Let_def match_body_iff split: if_splits list.splits)

end
