(* ===== verification/Test_Specs.thy ===== *)
theory Test_Specs
  imports Py_Values Refs
begin

text \<open>
  Test specifications (\<^verbatim>\<open>src/stel/test_specs.py\<close>): the parser of one \<^verbatim>\<open>tests:\<close> entry with the
  validation of every test's argument, and the models a list of tests refers to.

  A lookup \<^verbatim>\<open>options[k]\<close> is \<open>item\<close>, which raises \<open>KeyError\<close> when the key is missing, and
  \<^verbatim>\<open>float(n)\<close> may raise \<open>OverflowError\<close>; both are distinct from \<^verbatim>\<open>TestSpecError\<close>, whose message is
  kept as the test's name and the part of the message that follows it. Whether \<^verbatim>\<open>re.compile\<close>
  accepts a pattern is the parameter \<open>re_ok\<close>.
\<close>

datatype spec_error =
    UnknownTest pyval
  | RequiresArgument string
  | UnsupportedSpec
  | UnknownSeverity
  | NotOneTest
  | Invalid string string
  | MissingOptions string "string list"
  | UnknownOptions string "string list"
  | KeyError string
  | OverflowError
  | TypeError

text \<open>The exceptions of class \<^verbatim>\<open>TestSpecError\<close>.\<close>

fun is_test_spec_error :: "spec_error \<Rightarrow> bool" where
  "is_test_spec_error (KeyError k) = False"
| "is_test_spec_error OverflowError = False"
| "is_test_spec_error TypeError = False"
| "is_test_spec_error _ = True"

definition supported_tests :: "string list" where
  "supported_tests = [''not_null'', ''unique'', ''min_rows'', ''not_empty'', ''python'',
     ''matches_regex'', ''accepted_values'', ''accepted_range'', ''min_metric'', ''null_rate'',
     ''grounded_in'', ''relationships'', ''embedding_valid'', ''embedding_variance'',
     ''embedding_duplicates'', ''embedding_outliers'', ''column_stat'', ''cardinality'',
     ''outlier_rate'', ''drift'', ''golden'', ''llm_judge'', ''embedding_canary'']"

definition column_stats :: "string list" where
  "column_stats = [''mean'', ''min'', ''max'', ''sum'', ''stddev'', ''median'', ''quantile'']"

definition drift_metrics :: "string list" where
  "drift_metrics = [''psi'', ''ks'', ''jensen_shannon'', ''chi_squared'']"

definition supported_severities :: "string list" where
  "supported_severities = [''error'', ''warn'']"

section \<open>Argument helpers\<close>

type_synonym options = "(string \<times> pyval) list"

definition item :: "options \<Rightarrow> string \<Rightarrow> spec_error + pyval" where
  "item d k = (case map_of d k of None \<Rightarrow> Inl (KeyError k) | Some v \<Rightarrow> Inr v)"

definition has_opt :: "options \<Rightarrow> string \<Rightarrow> bool" where
  "has_opt d k \<longleftrightarrow> map_of d k \<noteq> None"

definition get_opt :: "options \<Rightarrow> string \<Rightarrow> pyval \<Rightarrow> pyval" where
  "get_opt d k v = (case map_of d k of None \<Rightarrow> v | Some v' \<Rightarrow> v')"

definition checks :: "(spec_error + unit) list \<Rightarrow> spec_error + unit" where
  "checks cs = each (\<lambda>c. c) cs"

definition on :: "bool \<Rightarrow> (spec_error + unit) \<Rightarrow> spec_error + unit" where
  "on b c = (if b then c else Inr ())"

definition options_of :: "string \<Rightarrow> pyval \<Rightarrow> string list \<Rightarrow> string list \<Rightarrow> spec_error + options" where
  "options_of name value required optional = (case value of
       PyDict kvs \<Rightarrow>
         if \<exists>kv \<in> set kvs. \<not> is_str (fst kv) then Inl (Invalid name ''option names must be strings'')
         else let d = map (\<lambda>(k, v). (str_of k, v)) kvs;
                missing = sort (filter (\<lambda>k. k \<notin> set (map fst d)) required);
                unknown = sort (filter (\<lambda>k. k \<notin> set (required @ optional)) (map fst d))
              in if missing \<noteq> [] then Inl (MissingOptions name missing)
                 else if unknown \<noteq> [] then Inl (UnknownOptions name unknown)
                 else Inr d
     | _ \<Rightarrow> Inl (Invalid name ''expects a mapping of options''))"

definition require_nonempty_string :: "string \<Rightarrow> pyval \<Rightarrow> string \<Rightarrow> spec_error + string" where
  "require_nonempty_string name value label =
     (if \<not> is_str value \<or> py_strip (str_of value) = [] then Inl (Invalid name label)
      else Inr (str_of value))"

definition need_str :: "string \<Rightarrow> options \<Rightarrow> string \<Rightarrow> spec_error + unit" where
  "need_str name d k = rbind (item d k) (\<lambda>v. rbind (require_nonempty_string name v k) (\<lambda>_. Inr ()))"

definition finite_number :: "string \<Rightarrow> pyval \<Rightarrow> string \<Rightarrow> spec_error + rat" where
  "finite_number name value label = (case value of
       PyInt n \<Rightarrow> (case py_float n of None \<Rightarrow> Inl OverflowError | Some x \<Rightarrow> Inr x)
     | PyFloat (Finite x) \<Rightarrow> Inr x
     | _ \<Rightarrow> Inl (Invalid name label))"

definition optional_finite_number :: "string \<Rightarrow> options \<Rightarrow> string \<Rightarrow> spec_error + rat option" where
  "optional_finite_number name d k = (case map_of d k of None \<Rightarrow> Inr None
     | Some v \<Rightarrow> rbind (finite_number name v k) (\<lambda>x. Inr (Some x)))"

definition positive_int :: "string \<Rightarrow> pyval \<Rightarrow> string \<Rightarrow> spec_error + int" where
  "positive_int name value label =
     (if \<not> is_plain_int value \<or> int_of value < 1 then Inl (Invalid name label) else Inr (int_of value))"

definition rate :: "string \<Rightarrow> options \<Rightarrow> string \<Rightarrow> spec_error + rat" where
  "rate name d k = (case map_of d k of None \<Rightarrow> Inr 0
     | Some v \<Rightarrow> rbind (finite_number name v k) (\<lambda>x.
         if \<not> (0 \<le> x \<and> x \<le> 1) then Inl (Invalid name k) else Inr x))"

definition need_rate :: "string \<Rightarrow> options \<Rightarrow> string \<Rightarrow> spec_error + unit" where
  "need_rate name d k = rbind (rate name d k) (\<lambda>_. Inr ())"

definition column_list_ok :: "pyval \<Rightarrow> bool" where
  "column_list_ok v = (case v of PyList vs \<Rightarrow> vs \<noteq> [] \<and>
       list_all (\<lambda>c. is_str c \<and> py_strip (str_of c) \<noteq> []) vs | _ \<Rightarrow> False)"

definition validate_columns :: "string \<Rightarrow> pyval \<Rightarrow> spec_error + unit" where
  "validate_columns name value =
     (if is_str value then rbind (require_nonempty_string name value ''column'') (\<lambda>_. Inr ())
      else guard (column_list_ok value) (Invalid name ''expects a column name or non-empty list of column names''))"

text \<open>\<^verbatim>\<open>lo is not None and hi is not None and lo > hi\<close>.\<close>

definition ordered :: "rat option \<Rightarrow> rat option \<Rightarrow> bool" where
  "ordered lo hi = (case (lo, hi) of (Some a, Some b) \<Rightarrow> a \<le> b | _ \<Rightarrow> True)"

section \<open>One validator per test\<close>

definition validate_min_rows :: "pyval \<Rightarrow> spec_error + unit" where
  "validate_min_rows v = guard (is_plain_int v \<and> 0 \<le> int_of v) (Invalid ''min_rows'' ''expects a non-negative integer'')"

definition validate_matches_regex :: "(string \<Rightarrow> bool) \<Rightarrow> pyval \<Rightarrow> spec_error + unit" where
  "validate_matches_regex re_ok v = (let n = ''matches_regex'' in
     rbind (options_of n v [''column'', ''pattern''] []) (\<lambda>d.
     rbind (need_str n d ''column'') (\<lambda>_.
     rbind (item d ''pattern'') (\<lambda>p.
     rbind (require_nonempty_string n p ''pattern'') (\<lambda>pattern.
       guard (re_ok pattern) (Invalid n ''has invalid pattern''))))))"

definition validate_accepted_values :: "pyval \<Rightarrow> spec_error + unit" where
  "validate_accepted_values v = (let n = ''accepted_values'' in
     rbind (options_of n v [''column'', ''values''] []) (\<lambda>d.
     rbind (need_str n d ''column'') (\<lambda>_.
     rbind (item d ''values'') (\<lambda>vs.
       guard (case vs of PyList xs \<Rightarrow> xs \<noteq> [] | _ \<Rightarrow> False) (Invalid n ''expects a non-empty values list'')))))"

definition validate_min_metric :: "pyval \<Rightarrow> spec_error + unit" where
  "validate_min_metric v = (let n = ''min_metric'' in
     rbind (options_of n v [''metric'', ''min''] [''label'']) (\<lambda>d.
     checks [need_str n d ''metric'',
       on (has_opt d ''label'') (need_str n d ''label''),
       rbind (item d ''min'') (\<lambda>x. rbind (finite_number n x ''min'') (\<lambda>_. Inr ()))]))"

definition validate_accepted_range :: "pyval \<Rightarrow> spec_error + unit" where
  "validate_accepted_range v = (let n = ''accepted_range'' in
     rbind (options_of n v [''column''] [''min'', ''max'']) (\<lambda>d.
     rbind (need_str n d ''column'') (\<lambda>_.
     rbind (guard (has_opt d ''min'' \<or> has_opt d ''max'') (Invalid n ''requires at least one of: min, max'')) (\<lambda>_.
     rbind (optional_finite_number n d ''min'') (\<lambda>lo.
     rbind (optional_finite_number n d ''max'') (\<lambda>hi.
       guard (ordered lo hi) (Invalid n ''requires min <= max'')))))))"

definition validate_null_rate :: "pyval \<Rightarrow> spec_error + unit" where
  "validate_null_rate v = (let n = ''null_rate'' in
     rbind (options_of n v [''column''] [''max'']) (\<lambda>d.
     rbind (need_str n d ''column'') (\<lambda>_.
     rbind (finite_number n (get_opt d ''max'' (PyFloat (Finite 0))) ''max'') (\<lambda>x.
       guard (0 \<le> x \<and> x \<le> 1) (Invalid n ''max must be between 0 and 1'')))))"

definition validate_grounded_in :: "pyval \<Rightarrow> spec_error + unit" where
  "validate_grounded_in v = (let n = ''grounded_in'' in
     rbind (options_of n v [''value'', ''source''] [''method'', ''min_score'']) (\<lambda>d.
     rbind (checks [need_str n d ''value'', need_str n d ''source'',
       let m = get_opt d ''method'' (PyStr ''exact'') in
         guard (is_str m \<and> str_of m \<in> {''exact'', ''fuzzy''}) (Invalid n ''method'')]) (\<lambda>_.
     rbind (finite_number n (get_opt d ''min_score'' (PyFloat (Finite (4/5)))) ''min_score'') (\<lambda>x.
       guard (0 \<le> x \<and> x \<le> 1) (Invalid n ''min_score must be between 0 and 1'')))))"

definition validate_embedding_valid :: "pyval \<Rightarrow> spec_error + unit" where
  "validate_embedding_valid v = (let n = ''embedding_valid'' in
     rbind (options_of n v [''column''] [''dimensions'', ''min_norm'', ''max_norm'', ''max_zero_rate'']) (\<lambda>d.
     rbind (checks [need_str n d ''column'',
       on (has_opt d ''dimensions'') (rbind (item d ''dimensions'') (\<lambda>x.
         rbind (positive_int n x ''dimensions'') (\<lambda>_. Inr ())))]) (\<lambda>_.
     rbind (optional_finite_number n d ''min_norm'') (\<lambda>lo.
     rbind (optional_finite_number n d ''max_norm'') (\<lambda>hi.
       checks [guard (case lo of None \<Rightarrow> True | Some x \<Rightarrow> 0 \<le> x) (Invalid n ''min_norm must be non-negative''),
         guard (case hi of None \<Rightarrow> True | Some x \<Rightarrow> 0 \<le> x) (Invalid n ''max_norm must be non-negative''),
         guard (ordered lo hi) (Invalid n ''requires min_norm <= max_norm''),
         need_rate n d ''max_zero_rate''])))))"

definition validate_embedding_variance :: "pyval \<Rightarrow> spec_error + unit" where
  "validate_embedding_variance v = (let n = ''embedding_variance'' in
     rbind (options_of n v [''column'', ''min_variance''] []) (\<lambda>d.
     rbind (need_str n d ''column'') (\<lambda>_.
     rbind (item d ''min_variance'') (\<lambda>x. rbind (finite_number n x ''min_variance'') (\<lambda>y.
       guard (0 \<le> y) (Invalid n ''min_variance must be non-negative''))))))"

definition validate_embedding_duplicates :: "pyval \<Rightarrow> spec_error + unit" where
  "validate_embedding_duplicates v = (let n = ''embedding_duplicates'' in
     rbind (options_of n v [''column''] [''max_rate'']) (\<lambda>d.
     checks [need_str n d ''column'', need_rate n d ''max_rate'']))"

text \<open>\<^verbatim>\<open>key in options and _finite_number(name, options[key], key) <= 0\<close> is an error.\<close>

definition positive_option :: "string \<Rightarrow> options \<Rightarrow> string \<Rightarrow> spec_error + unit" where
  "positive_option n d k = on (has_opt d k) (rbind (item d k) (\<lambda>x. rbind (finite_number n x k) (\<lambda>y.
     guard (0 < y) (Invalid n k))))"

definition validate_embedding_outliers :: "pyval \<Rightarrow> spec_error + unit" where
  "validate_embedding_outliers v = (let n = ''embedding_outliers'' in
     rbind (options_of n v [''column''] [''max_rate'', ''z'']) (\<lambda>d.
     checks [need_str n d ''column'', need_rate n d ''max_rate'', positive_option n d ''z'']))"

definition validate_column_stat :: "pyval \<Rightarrow> spec_error + unit" where
  "validate_column_stat v = (let n = ''column_stat'' in
     rbind (options_of n v [''column'', ''stat''] [''min'', ''max'', ''quantile'']) (\<lambda>d.
     rbind (need_str n d ''column'') (\<lambda>_.
     rbind (item d ''stat'') (\<lambda>stat.
     rbind (guard (is_str stat \<and> str_of stat \<in> set column_stats) (Invalid n ''stat'')) (\<lambda>_.
     rbind (optional_finite_number n d ''min'') (\<lambda>lo.
     rbind (optional_finite_number n d ''max'') (\<lambda>hi.
     checks [guard (lo \<noteq> None \<or> hi \<noteq> None) (Invalid n ''requires at least one of: min, max''),
       guard (ordered lo hi) (Invalid n ''requires min <= max''),
       if str_of stat = ''quantile''
       then rbind (guard (has_opt d ''quantile'') (Invalid n ''stat quantile requires a quantile'')) (\<lambda>_.
         rbind (item d ''quantile'') (\<lambda>q. rbind (finite_number n q ''quantile'') (\<lambda>x.
           guard (0 \<le> x \<and> x \<le> 1) (Invalid n ''quantile must be between 0 and 1''))))
       else guard (\<not> has_opt d ''quantile'') (Invalid n ''quantile only applies when stat is quantile'')])))))))"

definition count_option :: "string \<Rightarrow> options \<Rightarrow> string \<Rightarrow> int \<Rightarrow> spec_error + unit" where
  "count_option n d k least = on (has_opt d k) (rbind (item d k) (\<lambda>x.
     guard (is_plain_int x \<and> least \<le> int_of x) (Invalid n k)))"

definition rate_option :: "string \<Rightarrow> options \<Rightarrow> string \<Rightarrow> spec_error + rat option" where
  "rate_option n d k = (if has_opt d k then rbind (rate n d k) (\<lambda>x. Inr (Some x)) else Inr None)"

definition validate_cardinality :: "pyval \<Rightarrow> spec_error + unit" where
  "validate_cardinality v = (let n = ''cardinality''; keys = [''min'', ''max'', ''min_ratio'', ''max_ratio''] in
     rbind (options_of n v [''column''] keys) (\<lambda>d.
     rbind (checks [need_str n d ''column'', count_option n d ''min'' 0, count_option n d ''max'' 0]) (\<lambda>_.
     rbind (rate_option n d ''min_ratio'') (\<lambda>lo.
     rbind (rate_option n d ''max_ratio'') (\<lambda>hi.
     checks [guard (list_ex (has_opt d) keys) (Invalid n ''requires at least one of: min, max, min_ratio, max_ratio''),
       on (has_opt d ''min'' \<and> has_opt d ''max'') (rbind (item d ''min'') (\<lambda>a. rbind (item d ''max'') (\<lambda>b.
         guard (int_of a \<le> int_of b) (Invalid n ''requires min <= max'')))),
       guard (ordered lo hi) (Invalid n ''requires min_ratio <= max_ratio'')])))))"

definition validate_outlier_rate :: "pyval \<Rightarrow> spec_error + unit" where
  "validate_outlier_rate v = (let n = ''outlier_rate'' in
     rbind (options_of n v [''column''] [''method'', ''k'', ''max_rate'']) (\<lambda>d.
     checks [need_str n d ''column'',
       let m = get_opt d ''method'' (PyStr ''iqr'') in
         guard (is_str m \<and> str_of m \<in> {''iqr'', ''zscore''}) (Invalid n ''method''),
       positive_option n d ''k'', need_rate n d ''max_rate'']))"

definition validate_drift :: "pyval \<Rightarrow> spec_error + unit" where
  "validate_drift v = (let n = ''drift'' in
     rbind (options_of n v [''column'', ''to'', ''max''] [''field'', ''metric'', ''bins'']) (\<lambda>d.
     checks [need_str n d ''column'', need_str n d ''to'',
       on (has_opt d ''field'') (need_str n d ''field''),
       let m = get_opt d ''metric'' (PyStr ''psi'') in
         guard (is_str m \<and> str_of m \<in> set drift_metrics) (Invalid n ''metric''),
       rbind (item d ''max'') (\<lambda>x. rbind (finite_number n x ''max'') (\<lambda>y.
         guard (0 \<le> y) (Invalid n ''max must be non-negative''))),
       count_option n d ''bins'' 2]))"

definition validate_embedding_canary :: "pyval \<Rightarrow> spec_error + unit" where
  "validate_embedding_canary v = (let n = ''embedding_canary'' in
     rbind (options_of n v [''to'', ''min_similarity''] [''text_column'', ''vector_column'', ''enabled'']) (\<lambda>d.
     checks [on (has_opt d ''enabled'') (rbind (item d ''enabled'') (\<lambda>b. guard (is_bool b) (Invalid n ''enabled''))),
       need_str n d ''to'',
       rbind (item d ''min_similarity'') (\<lambda>x. rbind (finite_number n x ''min_similarity'') (\<lambda>y.
         guard (0 < y \<and> y \<le> 1) (Invalid n ''min_similarity must be in (0, 1]''))),
       on (has_opt d ''text_column'') (need_str n d ''text_column''),
       on (has_opt d ''vector_column'') (need_str n d ''vector_column'')]))"

definition validate_tolerance :: "pyval \<Rightarrow> spec_error + unit" where
  "validate_tolerance t = (let n = ''golden'' in (case t of
       PyDict kvs \<Rightarrow> if kvs = [] then Inl (Invalid n ''tolerance must be a non-empty mapping'')
         else each (\<lambda>(col, tol).
           rbind (guard (is_str col \<and> py_strip (str_of col) \<noteq> []) (Invalid n ''tolerance keys must be column names'')) (\<lambda>_.
           rbind (finite_number n tol ''tolerance'') (\<lambda>x.
             guard (0 \<le> x) (Invalid n ''tolerance values must be non-negative'')))) kvs
     | _ \<Rightarrow> Inl (Invalid n ''tolerance must be a non-empty mapping'')))"

definition validate_golden :: "pyval \<Rightarrow> spec_error + unit" where
  "validate_golden v = (let n = ''golden'' in
     rbind (options_of n v [''to'', ''key''] [''columns'', ''tolerance'', ''exhaustive'']) (\<lambda>d.
     checks [need_str n d ''to'', need_str n d ''key'',
       on (has_opt d ''columns'') (rbind (item d ''columns'') (\<lambda>c.
         guard (column_list_ok c) (Invalid n ''columns must be a non-empty list of column names''))),
       on (has_opt d ''tolerance'') (rbind (item d ''tolerance'') validate_tolerance),
       on (has_opt d ''exhaustive'') (rbind (item d ''exhaustive'') (\<lambda>b. guard (is_bool b) (Invalid n ''exhaustive'')))]))"

definition validate_llm_judge :: "pyval \<Rightarrow> spec_error + unit" where
  "validate_llm_judge v = (let n = ''llm_judge'' in
     rbind (options_of n v [''column'', ''criterion'']
       [''sample_size'', ''min_pass_rate'', ''seed'', ''max_output_tokens'']) (\<lambda>d.
     checks [need_str n d ''column'', need_str n d ''criterion'',
       count_option n d ''sample_size'' 1,
       on (has_opt d ''min_pass_rate'') (need_rate n d ''min_pass_rate''),
       on (has_opt d ''seed'') (rbind (item d ''seed'') (\<lambda>x. guard (is_plain_int x) (Invalid n ''seed''))),
       count_option n d ''max_output_tokens'' 1]))"

text \<open>\<^verbatim>\<open>key in argument\<close> for a dictionary argument.\<close>

definition has_key :: "pyval \<Rightarrow> string \<Rightarrow> bool" where
  "has_key v k = (case v of PyDict kvs \<Rightarrow> PyStr k \<in> set (map fst kvs) | _ \<Rightarrow> False)"

definition validate_relationships :: "pyval \<Rightarrow> spec_error + unit" where
  "validate_relationships v = (let n = ''relationships'' in
     rbind (guard (has_key v ''column'' \<and> has_key v ''to'') (Invalid n ''requires column, to and one field'')) (\<lambda>_.
     rbind (options_of n v [''column'', ''to''] [''field'', ''to_field'']) (\<lambda>d.
     rbind (checks [need_str n d ''column'', need_str n d ''to'']) (\<lambda>_.
       case filter (has_opt d) [''field'', ''to_field''] of
         [f] \<Rightarrow> need_str n d f
       | _ \<Rightarrow> Inl (Invalid n ''requires column, to and one field'')))))"

definition validate_argument :: "(string \<Rightarrow> bool) \<Rightarrow> string \<Rightarrow> pyval \<Rightarrow> spec_error + unit" where
  "validate_argument re_ok name v =
    (if name \<in> {''not_null'', ''unique''} then validate_columns name v
     else if name = ''min_rows'' then validate_min_rows v
     else if name = ''not_empty'' then guard (v = PyNone) (Invalid name ''does not accept an argument'')
     else if name = ''python'' then rbind (require_nonempty_string name v ''module path'') (\<lambda>_. Inr ())
     else if name = ''matches_regex'' then validate_matches_regex re_ok v
     else if name = ''accepted_values'' then validate_accepted_values v
     else if name = ''min_metric'' then validate_min_metric v
     else if name = ''accepted_range'' then validate_accepted_range v
     else if name = ''null_rate'' then validate_null_rate v
     else if name = ''grounded_in'' then validate_grounded_in v
     else if name = ''embedding_valid'' then validate_embedding_valid v
     else if name = ''embedding_variance'' then validate_embedding_variance v
     else if name = ''embedding_duplicates'' then validate_embedding_duplicates v
     else if name = ''embedding_outliers'' then validate_embedding_outliers v
     else if name = ''column_stat'' then validate_column_stat v
     else if name = ''cardinality'' then validate_cardinality v
     else if name = ''outlier_rate'' then validate_outlier_rate v
     else if name = ''drift'' then validate_drift v
     else if name = ''embedding_canary'' then validate_embedding_canary v
     else if name = ''golden'' then validate_golden v
     else if name = ''llm_judge'' then validate_llm_judge v
     else if name = ''relationships'' then validate_relationships v
     else Inr ())"

section \<open>Parsing one specification\<close>

record parsed_spec =
  ps_name :: string
  ps_argument :: pyval
  ps_severity :: string

text \<open>\<^verbatim>\<open>body.pop("severity", "error")\<close>.\<close>

definition pop_severity :: "(pyval \<times> pyval) list \<Rightarrow> pyval \<times> (pyval \<times> pyval) list" where
  "pop_severity kvs = (case map_of kvs (PyStr ''severity'') of None \<Rightarrow> PyStr ''error'' | Some v \<Rightarrow> v,
     filter (\<lambda>kv. fst kv \<noteq> PyStr ''severity'') kvs)"

definition parse_test_spec :: "(string \<Rightarrow> bool) \<Rightarrow> pyval \<Rightarrow> spec_error + parsed_spec" where
  "parse_test_spec re_ok spec = (case spec of
       PyStr s \<Rightarrow>
         if s \<notin> set supported_tests then Inl (UnknownTest spec)
         else if s \<noteq> ''not_empty'' then Inl (RequiresArgument s)
         else Inr \<lparr>ps_name = s, ps_argument = PyNone, ps_severity = ''error''\<rparr>
     | PyDict kvs \<Rightarrow>
         (case pop_severity kvs of (severity, body) \<Rightarrow>
           if \<not> is_str severity \<or> str_of severity \<notin> set supported_severities then Inl UnknownSeverity
           else case body of
               [(name, argument)] \<Rightarrow>
                 if \<not> is_str name \<or> str_of name \<notin> set supported_tests then Inl (UnknownTest name)
                 else rbind (validate_argument re_ok (str_of name) argument) (\<lambda>_.
                   Inr \<lparr>ps_name = str_of name, ps_argument = argument, ps_severity = str_of severity\<rparr>)
             | _ \<Rightarrow> Inl NotOneTest)
     | _ \<Rightarrow> Inl UnsupportedSpec)"

definition ref_tests :: "string list" where
  "ref_tests = [''relationships'', ''drift'', ''golden'', ''embedding_canary'']"

definition ref_target :: "parsed_spec \<Rightarrow> spec_error + string option" where
  "ref_target p = (if ps_name p \<notin> set ref_tests then Inr None
     else case ps_argument p of
         PyDict kvs \<Rightarrow> (case map_of kvs (PyStr ''to'') of
             None \<Rightarrow> Inl (KeyError ''to'')
           | Some (PyStr target) \<Rightarrow> Inr (Some (parse_ref target))
           | Some _ \<Rightarrow> Inl TypeError)
       | _ \<Rightarrow> Inl TypeError)"

fun targets_loop :: "(string \<Rightarrow> bool) \<Rightarrow> pyval list \<Rightarrow> string list \<Rightarrow> spec_error + string list" where
  "targets_loop re_ok [] targets = Inr targets"
| "targets_loop re_ok (spec # specs) targets =
     rbind (parse_test_spec re_ok spec) (\<lambda>p. rbind (ref_target p) (\<lambda>t.
       targets_loop re_ok specs (case t of None \<Rightarrow> targets | Some name \<Rightarrow> set_add name targets)))"

definition relationship_test_targets :: "(string \<Rightarrow> bool) \<Rightarrow> pyval list \<Rightarrow> spec_error + string list" where
  "relationship_test_targets re_ok specs = targets_loop re_ok specs []"

fun uses_llm_judge :: "(string \<Rightarrow> bool) \<Rightarrow> pyval list \<Rightarrow> spec_error + bool" where
  "uses_llm_judge re_ok [] = Inr False"
| "uses_llm_judge re_ok (spec # specs) = rbind (parse_test_spec re_ok spec) (\<lambda>p.
     if ps_name p = ''llm_judge'' then Inr True else uses_llm_judge re_ok specs)"

section \<open>What the validators guarantee\<close>

lemma checks_simps [simp]:
  "checks [] = Inr ()" "checks (c # cs) = rbind c (\<lambda>_. checks cs)"
  by (simp_all add: checks_def)

lemma on_eq_Inr: "on b c = Inr u \<longleftrightarrow> (b \<longrightarrow> c = Inr ())"
  by (simp add: on_def)

lemma sort_eq_Nil: "sort xs = [] \<longleftrightarrow> xs = []"
  by (metis length_0_conv length_sort)

lemma options_of_ok:
  assumes "options_of name v req opt = Inr d"
  obtains kvs where "v = PyDict kvs" "\<And>k. map_of kvs (PyStr k) = map_of d k"
    "set req \<subseteq> fst ` set d" "fst ` set d \<subseteq> set req \<union> set opt"
proof -
  from assms obtain kvs where kvs: "v = PyDict kvs" "\<forall>kv \<in> set kvs. is_str (fst kv)"
    "d = map (\<lambda>(k, v). (str_of k, v)) kvs" "filter (\<lambda>k. k \<notin> set (map fst d)) req = []"
    "filter (\<lambda>k. k \<notin> set (req @ opt)) (map fst d) = []"
    by (auto simp: options_of_def Let_def sort_eq_Nil image_image comp_def split: pyval.splits if_splits)
  have "map_of kvs (PyStr k) = map_of d k" for k
    unfolding kvs(3) using kvs(2) by (induction kvs) (auto simp: is_str_iff)
  moreover have "set req \<subseteq> fst ` set d" "fst ` set d \<subseteq> set req \<union> set opt"
    using kvs(4,5) by (auto simp: filter_empty_conv)
  ultimately show thesis using that kvs(1) by blast
qed

text \<open>A required option is present, so reading it raises no \<open>KeyError\<close>.\<close>

lemma item_required:
  "options_of name v req opt = Inr d \<Longrightarrow> k \<in> set req \<Longrightarrow> \<exists>x. item d k = Inr x"
  by (elim options_of_ok) (auto simp: item_def map_of_eq_None_iff split: option.splits)

lemma need_str_ok: "need_str n d k = Inr u \<Longrightarrow> \<exists>s. map_of d k = Some (PyStr s) \<and> py_strip s \<noteq> []"
  by (auto simp: need_str_def item_def rbind_eq_Inr require_nonempty_string_def is_str_iff
      split: option.splits if_splits)

lemmas spec_defs = validate_drift_def validate_golden_def validate_embedding_canary_def
  validate_relationships_def Let_def

lemma ref_argument_has_target:
  assumes "validate_argument re_ok name v = Inr u" "name \<in> set ref_tests"
  shows "\<exists>kvs s. v = PyDict kvs \<and> map_of kvs (PyStr ''to'') = Some (PyStr s) \<and> py_strip s \<noteq> []"
proof -
  have "\<exists>n req opt d. options_of n v req opt = Inr d \<and> need_str n d ''to'' = Inr ()"
    using assms
    by (auto simp: ref_tests_def validate_argument_def spec_defs rbind_eq_Inr) blast+
  then show ?thesis by (elim exE conjE options_of_ok) (use need_str_ok in fastforce)
qed

section \<open>Which exceptions can escape\<close>

definition safe_result :: "spec_error + 'a \<Rightarrow> bool" where
  "safe_result r \<longleftrightarrow> (\<forall>e. r = Inl e \<longrightarrow> is_test_spec_error e \<or> e = OverflowError)"

named_theorems safe \<open>computations that raise only test specification errors\<close>

lemma safe_basic [safe, simp]:
  "safe_result (Inr x)" "safe_result (Inl (Invalid n l))" "safe_result (Inl OverflowError)"
  by (simp_all add: safe_result_def)

lemma safe_rbind [safe]:
  "safe_result r \<Longrightarrow> (\<And>x. r = Inr x \<Longrightarrow> safe_result (f x)) \<Longrightarrow> safe_result (rbind r f)"
  by (cases r) (auto simp: safe_result_def)

lemma safe_guard [safe]: "is_test_spec_error e \<Longrightarrow> safe_result (guard b e)"
  by (simp add: safe_result_def)

lemma safe_on [safe]: "(b \<Longrightarrow> safe_result c) \<Longrightarrow> safe_result (on b c)"
  by (simp add: on_def)

lemma safe_checks [safe]: "list_all safe_result cs \<Longrightarrow> safe_result (checks cs)"
  by (induction cs) (auto intro: safe_rbind)

lemma safe_item [safe]: "has_opt d k \<Longrightarrow> safe_result (item d k)"
  by (auto simp: has_opt_def item_def safe_result_def)

lemma safe_string [safe]: "safe_result (require_nonempty_string n v l)"
  by (simp add: require_nonempty_string_def)

lemma safe_need_str [safe]: "has_opt d k \<Longrightarrow> safe_result (need_str n d k)"
  by (auto simp: need_str_def intro!: safe)

lemma safe_finite_number [safe]: "safe_result (finite_number n v l)"
  by (auto simp: finite_number_def split: pyval.splits pyfloat.splits option.splits)

lemma safe_numbers [safe]:
  "safe_result (optional_finite_number n d k)" "safe_result (rate n d k)"
  "safe_result (need_rate n d k)" "safe_result (positive_int n v l)"
  "safe_result (rate_option n d k)" "safe_result (positive_option n d k)"
  "safe_result (count_option n d k least)"
  by (auto simp: optional_finite_number_def rate_def need_rate_def positive_int_def rate_option_def
      positive_option_def count_option_def intro!: safe split: option.splits)

lemma safe_columns [safe]: "safe_result (validate_columns n v)"
  by (auto simp: validate_columns_def intro!: safe)

lemma safe_each [safe]: "(\<And>x. x \<in> set xs \<Longrightarrow> safe_result (f x)) \<Longrightarrow> safe_result (each f xs)"
  by (induction xs) (auto intro!: safe)

lemma safe_tolerance [safe]: "safe_result (validate_tolerance v)"
  by (auto simp: validate_tolerance_def Let_def intro!: safe split: pyval.splits)

lemma safe_options [safe]: "safe_result (options_of n v req opt)"
  by (auto simp: options_of_def safe_result_def Let_def split: pyval.splits if_splits)

lemma options_present: "options_of n v req opt = Inr d \<Longrightarrow> k \<in> set req \<Longrightarrow> has_opt d k"
  by (elim options_of_ok) (auto simp: has_opt_def map_of_eq_None_iff)

lemmas validator_defs = validate_min_rows_def validate_matches_regex_def validate_accepted_values_def
  validate_min_metric_def validate_accepted_range_def validate_null_rate_def validate_grounded_in_def
  validate_embedding_valid_def validate_embedding_variance_def validate_embedding_duplicates_def
  validate_embedding_outliers_def validate_column_stat_def validate_cardinality_def
  validate_outlier_rate_def validate_drift_def validate_embedding_canary_def validate_golden_def
  validate_llm_judge_def Let_def

lemma safe_validators [safe]:
  "safe_result (validate_min_rows v)" "safe_result (validate_matches_regex re_ok v)"
  "safe_result (validate_accepted_values v)" "safe_result (validate_min_metric v)"
  "safe_result (validate_accepted_range v)" "safe_result (validate_null_rate v)"
  "safe_result (validate_grounded_in v)" "safe_result (validate_embedding_valid v)"
  "safe_result (validate_embedding_variance v)" "safe_result (validate_embedding_duplicates v)"
  "safe_result (validate_embedding_outliers v)" "safe_result (validate_column_stat v)"
  "safe_result (validate_cardinality v)" "safe_result (validate_outlier_rate v)"
  "safe_result (validate_drift v)" "safe_result (validate_embedding_canary v)"
  "safe_result (validate_golden v)" "safe_result (validate_llm_judge v)"
  by (auto simp: validator_defs dest: options_present intro!: safe)

lemma safe_relationships [safe]: "safe_result (validate_relationships v)"
proof -
  have one: "has_opt d f" if "filter (has_opt d) [''field'', ''to_field''] = [f]" for d f
  proof -
    have "f \<in> set (filter (has_opt d) [''field'', ''to_field''])" by (subst that) simp
    then show ?thesis by (simp only: set_filter mem_Collect_eq)
  qed
  have "safe_result (case filter (has_opt d) [''field'', ''to_field''] of
      [f] \<Rightarrow> need_str n d f | _ \<Rightarrow> Inl (Invalid n l))" for n l d
    by (auto split: list.split intro!: safe_need_str one simp del: filter.simps)
  then show ?thesis
    unfolding validate_relationships_def Let_def
    by (auto dest: options_present intro!: safe simp del: filter.simps)
qed

lemma safe_if: "safe_result x \<Longrightarrow> safe_result y \<Longrightarrow> safe_result (if b then x else y)"
  by simp

lemma safe_argument [safe]: "safe_result (validate_argument re_ok name v)"
  unfolding validate_argument_def
  by (intro safe_if safe_validators safe_relationships safe_columns safe_guard safe_rbind safe_string
      safe_basic) auto

section \<open>Properties\<close>

lemma parse_ref_nonempty: "py_strip s \<noteq> [] \<Longrightarrow> parse_ref s \<noteq> []"
  using match_call_name [of "''ref''" s] by (auto simp: parse_ref_def split: option.splits)

lemma parse_test_spec_argument:
  assumes "parse_test_spec re_ok spec = Inr p" "ps_name p \<in> set ref_tests"
  shows "validate_argument re_ok (ps_name p) (ps_argument p) = Inr ()"
  using assms
  by (auto simp: parse_test_spec_def ref_tests_def rbind_eq_Inr
      split: pyval.splits if_splits prod.splits list.splits)

lemma ref_target_of_parsed:
  assumes "parse_test_spec re_ok spec = Inr p"
  shows "if ps_name p \<in> set ref_tests then \<exists>t. ref_target p = Inr (Some t) \<and> t \<noteq> []
         else ref_target p = Inr None"
proof (cases "ps_name p \<in> set ref_tests")
  case True
  from ref_argument_has_target [OF parse_test_spec_argument [OF assms True] True]
  show ?thesis using True by (auto simp: ref_target_def dest: parse_ref_nonempty)
qed (simp add: ref_target_def)



lemma targets_loop_ok:
  assumes "\<forall>spec \<in> set specs. is_ok (parse_test_spec re_ok spec)"
  shows "\<exists>ts. targets_loop re_ok specs acc = Inr ts \<and> set ts = set acc \<union>
    {t. \<exists>spec \<in> set specs. \<exists>p. parse_test_spec re_ok spec = Inr p \<and> ref_target p = Inr (Some t)}"
  using assms
proof (induction specs arbitrary: acc)
  case Nil
  show ?case by simp
next
  case (Cons spec specs)
  then obtain p where p: "parse_test_spec re_ok spec = Inr p" by (auto simp: is_ok_iff)
  from ref_target_of_parsed [OF p] obtain t where t: "ref_target p = Inr t" by (auto split: if_splits)
  let ?acc = "case t of None \<Rightarrow> acc | Some name \<Rightarrow> set_add name acc"
  from Cons.IH [of ?acc] Cons.prems obtain ts where ts: "targets_loop re_ok specs ?acc = Inr ts"
    "set ts = set ?acc \<union> {t. \<exists>spec \<in> set specs. \<exists>p. parse_test_spec re_ok spec = Inr p \<and> ref_target p = Inr (Some t)}"
    by auto
  with p t show ?case by (intro exI [of _ ts]) (auto split: option.splits)
qed

lemma targets_loop_all_ok:
  "targets_loop re_ok specs acc = Inr ts \<Longrightarrow> \<forall>spec \<in> set specs. is_ok (parse_test_spec re_ok spec)"
  by (induction specs arbitrary: acc) (auto simp: rbind_eq_Inr)

lemma targets_loop_error:
  assumes "targets_loop re_ok specs acc = Inl e"
  shows "\<exists>ys spec zs. specs = ys @ spec # zs \<and> (\<forall>y \<in> set ys. is_ok (parse_test_spec re_ok y))
    \<and> parse_test_spec re_ok spec = Inl e"
  using assms
proof (induction specs arbitrary: acc)
  case Nil
  then show ?case by simp
next
  case (Cons spec specs)
  show ?case
  proof (cases "parse_test_spec re_ok spec")
    case (Inl e')
    with Cons.prems show ?thesis by (intro exI [of _ "[]"]) simp
  next
    case (Inr p)
    from ref_target_of_parsed [OF Inr] obtain t where "ref_target p = Inr t" by (auto split: if_splits)
    with Inr Cons.prems Cons.IH obtain ys sp zs where
      "specs = ys @ sp # zs" "\<forall>y \<in> set ys. is_ok (parse_test_spec re_ok y)" "parse_test_spec re_ok sp = Inl e"
      by auto blast
    with Inr show ?thesis by (intro exI [of _ "spec # ys"]) auto
  qed
qed

text \<open>
  The models a list of tests refers to are found without any lookup failing: when every
  specification parses, the result is exactly the set of non-empty targets of its reference
  tests, and otherwise the first specification that does not parse decides the error.
\<close>

theorem relationship_test_targets_exact:
  "(case relationship_test_targets re_ok specs of
      Inr ts \<Rightarrow> [] \<notin> set ts \<and> set ts = {t. \<exists>spec \<in> set specs. \<exists>p. parse_test_spec re_ok spec = Inr p
          \<and> ps_name p \<in> set ref_tests \<and> ref_target p = Inr (Some t)}
    | Inl e \<Rightarrow> \<exists>ys spec zs. specs = ys @ spec # zs \<and> list_all (\<lambda>y. is_ok (parse_test_spec re_ok y)) ys
          \<and> parse_test_spec re_ok spec = Inl e)"
proof (cases "relationship_test_targets re_ok specs")
  case (Inl e)
  with targets_loop_error [of re_ok specs "[]" e] show ?thesis
    by (auto simp: relationship_test_targets_def list_all_iff)
next
  case (Inr ts)
  have "\<forall>spec \<in> set specs. is_ok (parse_test_spec re_ok spec)"
    using Inr by (simp add: relationship_test_targets_def targets_loop_all_ok)
  from targets_loop_ok [OF this, of "[]"] Inr
  have ts: "set ts = {t. \<exists>spec \<in> set specs. \<exists>p. parse_test_spec re_ok spec = Inr p \<and> ref_target p = Inr (Some t)}"
    by (auto simp: relationship_test_targets_def)
  have "ps_name p \<in> set ref_tests \<and> t \<noteq> []"
    if "parse_test_spec re_ok spec = Inr p" "ref_target p = Inr (Some t)" for spec p t
    using ref_target_of_parsed [OF that(1)] that(2) by (auto split: if_splits)
  with ts Inr show ?thesis by fastforce
qed

text \<open>
  An integer bound beyond the range of a float escapes the parser as an overflow instead of
  being reported as an invalid specification.
\<close>

theorem huge_bound_overflows:
  "parse_test_spec (\<lambda>_. True) (PyDict [(PyStr ''accepted_range'',
     PyDict [(PyStr ''column'', PyStr ''x''), (PyStr ''min'', PyInt (2 ^ 1024))])]) = Inl OverflowError"
proof -
  have spec: "parse_test_spec (\<lambda>_. True) (PyDict [(PyStr ''accepted_range'',
      PyDict [(PyStr ''column'', PyStr ''x''), (PyStr ''min'', v)])]) =
    rbind (finite_number ''accepted_range'' v ''min'') (\<lambda>x. Inr \<lparr>ps_name = ''accepted_range'',
      ps_argument = PyDict [(PyStr ''column'', PyStr ''x''), (PyStr ''min'', v)], ps_severity = ''error''\<rparr>)" for v
    by (simp add: parse_test_spec_def pop_severity_def supported_severities_def supported_tests_def
        validate_argument_def validate_accepted_range_def Let_def options_of_def need_str_def item_def
        require_nonempty_string_def py_strip_def py_lstrip_def py_rstrip_def py_isspace_def has_opt_def
        optional_finite_number_def ordered_def guard_def rbind_def split: sum.splits)
  have "py_float (2 ^ 1024) = None" by (rule py_float_overflow) (rule order_refl)
  then show ?thesis unfolding spec by (simp add: finite_number_def del: power_numeral)
qed

end
