(* ===== verification/Dag.thy ===== *)
theory Dag
  imports Topo_Sort Test_Specs
begin

text \<open>
  The project graph (\<^verbatim>\<open>src/stel/dag.py\<close>): its construction from the declared sources and models,
  ancestors and descendants, the execution order, the batches that may run concurrently, and
  node selection.

  A Python set is a duplicate-free list in the order its elements were added. Where the code
  iterates over a set and the order shows, the parameter \<open>iter\<close> gives the interpreter's
  iteration order; \<open>keeps_elements iter\<close> is all that is known of it. A model's configuration is
  reduced to what the graph reads: its kind blocks by name, and of a retrieval test its golden
  set.
\<close>

section \<open>Nodes\<close>

datatype node_kind = SourceNode | ModelNode | SearchIndexNode

datatype model_kind = Extraction | Transform | Ml | Chunk | Embed | Llm | Search | Eval

fun kind_value :: "model_kind \<Rightarrow> string" where
  "kind_value Extraction = ''extraction''"
| "kind_value Transform = ''transform''"
| "kind_value Ml = ''ml''"
| "kind_value Chunk = ''chunk''"
| "kind_value Embed = ''embed''"
| "kind_value Llm = ''llm''"
| "kind_value Search = ''search''"
| "kind_value Eval = ''eval''"

definition all_kinds :: "model_kind list" where
  "all_kinds = [Extraction, Transform, Ml, Chunk, Embed, Llm, Search, Eval]"

record node =
  n_name :: string
  n_kind :: node_kind
  n_tags :: "string list"
  n_model_kind :: "model_kind option"

record source_config =
  s_name :: string
  s_tags :: "string list"

record model_config =
  m_name :: string
  m_source :: "string option"
  m_depends_on :: "string list option"
  m_kinds :: "model_kind list"
  m_tags :: "string list"
  m_tests :: "pyval list"
  m_golden_sets :: "string list"

definition model_kind_of :: "model_config \<Rightarrow> model_kind option" where
  "model_kind_of m = (case m_kinds m of [k] \<Rightarrow> Some k | _ \<Rightarrow> None)"

record project_dag =
  nodes :: "(string \<times> node) list"
  predecessors :: "string graph"
  successors :: "string graph"
  sorted_names :: "string list"

datatype dag_error =
    DuplicateNode string
  | InvalidTests string spec_error
  | EscapedError spec_error
  | UnknownNode string string
  | CyclicDependency

section \<open>Construction\<close>

definition empty_dag :: project_dag where
  "empty_dag = \<lparr>nodes = [], predecessors = [], successors = [], sorted_names = []\<rparr>"

definition setdefault :: "string \<Rightarrow> string list \<Rightarrow> string graph \<Rightarrow> string graph" where
  "setdefault k v g = (if map_of g k = None then AList.update k v g else g)"

definition add_node :: "node \<Rightarrow> project_dag \<Rightarrow> dag_error + project_dag" where
  "add_node n d =
     (if map_of (nodes d) (n_name n) \<noteq> None then Inl (DuplicateNode (n_name n))
      else Inr (d\<lparr>nodes := AList.update (n_name n) n (nodes d),
        predecessors := setdefault (n_name n) [] (predecessors d),
        successors := setdefault (n_name n) [] (successors d)\<rparr>))"

definition add_source :: "source_config \<Rightarrow> project_dag \<Rightarrow> dag_error + project_dag" where
  "add_source s d = add_node \<lparr>n_name = s_name s, n_kind = SourceNode, n_tags = s_tags s,
     n_model_kind = None\<rparr> d"

definition model_node :: "model_config \<Rightarrow> node" where
  "model_node m = \<lparr>n_name = m_name m,
     n_kind = (if Search \<in> set (m_kinds m) then SearchIndexNode else ModelNode),
     n_tags = m_tags m, n_model_kind = model_kind_of m\<rparr>"

definition declared_refs :: "model_config \<Rightarrow> string list" where
  "declared_refs m =
     (let preds = (case m_source m of None \<Rightarrow> []
         | Some s \<Rightarrow> if s \<noteq> [] \<and> \<not> is_dbt_ref s then set_add (parse_ref s) [] else [])
      in case m_depends_on m of None \<Rightarrow> preds
         | Some deps \<Rightarrow> set_update (map parse_ref deps) preds)"

definition model_preds :: "(string \<Rightarrow> bool) \<Rightarrow> model_config \<Rightarrow> dag_error + string list" where
  "model_preds re_ok m = (case relationship_test_targets re_ok (m_tests m) of
       Inl e \<Rightarrow> Inl (if is_test_spec_error e then InvalidTests (m_name m) e else EscapedError e)
     | Inr targets \<Rightarrow> Inr (set_update (map parse_ref (m_golden_sets m))
         (set_update targets (declared_refs m))))"

definition add_model :: "(string \<Rightarrow> bool) \<Rightarrow> model_config \<Rightarrow> project_dag \<Rightarrow> dag_error + project_dag" where
  "add_model re_ok m d = rbind (add_node (model_node m) d) (\<lambda>d.
     rbind (model_preds re_ok m) (\<lambda>preds.
       Inr (d\<lparr>predecessors := AList.update (m_name m) preds (predecessors d)\<rparr>)))"

fun add_all :: "('c \<Rightarrow> project_dag \<Rightarrow> dag_error + project_dag) \<Rightarrow> 'c list \<Rightarrow> project_dag \<Rightarrow> dag_error + project_dag" where
  "add_all add [] d = Inr d"
| "add_all add (c # cs) d = rbind (add c d) (add_all add cs)"

fun link_preds :: "(string \<times> node) list \<Rightarrow> string \<Rightarrow> string list \<Rightarrow> string graph \<Rightarrow> dag_error + string graph" where
  "link_preds ns n [] succs = Inr succs"
| "link_preds ns n (p # ps) succs =
     (if map_of ns p = None then Inl (UnknownNode n p)
      else link_preds ns n ps (AList.update p (set_add n (adj_get succs p)) succs))"

fun link_all :: "(string list \<Rightarrow> string list) \<Rightarrow> (string \<times> node) list \<Rightarrow> string graph \<Rightarrow> string graph \<Rightarrow>
    dag_error + string graph" where
  "link_all iter ns [] succs = Inr succs"
| "link_all iter ns ((n, ps) # g) succs =
     rbind (link_preds ns n (iter ps) succs) (link_all iter ns g)"

definition build_dag :: "(string list \<Rightarrow> string list) \<Rightarrow> (string \<Rightarrow> bool) \<Rightarrow>
    source_config list \<Rightarrow> model_config list \<Rightarrow> dag_error + project_dag" where
  "build_dag iter re_ok sources models =
     rbind (add_all add_source sources empty_dag) (\<lambda>d.
     rbind (add_all (add_model re_ok) models d) (\<lambda>d.
     rbind (link_all iter (nodes d) (predecessors d) (successors d)) (\<lambda>succs.
     case static_order (map (\<lambda>(n, ps). (n, iter ps)) (predecessors d)) of
         None \<Rightarrow> Inl CyclicDependency
       | Some order \<Rightarrow> Inr (d\<lparr>successors := succs, sorted_names := order\<rparr>))))"

section \<open>Reading the graph\<close>

definition node_kind_of :: "project_dag \<Rightarrow> string \<Rightarrow> node_kind option" where
  "node_kind_of d n = map_option n_kind (map_of (nodes d) n)"

definition runs :: "project_dag \<Rightarrow> string \<Rightarrow> bool" where
  "runs d n \<longleftrightarrow> node_kind_of d n \<in> {Some ModelNode, Some SearchIndexNode}"

definition execution_order :: "project_dag \<Rightarrow> string list" where
  "execution_order d = filter (runs d) (sorted_names d)"

definition descendants :: "project_dag \<Rightarrow> string \<Rightarrow> string list" where
  "descendants d name = bfs name (successors d)"

definition ancestors :: "project_dag \<Rightarrow> string \<Rightarrow> string list" where
  "ancestors d name = bfs name (predecessors d)"

datatype selection_error =
    UnknownModel string
  | EmptyToken string
  | StateNeedsManifest
  | UnknownState string
  | EmptyTag string
  | EmptyKind string
  | UnknownKind string
  | UnknownSelector string

fun required_loop :: "project_dag \<Rightarrow> string list \<Rightarrow> string list \<Rightarrow> selection_error + string list" where
  "required_loop d [] required = Inr required"
| "required_loop d (name # names) required =
     (if map_of (nodes d) name = None then Inl (UnknownModel name)
      else required_loop d names
        (set_update (filter (\<lambda>a. node_kind_of d a = Some SourceNode) (bfs name (predecessors d))) required))"

definition required_sources :: "project_dag \<Rightarrow> string list \<Rightarrow> selection_error + string list" where
  "required_sources d names = rbind (required_loop d names []) (\<lambda>required.
     Inr (filter (\<lambda>n. n \<in> set required) (sorted_names d)))"

text \<open>\<open>None\<close> is \<^verbatim>\<open>KeyError\<close> for a name without a node, or \<^verbatim>\<open>CycleError\<close>.\<close>

definition batch_graph :: "project_dag \<Rightarrow> string list \<Rightarrow> string graph" where
  "batch_graph d names =
     dict_of (map (\<lambda>n. (n, filter (\<lambda>p. p \<in> set names) (adj_get (predecessors d) n))) names)"

definition parallel_batches :: "(string list \<Rightarrow> string list) \<Rightarrow> project_dag \<Rightarrow> string list \<Rightarrow> string list list option" where
  "parallel_batches iter d names =
     (if \<exists>n \<in> set names. map_of (predecessors d) n = None then None
      else ts_groups (sort_key (py_index (sorted_names d)))
        (map (\<lambda>(n, ps). (n, iter ps)) (batch_graph d names)))"

section \<open>Selection\<close>

definition kind_seeds :: "project_dag \<Rightarrow> string \<Rightarrow> string \<Rightarrow> selection_error + string list" where
  "kind_seeds d kind token =
     (if kind = [] then Inl (EmptyKind token)
      else if kind \<notin> set (map kind_value all_kinds) then Inl (UnknownKind kind)
      else Inr (map fst (filter (\<lambda>(name, node). map_option kind_value (n_model_kind node) = Some kind) (nodes d))))"

definition token_seeds :: "project_dag \<Rightarrow> string list option \<Rightarrow> string \<Rightarrow> string \<Rightarrow> selection_error + string list" where
  "token_seeds d modified body token =
     (if body = ''state:modified'' then
        (case modified of None \<Rightarrow> Inl StateNeedsManifest
         | Some ms \<Rightarrow> Inr (filter (\<lambda>n. map_of (nodes d) n \<noteq> None) ms))
      else if py_startswith body ''state:'' then Inl (UnknownState body)
      else if py_startswith body ''tag:'' then
        (let tag = drop 4 body
         in if tag = [] then Inl (EmptyTag token)
            else Inr (map fst (filter (\<lambda>(name, node). tag \<in> set (n_tags node)) (nodes d))))
      else if py_startswith body ''kind:'' then kind_seeds d (drop 5 body) token
      else if map_of (nodes d) body = None then Inl (UnknownSelector body)
      else Inr [body])"

definition expand_token :: "project_dag \<Rightarrow> string list option \<Rightarrow> string \<Rightarrow> selection_error + string list" where
  "expand_token d modified token =
     (let up = py_startswith token ''+''; down = py_endswith token ''+''; body = py_strip_char CHR ''+'' token
      in if body = [] then Inl (EmptyToken token)
         else rbind (token_seeds d modified body token) (\<lambda>seeds.
           Inr (fold (\<lambda>seed result.
               let result = (if up then set_update (bfs seed (predecessors d)) result else result)
               in if down then set_update (bfs seed (successors d)) result else result)
             seeds (set_update seeds []))))"

fun apply_tokens :: "project_dag \<Rightarrow> string list option \<Rightarrow> string list \<Rightarrow> string list \<Rightarrow> selection_error + string list" where
  "apply_tokens d modified [] out = Inr out"
| "apply_tokens d modified (t # ts) out =
     rbind (expand_token d modified t) (\<lambda>ns. apply_tokens d modified ts (set_update ns out))"

definition apply_selector :: "project_dag \<Rightarrow> string list option \<Rightarrow> string \<Rightarrow> selection_error + string list" where
  "apply_selector d modified expression = apply_tokens d modified (py_split expression) []"

definition select_models :: "project_dag \<Rightarrow> string option \<Rightarrow> string option \<Rightarrow> string list option \<Rightarrow>
    selection_error + string list" where
  "select_models d select exclude modified =
     rbind (case select of
         Some s \<Rightarrow> if s \<noteq> [] then apply_selector d modified s else Inr (map fst (nodes d))
       | None \<Rightarrow> Inr (map fst (nodes d))) (\<lambda>selected.
     rbind (case exclude of
         Some s \<Rightarrow> if s \<noteq> [] then rbind (apply_selector d modified s) (\<lambda>out.
             Inr (filter (\<lambda>n. n \<notin> set out) selected)) else Inr selected
       | None \<Rightarrow> Inr selected) (\<lambda>selected.
     Inr (filter (\<lambda>n. n \<in> set selected \<and> runs d n) (sorted_names d))))"

definition all_nodes_in_order :: "project_dag \<Rightarrow> node list" where
  "all_nodes_in_order d = List.map_filter (map_of (nodes d)) (sorted_names d)"

section \<open>Rendering\<close>

definition mermaid_edges :: "(string list \<Rightarrow> string list) \<Rightarrow> project_dag \<Rightarrow> (string \<times> string) list" where
  "mermaid_edges iter d = concat (map (\<lambda>(n, ps). map (\<lambda>p. (p, n)) (iter ps)) (predecessors d))"

definition to_mermaid :: "(string list \<Rightarrow> string list) \<Rightarrow> project_dag \<Rightarrow> string" where
  "to_mermaid iter d =
     (let edges = mermaid_edges iter d;
          connected = set (map fst edges) \<union> set (map snd edges)
      in py_join [CHR 0x0A] (''graph LR'' # map (\<lambda>(p, n). ''    '' @ p @ '' --> '' @ n) edges
           @ map (\<lambda>n. ''    '' @ n) (filter (\<lambda>n. n \<notin> connected) (map fst (nodes d)))))"

end
