(* ===== verification/Dag_Build.thy ===== *)
theory Dag_Build
  imports Dag
begin

text \<open>
  What the construction of the project graph builds: a closed form of the node tables, the
  successor sets as the inverse of the predecessor sets, and the invariant \<open>dag_wf\<close> that every
  later operation relies on.
\<close>

section \<open>The node tables in closed form\<close>

definition dag_of :: "(node \<times> string list) list \<Rightarrow> project_dag" where
  "dag_of es = \<lparr>nodes = map (\<lambda>(n, ps). (n_name n, n)) es,
     predecessors = map (\<lambda>(n, ps). (n_name n, ps)) es,
     successors = map (\<lambda>(n, ps). (n_name n, [])) es, sorted_names = []\<rparr>"

definition names_of :: "(node \<times> string list) list \<Rightarrow> string list" where
  "names_of es = map (n_name \<circ> fst) es"

definition source_node :: "source_config \<Rightarrow> node" where
  "source_node s = \<lparr>n_name = s_name s, n_kind = SourceNode, n_tags = s_tags s, n_model_kind = None\<rparr>"

lemma names_of_simps [simp]:
  "names_of [] = []" "names_of (es @ fs) = names_of es @ names_of fs"
  "names_of ((n, ps) # es) = n_name n # names_of es"
  by (simp_all add: names_of_def)

lemma update_last: "k \<notin> fst ` set al \<Longrightarrow> AList.update k v (al @ [(k, w)]) = al @ [(k, v)]"
  by (induction al) auto

lemma add_node_dag_of:
  "add_node n (dag_of es) = (if n_name n \<in> set (names_of es) then Inl (DuplicateNode (n_name n))
     else Inr (dag_of (es @ [(n, [])])))"
proof -
  have k: "fst ` set (map (\<lambda>(n, ps). (n_name n, f n ps)) es) = set (names_of es)"
    for f :: "node \<Rightarrow> string list \<Rightarrow> 'x"
    by (force simp: names_of_def)
  show ?thesis
    using k [of "\<lambda>n ps. n"] k [of "\<lambda>n ps. ps"] k [of "\<lambda>n ps. []"]
    by (auto simp: add_node_def dag_of_def map_of_eq_None_iff update_new setdefault_def
        simp del: map_map set_map)
qed

lemma add_model_dag_of:
  "add_model re_ok m (dag_of es) =
     (if m_name m \<in> set (names_of es) then Inl (DuplicateNode (m_name m))
      else rbind (model_preds re_ok m) (\<lambda>ps. Inr (dag_of (es @ [(model_node m, ps)]))))"
proof -
  have n: "n_name (model_node m) = m_name m" by (simp add: model_node_def)
  have k: "fst ` set (map (\<lambda>(n, ps). (n_name n, ps)) es) = set (names_of es)"
    by (force simp: names_of_def)
  have "AList.update (m_name m) ps (predecessors (dag_of (es @ [(model_node m, [])]))) =
      predecessors (dag_of (es @ [(model_node m, ps)]))" if "m_name m \<notin> set (names_of es)" for ps
    using update_last [of "m_name m" "map (\<lambda>(n, ps). (n_name n, ps)) es", unfolded k, OF that]
    by (simp add: dag_of_def n)
  moreover have "(dag_of (es @ [(n, [])]))\<lparr>predecessors := predecessors (dag_of (es @ [(n, ps)]))\<rparr> =
      dag_of (es @ [(n, ps)])" for n ps
    by (simp add: dag_of_def)
  ultimately show ?thesis
    by (cases "model_preds re_ok m") (simp_all add: add_model_def add_node_dag_of n)
qed

lemma add_sources_ok:
  assumes "distinct (names_of es)"
  shows "add_all add_source ss (dag_of es) = Inr d \<longleftrightarrow>
    distinct (names_of es @ map s_name ss) \<and> d = dag_of (es @ map (\<lambda>s. (source_node s, [])) ss)"
  using assms
proof (induction ss arbitrary: es)
  case Nil
  then show ?case by auto
next
  case (Cons s ss)
  have "add_source s (dag_of es) = (if s_name s \<in> set (names_of es) then Inl (DuplicateNode (s_name s))
      else Inr (dag_of (es @ [(source_node s, [])])))"
    by (simp add: add_source_def add_node_dag_of source_node_def)
  with Cons.IH [of "es @ [(source_node s, [])]"] Cons.prems show ?case
    by (auto simp: source_node_def)
qed

lemma add_models_ok:
  assumes "distinct (names_of es)"
  shows "add_all (add_model re_ok) ms (dag_of es) = Inr d \<longleftrightarrow>
    distinct (names_of es @ map m_name ms) \<and>
    (\<exists>pss. list_all2 (\<lambda>m ps. model_preds re_ok m = Inr ps) ms pss \<and> d = dag_of (es @ zip (map model_node ms) pss))"
  using assms
proof (induction ms arbitrary: es)
  case Nil
  then show ?case by auto
next
  case (Cons m ms)
  have n: "n_name (model_node m) = m_name m" by (simp add: model_node_def)
  show ?case
  proof (cases "m_name m \<in> set (names_of es)")
    case True
    then show ?thesis by (simp add: add_model_dag_of)
  next
    case False
    show ?thesis
    proof (cases "model_preds re_ok m")
      case (Inl e)
      with False show ?thesis by (auto simp: add_model_dag_of list_all2_Cons1)
    next
      case (Inr ps)
      with False Cons.IH [of "es @ [(model_node m, ps)]"] Cons.prems n show ?thesis
        by (auto simp: add_model_dag_of list_all2_Cons1)
    qed
  qed
qed

section \<open>Linking successors\<close>

lemma adj_get_update: "adj_get (AList.update k v g) q = (if q = k then v else adj_get g q)"
  by (simp add: adj_get_def update_conv')

lemma link_preds_ok:
  "(\<exists>succs'. link_preds ns n ps succs = Inr succs') \<longleftrightarrow> set ps \<subseteq> fst ` set ns"
  by (induction ps arbitrary: succs) (auto simp: map_of_eq_None_iff)

lemma link_preds_result:
  "link_preds ns n ps succs = Inr succs' \<Longrightarrow>
     set (adj_get succs' q) = set (adj_get succs q) \<union> (if q \<in> set ps then {n} else {})"
  by (induction ps arbitrary: succs) (auto simp: adj_get_update split: if_splits)

lemma link_all_ok:
  assumes "\<forall>e \<in> set g. set (iter (snd e)) = set (snd e)"
  shows "(\<exists>succs'. link_all iter ns g succs = Inr succs') \<longleftrightarrow> (\<Union>e \<in> set g. set (snd e)) \<subseteq> fst ` set ns"
  using assms
proof (induction g arbitrary: succs)
  case Nil
  show ?case by simp
next
  case (Cons e g)
  obtain n ps where e: "e = (n, ps)" by (cases e)
  show ?case
    using e Cons.IH Cons.prems link_preds_ok [of ns n "iter ps" succs]
    by (cases "link_preds ns n (iter ps) succs") auto
qed

lemma link_all_result:
  assumes "link_all iter ns g succs = Inr succs'" "\<forall>e \<in> set g. set (iter (snd e)) = set (snd e)"
  shows "n \<in> set (adj_get succs' q) \<longleftrightarrow> n \<in> set (adj_get succs q) \<or> (\<exists>e \<in> set g. fst e = n \<and> q \<in> set (snd e))"
  using assms
proof (induction g arbitrary: succs)
  case Nil
  then show ?case by simp
next
  case (Cons e g)
  obtain m ps where e: "e = (m, ps)" by (cases e)
  with Cons.prems obtain s where s: "link_preds ns m (iter ps) succs = Inr s" "link_all iter ns g s = Inr succs'"
    by (auto simp: rbind_eq_Inr)
  with Cons.IH [OF s(2)] link_preds_result [OF s(1), of q] Cons.prems(2) e show ?case by auto
qed

section \<open>The invariant\<close>

definition dag_wf :: "project_dag \<Rightarrow> bool" where
  "dag_wf d \<longleftrightarrow> distinct (map fst (nodes d)) \<and> map fst (predecessors d) = map fst (nodes d)
     \<and> graph_ok (predecessors d) \<and> graph_nodes (predecessors d) = fst ` set (nodes d)
     \<and> (\<forall>p n. n \<in> set (adj_get (successors d) p) \<longleftrightarrow> p \<in> set (adj_get (predecessors d) n))
     \<and> topo_sorted (predecessors d) (sorted_names d)"

definition arranged :: "(string list \<Rightarrow> string list) \<Rightarrow> string graph \<Rightarrow> string graph" where
  "arranged iter g = map (\<lambda>(n, ps). (n, iter ps)) g"

lemma adj_get_arranged:
  "adj_get (arranged iter g) n = (case map_of g n of None \<Rightarrow> [] | Some ps \<Rightarrow> iter ps)"
  by (auto simp: adj_get_def [of "map _ g"] arranged_def map_of_map split: option.splits)

lemma arranged_same:
  assumes "keeps_elements iter" "graph_ok g"
  shows "set (adj_get (arranged iter g) n) = set (adj_get g n)"
    and "graph_ok (arranged iter g)" "graph_nodes (arranged iter g) = graph_nodes g"
    and "succ_rel (adj_get (arranged iter g)) = succ_rel (adj_get g)"
    and "topo_sorted (arranged iter g) = topo_sorted g"
proof -
  have i: "set (iter ps) = set ps" "distinct (iter ps)" if "(n, ps) \<in> set g" for n ps
    using assms that by (auto simp: keeps_elements_def graph_ok_def)
  show adj: "set (adj_get (arranged iter g) n) = set (adj_get g n)" for n
    using i by (cases "map_of g n") (auto simp: adj_get_arranged adj_get_def [of g] dest: map_of_SomeD)
  have keys: "map fst (arranged iter g) = map fst g"
    by (auto simp: arranged_def)
  with assms(2) i show "graph_ok (arranged iter g)"
    by (auto simp: graph_ok_def) (auto simp: arranged_def)
  have "fst ` set (arranged iter g) = fst ` set g" using keys by (metis set_map)
  moreover have "(\<Union>(n, ps) \<in> set (arranged iter g). set ps) = (\<Union>(n, ps) \<in> set g. set ps)"
    using i by (auto simp: arranged_def split_beta)
  ultimately show n: "graph_nodes (arranged iter g) = graph_nodes g" by (simp add: graph_nodes_def)
  show "succ_rel (adj_get (arranged iter g)) = succ_rel (adj_get g)"
    by (auto simp: succ_rel_def adj)
  show "topo_sorted (arranged iter g) = topo_sorted g"
    by (auto simp: topo_sorted_def fun_eq_iff n adj)
qed

definition entries :: "source_config list \<Rightarrow> model_config list \<Rightarrow> string list list \<Rightarrow> (node \<times> string list) list" where
  "entries ss ms pss = map (\<lambda>s. (source_node s, [])) ss @ zip (map model_node ms) pss"

lemma names_of_entries:
  "length pss = length ms \<Longrightarrow> names_of (entries ss ms pss) = map s_name ss @ map m_name ms"
proof (induction ms pss rule: list_induct2')
  case (4 m ms ps pss)
  then show ?case by (simp add: entries_def names_of_def source_node_def model_node_def comp_def)
qed (simp_all add: entries_def names_of_def source_node_def comp_def)

lemma distinct_model_preds: "model_preds re_ok m = Inr ps \<Longrightarrow> distinct ps"
  by (auto simp: model_preds_def declared_refs_def Let_def split: sum.splits option.splits if_splits)

lemma dag_of_graph:
  assumes "distinct (names_of es)" "\<forall>e \<in> set es. distinct (snd e)"
  shows "map fst (nodes (dag_of es)) = names_of es" "map fst (predecessors (dag_of es)) = names_of es"
    and "graph_ok (predecessors (dag_of es))" "adj_get (successors (dag_of es)) q = []"
proof -
  show n: "map fst (nodes (dag_of es)) = names_of es" "map fst (predecessors (dag_of es)) = names_of es"
    by (auto simp: dag_of_def names_of_def)
  show "graph_ok (predecessors (dag_of es))"
    using assms n(2) by (auto simp: graph_ok_def) (auto simp: dag_of_def)
  show "adj_get (successors (dag_of es)) q = []"
    by (auto simp: dag_of_def adj_get_def dest: map_of_SomeD split: option.splits)
qed

definition refs_known :: "(node \<times> string list) list \<Rightarrow> bool" where
  "refs_known es \<longleftrightarrow> (\<Union>e \<in> set es. set (snd e)) \<subseteq> set (names_of es)"

lemma graph_nodes_dag_of:
  "refs_known es \<Longrightarrow> graph_nodes (predecessors (dag_of es)) = set (names_of es)"
proof -
  assume k: "refs_known es"
  have "fst ` set (predecessors (dag_of es)) = set (names_of es)"
    by (force simp: dag_of_def names_of_def)
  moreover have "(\<Union>(n, ps) \<in> set (predecessors (dag_of es)). set ps) = (\<Union>e \<in> set es. set (snd e))"
    by (auto simp: dag_of_def)
  ultimately show ?thesis using k by (auto simp: graph_nodes_def refs_known_def)
qed

lemma case_option_Inr:
  "(case x of None \<Rightarrow> Inl e | Some y \<Rightarrow> Inr (f y)) = Inr z \<longleftrightarrow> (\<exists>y. x = Some y \<and> z = f y)"
  by (auto split: option.splits)

text \<open>The construction in closed form.\<close>

lemma build_dag_eq:
  assumes iter: "keeps_elements iter"
  shows "build_dag iter re_ok ss ms = Inr d \<longleftrightarrow>
    distinct (map s_name ss @ map m_name ms) \<and>
    (\<exists>pss succs order. list_all2 (\<lambda>m ps. model_preds re_ok m = Inr ps) ms pss
       \<and> refs_known (entries ss ms pss)
       \<and> link_all iter (nodes (dag_of (entries ss ms pss))) (predecessors (dag_of (entries ss ms pss)))
           (successors (dag_of (entries ss ms pss))) = Inr succs
       \<and> static_order (arranged iter (predecessors (dag_of (entries ss ms pss)))) = Some order
       \<and> d = (dag_of (entries ss ms pss))\<lparr>successors := succs, sorted_names := order\<rparr>)"
    (is "_ \<longleftrightarrow> ?dist \<and> (\<exists>pss succs order. ?p pss succs order)")
proof -
  have empty: "empty_dag = dag_of []" by (simp add: empty_dag_def dag_of_def)
  have known: "refs_known (entries ss ms pss)"
    if "link_all iter (nodes (dag_of es)) (predecessors (dag_of es)) (successors (dag_of es)) = Inr succs"
      "list_all2 (\<lambda>m ps. model_preds re_ok m = Inr ps) ms pss" "es = entries ss ms pss" ?dist
    for es pss succs
  proof -
    have names: "names_of es = map s_name ss @ map m_name ms"
      using that(2,3) by (simp add: names_of_entries list_all2_lengthD)
    have "\<forall>e \<in> set es. distinct (snd e)"
      using that(2,3) distinct_model_preds
      by (fastforce simp: entries_def list_all2_conv_all_nth set_zip)
    then have "\<forall>e \<in> set (predecessors (dag_of es)). set (iter (snd e)) = set (snd e)"
      using iter by (auto simp: keeps_elements_def dag_of_def)
    from link_all_ok [OF this] that(1)
    have "(\<Union>e \<in> set (predecessors (dag_of es)). set (snd e)) \<subseteq> fst ` set (nodes (dag_of es))" by blast
    moreover have "fst ` set (nodes (dag_of es)) = set (names_of es)"
      by (force simp: dag_of_def names_of_def)
    moreover have "(\<Union>e \<in> set (predecessors (dag_of es)). set (snd e)) = (\<Union>e \<in> set es. set (snd e))"
      by (auto simp: dag_of_def)
    ultimately show ?thesis using that(3) by (simp add: refs_known_def)
  qed
  have names: "names_of (map (\<lambda>s. (source_node s, [])) ss) = map s_name ss"
    by (simp add: names_of_def source_node_def comp_def)
  define F where "F d2 succs order \<longleftrightarrow> link_all iter (nodes d2) (predecessors d2) (successors d2) = Inr succs
      \<and> static_order (arranged iter (predecessors d2)) = Some order
      \<and> d = d2\<lparr>successors := succs, sorted_names := order\<rparr>" for d2 succs order
  define L where "L = list_all2 (\<lambda>m ps. model_preds re_ok m = Inr ps) ms"
  let ?S = "map (\<lambda>s. (source_node s, [])) ss"
  have "build_dag iter re_ok ss ms = Inr d \<longleftrightarrow> (\<exists>d1 d2. add_all add_source ss empty_dag = Inr d1
      \<and> add_all (add_model re_ok) ms d1 = Inr d2 \<and> (\<exists>succs order. F d2 succs order))"
    by (simp add: build_dag_def rbind_eq_Inr case_option_Inr F_def arranged_def)
  also have "\<dots> \<longleftrightarrow> distinct (map s_name ss) \<and>
      (\<exists>d2. add_all (add_model re_ok) ms (dag_of ?S) = Inr d2 \<and> (\<exists>succs order. F d2 succs order))"
    by (simp add: empty add_sources_ok)
  also have "\<dots> \<longleftrightarrow> ?dist \<and> (\<exists>pss succs order. L pss \<and> F (dag_of (entries ss ms pss)) succs order)"
  proof (cases "distinct (map s_name ss)")
    case True
    then have "add_all (add_model re_ok) ms (dag_of ?S) = Inr d2 \<longleftrightarrow>
        ?dist \<and> (\<exists>pss. L pss \<and> d2 = dag_of (entries ss ms pss))" for d2
      using add_models_ok [of ?S re_ok ms d2] by (simp add: names L_def entries_def)
    with True show ?thesis by auto
  qed simp
  finally have "build_dag iter re_ok ss ms = Inr d \<longleftrightarrow>
      ?dist \<and> (\<exists>pss succs order. L pss \<and> F (dag_of (entries ss ms pss)) succs order)" .
  then have "build_dag iter re_ok ss ms = Inr d \<longleftrightarrow> ?dist \<and> (\<exists>pss succs order. L pss \<and>
      refs_known (entries ss ms pss) \<and> F (dag_of (entries ss ms pss)) succs order)"
    using known unfolding F_def L_def by blast
  then show ?thesis unfolding F_def L_def .
qed

lemma dag_of_lookup:
  assumes "distinct (names_of es)" "(n, ps) \<in> set es"
  shows "map_of (nodes (dag_of es)) (n_name n) = Some n"
    and "adj_get (predecessors (dag_of es)) (n_name n) = ps"
proof -
  have d: "distinct (map fst (map (\<lambda>(n, ps). (n_name n, n)) es))"
    "distinct (map fst (map (\<lambda>(n, ps). (n_name n, ps)) es))"
    using assms(1) by (simp_all add: names_of_def comp_def split_beta)
  show "map_of (nodes (dag_of es)) (n_name n) = Some n"
    using map_of_is_SomeI [OF d(1)] assms(2) by (force simp: dag_of_def)
  have "map_of (predecessors (dag_of es)) (n_name n) = Some ps"
    using map_of_is_SomeI [OF d(2)] assms(2) by (force simp: dag_of_def)
  then show "adj_get (predecessors (dag_of es)) (n_name n) = ps" by (simp add: adj_get_def)
qed

lemma entries_distinct:
  "list_all2 (\<lambda>m ps. model_preds re_ok m = Inr ps) ms pss \<Longrightarrow> \<forall>e \<in> set (entries ss ms pss). distinct (snd e)"
  using distinct_model_preds by (fastforce simp: entries_def list_all2_conv_all_nth set_zip)

lemma build_dag_wf:
  assumes iter: "keeps_elements iter" and b: "build_dag iter re_ok ss ms = Inr d"
  shows "dag_wf d" "map fst (nodes d) = map s_name ss @ map m_name ms"
    and "s \<in> set ss \<Longrightarrow> map_of (nodes d) (s_name s) = Some (source_node s) \<and> adj_get (predecessors d) (s_name s) = []"
    and "m \<in> set ms \<Longrightarrow> map_of (nodes d) (m_name m) = Some (model_node m)
          \<and> model_preds re_ok m = Inr (adj_get (predecessors d) (m_name m))"
proof -
  from b obtain pss succs order where dist: "distinct (map s_name ss @ map m_name ms)"
    and l: "list_all2 (\<lambda>m ps. model_preds re_ok m = Inr ps) ms pss"
    and known: "refs_known (entries ss ms pss)"
    and link: "link_all iter (nodes (dag_of (entries ss ms pss))) (predecessors (dag_of (entries ss ms pss)))
           (successors (dag_of (entries ss ms pss))) = Inr succs"
    and order: "static_order (arranged iter (predecessors (dag_of (entries ss ms pss)))) = Some order"
    and d: "d = (dag_of (entries ss ms pss))\<lparr>successors := succs, sorted_names := order\<rparr>"
    unfolding build_dag_eq [OF iter] by blast
  let ?es = "entries ss ms pss" and ?g = "predecessors (dag_of (entries ss ms pss))"
  have names: "names_of ?es = map s_name ss @ map m_name ms"
    using l by (simp add: names_of_entries list_all2_lengthD)
  with dist have dn: "distinct (names_of ?es)" by simp
  note g = dag_of_graph [OF dn entries_distinct [OF l]]
  note arr = arranged_same [OF iter g(3)]
  have "topo_sorted ?g order"
    using static_order_sorted(2) [OF arr(2) order] by (simp add: arr(5))
  moreover have "n \<in> set (adj_get succs p) \<longleftrightarrow> p \<in> set (adj_get ?g n)" for n p
  proof -
    have keep: "\<forall>e \<in> set ?g. set (iter (snd e)) = set (snd e)"
      using iter g(3) by (auto simp: keeps_elements_def graph_ok_def)
    have "(\<exists>e \<in> set ?g. fst e = n \<and> p \<in> set (snd e)) \<longleftrightarrow> p \<in> set (adj_get ?g n)"
      using g(3) by (force simp: adj_get_def graph_ok_def map_of_eq_Some_iff split: option.splits)
    with link_all_result [OF link keep, of n p] g(4) show ?thesis by simp
  qed
  moreover have "fst ` set (nodes (dag_of ?es)) = set (names_of ?es)" using g(1) by (metis set_map)
  ultimately show "dag_wf d"
    using dn g graph_nodes_dag_of [OF known] by (simp add: d dag_wf_def)
  show "map fst (nodes d) = map s_name ss @ map m_name ms" using g(1) names by (simp add: d)
  show "map_of (nodes d) (s_name s) = Some (source_node s) \<and> adj_get (predecessors d) (s_name s) = []"
    if "s \<in> set ss"
    using dag_of_lookup [OF dn, of "source_node s" "[]"] that by (simp add: d entries_def source_node_def)
  show "map_of (nodes d) (m_name m) = Some (model_node m)
      \<and> model_preds re_ok m = Inr (adj_get (predecessors d) (m_name m))" if m: "m \<in> set ms"
  proof -
    from m obtain i where i: "i < length ms" "ms ! i = m" by (auto simp: in_set_conv_nth)
    with l have "model_preds re_ok m = Inr (pss ! i)" "i < length pss"
      by (auto simp: list_all2_conv_all_nth)
    moreover from this i have "(model_node m, pss ! i) \<in> set ?es"
      by (force simp: entries_def set_zip)
    ultimately show ?thesis
      using dag_of_lookup [OF dn, of "model_node m" "pss ! i"] by (simp add: d model_node_def)
  qed
qed

lemma dag_wfD:
  assumes "dag_wf d"
  shows "distinct (map fst (nodes d))" "graph_ok (predecessors d)"
    and "graph_nodes (predecessors d) = fst ` set (nodes d)" "set (sorted_names d) = fst ` set (nodes d)"
    and "distinct (sorted_names d)" "fst ` set (predecessors d) = fst ` set (nodes d)"
    and "sorted_names d = xs @ n # ys \<Longrightarrow> set (adj_get (predecessors d) n) \<subseteq> set xs"
    and "n \<in> set (adj_get (successors d) p) \<longleftrightarrow> p \<in> set (adj_get (predecessors d) n)"
    and "p \<in> set (adj_get (predecessors d) n) \<Longrightarrow> n \<in> fst ` set (nodes d) \<and> p \<in> fst ` set (nodes d)"
proof -
  note w = assms [unfolded dag_wf_def topo_sorted_def]
  show "distinct (map fst (nodes d))" "graph_ok (predecessors d)" "distinct (sorted_names d)"
    using w by simp_all
  show n: "graph_nodes (predecessors d) = fst ` set (nodes d)" using w by simp
  then show "set (sorted_names d) = fst ` set (nodes d)" using w by simp
  show "fst ` set (predecessors d) = fst ` set (nodes d)" using w by (metis set_map)
  show "sorted_names d = xs @ n # ys \<Longrightarrow> set (adj_get (predecessors d) n) \<subseteq> set xs" using w by blast
  show "n \<in> set (adj_get (successors d) p) \<longleftrightarrow> p \<in> set (adj_get (predecessors d) n)" using w by blast
  show "p \<in> set (adj_get (predecessors d) n) \<Longrightarrow> n \<in> fst ` set (nodes d) \<and> p \<in> fst ` set (nodes d)"
    using adj_get_nodes [of p "predecessors d" n] n by simp
qed

text \<open>A sorted graph has no cycle.\<close>

lemma topo_sorted_acyclic:
  assumes "topo_sorted g order"
  shows "acyclic (succ_rel (adj_get g))"
proof -
  have less: "py_index order p < py_index order n" if "(n, p) \<in> succ_rel (adj_get g)" for n p
  proof -
    have "n \<in> set order" using assms that by (auto simp: topo_sorted_def dest: adj_get_nodes)
    then obtain xs ys where o: "order = xs @ n # ys" "n \<notin> set xs" by (metis split_list_first)
    with assms have "set (adj_get g n) \<subseteq> set xs" unfolding topo_sorted_def by blast
    with that have p: "p \<in> set xs" by auto
    with o have "py_index order n = length xs"
      by (auto simp: py_index_def takeWhile_append)
    moreover have "py_index order p = py_index xs p"
      using o(1) p by (auto simp: py_index_def takeWhile_append)
    ultimately show ?thesis using py_index_less [OF p] by simp
  qed
  have "py_index order p < py_index order n" if "(n, p) \<in> (succ_rel (adj_get g))\<^sup>+" for n p
    using that by (induction rule: trancl_induct) (use less in fastforce)+
  then show ?thesis unfolding acyclic_def by (meson less_irrefl)
qed

end
