(* ===== verification/Dag_Props.thy ===== *)
theory Dag_Props
  imports Dag_Build
begin

text \<open>The properties of the project graph.\<close>

section \<open>A small project for the witnesses\<close>

definition ex_sources :: "source_config list" where
  "ex_sources = [\<lparr>s_name = ''raw'', s_tags = [''x'']\<rparr>]"

definition ex_model :: "string \<Rightarrow> string option \<Rightarrow> string list option \<Rightarrow> model_kind \<Rightarrow> model_config" where
  "ex_model n src deps k = \<lparr>m_name = n, m_source = src, m_depends_on = deps, m_kinds = [k],
     m_tags = [], m_tests = [], m_golden_sets = []\<rparr>"

definition ex_models :: "model_config list" where
  "ex_models = [ex_model ''idx'' None (Some [''emb'', ''docs'']) Search,
     ex_model ''docs'' (Some ''raw'') None Extraction, ex_model ''emb'' None (Some [''docs'']) Embed]"

definition ex_dag :: project_dag where
  "ex_dag = projr (build_dag rev (\<lambda>_. True) ex_sources ex_models)"

lemma ex_dag: "keeps_elements (rev :: string list \<Rightarrow> string list)"
  "build_dag rev (\<lambda>_. True) ex_sources ex_models = Inr ex_dag"
proof -
  show "keeps_elements (rev :: string list \<Rightarrow> string list)" by (simp add: keeps_elements_def)
  have "is_ok (build_dag rev (\<lambda>_. True) ex_sources ex_models)" by code_simp
  then show "build_dag rev (\<lambda>_. True) ex_sources ex_models = Inr ex_dag"
    by (auto simp: ex_dag_def is_ok_iff)
qed

section \<open>Construction\<close>

text \<open>The graph a project declares, before it is checked.\<close>

definition declared_graph :: "(string \<Rightarrow> bool) \<Rightarrow> source_config list \<Rightarrow> model_config list \<Rightarrow> (string \<times> string) set" where
  "declared_graph re_ok ss ms = {(m_name m, p) | m p ps. m \<in> set ms \<and> model_preds re_ok m = Inr ps \<and> p \<in> set ps}"

lemma declared_graph_entries:
  assumes "list_all2 (\<lambda>m ps. model_preds re_ok m = Inr ps) ms pss"
    and "distinct (map s_name ss @ map m_name ms)"
  shows "succ_rel (adj_get (predecessors (dag_of (entries ss ms pss)))) = declared_graph re_ok ss ms"
    and "(\<Union>e \<in> set (entries ss ms pss). set (snd e)) = Range (declared_graph re_ok ss ms)"
proof -
  let ?es = "entries ss ms pss" and ?g = "predecessors (dag_of (entries ss ms pss))"
  have len: "length pss = length ms" using assms(1) by (simp add: list_all2_lengthD)
  have dn: "distinct (names_of ?es)" using assms(2) len by (simp add: names_of_entries)
  have mem: "(n, p) \<in> declared_graph re_ok ss ms \<longleftrightarrow> (\<exists>e \<in> set ?es. n_name (fst e) = n \<and> p \<in> set (snd e))" for n p
  proof
    assume "(n, p) \<in> declared_graph re_ok ss ms"
    then obtain m ps where m: "m \<in> set ms" "n = m_name m" "model_preds re_ok m = Inr ps" "p \<in> set ps"
      by (auto simp: declared_graph_def)
    then obtain i where i: "i < length ms" "m = ms ! i" by (auto simp: in_set_conv_nth)
    with assms(1) m have "ps = pss ! i" by (auto simp: list_all2_conv_all_nth)
    with i len have "(model_node m, ps) \<in> set (zip (map model_node ms) pss)"
      unfolding in_set_zip by (intro exI [of _ i]) simp
    then have "(model_node m, ps) \<in> set ?es" by (simp add: entries_def)
    then show "\<exists>e \<in> set ?es. n_name (fst e) = n \<and> p \<in> set (snd e)"
      using m(2,4) by (intro bexI [of _ "(model_node m, ps)"]) (simp_all add: model_node_def)
  next
    assume "\<exists>e \<in> set ?es. n_name (fst e) = n \<and> p \<in> set (snd e)"
    then obtain i where "i < length ms" "n = m_name (ms ! i)" "p \<in> set (pss ! i)"
      using len by (auto simp: entries_def set_zip model_node_def)
    with assms(1) show "(n, p) \<in> declared_graph re_ok ss ms"
      by (auto simp: declared_graph_def list_all2_conv_all_nth)
  qed
  have "p \<in> set (adj_get ?g n) \<longleftrightarrow> (\<exists>e \<in> set ?es. n_name (fst e) = n \<and> p \<in> set (snd e))" for n p
  proof
    assume p: "p \<in> set (adj_get ?g n)"
    then obtain ps where "map_of ?g n = Some ps" "p \<in> set ps"
      by (cases "map_of ?g n") (auto simp: adj_get_def)
    from map_of_SomeD [OF this(1)] this(2) show "\<exists>e \<in> set ?es. n_name (fst e) = n \<and> p \<in> set (snd e)"
      by (force simp: dag_of_def)
  next
    assume "\<exists>e \<in> set ?es. n_name (fst e) = n \<and> p \<in> set (snd e)"
    then show "p \<in> set (adj_get ?g n)" using dag_of_lookup(2) [OF dn] by fastforce
  qed
  with mem show "succ_rel (adj_get ?g) = declared_graph re_ok ss ms" by (auto simp: succ_rel_def)
  from mem show "(\<Union>e \<in> set ?es. set (snd e)) = Range (declared_graph re_ok ss ms)" by blast
qed

lemma all_preds_ok:
  "(\<forall>m \<in> set ms. is_ok (model_preds re_ok m)) \<longleftrightarrow> (\<exists>pss. list_all2 (\<lambda>m ps. model_preds re_ok m = Inr ps) ms pss)"
  by (induction ms) (auto simp: list_all2_Cons1 is_ok_iff)

text \<open>
  C10: a project graph is built exactly when node names are unique, every test specification
  parses, every reference (sources, dependencies, test targets, golden sets) names a declared
  node, and the declared references have no cycle; otherwise construction raises.
\<close>

theorem build_dag_accepts_iff:
  assumes "keeps_elements iter"
  shows "is_ok (build_dag iter re_ok ss ms) \<longleftrightarrow>
    distinct (map s_name ss @ map m_name ms)
    \<and> list_all (\<lambda>m. is_ok (model_preds re_ok m)) ms
    \<and> Range (declared_graph re_ok ss ms) \<subseteq> set (map s_name ss @ map m_name ms)
    \<and> acyclic (declared_graph re_ok ss ms)" (is "_ \<longleftrightarrow> ?dist \<and> ?tests \<and> ?known \<and> ?acyclic")
proof -
  have step: "refs_known (entries ss ms pss) \<longleftrightarrow> ?known"
    "static_order (arranged iter (predecessors (dag_of (entries ss ms pss)))) \<noteq> None \<longleftrightarrow> ?acyclic"
    "refs_known (entries ss ms pss) \<Longrightarrow> \<exists>succs. link_all iter (nodes (dag_of (entries ss ms pss)))
       (predecessors (dag_of (entries ss ms pss))) (successors (dag_of (entries ss ms pss))) = Inr succs"
    if l: "list_all2 (\<lambda>m ps. model_preds re_ok m = Inr ps) ms pss" and ?dist for pss
  proof -
    let ?es = "entries ss ms pss"
    have names: "names_of ?es = map s_name ss @ map m_name ms"
      using l by (simp add: names_of_entries list_all2_lengthD)
    with \<open>?dist\<close> have dn: "distinct (names_of ?es)" by simp
    note g = dag_of_graph [OF dn entries_distinct [OF l]]
    note e = declared_graph_entries [OF l \<open>?dist\<close>]
    show "refs_known ?es \<longleftrightarrow> ?known" using names e(2) by (simp add: refs_known_def)
    show "static_order (arranged iter (predecessors (dag_of ?es))) \<noteq> None \<longleftrightarrow> ?acyclic"
      using static_order_sorted(1) arranged_same [OF assms g(3)] e(1) by metis
    assume k: "refs_known ?es"
    have keep: "\<forall>e \<in> set (predecessors (dag_of ?es)). set (iter (snd e)) = set (snd e)"
      using assms g(3) by (auto simp: keeps_elements_def graph_ok_def)
    have "fst ` set (nodes (dag_of ?es)) = set (names_of ?es)" using g(1) by (metis set_map)
    moreover have "(\<Union>e \<in> set (predecessors (dag_of ?es)). set (snd e)) = (\<Union>e \<in> set ?es. set (snd e))"
      by (auto simp: dag_of_def)
    ultimately show "\<exists>succs. link_all iter (nodes (dag_of ?es)) (predecessors (dag_of ?es))
        (successors (dag_of ?es)) = Inr succs"
      using link_all_ok [OF keep] k by (simp add: refs_known_def)
  qed
  have tests: "?tests \<longleftrightarrow> (\<exists>pss. list_all2 (\<lambda>m ps. model_preds re_ok m = Inr ps) ms pss)"
    using all_preds_ok by (simp add: list_all_iff)
  show ?thesis
  proof
    assume "is_ok (build_dag iter re_ok ss ms)"
    then obtain d where "build_dag iter re_ok ss ms = Inr d" by (auto simp: is_ok_iff)
    then obtain pss order where "?dist" "list_all2 (\<lambda>m ps. model_preds re_ok m = Inr ps) ms pss"
      "refs_known (entries ss ms pss)"
      "static_order (arranged iter (predecessors (dag_of (entries ss ms pss)))) = Some order"
      unfolding build_dag_eq [OF assms] by blast
    with step tests show "?dist \<and> ?tests \<and> ?known \<and> ?acyclic" by (metis option.discI)
  next
    assume r: "?dist \<and> ?tests \<and> ?known \<and> ?acyclic"
    with tests obtain pss where l: "list_all2 (\<lambda>m ps. model_preds re_ok m = Inr ps) ms pss" by blast
    with r step [OF l] obtain succs order where
      "refs_known (entries ss ms pss)" "link_all iter (nodes (dag_of (entries ss ms pss)))
       (predecessors (dag_of (entries ss ms pss))) (successors (dag_of (entries ss ms pss))) = Inr succs"
      "static_order (arranged iter (predecessors (dag_of (entries ss ms pss)))) = Some order"
      by auto
    with r l show "is_ok (build_dag iter re_ok ss ms)"
      unfolding is_ok_iff build_dag_eq [OF assms] by blast
  qed
qed

theorem build_dag_accepts_iff_witness:
  "\<not> is_ok (build_dag rev (\<lambda>_. True) ex_sources [ex_model ''a'' None (Some [''a'']) Embed])
   \<and> \<not> acyclic (declared_graph (\<lambda>_. True) ex_sources [ex_model ''a'' None (Some [''a'']) Embed])"
proof -
  let ?ms = "[ex_model ''a'' None (Some [''a'']) Embed]"
  have bad: "\<not> is_ok (build_dag rev (\<lambda>_. True) ex_sources ?ms)" by code_simp
  have preds: "model_preds (\<lambda>_. True) (hd ?ms) = Inr [''a'']" by code_simp
  have "distinct (map s_name ex_sources @ map m_name ?ms)"
    by (simp add: ex_sources_def ex_model_def)
  moreover have "declared_graph (\<lambda>_. True) ex_sources ?ms = {(''a'', ''a'')}"
    using preds by (auto simp: declared_graph_def ex_model_def)
  ultimately show ?thesis
    using build_dag_accepts_iff [OF ex_dag(1), of "\<lambda>_. True" ex_sources ?ms] bad preds
    by (auto simp: ex_model_def)
qed

section \<open>Order\<close>

lemma runs_iff:
  assumes "keeps_elements iter" "build_dag iter re_ok ss ms = Inr d" "n \<in> fst ` set (nodes d)"
  shows "runs d n \<longleftrightarrow> n \<in> m_name ` set ms"
proof -
  note w = build_dag_wf [OF assms(1,2)]
  have "n \<in> set (map s_name ss @ map m_name ms)" using assms(3) w(2) by (metis set_map)
  then consider s where "s \<in> set ss" "n = s_name s" | m where "m \<in> set ms" "n = m_name m" by auto
  then show ?thesis
  proof cases
    case 1
    have "distinct (map s_name ss @ map m_name ms)" using dag_wfD(1) [OF w(1)] w(2) by simp
    with 1 w(3) [OF 1(1)] show ?thesis by (auto simp: runs_def node_kind_of_def source_node_def)
  next
    case 2
    with w(4) [OF 2(1)] show ?thesis by (auto simp: runs_def node_kind_of_def model_node_def)
  qed
qed

lemma filter_split: "filter P xs = as @ x # bs \<Longrightarrow> \<exists>ys zs. xs = ys @ x # zs \<and> as = filter P ys"
  by (induction xs arbitrary: as) (auto simp: Cons_eq_append_conv append_eq_Cons_conv
      intro: exI [of _ "_ # _"] split: if_splits, (metis append_Cons filter.simps)+)

text \<open>
  C23: the execution order lists every declared model exactly once and no source, and each model
  comes after every model it refers to, whichever kind of reference that is.
\<close>

theorem execution_order_respects_references:
  assumes "keeps_elements iter" "build_dag iter re_ok ss ms = Inr d"
  shows "distinct (execution_order d) \<and> set (execution_order d) = m_name ` set ms
    \<and> (\<forall>m m' xs ys ps. m \<in> set ms \<longrightarrow> m' \<in> set ms \<longrightarrow> model_preds re_ok m = Inr ps \<longrightarrow> m_name m' \<in> set ps
         \<longrightarrow> execution_order d = xs @ m_name m # ys \<longrightarrow> m_name m' \<in> set xs)"
proof -
  note w = build_dag_wf [OF assms]
  note wf = dag_wfD [OF w(1)]
  have names: "fst ` set (nodes d) = s_name ` set ss \<union> m_name ` set ms"
    using w(2) by (metis set_append set_map)
  have set: "set (execution_order d) = m_name ` set ms"
    using runs_iff [OF assms] wf(4) names by (auto simp: execution_order_def)
  moreover have "m_name m' \<in> set xs"
    if m: "m \<in> set ms" "m' \<in> set ms" "model_preds re_ok m = Inr ps" "m_name m' \<in> set ps"
      "execution_order d = xs @ m_name m # ys" for m m' xs ys ps
  proof -
    from m(5) obtain us vs where u: "sorted_names d = us @ m_name m # vs" "xs = filter (runs d) us"
      unfolding execution_order_def by (blast dest: filter_split)
    have "set (adj_get (predecessors d) (m_name m)) \<subseteq> set us" by (rule wf(7) [OF u(1)])
    moreover have "adj_get (predecessors d) (m_name m) = ps" using w(4) [OF m(1)] m(3) by simp
    ultimately have "m_name m' \<in> set us" using m(4) by auto
    moreover have "runs d (m_name m')" using runs_iff [OF assms, of "m_name m'"] m(2) names by auto
    ultimately show ?thesis by (simp add: u(2))
  qed
  moreover have "distinct (execution_order d)" using wf(5) by (simp add: execution_order_def)
  ultimately show ?thesis by blast
qed

theorem execution_order_respects_references_witness:
  "execution_order ex_dag = [''docs'', ''emb'', ''idx''] \<and> distinct (execution_order ex_dag)
   \<and> set (execution_order ex_dag) = m_name ` set ex_models"
proof -
  have "execution_order ex_dag = [''docs'', ''emb'', ''idx'']" by code_simp
  with execution_order_respects_references [OF ex_dag] show ?thesis by blast
qed

text \<open>
  the ancestors of a node are exactly the nodes it transitively refers to and its descendants
  exactly the nodes that transitively refer to it; the two are inverse to each other and no node
  is its own ancestor.
\<close>

theorem ancestors_descendants_exact:
  assumes "keeps_elements iter" "build_dag iter re_ok ss ms = Inr d"
  shows "set (ancestors d n) = {p. (n, p) \<in> (declared_graph re_ok ss ms)\<^sup>+}
    \<and> set (descendants d n) = {m. (m, n) \<in> (declared_graph re_ok ss ms)\<^sup>+}
    \<and> n \<notin> set (ancestors d n)"
proof -
  note w = build_dag_wf [OF assms]
  note wf = dag_wfD [OF w(1)]
  let ?R = "succ_rel (adj_get (predecessors d))"
  have "(u, v) \<in> ?R \<longleftrightarrow> (u, v) \<in> declared_graph re_ok ss ms" for u v
  proof
    assume e: "(u, v) \<in> ?R"
    then have "u \<in> set (map s_name ss @ map m_name ms)" using wf(9) [of v u] w(2) by (metis in_succ_rel set_map)
    then obtain m where "m \<in> set ms" "u = m_name m" using e w(3) by auto
    with e w(4) [of m] show "(u, v) \<in> declared_graph re_ok ss ms" by (auto simp: declared_graph_def)
  next
    assume "(u, v) \<in> declared_graph re_ok ss ms"
    with w(4) show "(u, v) \<in> ?R" by (auto simp: declared_graph_def)
  qed
  then have R: "?R = declared_graph re_ok ss ms" by auto
  have "succ_rel (adj_get (successors d)) = ?R\<inverse>" using wf(8) by (auto simp: succ_rel_def)
  then have "(succ_rel (adj_get (successors d)))\<^sup>+ = (?R\<^sup>+)\<inverse>" by (simp add: trancl_converse)
  moreover have "acyclic ?R" using w(1) by (auto simp: dag_wf_def intro: topo_sorted_acyclic)
  ultimately show ?thesis
    by (auto simp: ancestors_def descendants_def set_bfs R acyclic_def)
qed

theorem ancestors_descendants_exact_witness:
  "set (descendants ex_dag ''raw'') = {''docs'', ''emb'', ''idx''}
   \<and> (''idx'', ''raw'') \<in> (declared_graph (\<lambda>_. True) ex_sources ex_models)\<^sup>+"
proof -
  have "set (descendants ex_dag ''raw'') = {''docs'', ''emb'', ''idx''}" by code_simp
  with ancestors_descendants_exact [OF ex_dag, of "''raw''"] show ?thesis by auto
qed

text \<open>
  The sources a set of models requires are exactly the sources they transitively refer to,
  each once and in graph order; an unknown model is an error.
\<close>

theorem required_sources_exact:
  assumes "keeps_elements iter" "build_dag iter re_ok ss ms = Inr d"
  shows "(case required_sources d names of
      Inr rs \<Rightarrow> set names \<subseteq> fst ` set (nodes d)
        \<and> rs = filter (\<lambda>n. n \<in> s_name ` set ss \<and> (\<exists>m \<in> set names. n \<in> set (ancestors d m))) (sorted_names d)
    | Inl e \<Rightarrow> \<exists>m \<in> set names. m \<notin> fst ` set (nodes d) \<and> e = UnknownModel m)"
proof -
  note w = build_dag_wf [OF assms]
  note wf = dag_wfD [OF w(1)]
  let ?src = "\<lambda>n. filter (\<lambda>a. node_kind_of d a = Some SourceNode) (bfs n (predecessors d))"
  have loop: "case required_loop d names acc of
      Inr rs \<Rightarrow> set names \<subseteq> fst ` set (nodes d) \<and> set rs = set acc \<union> (\<Union>m \<in> set names. set (?src m))
    | Inl e \<Rightarrow> \<exists>m \<in> set names. m \<notin> fst ` set (nodes d) \<and> e = UnknownModel m" for acc
  proof (induction names arbitrary: acc)
    case (Cons n names)
    show ?case
    proof (cases "n \<in> fst ` set (nodes d)")
      case True
      then have "required_loop d (n # names) acc = required_loop d names (set_update (?src n) acc)"
        by (simp add: map_of_eq_None_iff)
      with Cons.IH [of "set_update (?src n) acc"] True show ?thesis
        by (cases "required_loop d names (set_update (?src n) acc)") auto
    next
      case False
      then show ?thesis by (simp add: map_of_eq_None_iff [THEN iffD2])
    qed
  qed simp
  have "node_kind_of d a = Some SourceNode \<longleftrightarrow> a \<in> s_name ` set ss" if "a \<in> fst ` set (nodes d)" for a
  proof -
    have "a \<in> set (map s_name ss @ map m_name ms)" using that w(2) by (metis set_map)
    moreover have "distinct (map s_name ss @ map m_name ms)" using wf(1) w(2) by simp
    ultimately show ?thesis
      using w(3,4) by (auto simp: node_kind_of_def source_node_def model_node_def split: if_splits)
  qed
  then have "filter (\<lambda>n. n \<in> (\<Union>m \<in> set names. set (?src m))) (sorted_names d) =
      filter (\<lambda>n. n \<in> s_name ` set ss \<and> (\<exists>m \<in> set names. n \<in> set (ancestors d m))) (sorted_names d)"
    using wf(4) by (intro filter_cong) (auto simp: ancestors_def)
  with loop [of "[]"] show ?thesis
    by (auto simp: required_sources_def split: sum.splits)
qed

theorem required_sources_exact_witness:
  "required_sources ex_dag [''idx''] = Inr [''raw''] \<and> set [''idx''] \<subseteq> fst ` set (nodes ex_dag)"
proof -
  have r: "required_sources ex_dag [''idx''] = Inr [''raw'']" by code_simp
  with required_sources_exact [OF ex_dag, of "[''idx'']"] show ?thesis by simp
qed

section \<open>Batches\<close>

lemma dict_of_comprehension:
  fixes f :: "'a \<Rightarrow> 'b" and names :: "'a list"
  defines "g \<equiv> dict_of (map (\<lambda>n. (n, f n)) names)"
  shows "distinct (map fst g)" "(n, v) \<in> set g \<longleftrightarrow> n \<in> set names \<and> v = f n"
proof -
  let ?up = "\<lambda>(k, v) d. AList.update k v d"
  have "distinct (map fst (fold ?up kvs d))" if "distinct (map fst d)" for kvs :: "('a \<times> 'b) list" and d
    using that by (induction kvs arbitrary: d) (auto simp: distinct_update)
  then show "distinct (map fst g)" by (simp add: g_def dict_of_def)
  have "set (fold ?up (map (\<lambda>n. (n, f n)) ns) d) \<subseteq> {(k, v). v = f k}" if "set d \<subseteq> {(k, v). v = f k}" for ns d
    using that
  proof (induction ns arbitrary: d)
    case (Cons n ns)
    have "set (AList.update n (f n) d) \<subseteq> {(k, v). v = f k}"
      using Cons.prems by (induction d) auto
    with Cons.IH [of "AList.update n (f n) d"] show ?case by simp
  qed simp
  from this [of "[]" names] have val: "v = f n" if "(n, v) \<in> set g" for n v
    using that by (auto simp: g_def dict_of_def)
  have "fst ` set g = set names" unfolding g_def keys_dict_of by force
  with val show "(n, v) \<in> set g \<longleftrightarrow> n \<in> set names \<and> v = f n" by force
qed

lemma ts_rounds_arranged:
  "ts_rounds arrange fuel ts = Some bs \<Longrightarrow> b \<in> set bs \<Longrightarrow> \<exists>ready. b = arrange ready"
proof (induction fuel arbitrary: ts bs)
  case (Suc fuel)
  then show ?case by (auto simp: Let_def split: if_splits prod.splits)
qed (auto split: if_splits)

lemma layered_split:
  "layered g D (as @ b # cs) \<Longrightarrow> b \<noteq> [] \<and> set b = unblocked g (D \<union> set (concat as))"
  by (induction as arbitrary: D) (auto simp: Un_assoc)

text \<open>
  C24: parallel batches partition the selected models into topological generations: each batch is
  non-empty, in graph order, and consists of exactly the remaining models whose selected
  predecessors all lie in earlier batches. So a batch depends only on earlier ones, and no model
  waits longer than it has to.
\<close>

theorem parallel_batches_are_generations:
  assumes "keeps_elements iter" "build_dag iter re_ok ss ms = Inr d" "set names \<subseteq> fst ` set (nodes d)"
  shows "\<exists>bs. parallel_batches iter d names = Some bs \<and> distinct (concat bs) \<and> set (concat bs) = set names
    \<and> list_all (\<lambda>b. sorted (map (py_index (sorted_names d)) b)) bs
    \<and> (\<forall>as b cs. bs = as @ b # cs \<longrightarrow> b \<noteq> []
         \<and> set b = {n \<in> set names - set (concat as). set (adj_get (predecessors d) n) \<inter> set names \<subseteq> set (concat as)})"
proof -
  note w = build_dag_wf [OF assms(1,2)]
  note wf = dag_wfD [OF w(1)]
  let ?f = "\<lambda>n. filter (\<lambda>p. p \<in> set names) (adj_get (predecessors d) n)"
  let ?g = "batch_graph d names"
  note dict = dict_of_comprehension [where f = ?f and names = names, folded batch_graph_def]
  have "distinct (adj_get (predecessors d) n)" for n
    using wf(2) by (cases "map_of (predecessors d) n") (auto simp: adj_get_def graph_ok_def dest: map_of_SomeD)
  then have g: "graph_ok ?g" using dict by (auto simp: graph_ok_def)
  have adj: "adj_get ?g n = (if n \<in> set names then ?f n else [])" for n
  proof (cases "map_of ?g n")
    case None
    then have "n \<notin> fst ` set ?g" by (simp add: map_of_eq_None_iff)
    then have "n \<notin> set names" using dict(2) [of n "?f n"] by force
    with None show ?thesis by (simp add: adj_get_def)
  next
    case (Some v)
    with map_of_SomeD [OF Some] dict(2) [of n v] show ?thesis by (simp add: adj_get_def)
  qed
  have "set ?g = (\<lambda>n. (n, ?f n)) ` set names" using dict(2) by auto
  then have nodes: "graph_nodes ?g = set names" by (auto simp: graph_nodes_def image_image)
  have "acyclic (succ_rel (adj_get (predecessors d)))"
    using w(1) by (auto simp: dag_wf_def intro: topo_sorted_acyclic)
  then have acyc: "acyclic (succ_rel (adj_get ?g))"
    by (rule acyclic_subset) (auto simp: succ_rel_def adj split: if_splits)
  note arr = arranged_same [OF assms(1) g]
  let ?a = "sort_key (py_index (sorted_names d))"
  have "keeps_elements ?a" by (simp add: keeps_elements_def)
  from groups_sorted [OF arr(2) this] acyc obtain bs where
    bs: "ts_groups ?a (arranged iter ?g) = Some bs" "layered (arranged iter ?g) {} bs"
      "set (concat bs) = set names" using arr(3,4) nodes by auto
  have "\<forall>n \<in> set names. map_of (predecessors d) n \<noteq> None"
    using assms(3) wf(6) by (auto simp: map_of_eq_None_iff)
  then have "parallel_batches iter d names = Some bs"
    using bs(1) by (auto simp: parallel_batches_def arranged_def)
  moreover have "sorted (map (py_index (sorted_names d)) b)" if "b \<in> set bs" for b
  proof -
    from bs(1) that obtain ready where "b = ?a ready"
      by (auto simp: ts_groups_def split: if_splits dest!: ts_rounds_arranged)
    then show ?thesis by simp
  qed
  moreover have "b \<noteq> [] \<and> set b = {n \<in> set names - set (concat as).
      set (adj_get (predecessors d) n) \<inter> set names \<subseteq> set (concat as)}" if "bs = as @ b # cs" for as b cs
  proof -
    have "b \<noteq> []" "set b = unblocked (arranged iter ?g) (set (concat as))"
      using layered_split [of "arranged iter ?g" "{}" as b cs] bs(2) that by simp_all
    then show ?thesis using arr(1,3) by (auto simp: unblocked_def nodes adj)
  qed
  moreover have "distinct (concat bs)" by (rule layered_order(1) [OF bs(2)])
  ultimately show ?thesis
    using bs(3) by (intro exI [of _ bs]) (auto simp: list_all_iff)
qed

theorem parallel_batches_are_generations_witness:
  "parallel_batches rev ex_dag [''idx'', ''emb'', ''docs''] = Some [[''docs''], [''emb''], [''idx'']]
   \<and> (\<exists>bs. parallel_batches rev ex_dag [''idx'', ''emb'', ''docs''] = Some bs \<and> distinct (concat bs))"
proof -
  have v: "parallel_batches rev ex_dag [''idx'', ''emb'', ''docs''] = Some [[''docs''], [''emb''], [''idx'']]"
    by code_simp
  have "set [''idx'', ''emb'', ''docs''] \<subseteq> fst ` set (nodes ex_dag)" by code_simp
  from parallel_batches_are_generations [OF ex_dag this] v show ?thesis by blast
qed

section \<open>Selection\<close>

definition seed_matches :: "project_dag \<Rightarrow> string list option \<Rightarrow> string \<Rightarrow> string \<Rightarrow> bool" where
  "seed_matches d modified body n \<longleftrightarrow> (case map_of (nodes d) n of None \<Rightarrow> False | Some node \<Rightarrow>
     if body = ''state:modified'' then (case modified of None \<Rightarrow> False | Some ms \<Rightarrow> n \<in> set ms)
     else if py_startswith body ''tag:'' then drop 4 body \<in> set (n_tags node)
     else if py_startswith body ''kind:'' then map_option kind_value (n_model_kind node) = Some (drop 5 body)
     else n = body)"

definition token_valid :: "project_dag \<Rightarrow> string list option \<Rightarrow> string \<Rightarrow> bool" where
  "token_valid d modified token \<longleftrightarrow> (let body = py_strip_char CHR ''+'' token in body \<noteq> [] \<and>
     (if body = ''state:modified'' then modified \<noteq> None
      else if py_startswith body ''state:'' then False
      else if py_startswith body ''tag:'' then drop 4 body \<noteq> []
      else if py_startswith body ''kind:'' then drop 5 body \<in> set (map kind_value all_kinds)
      else map_of (nodes d) body \<noteq> None))"

definition token_selects :: "project_dag \<Rightarrow> string list option \<Rightarrow> string \<Rightarrow> string \<Rightarrow> bool" where
  "token_selects d modified token n \<longleftrightarrow> (\<exists>seed. seed_matches d modified (py_strip_char CHR ''+'' token) seed
     \<and> (n = seed \<or> py_startswith token ''+'' \<and> n \<in> set (ancestors d seed)
        \<or> py_endswith token ''+'' \<and> n \<in> set (descendants d seed)))"

lemma mem_filtered_nodes:
  "distinct (map fst ns) \<Longrightarrow> n \<in> set (map fst (filter (\<lambda>(name, node). P node) ns)) \<longleftrightarrow>
     (case map_of ns n of None \<Rightarrow> False | Some node \<Rightarrow> P node)"
proof (cases "map_of ns n")
  case None
  then have "n \<notin> fst ` set ns" by (simp add: map_of_eq_None_iff)
  with None show ?thesis by auto
next
  case (Some node)
  assume d: "distinct (map fst ns)"
  have "(n, x) \<in> set ns \<longleftrightarrow> x = node" for x
    using Some map_of_eq_Some_iff [OF d, of n] by (metis option.inject)
  with Some show ?thesis by (auto simp: image_iff)
qed

lemma token_seeds_ok:
  assumes "distinct (map fst (nodes d))" "body = py_strip_char CHR ''+'' token" "body \<noteq> []"
  shows "case token_seeds d modified body token of
      Inr seeds \<Rightarrow> token_valid d modified token \<and> set seeds = {n. seed_matches d modified body n}
    | Inl e \<Rightarrow> \<not> token_valid d modified token"
proof -
  have kinds: "[] \<notin> set (map kind_value all_kinds)" by (simp add: all_kinds_def)
  have pick: "set (map fst (filter (\<lambda>(name, node). P node) (nodes d))) =
      {n. case map_of (nodes d) n of None \<Rightarrow> False | Some node \<Rightarrow> P node}" for P
    using mem_filtered_nodes [OF assms(1)] by blast
  note tag = pick [of "\<lambda>node. drop 4 body \<in> set (n_tags node)"]
    and kind = pick [of "\<lambda>node. map_option kind_value (n_model_kind node) = Some (drop 5 body)"]
  note defs = token_seeds_def kind_seeds_def token_valid_def seed_matches_def Let_def assms(2) [symmetric]
  consider "body = ''state:modified''" | "body \<noteq> ''state:modified''" "py_startswith body ''state:''"
    | "body \<noteq> ''state:modified''" "\<not> py_startswith body ''state:''" "py_startswith body ''tag:''"
    | "body \<noteq> ''state:modified''" "\<not> py_startswith body ''state:''" "\<not> py_startswith body ''tag:''"
        "py_startswith body ''kind:''"
    | "body \<noteq> ''state:modified''" "\<not> py_startswith body ''state:''" "\<not> py_startswith body ''tag:''"
        "\<not> py_startswith body ''kind:''" by blast
  then show ?thesis
  proof cases
    case 1
    then show ?thesis using assms(3) unfolding defs by (auto split: option.splits)
  next
    case 2
    then show ?thesis using assms(3) unfolding defs by simp
  next
    case 3
    with assms(3) tag show ?thesis unfolding defs by (simp del: set_map cong: option.case_cong)
  next
    case 4
    with assms(3) kinds kind show ?thesis unfolding defs by (auto simp del: set_map cong: option.case_cong)
  next
    case 5
    then show ?thesis using assms(3) unfolding defs by (auto split: option.splits)
  qed
qed

lemma fold_bfs_set:
  "set (fold (\<lambda>seed result.
       let result = (if up then set_update (bfs seed g) result else result)
       in if down then set_update (bfs seed h) result else result) seeds acc) =
   set acc \<union> {n. \<exists>s \<in> set seeds. up \<and> n \<in> set (bfs s g) \<or> down \<and> n \<in> set (bfs s h)}"
  by (induction seeds arbitrary: acc) (auto simp: Let_def)

lemma expand_token_ok:
  assumes "distinct (map fst (nodes d))"
  shows "case expand_token d modified token of
      Inr ns \<Rightarrow> token_valid d modified token \<and> set ns = {n. token_selects d modified token n}
    | Inl e \<Rightarrow> \<not> token_valid d modified token"
proof (cases "py_strip_char CHR ''+'' token = []")
  case True
  then show ?thesis by (simp add: expand_token_def token_valid_def Let_def)
next
  case False
  let ?body = "py_strip_char CHR ''+'' token"
  show ?thesis
  proof (cases "token_seeds d modified ?body token")
    case (Inl e)
    with token_seeds_ok [OF assms refl False, of modified] False show ?thesis
      by (simp add: expand_token_def Let_def)
  next
    case (Inr seeds)
    with token_seeds_ok [OF assms refl False, of modified]
    have v: "token_valid d modified token" "set seeds = {n. seed_matches d modified ?body n}" by auto
    with Inr False show ?thesis
      by (auto simp: expand_token_def Let_def fold_bfs_set [unfolded Let_def] token_selects_def
          ancestors_def descendants_def)
  qed
qed

lemma apply_tokens_ok:
  assumes "distinct (map fst (nodes d))"
  shows "case apply_tokens d modified ts acc of
      Inr ns \<Rightarrow> list_all (token_valid d modified) ts
        \<and> set ns = set acc \<union> {n. \<exists>t \<in> set ts. token_selects d modified t n}
    | Inl e \<Rightarrow> \<not> list_all (token_valid d modified) ts"
proof (induction ts arbitrary: acc)
  case (Cons t ts)
  show ?case
  proof (cases "expand_token d modified t")
    case (Inl e)
    with expand_token_ok [OF assms, of modified t] show ?thesis by simp
  next
    case (Inr ns)
    with expand_token_ok [OF assms, of modified t] Cons.IH [of "set_update ns acc"]
    show ?thesis by (cases "apply_tokens d modified ts (set_update ns acc)") auto
  qed
qed simp

definition selects :: "project_dag \<Rightarrow> string list option \<Rightarrow> string \<Rightarrow> string \<Rightarrow> bool" where
  "selects d modified expr n \<longleftrightarrow> (\<exists>t \<in> set (py_split expr). token_selects d modified t n)"

lemma apply_selector_ok:
  assumes "distinct (map fst (nodes d))"
  shows "case apply_selector d modified expr of
      Inr ns \<Rightarrow> list_all (token_valid d modified) (py_split expr) \<and> set ns = {n. selects d modified expr n}
    | Inl e \<Rightarrow> \<not> list_all (token_valid d modified) (py_split expr)"
  using apply_tokens_ok [OF assms, of modified "py_split expr" "[]"]
  by (simp add: apply_selector_def selects_def split: sum.splits)

text \<open>
  selection resolves exactly the documented selector syntax. It succeeds precisely when every
  token of both expressions is valid, and then returns, in graph order, the models some select
  token matches (every model, without a select expression) and no exclude token does.
\<close>

theorem select_models_exact:
  assumes "keeps_elements iter" "build_dag iter re_ok ss ms = Inr d"
  shows "(case select_models d (Some sel) (Some exc) modified of
      Inr ns \<Rightarrow> list_all (token_valid d modified) (py_split sel) \<and> list_all (token_valid d modified) (py_split exc)
        \<and> ns = filter (\<lambda>n. (sel = [] \<or> selects d modified sel n) \<and> \<not> selects d modified exc n) (execution_order d)
    | Inl e \<Rightarrow> \<not> (list_all (token_valid d modified) (py_split sel) \<and> list_all (token_valid d modified) (py_split exc)))"
proof -
  note wf = dag_wfD [OF build_dag_wf(1) [OF assms]]
  have empty: "py_split [] = []" by (simp add: py_split_def)
  have none: "\<not> selects d modified [] n" for n by (simp add: selects_def empty)
  have names: "set (map fst (nodes d)) = set (sorted_names d)" using wf(4) by simp
  note s = apply_selector_ok [OF wf(1), of modified sel] and e = apply_selector_ok [OF wf(1), of modified exc]
  show ?thesis
    using s e
    by (cases "apply_selector d modified sel"; cases "apply_selector d modified exc";
        cases "sel = []"; cases "exc = []")
       (auto simp: select_models_def execution_order_def empty none names simp del: set_map intro!: filter_cong)
qed

theorem select_models_exact_witness:
  "select_models ex_dag (Some ''+emb'') (Some ''kind:extraction'') None = Inr [''emb'']
   \<and> list_all (token_valid ex_dag None) [''+emb'']"
proof -
  have v: "select_models ex_dag (Some ''+emb'') (Some ''kind:extraction'') None = Inr [''emb'']"
    "py_split ''+emb'' = [''+emb'']" by code_simp+
  with select_models_exact [OF ex_dag, of None "''+emb''" "''kind:extraction''"] show ?thesis by simp
qed

section \<open>References\<close>

text \<open>
  a reference is read back whatever white space and quotes it is written with: a \<^verbatim>\<open>ref\<close>
  expression yields its name and forms a graph edge, a \<^verbatim>\<open>dbt_ref\<close> expression is recognised as
  such and yields its name.
\<close>

theorem references_read_back:
  assumes "list_all py_isspace (a @ b @ c @ e)" "is_quote q" "is_quote q'"
    and "name \<noteq> []" "list_all (\<lambda>ch. \<not> is_quote ch) name"
  shows "parse_ref (a @ ''ref('' @ b @ q # name @ q' # c @ CHR '')'' # e) = name
    \<and> \<not> is_dbt_ref (a @ ''ref('' @ b @ q # name @ q' # c @ CHR '')'' # e)
    \<and> parse_dbt_ref (a @ ''dbt_ref('' @ b @ q # name @ q' # c @ CHR '')'' # e) = Some name"
proof -
  have sp: "list_all py_isspace a" "list_all py_isspace b" "list_all py_isspace c" "list_all py_isspace e"
    using assms(1) by simp_all
  have letters: "\<not> py_isspace (CHR ''r'')" "\<not> py_isspace (CHR ''d'')" by (simp_all add: py_isspace_def)
  have "match_call ''ref'' (a @ ''ref('' @ b @ q # name @ q' # c @ CHR '')'' # e) = Some name"
    using match_call_complete [OF sp assms(2-5), of "''ref''"] letters by simp
  moreover have "match_call ''dbt_ref'' (a @ ''dbt_ref('' @ b @ q # name @ q' # c @ CHR '')'' # e) = Some name"
    using match_call_complete [OF sp assms(2-5), of "''dbt_ref''"] letters by simp
  moreover have "match_call ''dbt_ref'' (a @ ''ref('' @ b @ q # name @ q' # c @ CHR '')'' # e) = None"
  proof -
    have "py_lstrip (a @ ''ref('' @ b @ q # name @ q' # c @ CHR '')'' # e) = ''ref('' @ b @ q # name @ q' # c @ CHR '')'' # e"
      using sp(1) letters(1) by (simp add: py_lstrip_spaces) (simp add: py_lstrip_def)
    then show ?thesis by (simp add: match_call_def py_startswith_def)
  qed
  ultimately show ?thesis by (simp add: parse_ref_def is_dbt_ref_def parse_dbt_ref_def)
qed

theorem references_read_back_witness: "parse_ref ('' ref( '' @ CHR 0x22 # ''docs'' @ CHR 0x27 # '')'') = ''docs''"
  using references_read_back [of "'' ''" "'' ''" "[]" "[]" "CHR 0x22" "CHR 0x27" "''docs''"]
  by (simp add: py_isspace_def is_quote_def)

end
