(* ===== verification/Chunking.thy ===== *)
theory Chunking
  imports Py_Values "HOL-Library.Sublist"
begin

text \<open>
  Text chunking (\<^verbatim>\<open>src/stel/chunking.py\<close>): the recursive character splitter with its separator
  hierarchy, the greedy merge with snapped overlap, heading attribution and the token windows.

  Sizes and overlaps are naturals, as \<^verbatim>\<open>ChunkConfig\<close> validates them. The tokenizer
  (\<^verbatim>\<open>tiktoken\<close>), the matches of the configured heading pattern and the rendering of a field value
  are parameters. \<open>None\<close> of \<open>recurse\<close> is the \<^verbatim>\<open>IndexError\<close> or unbounded recursion of a separator
  list that runs out, which the separator list of the source excludes.
\<close>

section \<open>String searching\<close>

text \<open>\<^verbatim>\<open>sub in s\<close>, \<^verbatim>\<open>s.find(sub, start)\<close> and \<^verbatim>\<open>s.split(sep)\<close> for a non-empty separator.\<close>

definition occurs_at :: "string \<Rightarrow> string \<Rightarrow> nat \<Rightarrow> bool" where
  "occurs_at sub s p \<longleftrightarrow> py_startswith (drop p s) sub"

definition py_find :: "string \<Rightarrow> string \<Rightarrow> nat \<Rightarrow> nat option" where
  "py_find s sub start = List.find (occurs_at sub s) [start..<Suc (length s)]"

definition py_contains :: "string \<Rightarrow> string \<Rightarrow> bool" where
  "py_contains sub s \<longleftrightarrow> py_find s sub 0 \<noteq> None"

function split_sep :: "string \<Rightarrow> string \<Rightarrow> string \<Rightarrow> string list" where
  "split_sep sep acc [] = [rev acc]"
| "split_sep sep acc (c # s) =
     (if py_startswith (c # s) sep then rev acc # split_sep sep [] (drop (length sep - 1) s)
      else split_sep sep (c # acc) s)"
  by pat_completeness auto
termination by (relation "measure (\<lambda>(sep, acc, s). length s)") auto

definition py_split_on :: "string \<Rightarrow> string \<Rightarrow> string list" where
  "py_split_on sep s = split_sep sep [] s"

section \<open>Splitting\<close>

definition recursive_separators :: "string list" where
  "recursive_separators = [[CHR 0x0A, CHR 0x0A], [CHR 0x0A], ''. '', '' '', []]"

function hard_cut :: "nat \<Rightarrow> string \<Rightarrow> string list" where
  "hard_cut n text = (if text = [] \<or> n = 0 then [] else take n text # hard_cut n (drop n text))"
  by pat_completeness auto
termination by (relation "measure (\<lambda>(n, text). length text)") auto

declare hard_cut.simps [simp del]

text \<open>Re-attach the separator \<^verbatim>\<open>split\<close> consumed, between parts only.\<close>

fun segments :: "string \<Rightarrow> string list \<Rightarrow> string list" where
  "segments sep [] = []"
| "segments sep [part] = [part]"
| "segments sep (part # parts) = (part @ sep) # segments sep parts"

fun recurse :: "nat \<Rightarrow> string list \<Rightarrow> string \<Rightarrow> string list option" where
  "recurse limit [] text = (if length text \<le> limit then Some (if text = [] then [] else [text]) else None)"
| "recurse limit (sep # remaining) text =
     (if length text \<le> limit then Some (if text = [] then [] else [text])
      else if sep = [] then Some (hard_cut limit text)
      else if py_contains sep text
      then map_option concat (those (map (\<lambda>segment.
          if segment = [] then Some []
          else if length segment \<le> limit then Some [segment]
          else recurse limit remaining segment) (segments sep (py_split_on sep text))))
      else recurse limit remaining text)"

section \<open>Merging with overlap\<close>

function candidate_loop :: "string \<Rightarrow> string \<Rightarrow> nat \<Rightarrow> nat option \<Rightarrow> nat list" where
  "candidate_loop sep text latest None = []"
| "candidate_loop sep text latest (Some position) =
     (if position < latest
      then (position + length sep) # candidate_loop sep text latest (py_find text sep (position + 1))
      else [])"
  by pat_completeness auto
termination
proof (relation "measure (\<lambda>(sep, text, latest, p). case p of None \<Rightarrow> 0 | Some q \<Rightarrow> Suc (Suc (length text) - q))", goal_cases)
  case 1
  show ?case by simp
next
  case (2 sep s latest position)
  have "\<forall>q. py_find s sep (position + 1) = Some q \<longrightarrow> q > position \<and> q < Suc (length s)"
    by (auto simp: py_find_def find_Some_iff simp del: upt_Suc)
  with 2 show ?case by (auto split: option.splits)
qed

fun snap :: "string list \<Rightarrow> string \<Rightarrow> nat \<Rightarrow> nat \<Rightarrow> nat \<Rightarrow> string option" where
  "snap [] text target earliest latest = None"
| "snap (sep # seps) text target earliest latest =
     (if sep = [] then snap seps text target earliest latest
      else case candidate_loop sep text latest (py_find text sep earliest) of
          [] \<Rightarrow> snap seps text target earliest latest
        | c # cs \<Rightarrow> Some (drop (arg_min_list (\<lambda>p. \<bar>int p - int target\<bar>) (c # cs)) text))"

definition overlap_tail :: "string \<Rightarrow> nat \<Rightarrow> string" where
  "overlap_tail text overlap =
     (if overlap = 0 \<or> text = [] then []
      else if overlap \<ge> length text then text
      else let target = length text - overlap;
               earliest = length text - 2 * overlap;
               latest = length text - max 1 (overlap div 2)
           in case snap recursive_separators text target earliest latest of
                Some tail \<Rightarrow> tail
              | None \<Rightarrow> drop (length text - overlap) text)"

definition append_chunk :: "(int \<times> string) list \<Rightarrow> int \<Rightarrow> string \<Rightarrow> (int \<times> string) list" where
  "append_chunk chunks start text =
     (let stripped = py_strip text
      in if stripped = [] then chunks
         else chunks @ [(start + (int (length text) - int (length (py_lstrip text))), stripped)])"

record merge_state =
  ms_chunks :: "(int \<times> string) list"
  ms_current :: string
  ms_start :: int
  ms_position :: int

definition merge_step :: "nat \<Rightarrow> nat \<Rightarrow> string \<Rightarrow> merge_state \<Rightarrow> merge_state" where
  "merge_step limit overlap split st =
     (let current = ms_current st; position = ms_position st;
          st = (if current \<noteq> [] \<and> length current + length split > limit
            then let tail = overlap_tail current overlap
              in st\<lparr>ms_chunks := append_chunk (ms_chunks st) (ms_start st) current,
                    ms_start := position - int (length tail), ms_current := tail @ split\<rparr>
            else st\<lparr>ms_start := (if current = [] then position else ms_start st),
                    ms_current := current @ split\<rparr>)
      in st\<lparr>ms_position := position + int (length split)\<rparr>)"

definition merge_with_overlap :: "string list \<Rightarrow> nat \<Rightarrow> nat \<Rightarrow> (int \<times> string) list" where
  "merge_with_overlap splits limit overlap =
     (let st = fold (merge_step limit overlap) splits
         \<lparr>ms_chunks = [], ms_current = [], ms_start = 0, ms_position = 0\<rparr>
      in append_chunk (ms_chunks st) (ms_start st) (ms_current st))"

definition split_recursive :: "string \<Rightarrow> nat \<Rightarrow> nat \<Rightarrow> (int \<times> string) list option" where
  "split_recursive text limit overlap =
     map_option (\<lambda>splits. merge_with_overlap splits limit overlap) (recurse limit recursive_separators text)"

section \<open>Headings\<close>

text \<open>\<^verbatim>\<open>bisect.bisect_right\<close> of the standard library.\<close>

function bisect_loop :: "nat list \<Rightarrow> int \<Rightarrow> nat \<Rightarrow> nat \<Rightarrow> nat" where
  "bisect_loop xs x lo hi =
     (if lo < hi then let mid = (lo + hi) div 2
        in if x < int (xs ! mid) then bisect_loop xs x lo mid else bisect_loop xs x (mid + 1) hi
      else lo)"
  by pat_completeness auto
termination by (relation "measure (\<lambda>(xs, x, lo, hi). hi - lo)") auto

declare bisect_loop.simps [simp del]

definition section_at :: "(nat \<times> string) list \<Rightarrow> int \<Rightarrow> string option" where
  "section_at headings start =
     (if headings = [] then None
      else let index = int (bisect_loop (map fst headings) start 0 (length headings)) - 1
           in if index \<ge> 0 then Some (snd (headings ! nat index)) else None)"

text \<open>
  \<open>matches\<close> are the matches of the configured pattern in order: the offset and the first group
  (or the whole match), \<open>None\<close> for a group that did not take part.
\<close>

definition find_headings :: "(nat \<times> string option) list option \<Rightarrow> (nat \<times> string) list" where
  "find_headings matches = (case matches of None \<Rightarrow> []
     | Some ms \<Rightarrow> List.map_filter (\<lambda>(offset, name). case name of None \<Rightarrow> None
         | Some n \<Rightarrow> if n \<noteq> [] \<and> py_strip n \<noteq> [] then Some (offset, py_strip n) else None) ms)"

section \<open>Tokens\<close>

fun token_windows :: "nat \<Rightarrow> nat \<Rightarrow> nat \<Rightarrow> 't list \<Rightarrow> nat \<Rightarrow> 't list list" where
  "token_windows 0 limit step tokens start = []"
| "token_windows (Suc fuel) limit step tokens start =
     (if start \<ge> length tokens then []
      else take limit (drop start tokens) #
        (if start + limit \<ge> length tokens then [] else token_windows fuel limit step tokens (start + step)))"

definition split_tokens :: "(string \<Rightarrow> 't list) \<Rightarrow> ('t list \<Rightarrow> string) \<Rightarrow> string \<Rightarrow> nat \<Rightarrow> nat \<Rightarrow> string list" where
  "split_tokens encode decode text limit overlap =
     (let tokens = encode text
      in filter (\<lambda>p. p \<noteq> []) (map (\<lambda>w. py_strip (decode w))
           (token_windows (length tokens) limit (limit - overlap) tokens 0)))"

section \<open>Entry points\<close>

datatype strategy = Recursive | Tokens

record chunk_config =
  strategy :: strategy
  chunk_size :: nat
  chunk_overlap :: nat

record chunk =
  chunk_index :: nat
  chunk_text :: string
  chunk_section :: "string option"

datatype chunking_error = NoRoomForText | OverlapTooLarge | RecursionFault

definition measure_text :: "(string \<Rightarrow> 't list) \<Rightarrow> string \<Rightarrow> chunk_config \<Rightarrow> nat" where
  "measure_text encode text config =
     (case strategy config of Tokens \<Rightarrow> length (encode text) | Recursive \<Rightarrow> length text)"

definition number_chunks :: "(string \<times> string option) list \<Rightarrow> chunk list" where
  "number_chunks ps = map (\<lambda>(i, text, sect). \<lparr>chunk_index = i, chunk_text = text, chunk_section = sect\<rparr>)
     (enumerate 0 ps)"

definition split_text :: "(string \<Rightarrow> 't list) \<Rightarrow> ('t list \<Rightarrow> string) \<Rightarrow> (string \<Rightarrow> (nat \<times> string option) list option) \<Rightarrow>
    string \<Rightarrow> chunk_config \<Rightarrow> nat \<Rightarrow> chunking_error + chunk list" where
  "split_text encode decode matches text config reserved =
     (if text = [] \<or> py_strip text = [] then Inr []
      else let limit = int (chunk_size config) - int reserved
        in if limit \<le> 0 then Inl NoRoomForText
           else if int (chunk_overlap config) \<ge> limit then Inl OverlapTooLarge
           else case strategy config of
               Tokens \<Rightarrow> Inr (number_chunks (map (\<lambda>p. (p, None))
                 (split_tokens encode decode text (nat limit) (chunk_overlap config))))
             | Recursive \<Rightarrow> (case split_recursive text (nat limit) (chunk_overlap config) of
                   None \<Rightarrow> Inl RecursionFault
                 | Some placed \<Rightarrow> Inr (number_chunks (map (\<lambda>(start, piece).
                     (piece, section_at (find_headings (matches text)) start)) placed))))"

definition metadata_separator :: string where
  "metadata_separator = ''---''"

definition render_metadata_block :: "(pyval \<Rightarrow> string) \<Rightarrow> (string \<times> pyval) list \<Rightarrow> string list \<Rightarrow> string" where
  "render_metadata_block render rec flds =
     (let lines = List.map_filter (\<lambda>field. case map_of rec field of
          None \<Rightarrow> None | Some v \<Rightarrow> if v = PyNone then None else Some (field @ '': '' @ render v)) flds
      in if lines = [] then []
         else py_join [CHR 0x0A] lines @ [CHR 0x0A] @ metadata_separator @ [CHR 0x0A])"

end
