(* ===== verification/Chunking_Props.thy ===== *)
theory Chunking_Props
  imports Chunking
begin

text \<open>
  What chunking guarantees: the recursive splitter cuts the text into consecutive pieces no
  longer than the limit, and the merged chunks are exact slices of the text that leave out no
  visible character.
\<close>

section \<open>Splitting and joining\<close>

lemma split_sep_nonempty: "split_sep sep acc s \<noteq> []"
  by (induction sep acc s rule: split_sep.induct) auto

lemma segments_Cons: "ps \<noteq> [] \<Longrightarrow> segments sep (p # ps) = (p @ sep) # segments sep ps"
  by (cases ps) auto

lemma startswith_drop: "py_startswith s sep \<Longrightarrow> s = sep @ drop (length sep) s"
  by (metis append_take_drop_id py_startswith_def)

lemma concat_segments:
  "sep \<noteq> [] \<Longrightarrow> concat (segments sep (split_sep sep acc s)) = rev acc @ s"
proof (induction sep acc s rule: split_sep.induct)
  case (1 sep acc)
  show ?case by simp
next
  case (2 sep acc c s)
  show ?case
  proof (cases "py_startswith (c # s) sep")
    case True
    from startswith_drop [OF True] 2(3) have "c # s = sep @ drop (length sep - 1) s"
      by (cases sep) auto
    then have "sep @ drop (length sep - 1) s = c # s" by (rule sym)
    with True 2(1) [OF True 2(3)] show ?thesis by (simp add: segments_Cons split_sep_nonempty)
  next
    case False
    with 2 show ?thesis by simp
  qed
qed

lemma those_map:
  "those (map f xs) = Some ys \<longleftrightarrow> list_all2 (\<lambda>x y. f x = Some y) xs ys"
  by (induction xs arbitrary: ys) (auto simp: list_all2_Cons1 split: option.splits)

lemma those_map_total: "\<forall>x \<in> set xs. f x \<noteq> None \<Longrightarrow> \<exists>ys. those (map f xs) = Some ys"
  by (induction xs) (auto split: option.splits)

lemma hard_cut_pieces:
  "0 < n \<Longrightarrow> concat (hard_cut n s) = s \<and> (\<forall>p \<in> set (hard_cut n s). p \<noteq> [] \<and> length p \<le> n)"
  by (induction n s rule: hard_cut.induct) (subst (1 2) hard_cut.simps, auto)

definition pieces_of :: "nat \<Rightarrow> string \<Rightarrow> string list \<Rightarrow> bool" where
  "pieces_of limit s ps \<longleftrightarrow> concat ps = s \<and> (\<forall>p \<in> set ps. p \<noteq> [] \<and> length p \<le> limit)"

lemma pieces_of_concat:
  "list_all2 (pieces_of limit) ss pss \<Longrightarrow> pieces_of limit (concat ss) (concat pss)"
  by (induction ss pss rule: list_all2_induct) (auto simp: pieces_of_def)

lemma recurse_pieces:
  assumes "0 < limit" "recurse limit seps s = Some ps"
  shows "pieces_of limit s ps"
  using assms(2)
proof (induction seps arbitrary: s ps)
  case Nil
  then show ?case by (auto simp: pieces_of_def split: if_splits)
next
  case (Cons sep seps)
  let ?piece = "\<lambda>segment. if segment = [] then Some [] else if length segment \<le> limit then Some [segment]
      else recurse limit seps segment"
  have piece: "pieces_of limit segment qs" if "?piece segment = Some qs" for segment qs
    using that Cons.IH by (auto simp: pieces_of_def split: if_splits)
  consider "length s \<le> limit" | "length s > limit" "sep = []"
    | "length s > limit" "sep \<noteq> []" "py_contains sep s" | "length s > limit" "sep \<noteq> []" "\<not> py_contains sep s"
    by linarith
  then show ?case
  proof cases
    case 1
    with Cons.prems show ?thesis by (auto simp: pieces_of_def split: if_splits)
  next
    case 2
    with Cons.prems hard_cut_pieces [OF assms(1)] show ?thesis by (auto simp: pieces_of_def)
  next
    case 3
    with Cons.prems obtain pss where p: "ps = concat pss"
      "list_all2 (\<lambda>x y. ?piece x = Some y) (segments sep (py_split_on sep s)) pss"
      by (auto simp: those_map)
    from p(2) have "list_all2 (pieces_of limit) (segments sep (py_split_on sep s)) pss"
      by (rule list_all2_mono) (rule piece)
    from pieces_of_concat [OF this] show ?thesis
      using concat_segments [OF 3(2), of "[]" s] p(1) by (simp add: py_split_on_def)
  next
    case 4
    with Cons show ?thesis by simp
  qed
qed

lemma recurse_total: "[] \<in> set seps \<Longrightarrow> \<exists>ps. recurse limit seps s = Some ps"
proof (induction seps arbitrary: s)
  case (Cons sep seps)
  show ?case
  proof (cases "sep = []")
    case False
    with Cons have IH: "recurse limit seps t \<noteq> None" for t by auto
    have "\<exists>pss. those (map (\<lambda>segment. if segment = [] then Some [] else if length segment \<le> limit
        then Some [segment] else recurse limit seps segment) ts) = Some pss" for ts
      by (rule those_map_total) (use IH in auto)
    with IH False show ?thesis by auto
  qed auto
qed simp

section \<open>The overlap\<close>

lemma py_find_Some: "py_find s sub start = Some p \<Longrightarrow> start \<le> p \<and> p \<le> length s \<and> occurs_at sub s p"
  by (auto simp: py_find_def find_Some_iff simp del: upt_Suc)

lemma candidates_bound:
  "c \<in> set (candidate_loop sep s latest (py_find s sep start)) \<Longrightarrow> start + length sep \<le> c"
proof -
  have "c \<in> set (candidate_loop sep s latest p) \<Longrightarrow> (\<And>q. p = Some q \<Longrightarrow> start \<le> q) \<Longrightarrow> start + length sep \<le> c" for p
  proof (induction sep s latest p rule: candidate_loop.induct)
    case (2 sep s latest position)
    have "start \<le> q" if "py_find s sep (position + 1) = Some q" for q
      using py_find_Some [OF that] 2(3) [of position] by simp
    with 2 show ?case by (auto split: if_splits)
  qed simp
  then show "c \<in> set (candidate_loop sep s latest (py_find s sep start)) \<Longrightarrow> start + length sep \<le> c"
    by (metis py_find_Some)
qed

lemma arg_min_list_mem: "xs \<noteq> [] \<Longrightarrow> arg_min_list f xs \<in> set xs"
  by (rule arg_min_list_in)

lemma snap_suffix:
  "snap seps s target earliest latest = Some tail \<Longrightarrow> \<exists>k \<ge> earliest. tail = drop k s"
proof (induction seps)
  case (Cons sep seps)
  show ?case
  proof (cases "sep = [] \<or> candidate_loop sep s latest (py_find s sep earliest) = []")
    case True
    with Cons show ?thesis by (auto split: if_splits)
  next
    case False
    let ?cs = "candidate_loop sep s latest (py_find s sep earliest)"
    have "arg_min_list (\<lambda>p. \<bar>int p - int target\<bar>) ?cs \<in> set ?cs" using False by (intro arg_min_list_mem) simp
    from candidates_bound [OF this] False Cons.prems show ?thesis
      by (auto split: list.splits intro!: exI [of _ "arg_min_list (\<lambda>p. \<bar>int p - int target\<bar>) ?cs"])
  qed
qed simp

lemma overlap_tail_suffix: "\<exists>k. overlap_tail s overlap = drop k s \<and> length (overlap_tail s overlap) \<le> 2 * overlap"
proof -
  consider "overlap = 0 \<or> s = []" | "overlap \<noteq> 0" "s \<noteq> []" "overlap \<ge> length s" | "overlap \<noteq> 0" "s \<noteq> []" "overlap < length s"
    by linarith
  then show ?thesis
  proof cases
    case 1
    then show ?thesis by (intro exI [of _ "length s"]) (simp add: overlap_tail_def)
  next
    case 2
    then show ?thesis by (intro exI [of _ 0]) (simp add: overlap_tail_def)
  next
    case 3
    let ?sn = "snap recursive_separators s (length s - overlap) (length s - 2 * overlap) (length s - max 1 (overlap div 2))"
    show ?thesis
    proof (cases ?sn)
      case None
      with 3 show ?thesis
        by (intro exI [of _ "length s - overlap"]) (simp add: overlap_tail_def Let_def)
    next
      case (Some tail)
      from snap_suffix [OF Some] obtain k where k: "k \<ge> length s - 2 * overlap" "tail = drop k s" by blast
      with Some 3 show ?thesis
        by (intro exI [of _ k]) (simp add: overlap_tail_def Let_def)
    qed
  qed
qed

section \<open>Stripping\<close>

lemma strip_decomp:
  obtains l r where "s = l @ py_strip s @ r" "length l = length s - length (py_lstrip s)"
    "\<forall>c \<in> set l. py_isspace c" "\<forall>c \<in> set r. py_isspace c"
    "py_strip s = [] \<or> \<not> py_isspace (hd (py_strip s))"
proof -
  let ?m = "py_lstrip s"
  let ?r = "rev (takeWhile py_isspace (rev ?m))"
  have m: "?m = py_strip s @ ?r"
    by (metis py_rstrip_def py_strip_def rev_append rev_rev_ident takeWhile_dropWhile_id)
  have "s = takeWhile py_isspace s @ ?m" by (simp add: py_lstrip_def)
  with m have "s = takeWhile py_isspace s @ py_strip s @ ?r" by simp
  moreover have "length (takeWhile py_isspace s) = length s - length ?m"
    by (metis add_diff_cancel_right' length_append py_lstrip_def takeWhile_dropWhile_id)
  moreover have "py_strip s = [] \<or> \<not> py_isspace (hd (py_strip s))"
    using m by (cases "py_strip s") (auto simp: py_lstrip_def dropWhile_eq_Cons_conv)
  ultimately show thesis
    by (intro that [of "takeWhile py_isspace s" ?r]) (auto dest: set_takeWhileD)
qed

section \<open>The merge\<close>

definition placed :: "string \<Rightarrow> nat \<Rightarrow> int \<times> string \<Rightarrow> bool" where
  "placed t bound c \<longleftrightarrow> 0 \<le> fst c \<and> snd c \<noteq> [] \<and> length (snd c) \<le> bound
     \<and> snd c = take (length (snd c)) (drop (nat (fst c)) t)"

definition covers :: "(int \<times> string) list \<Rightarrow> nat \<Rightarrow> bool" where
  "covers cs i \<longleftrightarrow> (\<exists>c \<in> set cs. fst c \<le> int i \<and> int i < fst c + int (length (snd c)))"

definition in_order :: "(int \<times> string) list \<Rightarrow> bool" where
  "in_order cs \<longleftrightarrow> sorted (map fst cs)"

text \<open>No visible character lies between \<open>a\<close> and a chunk that starts later.\<close>

definition blank_before :: "string \<Rightarrow> nat \<Rightarrow> (int \<times> string) list \<Rightarrow> bool" where
  "blank_before t a cs \<longleftrightarrow> (\<forall>c \<in> set cs. \<forall>i. a \<le> i \<longrightarrow> int i < fst c \<longrightarrow> py_isspace (t ! i))"

lemma append_chunk_placed:
  assumes t: "t = pre @ cur @ post" and a: "a = length pre" and len: "length cur \<le> bound"
    and cs: "list_all (placed t bound) cs" "in_order cs" "blank_before t a cs"
  shows "list_all (placed t bound) (append_chunk cs (int a) cur)"
    and "in_order (append_chunk cs (int a) cur)" "blank_before t a (append_chunk cs (int a) cur)"
    and "set cs \<subseteq> set (append_chunk cs (int a) cur)"
    and "a \<le> i \<Longrightarrow> i < a + length cur \<Longrightarrow> \<not> py_isspace (t ! i) \<Longrightarrow> covers (append_chunk cs (int a) cur) i"
proof -
  obtain l r where c: "cur = l @ py_strip cur @ r" "length l = length cur - length (py_lstrip cur)"
    "\<forall>c \<in> set l. py_isspace c" "\<forall>c \<in> set r. py_isspace c"
    "py_strip cur = [] \<or> \<not> py_isspace (hd (py_strip cur))" by (rule strip_decomp)
  have le: "length (py_lstrip cur) \<le> length cur" by (simp add: py_lstrip_def length_dropWhile_le)
  have new: "append_chunk cs (int a) cur =
      (if py_strip cur = [] then cs else cs @ [(int (a + length l), py_strip cur)])"
    using c(2) le by (simp add: append_chunk_def Let_def of_nat_diff)
  have at: "t ! (a + j) = cur ! j" if "j < length cur" for j
    using that by (simp add: t a nth_append)
  have blank: "py_isspace (t ! i)" if "a \<le> i" "i < a + length l" for i
  proof -
    have "i - a < length l" using that by simp
    then have "(l @ py_strip cur @ r) ! (i - a) = l ! (i - a)" by (simp add: nth_append)
    then have "cur ! (i - a) = l ! (i - a)" unfolding c(1) [symmetric] .
    moreover have "i - a < length cur" using that arg_cong [OF c(1), of length] by simp
    ultimately have "t ! i = l ! (i - a)" using that at [of "i - a"] by simp
    with that c(3) show ?thesis by simp
  qed
  have first: "\<not> py_isspace (t ! (a + length l))" "a + length l < length t" if "py_strip cur \<noteq> []"
  proof -
    from that obtain x xs where x: "py_strip cur = x # xs" by (cases "py_strip cur") auto
    have "(l @ py_strip cur @ r) ! length l = x" by (simp add: x)
    then have "cur ! length l = x" unfolding c(1) [symmetric] .
    moreover have "length l < length cur" using arg_cong [OF c(1), of length] by (simp add: x)
    ultimately have "cur ! length l = x" "length l < length cur" by simp_all
    with at x c(5) show "\<not> py_isspace (t ! (a + length l))" "a + length l < length t"
      using t a by auto
  qed
  have "drop (length l) cur = py_strip cur @ r"
    using arg_cong [OF c(1), of "drop (length l)"] by simp
  then have "drop (a + length l) t = py_strip cur @ r @ post"
    using arg_cong [OF c(1), of length] unfolding t a by simp
  then have "placed t bound (int (a + length l), py_strip cur)" if "py_strip cur \<noteq> []"
    using that len arg_cong [OF c(1), of length] by (simp add: placed_def nat_int_add)
  with cs(1) show "list_all (placed t bound) (append_chunk cs (int a) cur)" by (simp add: new)
  have "fst c \<le> int (a + length l)" if "c \<in> set cs" "py_strip cur \<noteq> []" for c
  proof (rule ccontr)
    assume "\<not> fst c \<le> int (a + length l)"
    then have "py_isspace (t ! (a + length l))" using cs(3) that(1) by (auto simp: blank_before_def)
    with first(1) [OF that(2)] show False by simp
  qed
  with cs(2) show "in_order (append_chunk cs (int a) cur)"
    by (auto simp: new in_order_def sorted_append)
  show "blank_before t a (append_chunk cs (int a) cur)"
    using cs(3) blank by (auto simp: new blank_before_def)
  show "set cs \<subseteq> set (append_chunk cs (int a) cur)" by (auto simp: new)
  show "covers (append_chunk cs (int a) cur) i"
    if i: "a \<le> i" "i < a + length cur" "\<not> py_isspace (t ! i)"
  proof -
    have "a + length l \<le> i" using blank i by force
    moreover have "i < a + length l + length (py_strip cur)"
    proof (rule ccontr)
      assume "\<not> i < a + length l + length (py_strip cur)"
      then have k: "length l + length (py_strip cur) \<le> i - a" by simp
      then obtain m where m: "i - a = length l + (length (py_strip cur) + m)"
        by (metis add.assoc le_Suc_ex)
      then have "(l @ py_strip cur @ r) ! (i - a) = r ! m" by (simp add: nth_append)
      then have "cur ! (i - a) = r ! m" unfolding c(1) [symmetric] .
      moreover have "m < length r"
        using i(1,2) m arg_cong [OF c(1), of length] by simp
      ultimately have "py_isspace (cur ! (i - a))" using c(4) by simp
      with at [of "i - a"] i show False by simp
    qed
    ultimately show ?thesis by (auto simp: new covers_def)
  qed
qed

definition merge_inv :: "string \<Rightarrow> nat \<Rightarrow> nat \<Rightarrow> string \<Rightarrow> nat \<Rightarrow> merge_state \<Rightarrow> bool" where
  "merge_inv t limit overlap read a st \<longleftrightarrow>
     ms_start st = int a \<and> ms_position st = int (length read) \<and> a \<le> length read \<and> ms_current st = drop a read
     \<and> length (ms_current st) \<le> limit + 2 * overlap
     \<and> list_all (placed t (limit + 2 * overlap)) (ms_chunks st) \<and> in_order (ms_chunks st)
     \<and> blank_before t a (ms_chunks st)
     \<and> (\<forall>i < a. \<not> py_isspace (t ! i) \<longrightarrow> covers (ms_chunks st) i)"

lemma covers_mono: "covers cs i \<Longrightarrow> set cs \<subseteq> set cs' \<Longrightarrow> covers cs' i"
  by (auto simp: covers_def)

lemma merge_step_inv:
  assumes inv: "merge_inv t limit overlap read a st" and t: "t = read @ piece @ post"
    and "length piece \<le> limit"
  shows "\<exists>a'. merge_inv t limit overlap (read @ piece) a' (merge_step limit overlap piece st)"
proof (cases "ms_current st \<noteq> [] \<and> length (ms_current st) + length piece > limit")
  case True
  let ?cur = "ms_current st" and ?cs = "append_chunk (ms_chunks st) (ms_start st) (ms_current st)"
  let ?tail = "overlap_tail (ms_current st) overlap"
  from inv have i: "ms_start st = int a" "a \<le> length read" "?cur = drop a read" "length ?cur \<le> limit + 2 * overlap"
    "list_all (placed t (limit + 2 * overlap)) (ms_chunks st)" "in_order (ms_chunks st)"
    "blank_before t a (ms_chunks st)" "\<forall>i < a. \<not> py_isspace (t ! i) \<longrightarrow> covers (ms_chunks st) i"
    "ms_position st = int (length read)"
    unfolding merge_inv_def by blast+
  have tt: "t = take a read @ ?cur @ piece @ post" using t i(3) by simp
  have al: "a = length (take a read)" using i(2) by simp
  note ac = append_chunk_placed [OF tt al i(4-7), folded i(1)]
  obtain k where k: "?tail = drop k ?cur" "length ?tail \<le> 2 * overlap" using overlap_tail_suffix by blast
  let ?a = "length read - length ?tail"
  have len: "length ?tail \<le> length ?cur" "a + length ?cur = length read" using k(1) i(2,3) by auto
  have tail: "?tail = drop ?a read"
    using k(1) i(3) len by (cases "k \<le> length ?cur") (auto simp: min_def)
  have "merge_step limit overlap piece st = st\<lparr>ms_chunks := ?cs, ms_start := int (length read) - int (length ?tail),
      ms_current := ?tail @ piece, ms_position := int (length (read @ piece))\<rparr>"
    using True by (simp add: merge_step_def Let_def i(9))
  moreover have "a \<le> ?a" using len by simp
  moreover have "covers ?cs i" if "i < ?a" "\<not> py_isspace (t ! i)" for i
    using that i(8) ac(4) ac(5) [of i] len by (cases "i < a") (auto intro: covers_mono)
  moreover have "blank_before t ?a ?cs" using ac(3) \<open>a \<le> ?a\<close> by (auto simp: blank_before_def)
  ultimately show ?thesis
    using ac(1,2) k(2) len tail assms(3)
    by (intro exI [of _ ?a]) (simp add: merge_inv_def of_nat_diff)
next
  case False
  let ?a = "if ms_current st = [] then length read else a"
  from inv have "ms_current st = [] \<Longrightarrow> a = length read" by (auto simp: merge_inv_def)
  with False inv assms(3) show ?thesis
    by (intro exI [of _ ?a]) (auto simp: merge_inv_def merge_step_def Let_def)
qed

lemma merge_fold_inv:
  assumes "\<forall>p \<in> set ps. length p \<le> limit" "merge_inv t limit overlap read a st" "t = read @ concat ps"
  shows "\<exists>a'. merge_inv t limit overlap t a' (fold (merge_step limit overlap) ps st)"
  using assms
proof (induction ps arbitrary: read a st)
  case Nil
  then show ?case by auto
next
  case (Cons p ps)
  obtain a' where "merge_inv t limit overlap (read @ p) a' (merge_step limit overlap p st)"
    using merge_step_inv [OF Cons.prems(2), of p "concat ps"] Cons.prems(1,3) by auto
  with Cons.IH [of "read @ p" a'] Cons.prems show ?case by simp
qed



text \<open>
  A chunk can be longer than the configured chunk size: the carried overlap is not counted
  against the limit when the next piece is packed behind it.
\<close>

theorem chunk_exceeds_chunk_size:
  "\<exists>cs c. split_recursive ''aaa bbb ccc'' 4 3 = Some cs \<and> c \<in> set cs \<and> length (snd c) > 4"
proof -
  have "split_recursive ''aaa bbb ccc'' 4 3 = Some [(0, ''aaa''), (1, ''aa bbb''), (4, ''bbb ccc'')]"
    by code_simp
  then show ?thesis by (intro exI [of _ "[(0, ''aaa''), (1, ''aa bbb''), (4, ''bbb ccc'')]"] exI [of _ "(1, ''aa bbb'')"]) simp
qed

section \<open>Headings\<close>

lemma bisect_loop_count:
  assumes "sorted xs" "lo \<le> hi" "hi \<le> length xs"
    and "\<And>i. i < lo \<Longrightarrow> int (xs ! i) \<le> x" "\<And>i. hi \<le> i \<Longrightarrow> i < length xs \<Longrightarrow> x < int (xs ! i)"
  shows "bisect_loop xs x lo hi \<le> length xs \<and> (\<forall>i < length xs. i < bisect_loop xs x lo hi \<longleftrightarrow> int (xs ! i) \<le> x)"
  using assms(2-5)
proof (induction "hi - lo" arbitrary: lo hi rule: less_induct)
  case less
  let ?mid = "(lo + hi) div 2"
  have eq: "bisect_loop xs x lo hi = (if lo < hi then
      if x < int (xs ! ?mid) then bisect_loop xs x lo ?mid else bisect_loop xs x (?mid + 1) hi else lo)"
    by (subst bisect_loop.simps) (simp add: Let_def)
  show ?case
  proof (cases "lo < hi")
    case True
    then have mid: "lo \<le> ?mid" "?mid < hi" by simp_all
    show ?thesis
    proof (cases "x < int (xs ! ?mid)")
      case left: True
      have "x < int (xs ! i)" if "?mid \<le> i" "i < length xs" for i
        using left sorted_nth_mono [OF assms(1) that] by linarith
      with less.hyps [of ?mid lo] less.prems mid True left show ?thesis
        by (simp add: eq del: div_add1_eq)
    next
      case right: False
      have "int (xs ! i) \<le> x" if "i < ?mid + 1" for i
        using right sorted_nth_mono [OF assms(1), of i ?mid] that mid less.prems by fastforce
      with less.hyps [of hi "?mid + 1"] less.prems mid True right show ?thesis
        by (simp add: eq)
    qed
  next
    case False
    then have b: "bisect_loop xs x lo hi = lo" "lo = hi" using eq less.prems(1) by auto
    show ?thesis unfolding b(1) using less.prems b(2) by (auto simp: not_less [symmetric])
  qed
qed

text \<open>
  a chunk is attributed to the last heading at or before its start, and to none before the
  first heading.
\<close>

theorem section_at_last_heading:
  assumes "sorted (map fst headings)"
  shows "section_at headings start =
    (case filter (\<lambda>h. int (fst h) \<le> start) headings of [] \<Rightarrow> None | hs \<Rightarrow> Some (snd (last hs)))"
proof -
  let ?xs = "map fst headings" and ?P = "\<lambda>h. int (fst h) \<le> start"
  let ?k = "bisect_loop ?xs start 0 (length headings)"
  have k: "?k \<le> length headings" "\<And>i. i < length headings \<Longrightarrow> i < ?k \<longleftrightarrow> ?P (headings ! i)"
    using bisect_loop_count [OF assms, of 0 "length headings" start] by auto
  have "filter ?P headings = take ?k headings"
  proof -
    have "filter ?P (take ?k headings) = take ?k headings"
      using k by (auto simp: filter_id_conv in_set_conv_nth) (metis fst_conv order_less_le_trans)
    moreover have "filter ?P (drop ?k headings) = []"
      using k by (auto simp: filter_empty_conv in_set_conv_nth) (metis add.commute fst_conv less_diff_conv not_add_less1)
    ultimately show ?thesis by (metis append_Nil2 append_take_drop_id filter_append)
  qed
  moreover have "last (take ?k headings) = headings ! (?k - 1)" if "?k \<noteq> 0"
  proof -
    have "take ?k headings \<noteq> []" using that k(1) by (cases headings) auto
    then show ?thesis using that k(1) by (simp add: last_conv_nth min_def)
  qed
  moreover have "nat (int ?k - 1) = ?k - 1" by simp
  ultimately show ?thesis
    using k(1) by (cases "?k = 0"; cases "take ?k headings") (auto simp: section_at_def Let_def)
qed

theorem section_at_last_heading_witness:
  "section_at [(0, ''A''), (10, ''B'')] 12 = Some ''B''"
  using section_at_last_heading [of "[(0, ''A''), (10, ''B'')]" 12] by simp

section \<open>Token windows\<close>

lemma token_windows_map:
  assumes "0 < step" "length tokens - start \<le> fuel"
  shows "\<exists>n. token_windows fuel limit step tokens start = map (\<lambda>k. take limit (drop (start + k * step) tokens)) [0..<n]
    \<and> (\<forall>k < n. start + k * step < length tokens)
    \<and> (\<forall>k. Suc k < n \<longrightarrow> start + k * step + limit < length tokens)
    \<and> (length tokens \<le> start \<or> (\<exists>k. n = Suc k \<and>
         (length tokens \<le> start + k * step + limit \<or> length tokens \<le> start + k * step + step)))"
  using assms(2)
proof (induction fuel arbitrary: start)
  case 0
  then show ?case by (intro exI [of _ 0]) auto
next
  case (Suc fuel)
  show ?case
  proof (cases "length tokens \<le> start \<or> length tokens \<le> start + limit")
    case True
    then show ?thesis
      by (intro exI [of _ "if length tokens \<le> start then 0 else 1"]) auto
  next
    case False
    with Suc.prems assms(1) have "length tokens - (start + step) \<le> fuel" by simp
    from Suc.IH [OF this] obtain n where n:
      "token_windows fuel limit step tokens (start + step) =
         map (\<lambda>k. take limit (drop (start + step + k * step) tokens)) [0..<n]"
      "\<forall>k < n. start + step + k * step < length tokens"
      "\<forall>k. Suc k < n \<longrightarrow> start + step + k * step + limit < length tokens"
      "length tokens \<le> start + step \<or> (\<exists>k. n = Suc k \<and>
         (length tokens \<le> start + step + k * step + limit \<or> length tokens \<le> start + step + k * step + step))"
      by blast
    have "map (\<lambda>k. take limit (drop (start + k * step) tokens)) [0..<Suc n] =
        take limit (drop start tokens) # map (\<lambda>k. take limit (drop (start + step + k * step) tokens)) [0..<n]"
      by (simp add: upt_conv_Cons map_Suc_upt [symmetric] comp_def add.assoc del: upt_Suc)
    moreover have "start + k * step < length tokens" if "k < Suc n" for k
      using that n(2) False by (cases k) (auto simp: algebra_simps)
    moreover have "start + k * step + limit < length tokens" if "Suc k < Suc n" for k
      using that n(3) False by (cases k) (auto simp: algebra_simps)
    moreover have "\<exists>k. Suc n = Suc k \<and>
         (length tokens \<le> start + k * step + limit \<or> length tokens \<le> start + k * step + step)"
    proof (cases n)
      case 0
      with n(4) have "length tokens \<le> start + step" by blast
      with 0 show ?thesis by simp
    next
      case (Suc k)
      with n(2) have "start + step < length tokens" by fastforce
      with n(4) Suc show ?thesis by (auto simp: algebra_simps)
    qed
    ultimately show ?thesis
      using False n(1) by (intro exI [of _ "Suc n"]) (simp del: upt_Suc)
  qed
qed



section \<open>Outcome\<close>

text \<open>
  Splitting blank text yields no chunks; otherwise it raises exactly when the reserved room or
  the overlap leave no room for text, and else returns consecutively numbered chunks.
\<close>

theorem split_text_outcome:
  "(split_text encode decode matches t config reserved = Inl NoRoomForText \<longleftrightarrow>
      py_strip t \<noteq> [] \<and> chunk_size config \<le> reserved)
   \<and> (split_text encode decode matches t config reserved = Inl OverlapTooLarge \<longleftrightarrow>
      py_strip t \<noteq> [] \<and> reserved < chunk_size config \<and> chunk_size config \<le> chunk_overlap config + reserved)
   \<and> split_text encode decode matches t config reserved \<noteq> Inl RecursionFault
   \<and> (case split_text encode decode matches t config reserved of
        Inl e \<Rightarrow> True | Inr cs \<Rightarrow> map chunk_index cs = [0..<length cs])"
proof -
  have num: "map chunk_index (number_chunks ps) = [0..<length (number_chunks ps)]" for ps
  proof -
    have "map chunk_index (number_chunks ps) = map fst (enumerate 0 ps)"
      unfolding number_chunks_def map_map by (rule map_cong) auto
    also have "\<dots> = [0..<length (number_chunks ps)]" by (simp add: number_chunks_def)
    finally show ?thesis .
  qed
  have blank: "py_strip [] = []" by (simp add: py_strip_def py_lstrip_def py_rstrip_def)
  define r where "r limit overlap = the (split_recursive t limit overlap)" for limit overlap
  have total: "split_recursive t limit overlap = Some (r limit overlap)" for limit overlap
    using recurse_total [of recursive_separators limit t]
    by (auto simp: split_recursive_def recursive_separators_def r_def)
  show ?thesis
    using num blank
    by (auto simp: split_text_def Let_def total split: strategy.splits)
qed

end
