(* ===== verification/Budget.thy ===== *)
theory Budget
  imports Py_Values
begin

text \<open>
  Execution budgets (\<^verbatim>\<open>src/stel/budget.py\<close>): the ledger with its caps and counters, the guard over
  a model ledger and a run ledger, and the reservation of provider calls.

  A ledger operation runs under the ledger's own lock, so it is one atomic function on the
  ledger. Admission locks and the interleaving of concurrent reservations are in
  \<open>Budget_Threads\<close>. Ledgers are numbered; the number stands for \<^verbatim>\<open>id(ledger)\<close>, by which the guard
  orders its admission locks. Spend is a rational: additions of floats are taken as exact.
\<close>

section \<open>Ledgers\<close>

record budget_config =
  max_documents :: "int option"
  max_file_bytes :: "int option"
  max_total_bytes :: "int option"
  max_input_tokens :: "int option"
  max_output_tokens :: "int option"
  max_api_calls :: "int option"
  max_cost_usd :: "rat option"

record budget_ledger =
  b_config :: budget_config
  b_scope :: string
  b_documents :: int
  b_total_bytes :: int
  b_api_calls :: int
  b_input_tokens :: int
  b_output_tokens :: int
  b_cost_usd :: rat

datatype budget_error =
    BudgetExceeded string string rat rat
  | SettledTwice
  | NotSettled
  | ReservationTooSmall
  | BadMetric
  | BodyError

definition new_ledger :: "budget_config \<Rightarrow> string \<Rightarrow> budget_ledger" where
  "new_ledger c s = \<lparr>b_config = c, b_scope = s, b_documents = 0, b_total_bytes = 0, b_api_calls = 0,
     b_input_tokens = 0, b_output_tokens = 0, b_cost_usd = 0\<rparr>"

definition has_response_measured_caps :: "budget_ledger \<Rightarrow> bool" where
  "has_response_measured_caps l \<longleftrightarrow> max_input_tokens (b_config l) \<noteq> None
     \<or> max_output_tokens (b_config l) \<noteq> None \<or> max_cost_usd (b_config l) \<noteq> None"

text \<open>An operation returns the ledger it leaves, also when it raises.\<close>

definition over_cap :: "budget_ledger \<Rightarrow> string \<Rightarrow> int option \<Rightarrow> int \<Rightarrow> budget_error + unit" where
  "over_cap l limit cap observed = (case cap of None \<Rightarrow> Inr ()
     | Some c \<Rightarrow> if observed > c then Inl (BudgetExceeded (b_scope l) limit (of_int c) (of_int observed)) else Inr ())"

definition charge_documents :: "int \<Rightarrow> budget_ledger \<Rightarrow> (budget_error + unit) \<times> budget_ledger" where
  "charge_documents n l = (let l = l\<lparr>b_documents := b_documents l + n\<rparr>
     in (over_cap l ''max_documents'' (max_documents (b_config l)) (b_documents l), l))"

definition check_file_bytes :: "int \<Rightarrow> budget_ledger \<Rightarrow> budget_error + unit" where
  "check_file_bytes n l = over_cap l ''max_file_bytes'' (max_file_bytes (b_config l)) n"

definition charge_bytes :: "int \<Rightarrow> budget_ledger \<Rightarrow> (budget_error + unit) \<times> budget_ledger" where
  "charge_bytes n l = (let l = l\<lparr>b_total_bytes := b_total_bytes l + n\<rparr>
     in (over_cap l ''max_total_bytes'' (max_total_bytes (b_config l)) (b_total_bytes l), l))"

definition headroom_checks :: "int \<Rightarrow> budget_ledger \<Rightarrow> (string \<times> rat option \<times> rat) list" where
  "headroom_checks next_calls l =
     [(''max_api_calls'', map_option of_int (max_api_calls (b_config l)), of_int (b_api_calls l + next_calls)),
      (''max_input_tokens'', map_option of_int (max_input_tokens (b_config l)), of_int (b_input_tokens l)),
      (''max_output_tokens'', map_option of_int (max_output_tokens (b_config l)), of_int (b_output_tokens l)),
      (''max_cost_usd'', max_cost_usd (b_config l), b_cost_usd l)]"

definition ensure_headroom :: "int \<Rightarrow> budget_ledger \<Rightarrow> budget_error + unit" where
  "ensure_headroom next_calls l = each (\<lambda>(limit, cap, observed). case cap of None \<Rightarrow> Inr ()
     | Some c \<Rightarrow> if (if limit = ''max_api_calls'' then observed > c else observed \<ge> c)
         then Inl (BudgetExceeded (b_scope l) limit c observed) else Inr ()) (headroom_checks next_calls l)"

record usage =
  u_api_calls :: int
  u_input_tokens :: int
  u_output_tokens :: int
  u_cost_usd :: pyfloat

definition calls_usage :: "int \<Rightarrow> usage" where
  "calls_usage n = \<lparr>u_api_calls = n, u_input_tokens = 0, u_output_tokens = 0, u_cost_usd = Finite 0\<rparr>"

fun safe_cost :: "pyfloat \<Rightarrow> rat" where
  "safe_cost (Finite x) = (if x < 0 then 0 else x)"
| "safe_cost _ = 0"

definition charge_usage :: "usage \<Rightarrow> budget_ledger \<Rightarrow> budget_ledger" where
  "charge_usage u l = l\<lparr>
     b_api_calls := b_api_calls l + max (u_api_calls u) 0,
     b_input_tokens := b_input_tokens l + max (u_input_tokens u) 0,
     b_output_tokens := b_output_tokens l + max (u_output_tokens u) 0,
     b_cost_usd := b_cost_usd l + safe_cost (u_cost_usd u)\<rparr>"

section \<open>Guards\<close>

type_synonym metrics = "(string \<times> pyval) list"

record budget_guard =
  g_ledgers :: "nat list"
  g_estimator :: "(metrics \<Rightarrow> pyfloat) option"

definition new_guard :: "nat option \<Rightarrow> nat option \<Rightarrow> (metrics \<Rightarrow> pyfloat) option \<Rightarrow> budget_guard" where
  "new_guard model run_ledger estimator =
     \<lparr>g_ledgers = fold (\<lambda>l ls. case l of None \<Rightarrow> ls | Some i \<Rightarrow> set_add i ls) [model, run_ledger] [],
      g_estimator = estimator\<rparr>"

definition admission_ledgers :: "budget_guard \<Rightarrow> nat list" where
  "admission_ledgers g = sort (g_ledgers g)"

definition guard_active :: "budget_guard \<Rightarrow> bool" where
  "guard_active g \<longleftrightarrow> g_ledgers g \<noteq> []"

text \<open>
  The guard's checks and charges visit its ledgers in order and stop at the first that raises;
  the ledgers charged before it, and the one that raises, keep their charge.
\<close>

fun charge_ledgers :: "(budget_ledger \<Rightarrow> (budget_error + unit) \<times> budget_ledger) \<Rightarrow> nat list \<Rightarrow> (nat \<Rightarrow> budget_ledger) \<Rightarrow>
    (budget_error + unit) \<times> (nat \<Rightarrow> budget_ledger)" where
  "charge_ledgers f [] s = (Inr (), s)"
| "charge_ledgers f (l # ls) s = (case f (s l) of
       (Inl e, b) \<Rightarrow> (Inl e, s(l := b))
     | (Inr _, b) \<Rightarrow> charge_ledgers f ls (s(l := b)))"

definition guard_charge_documents :: "budget_guard \<Rightarrow> int \<Rightarrow> (nat \<Rightarrow> budget_ledger) \<Rightarrow>
    (budget_error + unit) \<times> (nat \<Rightarrow> budget_ledger)" where
  "guard_charge_documents g n = charge_ledgers (charge_documents n) (g_ledgers g)"

definition guard_charge_bytes :: "budget_guard \<Rightarrow> int \<Rightarrow> (nat \<Rightarrow> budget_ledger) \<Rightarrow>
    (budget_error + unit) \<times> (nat \<Rightarrow> budget_ledger)" where
  "guard_charge_bytes g n = charge_ledgers (charge_bytes n) (g_ledgers g)"

definition guard_check_file_bytes :: "budget_guard \<Rightarrow> int \<Rightarrow> (nat \<Rightarrow> budget_ledger) \<Rightarrow> budget_error + unit" where
  "guard_check_file_bytes g n s = each (\<lambda>l. check_file_bytes n (s l)) (g_ledgers g)"

text \<open>\<^verbatim>\<open>int(value)\<close> of a float truncates towards zero and raises for an infinity or a NaN.\<close>

definition metric_int :: "metrics \<Rightarrow> string \<Rightarrow> budget_error + int" where
  "metric_int m key = (case map_of m key of
       Some (PyInt n) \<Rightarrow> Inr (max n 0)
     | Some (PyFloat (Finite x)) \<Rightarrow> Inr (max (if x < 0 then \<lceil>x\<rceil> else \<lfloor>x\<rfloor>) 0)
     | Some (PyFloat _) \<Rightarrow> Inl BadMetric
     | _ \<Rightarrow> Inr 0)"

definition metric_cost :: "budget_guard \<Rightarrow> metrics \<Rightarrow> budget_error + pyfloat" where
  "metric_cost g m =
     (let estimated = Inr (case g_estimator g of None \<Rightarrow> Finite 0 | Some f \<Rightarrow> f m)
      in case map_of m ''reported_cost_usd'' of
           Some (PyInt n) \<Rightarrow> (case py_float n of None \<Rightarrow> Inl BadMetric
             | Some x \<Rightarrow> if x \<le> 0 then estimated else Inr (Finite x))
         | Some (PyFloat (Finite x)) \<Rightarrow> if x \<le> 0 then estimated else Inr (Finite x)
         | _ \<Rightarrow> estimated)"

definition metrics_usage :: "budget_guard \<Rightarrow> metrics \<Rightarrow> budget_error + usage" where
  "metrics_usage g m = rbind (metric_cost g m) (\<lambda>cost.
     rbind (metric_int m ''api_calls'') (\<lambda>calls.
     rbind (metric_int m ''input_tokens'') (\<lambda>inp.
     rbind (metric_int m ''output_tokens'') (\<lambda>out.
       Inr \<lparr>u_api_calls = calls, u_input_tokens = inp, u_output_tokens = out, u_cost_usd = cost\<rparr>))))"

text \<open>
  What \<^verbatim>\<open>settle_many\<close> does: the charges it makes in order, each on every ledger of the guard, and
  the exception it ends with, if any. The call count of a response is taken out of what is
  charged from its metrics and settled against the reservation at the end.
\<close>

fun settle_items :: "budget_guard \<Rightarrow> metrics list \<Rightarrow> int \<Rightarrow> usage list \<times> (budget_error + int)" where
  "settle_items g [] measured = ([], Inr measured)"
| "settle_items g (m # ms) measured =
     (case metric_int m ''api_calls'' of Inl e \<Rightarrow> ([], Inl e)
      | Inr calls \<Rightarrow>
          (case metrics_usage g (filter (\<lambda>(k, v). k \<noteq> ''api_calls'') m) of Inl e \<Rightarrow> ([], Inl e)
           | Inr u \<Rightarrow> (case settle_items g ms (measured + calls) of (us, r) \<Rightarrow> (u # us, r))))"

definition settle_calls :: "int \<Rightarrow> int \<Rightarrow> usage list" where
  "settle_calls reserved actual = (if actual > reserved then [calls_usage (actual - reserved)] else [])"

definition settle_many :: "budget_guard \<Rightarrow> int \<Rightarrow> metrics list \<Rightarrow> int option \<Rightarrow> usage list \<times> (budget_error + unit)" where
  "settle_many g reserved ms actual = (case settle_items g ms 0 of
       (us, Inl e) \<Rightarrow> (us, Inl e)
     | (us, Inr measured) \<Rightarrow>
         (us @ settle_calls reserved (max (case actual of None \<Rightarrow> measured | Some a \<Rightarrow> a) 0), Inr ()))"

section \<open>Document and byte caps\<close>

lemma over_cap_ok: "over_cap l k cap n = Inr () \<longleftrightarrow> (\<forall>c. cap = Some c \<longrightarrow> n \<le> c)"
  by (auto simp: over_cap_def split: option.splits)

lemma charge_ledgers_result:
  assumes "distinct ls"
  shows "(fst (charge_ledgers f ls s) = Inr () \<longleftrightarrow> (\<forall>l \<in> set ls. fst (f (s l)) = Inr ())) \<and>
    (fst (charge_ledgers f ls s) = Inr () \<longrightarrow>
       snd (charge_ledgers f ls s) = (\<lambda>l. if l \<in> set ls then snd (f (s l)) else s l))"
  using assms
proof (induction ls arbitrary: s)
  case (Cons l ls)
  show ?case
  proof (cases "f (s l)")
    case (Pair r b)
    show ?thesis
    proof (cases r)
      case (Inr u)
      define s1 where "s1 = s(l := b)"
      have same: "s1 k = (if k = l then b else s k)" for k by (simp add: s1_def)
      have run: "charge_ledgers f (l # ls) s = charge_ledgers f ls s1" using Pair Inr by (simp add: s1_def)
      have rest: "(\<forall>k \<in> set ls. fst (f (s1 k)) = Inr ()) \<longleftrightarrow> (\<forall>k \<in> set ls. fst (f (s k)) = Inr ())"
        using Cons.prems by (intro ball_cong) (auto simp: same)
      have "(\<lambda>k. if k \<in> set ls then snd (f (s1 k)) else s1 k) = (\<lambda>k. if k \<in> set (l # ls) then snd (f (s k)) else s k)"
        using Cons.prems Pair by (auto simp: same)
      with Cons.IH [of s1] Cons.prems Pair Inr show ?thesis unfolding run rest by simp
    qed (simp add: Pair)
  qed
qed simp

end
