(* ===== verification/Budget_Threads.thy ===== *)
theory Budget_Threads
  imports Budget
begin

text \<open>
  Concurrent reservations (\<^verbatim>\<open>BudgetGuard.reserve_calls\<close> and \<^verbatim>\<open>BudgetGuard.provider_calls\<close> of
  \<^verbatim>\<open>src/stel/budget.py\<close>): any number of threads, each running one reservation against guards that
  may share ledgers. A thread's phase is where it stands in the method; each rule of \<open>step\<close> is one
  operation under a lock, so a run of \<open>step\<close> is an interleaving of the threads.

  \<open>bills n ms a\<close> says which responses the provider may give to a reservation of \<open>n\<close> calls: the
  metrics \<open>ms\<close> and the call count \<open>a\<close> the caller settles with. A body may also raise, or return
  without settling; it settles at most once, as the callers in the repository do.
\<close>

datatype call_kind = ReserveCalls | ProviderCalls

datatype phase =
    Acquiring "nat list"
  | Checking "nat list"
  | Charging "nat list"
  | Dropping "nat list"
  | InCall
  | Settling "(nat \<times> usage) list" "budget_error + unit"
  | Finally "nat list" "budget_error + unit"
  | Done "budget_error + unit"

record thread =
  t_kind :: call_kind
  t_guard :: budget_guard
  t_count :: int
  t_phase :: phase
  t_held :: "nat list"

record budget_system =
  s_ledgers :: "nat \<Rightarrow> budget_ledger"
  s_locks :: "nat \<Rightarrow> nat option"
  s_threads :: "thread list"

definition start_thread :: "call_kind \<Rightarrow> budget_guard \<Rightarrow> int \<Rightarrow> thread" where
  "start_thread k g n = \<lparr>t_kind = k, t_guard = g, t_count = n,
     t_phase = (if k = ProviderCalls \<and> n < 1 then Done (Inl ReservationTooSmall)
                else Acquiring (admission_ledgers g)), t_held = []\<rparr>"

definition acquire :: "nat \<Rightarrow> nat \<Rightarrow> budget_system \<Rightarrow> budget_system" where
  "acquire t l s = s\<lparr>s_locks := (s_locks s)(l := Some t)\<rparr>"

definition release :: "nat \<Rightarrow> budget_system \<Rightarrow> budget_system" where
  "release l s = s\<lparr>s_locks := (s_locks s)(l := None)\<rparr>"

definition on_ledger :: "nat \<Rightarrow> (budget_ledger \<Rightarrow> budget_ledger) \<Rightarrow> budget_system \<Rightarrow> budget_system" where
  "on_ledger l f s = s\<lparr>s_ledgers := (s_ledgers s)(l := f (s_ledgers s l))\<rparr>"

definition go :: "nat \<Rightarrow> phase \<Rightarrow> nat list \<Rightarrow> budget_system \<Rightarrow> budget_system" where
  "go t ph held s = s\<lparr>s_threads := (s_threads s)[t := (s_threads s ! t)\<lparr>t_phase := ph, t_held := held\<rparr>]\<rparr>"

definition settle_charges :: "thread \<Rightarrow> metrics list \<Rightarrow> int option \<Rightarrow> (nat \<times> usage) list" where
  "settle_charges th ms a = concat (map (\<lambda>u. map (\<lambda>l. (l, u)) (g_ledgers (t_guard th)))
     (fst (settle_many (t_guard th) (t_count th) ms a)))"

inductive step :: "(int \<Rightarrow> metrics list \<Rightarrow> int option \<Rightarrow> bool) \<Rightarrow> budget_system \<Rightarrow> budget_system \<Rightarrow> bool"
  for bills where
  take_lock: "t < length (s_threads s) \<Longrightarrow> th = s_threads s ! t \<Longrightarrow> t_phase th = Acquiring (l # ls) \<Longrightarrow>
     s_locks s l = None \<Longrightarrow> step bills s (go t (Acquiring ls) (t_held th @ [l]) (acquire t l s))"
| admitted: "t < length (s_threads s) \<Longrightarrow> th = s_threads s ! t \<Longrightarrow> t_phase th = Acquiring [] \<Longrightarrow>
     step bills s (go t (Checking (g_ledgers (t_guard th))) (t_held th) s)"
| headroom: "t < length (s_threads s) \<Longrightarrow> th = s_threads s ! t \<Longrightarrow> t_phase th = Checking (l # ls) \<Longrightarrow>
     ensure_headroom (t_count th) (s_ledgers s l) = Inr () \<Longrightarrow>
     step bills s (go t (Checking ls) (t_held th) s)"
| no_headroom: "t < length (s_threads s) \<Longrightarrow> th = s_threads s ! t \<Longrightarrow> t_phase th = Checking (l # ls) \<Longrightarrow>
     ensure_headroom (t_count th) (s_ledgers s l) = Inl e \<Longrightarrow>
     step bills s (go t (Finally (rev (t_held th)) (Inl e)) (t_held th) s)"
| checked: "t < length (s_threads s) \<Longrightarrow> th = s_threads s ! t \<Longrightarrow> t_phase th = Checking [] \<Longrightarrow>
     step bills s (go t (Charging (g_ledgers (t_guard th))) (t_held th) s)"
| charge: "t < length (s_threads s) \<Longrightarrow> th = s_threads s ! t \<Longrightarrow> t_phase th = Charging (l # ls) \<Longrightarrow>
     step bills s (go t (Charging ls) (t_held th) (on_ledger l (charge_usage (calls_usage (t_count th))) s))"
| reserved: "t < length (s_threads s) \<Longrightarrow> th = s_threads s ! t \<Longrightarrow> t_phase th = Charging [] \<Longrightarrow>
     t_kind th = ReserveCalls \<Longrightarrow> step bills s (go t (Finally (rev (t_held th)) (Inr ())) (t_held th) s)"
| charged: "t < length (s_threads s) \<Longrightarrow> th = s_threads s ! t \<Longrightarrow> t_phase th = Charging [] \<Longrightarrow>
     t_kind th = ProviderCalls \<Longrightarrow>
     step bills s (go t (Dropping (filter (\<lambda>l. \<not> has_response_measured_caps (s_ledgers s l)) (rev (t_held th)))) (t_held th) s)"
| drop_lock: "t < length (s_threads s) \<Longrightarrow> th = s_threads s ! t \<Longrightarrow> t_phase th = Dropping (l # ls) \<Longrightarrow>
     step bills s (go t (Dropping ls) (removeAll l (t_held th)) (release l s))"
| call: "t < length (s_threads s) \<Longrightarrow> th = s_threads s ! t \<Longrightarrow> t_phase th = Dropping [] \<Longrightarrow>
     step bills s (go t InCall (t_held th) s)"
| respond: "t < length (s_threads s) \<Longrightarrow> th = s_threads s ! t \<Longrightarrow> t_phase th = InCall \<Longrightarrow>
     bills (t_count th) ms a \<Longrightarrow>
     step bills s (go t (Settling (settle_charges th ms a) (snd (settle_many (t_guard th) (t_count th) ms a))) (t_held th) s)"
| body_raises: "t < length (s_threads s) \<Longrightarrow> th = s_threads s ! t \<Longrightarrow> t_phase th = InCall \<Longrightarrow>
     step bills s (go t (Finally (rev (t_held th)) (Inl BodyError)) (t_held th) s)"
| unsettled: "t < length (s_threads s) \<Longrightarrow> th = s_threads s ! t \<Longrightarrow> t_phase th = InCall \<Longrightarrow>
     step bills s (go t (Finally (rev (t_held th)) (Inl NotSettled)) (t_held th) s)"
| settle: "t < length (s_threads s) \<Longrightarrow> th = s_threads s ! t \<Longrightarrow> t_phase th = Settling ((l, u) # cs) r \<Longrightarrow>
     step bills s (go t (Settling cs r) (t_held th) (on_ledger l (charge_usage u) s))"
| settled: "t < length (s_threads s) \<Longrightarrow> th = s_threads s ! t \<Longrightarrow> t_phase th = Settling [] r \<Longrightarrow>
     r' = r \<or> r' = Inl BodyError \<or> r \<noteq> Inr () \<and> r' = Inl NotSettled \<Longrightarrow>
     step bills s (go t (Finally (rev (t_held th)) r') (t_held th) s)"
| unlock: "t < length (s_threads s) \<Longrightarrow> th = s_threads s ! t \<Longrightarrow> t_phase th = Finally (l # ls) r \<Longrightarrow>
     step bills s (go t (Finally ls r) (removeAll l (t_held th)) (release l s))"
| finish_up: "t < length (s_threads s) \<Longrightarrow> th = s_threads s ! t \<Longrightarrow> t_phase th = Finally [] r \<Longrightarrow>
     step bills s (go t (Done r) (t_held th) s)"

definition initial_system :: "(nat \<Rightarrow> budget_ledger) \<Rightarrow> (call_kind \<times> budget_guard \<times> int) list \<Rightarrow> budget_system" where
  "initial_system ls calls = \<lparr>s_ledgers = ls, s_locks = (\<lambda>_. None),
     s_threads = map (\<lambda>(k, g, n). start_thread k g n) calls\<rparr>"

lemma system_simps [simp]:
  "s_ledgers (acquire t l s) = s_ledgers s" "s_threads (acquire t l s) = s_threads s"
  "s_locks (acquire t l s) = (s_locks s)(l := Some t)"
  "s_ledgers (release l s) = s_ledgers s" "s_threads (release l s) = s_threads s"
  "s_locks (release l s) = (s_locks s)(l := None)"
  "s_ledgers (on_ledger l f s) = (s_ledgers s)(l := f (s_ledgers s l))"
  "s_locks (on_ledger l f s) = s_locks s" "s_threads (on_ledger l f s) = s_threads s"
  "s_ledgers (go t ph h s) = s_ledgers s" "s_locks (go t ph h s) = s_locks s"
  "length (s_threads (go t ph h s)) = length (s_threads s)"
  by (simp_all add: acquire_def release_def on_ledger_def go_def)

lemma go_threads [simp]:
  "t < length (s_threads s) \<Longrightarrow> s_threads (go t ph h s) ! u =
     (if u = t then (s_threads s ! t)\<lparr>t_phase := ph, t_held := h\<rparr> else s_threads s ! u)"
  by (simp add: go_def)

lemma charge_usage_simps [simp]:
  "b_config (charge_usage u l) = b_config l" "b_scope (charge_usage u l) = b_scope l"
  "b_api_calls (charge_usage u l) = b_api_calls l + max (u_api_calls u) 0"
  "has_response_measured_caps (charge_usage u l) = has_response_measured_caps l"
  by (simp_all add: charge_usage_def has_response_measured_caps_def)

section \<open>Locks\<close>

text \<open>A thread holds exactly the admission locks the code has it hold at its phase.\<close>

definition guard_ok :: "budget_guard \<Rightarrow> bool" where
  "guard_ok g \<longleftrightarrow> distinct (g_ledgers g)"

definition response_ledgers :: "budget_system \<Rightarrow> thread \<Rightarrow> nat set" where
  "response_ledgers s th = {l \<in> set (g_ledgers (t_guard th)). has_response_measured_caps (s_ledgers s l)}"

fun phase_holds :: "budget_system \<Rightarrow> thread \<Rightarrow> phase \<Rightarrow> bool" where
  "phase_holds s th (Acquiring ls) \<longleftrightarrow> t_held th @ ls = admission_ledgers (t_guard th)"
| "phase_holds s th (Checking ls) \<longleftrightarrow> set (t_held th) = set (g_ledgers (t_guard th)) \<and> set ls \<subseteq> set (g_ledgers (t_guard th))"
| "phase_holds s th (Charging ls) \<longleftrightarrow> set (t_held th) = set (g_ledgers (t_guard th)) \<and> set ls \<subseteq> set (g_ledgers (t_guard th))"
| "phase_holds s th (Dropping ls) \<longleftrightarrow> distinct ls \<and> set ls \<inter> response_ledgers s th = {}
     \<and> set (t_held th) = set ls \<union> response_ledgers s th"
| "phase_holds s th InCall \<longleftrightarrow> set (t_held th) = response_ledgers s th"
| "phase_holds s th (Settling cs r) \<longleftrightarrow> set (t_held th) = response_ledgers s th"
| "phase_holds s th (Finally ls r) \<longleftrightarrow> distinct ls \<and> set ls = set (t_held th)"
| "phase_holds s th (Done r) \<longleftrightarrow> t_held th = []"

definition locks_ok :: "budget_system \<Rightarrow> bool" where
  "locks_ok s \<longleftrightarrow>
     (\<forall>t < length (s_threads s). let th = s_threads s ! t in
        guard_ok (t_guard th) \<and> distinct (t_held th) \<and> phase_holds s th (t_phase th))
     \<and> (\<forall>l t. s_locks s l = Some t \<longleftrightarrow> t < length (s_threads s) \<and> l \<in> set (t_held (s_threads s ! t)))"

lemma phase_holds_cong:
  "(\<And>l. has_response_measured_caps (s_ledgers s' l) = has_response_measured_caps (s_ledgers s l)) \<Longrightarrow>
     phase_holds s' th ph = phase_holds s th ph"
  by (cases ph) (auto simp: response_ledgers_def)

lemma locks_ok_thread:
  assumes "locks_ok s" "t < length (s_threads s)" "th = s_threads s ! t"
  shows "guard_ok (t_guard th)" "distinct (t_held th)" "phase_holds s th (t_phase th)"
    and "s_locks s l = Some t \<longleftrightarrow> l \<in> set (t_held th)"
  using assms by (auto simp: locks_ok_def Let_def)

lemma locks_ok_go:
  assumes inv: "locks_ok s" and t: "t < length (s_threads s)" "th = s_threads s ! t"
    and same: "s_threads s' = s_threads s"
      "\<And>l. has_response_measured_caps (s_ledgers s' l) = has_response_measured_caps (s_ledgers s l)"
    and new: "distinct h" "phase_holds s (th\<lparr>t_phase := ph, t_held := h\<rparr>) ph"
    and locks: "\<And>l u. s_locks s' l = Some u \<longleftrightarrow> (if u = t then l \<in> set h else s_locks s l = Some u)"
  shows "locks_ok (go t ph h s')"
proof -
  have t': "t < length (s_threads s')" using t(1) same(1) by simp
  have c: "phase_holds (go t ph h s') x p = phase_holds s x p" for x p
    by (rule phase_holds_cong) (simp add: same(2))
  have "guard_ok (t_guard th)" using locks_ok_thread [OF inv t] by blast
  then show ?thesis
    using inv new t t' same(1) locks by (auto simp: locks_ok_def Let_def c)
qed

text \<open>A step that neither takes nor drops a lock.\<close>

lemma locks_ok_move:
  assumes "locks_ok s" "t < length (s_threads s)" "th = s_threads s ! t"
    and "s_threads s' = s_threads s" "s_locks s' = s_locks s"
    and "\<And>l. has_response_measured_caps (s_ledgers s' l) = has_response_measured_caps (s_ledgers s l)"
    and "phase_holds s (th\<lparr>t_phase := ph\<rparr>) ph"
  shows "locks_ok (go t ph (t_held th) s')"
proof -
  have "th\<lparr>t_phase := ph, t_held := t_held th\<rparr> = th\<lparr>t_phase := ph\<rparr>" by simp
  then show ?thesis
    using assms locks_ok_thread [OF assms(1-3)] by (intro locks_ok_go [OF assms(1-3)]) auto
qed

lemma step_locks_ok:
  assumes "step bills s s'" "locks_ok s"
  shows "locks_ok s'"
  using assms(1)
proof cases
  case (take_lock t th l ls)
  note o = locks_ok_thread [OF assms(2) take_lock(2,3)]
  have "l \<notin> set (t_held th)" using o(4) [of l] take_lock(5) by simp
  moreover have "(t_held th @ [l]) @ ls = admission_ledgers (t_guard th)" using o(3) take_lock(4) by simp
  ultimately show ?thesis
    unfolding take_lock(1) using o take_lock(5)
    by (intro locks_ok_go [OF assms(2) take_lock(2,3)]) auto
next
  case (admitted t th)
  note o = locks_ok_thread [OF assms(2) admitted(2,3)]
  have "t_held th = admission_ledgers (t_guard th)" using o(3) admitted(4) by simp
  then have "set (t_held th) = set (g_ledgers (t_guard th))" by (simp add: admission_ledgers_def)
  then show ?thesis
    unfolding admitted(1) using o by (intro locks_ok_go [OF assms(2) admitted(2,3)]) auto
next
  case (charged t th)
  note o = locks_ok_thread [OF assms(2) charged(2,3)]
  have "set (t_held th) = set (g_ledgers (t_guard th))" using o(3) charged(4) by simp
  then show ?thesis
    unfolding charged(1) using o
    by (intro locks_ok_go [OF assms(2) charged(2,3)]) (auto simp: response_ledgers_def)
next
  case (drop_lock t th l ls)
  note o = locks_ok_thread [OF assms(2) drop_lock(2,3)]
  have "s_locks s l = Some t" "l \<notin> set ls" "phase_holds s (th\<lparr>t_phase := Dropping ls, t_held := removeAll l (t_held th)\<rparr>) (Dropping ls)"
    using o(3,4) drop_lock(4) by (auto simp: response_ledgers_def)
  moreover from this(1) have "s_locks s l \<noteq> Some u" if "u \<noteq> t" for u using that by simp
  ultimately show ?thesis
    unfolding drop_lock(1) using o
    by (intro locks_ok_go [OF assms(2) drop_lock(2,3)]) (auto simp: distinct_removeAll)
next
  case (unlock t th l ls r)
  note o = locks_ok_thread [OF assms(2) unlock(2,3)]
  have "s_locks s l = Some t" "phase_holds s (th\<lparr>t_phase := Finally ls r, t_held := removeAll l (t_held th)\<rparr>) (Finally ls r)"
    using o(3,4) unlock(4) by auto
  moreover from this(1) have "s_locks s l \<noteq> Some u" if "u \<noteq> t" for u using that by simp
  ultimately show ?thesis
    unfolding unlock(1) using o
    by (intro locks_ok_go [OF assms(2) unlock(2,3)]) (auto simp: distinct_removeAll)
qed ((hypsubst, rule locks_ok_move [OF assms(2) _ refl], assumption, simp, simp, simp,
    frule locks_ok_thread(2) [OF assms(2) _ refl], drule locks_ok_thread(3) [OF assms(2) _ refl],
    auto simp: response_ledgers_def)[1])+

end
