(* ===== verification/Budget_Props.thy ===== *)
theory Budget_Props
  imports Budget_Threads
begin

text \<open>
  What concurrent reservations guarantee, over every interleaving: the call cap is never
  exceeded, a response-measured cap is overshot by at most one response, the threads never
  deadlock, and every admission lock is released.
\<close>

section \<open>Headroom\<close>

definition under_cap :: "'a::linordered_idom option \<Rightarrow> 'a \<Rightarrow> bool" where
  "under_cap cap x = (case cap of None \<Rightarrow> True | Some c \<Rightarrow> x \<le> c)"

lemma headroom_ok:
  assumes "ensure_headroom n l = Inr ()"
  shows "under_cap (max_api_calls (b_config l)) (b_api_calls l + n)"
    and "max_input_tokens (b_config l) = Some c \<Longrightarrow> b_input_tokens l < c"
    and "max_output_tokens (b_config l) = Some c \<Longrightarrow> b_output_tokens l < c"
    and "max_cost_usd (b_config l) = Some x \<Longrightarrow> b_cost_usd l < x"
  using assms
  by (auto simp: ensure_headroom_def headroom_checks_def under_cap_def rbind_eq_Inr split: option.splits if_splits)

lemma settle_items_calls:
  "settle_items g ms n = (us, r) \<Longrightarrow> u \<in> set us \<Longrightarrow> u_api_calls u = 0"
proof (induction g ms n arbitrary: us r rule: settle_items.induct)
  case (2 g m ms n)
  have none: "map_of (filter (\<lambda>(k, v). k \<noteq> ''api_calls'') m) ''api_calls'' = None"
    by (auto simp: map_of_eq_None_iff)
  have zero: "u_api_calls u' = 0" if "metrics_usage g (filter (\<lambda>(k, v). k \<noteq> ''api_calls'') m) = Inr u'" for u'
    using that none by (auto simp: metrics_usage_def metric_int_def rbind_eq_Inr)
  from 2(2,3) show ?case
    by (auto split: sum.splits prod.splits dest: zero 2(1))
qed simp

section \<open>The call cap\<close>

definition fits :: "budget_system \<Rightarrow> nat \<Rightarrow> int \<Rightarrow> bool" where
  "fits s l n \<longleftrightarrow> under_cap (max_api_calls (b_config (s_ledgers s l))) (b_api_calls (s_ledgers s l) + n)"

fun phase_fits :: "budget_system \<Rightarrow> thread \<Rightarrow> phase \<Rightarrow> bool" where
  "phase_fits s th (Checking ls) \<longleftrightarrow> (\<forall>l \<in> set (g_ledgers (t_guard th)) - set ls. fits s l (max (t_count th) 0))"
| "phase_fits s th (Charging ls) \<longleftrightarrow> distinct ls \<and> (\<forall>l \<in> set ls. fits s l (max (t_count th) 0))"
| "phase_fits s th (Settling cs r) \<longleftrightarrow> (\<forall>c \<in> set cs. u_api_calls (snd c) \<le> 0)"
| "phase_fits s th _ \<longleftrightarrow> True"

definition calls_ok :: "budget_system \<Rightarrow> bool" where
  "calls_ok s \<longleftrightarrow> (\<forall>l. fits s l 0) \<and> (\<forall>t < length (s_threads s). phase_fits s (s_threads s ! t) (t_phase (s_threads s ! t)))"

text \<open>Providers that never bill more calls than were reserved.\<close>

definition honest :: "(int \<Rightarrow> metrics list \<Rightarrow> int option \<Rightarrow> bool) \<Rightarrow> bool" where
  "honest bills \<longleftrightarrow> (\<forall>g n ms a measured. bills n ms a \<longrightarrow> snd (settle_items g ms 0) = Inr measured \<longrightarrow>
     max (case a of None \<Rightarrow> measured | Some k \<Rightarrow> k) 0 \<le> n)"

lemma honest_charges:
  assumes "honest bills" "bills (t_count th) ms a" "c \<in> set (settle_charges th ms a)"
  shows "u_api_calls (snd c) \<le> 0"
proof -
  let ?g = "t_guard th"
  obtain us r where i: "settle_items ?g ms 0 = (us, r)" by (cases "settle_items ?g ms 0")
  have "set (fst (settle_many ?g (t_count th) ms a)) \<subseteq> set us"
  proof (cases r)
    case (Inr measured)
    then have "max (case a of None \<Rightarrow> measured | Some k \<Rightarrow> k) 0 \<le> t_count th"
      using assms(1,2) i unfolding honest_def by (metis snd_conv)
    with Inr i show ?thesis by (auto simp: settle_many_def settle_calls_def)
  qed (simp add: settle_many_def i)
  with assms(3) settle_items_calls [OF i] show ?thesis by (auto simp: settle_charges_def)
qed

lemma fits_zero: "fits s l 0 \<Longrightarrow> under_cap (max_api_calls (b_config (s_ledgers s l))) (b_api_calls (s_ledgers s l) + n) \<Longrightarrow> fits s l (max n 0)"
  by (auto simp: fits_def under_cap_def max_def split: option.splits)

lemma phase_fits_cong:
  "(\<And>l n. l \<in> set (t_held th) \<Longrightarrow> fits s' l n = fits s l n) \<Longrightarrow>
     phase_holds s th ph \<Longrightarrow> phase_fits s th ph \<Longrightarrow> phase_fits s' th ph"
  by (cases ph) auto

text \<open>The threads other than the one that moves keep their promise if the ledgers they hold do not change.\<close>

lemma calls_ok_go:
  assumes inv: "calls_ok s" "locks_ok s" and t: "t < length (s_threads s)" "th = s_threads s ! t"
    and same: "s_threads s' = s_threads s" "\<And>l. fits s' l 0"
    and held: "\<And>l n. s_locks s l \<noteq> Some t \<Longrightarrow> fits s' l n = fits s l n"
    and new: "phase_fits s' (th\<lparr>t_phase := ph, t_held := h\<rparr>) ph"
  shows "calls_ok (go t ph h s')"
proof -
  have other: "phase_fits s' (s_threads s ! u) (t_phase (s_threads s ! u))"
    if u: "u < length (s_threads s)" "u \<noteq> t" for u
  proof (rule phase_fits_cong)
    note o = locks_ok_thread [OF inv(2) u(1) refl]
    show "fits s' l n = fits s l n" if "l \<in> set (t_held (s_threads s ! u))" for l n
      using held [of l n] o(4) [of l] that u(2) by simp
    show "phase_holds s (s_threads s ! u) (t_phase (s_threads s ! u))" by (rule o(3))
    show "phase_fits s (s_threads s ! u) (t_phase (s_threads s ! u))" using inv(1) u(1) by (simp add: calls_ok_def)
  qed
  have c: "phase_fits (go t ph h s') x p = phase_fits s' x p" "fits (go t ph h s') l n = fits s' l n" for x p l n
    by (cases p; simp add: fits_def)+
  show ?thesis
    unfolding calls_ok_def c using t same other new by (auto simp: same(1))
qed

lemma calls_ok_thread:
  assumes "calls_ok s" "t < length (s_threads s)" "th = s_threads s ! t"
  shows "phase_fits s th (t_phase th)" "fits s l 0"
  using assms by (auto simp: calls_ok_def)

lemma step_calls_ok:
  assumes "step bills s s'" "locks_ok s" "calls_ok s" "honest bills"
  shows "calls_ok s'"
  using assms(1)
proof cases
  case (headroom t th l ls)
  note c = calls_ok_thread [OF assms(3) headroom(2,3)]
  have "fits s l (max (t_count th) 0)" using headroom_ok(1) [OF headroom(5)] c(2) by (intro fits_zero) auto
  with c(1) headroom(4) show ?thesis
    unfolding headroom(1) by (intro calls_ok_go [OF assms(3,2) headroom(2,3)]) (auto simp: c(2))
next
  case (checked t th)
  note c = calls_ok_thread [OF assms(3) checked(2,3)] and o = locks_ok_thread [OF assms(2) checked(2,3)]
  show ?thesis
    unfolding checked(1) using c(1) o(1) checked(4)
    by (intro calls_ok_go [OF assms(3,2) checked(2,3)]) (auto simp: c(2) guard_ok_def)
next
  case (charge t th l ls)
  note c = calls_ok_thread [OF assms(3) charge(2,3)] and o = locks_ok_thread [OF assms(2) charge(2,3)]
  let ?s = "on_ledger l (charge_usage (calls_usage (t_count th))) s"
  have l: "l \<notin> set ls" "fits s l (max (t_count th) 0)" "s_locks s l = Some t"
    using c(1) o(3,4) charge(4) by auto
  have other: "fits ?s k n = fits s k n" if "k \<noteq> l" for k n using that by (simp add: fits_def)
  have "fits ?s l 0" using l(2) by (simp add: fits_def calls_usage_def)
  then have zero: "fits ?s k 0" for k using other c(2) by (cases "k = l") auto
  have rest: "fits ?s k (max (t_count th) 0)" if "k \<in> set ls" for k
    using that l(1) c(1) charge(4) other [of k] by auto
  show ?thesis
    unfolding charge(1)
  proof (rule calls_ok_go [OF assms(3,2) charge(2,3)])
    show "fits ?s k n = fits s k n" if "s_locks s k \<noteq> Some t" for k n
      using that l(3) by (intro other) auto
  qed (use zero rest c(1) charge(4) in auto)
next
  case (respond t th ms a)
  note c = calls_ok_thread [OF assms(3) respond(2,3)]
  show ?thesis
    unfolding respond(1) using honest_charges [OF assms(4) respond(5)]
    by (intro calls_ok_go [OF assms(3,2) respond(2,3)]) (auto simp: c(2))
next
  case (settle t th l u cs r)
  note c = calls_ok_thread [OF assms(3) settle(2,3)]
  let ?s = "on_ledger l (charge_usage u) s"
  have "u_api_calls u \<le> 0" using c(1) settle(4) by simp
  then have "fits ?s k n = fits s k n" for k n by (simp add: fits_def)
  then show ?thesis
    unfolding settle(1) using c settle(4)
    by (intro calls_ok_go [OF assms(3,2) settle(2,3)]) auto
qed ((hypsubst, rule calls_ok_go [OF assms(3,2) _ refl], assumption, simp,
    insert assms(3), (auto simp: calls_ok_def fits_def)[3])[1])+

section \<open>Caps measured on responses\<close>

text \<open>
  A cap that only responses spend: charging calls leaves its value alone, and the headroom
  check refuses once the value reaches the cap.
\<close>

locale measured_cap =
  fixes cap :: "budget_config \<Rightarrow> 'a::linordered_idom option"
    and spent :: "budget_ledger \<Rightarrow> 'a"
  assumes calls_free: "spent (charge_usage (calls_usage n) l) = spent l"
    and measured: "cap (b_config l) = Some c \<Longrightarrow> has_response_measured_caps l"
    and headroom_below: "ensure_headroom n l = Inr () \<Longrightarrow> cap (b_config l) = Some c \<Longrightarrow> spent l < c"
begin

definition below :: "budget_system \<Rightarrow> nat \<Rightarrow> bool" where
  "below s l \<longleftrightarrow> (\<forall>c. cap (b_config (s_ledgers s l)) = Some c \<longrightarrow> spent (s_ledgers s l) < c)"

fun phase_below :: "budget_system \<Rightarrow> thread \<Rightarrow> phase \<Rightarrow> bool" where
  "phase_below s th (Checking ls) \<longleftrightarrow> (\<forall>l \<in> set (g_ledgers (t_guard th)) - set ls. below s l)"
| "phase_below s th (Charging ls) \<longleftrightarrow> (\<forall>l \<in> set (g_ledgers (t_guard th)). below s l)"
| "phase_below s th (Dropping ls) \<longleftrightarrow> (\<forall>l \<in> set (g_ledgers (t_guard th)). below s l)"
| "phase_below s th InCall \<longleftrightarrow> (\<forall>l \<in> set (g_ledgers (t_guard th)). below s l)"
| "phase_below s th (Settling cs r) \<longleftrightarrow> fst ` set cs \<subseteq> set (g_ledgers (t_guard th))"
| "phase_below s th _ \<longleftrightarrow> True"

definition all_below :: "budget_system \<Rightarrow> bool" where
  "all_below s \<longleftrightarrow> (\<forall>t < length (s_threads s). phase_below s (s_threads s ! t) (t_phase (s_threads s ! t)))"

text \<open>Until its call settles, a thread holds every ledger of its guard that has such a cap.\<close>

lemma phase_below_cong:
  assumes "\<And>l. l \<in> set (t_held th) \<Longrightarrow> below s' l = below s l"
    "\<And>l. cap (b_config (s_ledgers s l)) = None \<Longrightarrow> below s' l"
    "phase_holds s th ph" "phase_below s th ph"
  shows "phase_below s' th ph"
proof -
  have "below s' l" if "l \<in> response_ledgers s th \<longrightarrow> l \<in> set (t_held th)" "below s l" "l \<in> set (g_ledgers (t_guard th))" for l
    using that assms(1,2) measured by (cases "cap (b_config (s_ledgers s l))") (auto simp: response_ledgers_def)
  with assms(1,3,4) show ?thesis by (cases ph) auto
qed

lemma all_below_go:
  assumes inv: "all_below s" "locks_ok s" and t: "t < length (s_threads s)" "th = s_threads s ! t"
    and same: "s_threads s' = s_threads s"
    and held: "\<And>l. s_locks s l \<noteq> Some t \<Longrightarrow> below s' l = below s l"
    and config: "\<And>l. b_config (s_ledgers s' l) = b_config (s_ledgers s l)"
    and new: "phase_below s' (th\<lparr>t_phase := ph, t_held := h\<rparr>) ph"
  shows "all_below (go t ph h s')"
proof -
  have other: "phase_below s' (s_threads s ! u) (t_phase (s_threads s ! u))"
    if u: "u < length (s_threads s)" "u \<noteq> t" for u
  proof (rule phase_below_cong)
    note o = locks_ok_thread [OF inv(2) u(1) refl]
    show "below s' l = below s l" if "l \<in> set (t_held (s_threads s ! u))" for l
      using held [of l] o(4) [of l] that u(2) by simp
    show "phase_holds s (s_threads s ! u) (t_phase (s_threads s ! u))" by (rule o(3))
    show "phase_below s (s_threads s ! u) (t_phase (s_threads s ! u))" using inv(1) u(1) by (simp add: all_below_def)
    show "below s' l" if "cap (b_config (s_ledgers s l)) = None" for l using that by (simp add: below_def config)
  qed
  have b: "below (go t ph h s') l = below s' l" for l by (simp add: below_def)
  have c: "phase_below (go t ph h s') x p = phase_below s' x p" for x p by (cases p) (simp_all add: b)
  show ?thesis
    unfolding all_below_def c using t same other new by (auto simp: same(1))
qed

lemma all_below_thread:
  "all_below s \<Longrightarrow> t < length (s_threads s) \<Longrightarrow> th = s_threads s ! t \<Longrightarrow> phase_below s th (t_phase th)"
  by (simp add: all_below_def)

lemma step_all_below:
  assumes "step bills s s'" "locks_ok s" "all_below s"
  shows "all_below s'"
  using assms(1)
proof cases
  case (headroom t th l ls)
  note c = all_below_thread [OF assms(3) headroom(2,3)]
  have "below s l" using headroom_below [OF headroom(5)] by (simp add: below_def)
  with c headroom(4) show ?thesis
    unfolding headroom(1) by (intro all_below_go [OF assms(3,2) headroom(2,3)]) auto
next
  case (charge t th l ls)
  note c = all_below_thread [OF assms(3) charge(2,3)]
  let ?s = "on_ledger l (charge_usage (calls_usage (t_count th))) s"
  have "below ?s k = below s k" for k by (simp add: below_def calls_free)
  then show ?thesis
    unfolding charge(1) using c charge(4)
    by (intro all_below_go [OF assms(3,2) charge(2,3)]) auto
next
  case (respond t th ms a)
  show ?thesis
    unfolding respond(1)
    by (intro all_below_go [OF assms(3,2) respond(2,3)]) (auto simp: settle_charges_def)
next
  case (settle t th l u cs r)
  note c = all_below_thread [OF assms(3) settle(2,3)] and o = locks_ok_thread [OF assms(2) settle(2,3)]
  let ?s = "on_ledger l (charge_usage u) s"
  have l: "l \<in> set (g_ledgers (t_guard th))" using c settle(4) by auto
  have same: "below ?s k = below s k" if "s_locks s k \<noteq> Some t" for k
  proof (cases "k = l \<and> cap (b_config (s_ledgers s l)) \<noteq> None")
    case True
    then have "l \<in> response_ledgers s th" using l measured by (auto simp: response_ledgers_def)
    with o(3,4) settle(4) that True show ?thesis by auto
  qed (auto simp: below_def)
  show ?thesis
    unfolding settle(1) using c settle(4)
    by (intro all_below_go [OF assms(3,2) settle(2,3)]) (auto simp: same)
qed ((hypsubst, rule all_below_go [OF assms(3,2) _ refl], assumption, simp, simp add: below_def, simp,
    drule all_below_thread [OF assms(3) _ refl], (auto simp: below_def)[1])[1])+

end

interpretation input_cap: measured_cap max_input_tokens b_input_tokens
  by unfold_locales (auto simp: charge_usage_def calls_usage_def has_response_measured_caps_def dest: headroom_ok(2))

interpretation output_cap: measured_cap max_output_tokens b_output_tokens
  by unfold_locales (auto simp: charge_usage_def calls_usage_def has_response_measured_caps_def dest: headroom_ok(3))

interpretation cost_cap: measured_cap max_cost_usd b_cost_usd
  by unfold_locales (auto simp: charge_usage_def calls_usage_def has_response_measured_caps_def dest: headroom_ok(4))

section \<open>Runs\<close>

definition guards_ok :: "(call_kind \<times> budget_guard \<times> int) list \<Rightarrow> bool" where
  "guards_ok calls \<longleftrightarrow> list_all (\<lambda>(k, g, n). guard_ok g) calls"

lemma new_guard_ok: "guard_ok (new_guard m r e)"
  by (auto simp: new_guard_def guard_ok_def set_add_def split: option.splits)

lemma initial_thread:
  assumes "t < length calls"
  shows "case calls ! t of (k, g, n) \<Rightarrow> (k, g, n) \<in> set calls \<and>
    s_threads (initial_system ls calls) ! t = start_thread k g n"
  using assms nth_mem [OF assms] by (cases "calls ! t") (simp add: initial_system_def)

lemma initial_sizes [simp]:
  "length (s_threads (initial_system ls calls)) = length calls"
  "s_ledgers (initial_system ls calls) = ls" "s_locks (initial_system ls calls) l = None"
  by (simp_all add: initial_system_def)

lemma initial_locks_ok:
  assumes "guards_ok calls" shows "locks_ok (initial_system ls calls)"
proof -
  have "guard_ok (t_guard th) \<and> t_held th = [] \<and> phase_holds (initial_system ls calls) th (t_phase th)"
    if t: "t < length calls" "th = s_threads (initial_system ls calls) ! t" for t th
  proof (cases "calls ! t")
    case (fields k g n)
    with initial_thread [OF t(1), of ls] t(2) have "(k, g, n) \<in> set calls" "th = start_thread k g n" by simp_all
    moreover from this(1) assms have "guard_ok g" by (auto simp: guards_ok_def list_all_iff)
    ultimately show ?thesis by (simp add: start_thread_def)
  qed
  note start = this [OF _ refl]
  show ?thesis
    unfolding locks_ok_def Let_def
    by (intro conjI allI impI; use start in \<open>auto simp del: phase_holds.simps\<close>)
qed

lemma initial_calls_ok:
  assumes "\<And>l. under_cap (max_api_calls (b_config (ls l))) (b_api_calls (ls l))"
  shows "calls_ok (initial_system ls calls)"
proof -
  have "phase_fits (initial_system ls calls) th (t_phase th)"
    if "t < length calls" "th = s_threads (initial_system ls calls) ! t" for t th
    using initial_thread [OF that(1), of ls] that(2) by (cases "calls ! t") (simp add: start_thread_def)
  with assms show ?thesis by (auto simp: calls_ok_def fits_def)
qed

lemma run_locks_ok: "(step bills)\<^sup>*\<^sup>* s s' \<Longrightarrow> locks_ok s \<Longrightarrow> locks_ok s'"
  by (induction rule: rtranclp_induct) (auto dest: step_locks_ok)

lemma run_calls_ok:
  "(step bills)\<^sup>*\<^sup>* s s' \<Longrightarrow> honest bills \<Longrightarrow> locks_ok s \<Longrightarrow> calls_ok s \<Longrightarrow> calls_ok s'"
  by (induction rule: rtranclp_induct) (auto dest: step_calls_ok run_locks_ok)

lemma step_config: "step bills s s' \<Longrightarrow> b_config (s_ledgers s' l) = b_config (s_ledgers s l)"
  by (induction rule: step.induct) auto

lemma run_config: "(step bills)\<^sup>*\<^sup>* s s' \<Longrightarrow> b_config (s_ledgers s' l) = b_config (s_ledgers s l)"
  by (induction rule: rtranclp_induct) (simp_all add: step_config)

lemma run_threads: "(step bills)\<^sup>*\<^sup>* s s' \<Longrightarrow> length (s_threads s') = length (s_threads s)"
proof (induction rule: rtranclp_induct)
  case (step y z)
  from step(2) have "length (s_threads z) = length (s_threads y)" by (induction rule: step.induct) simp_all
  with step(3) show ?case by simp
qed simp

context measured_cap
begin

lemma initial_all_below: "all_below (initial_system ls calls)"
proof -
  have "phase_below (initial_system ls calls) th (t_phase th)"
    if "t < length calls" "th = s_threads (initial_system ls calls) ! t" for t th
    using initial_thread [OF that(1), of ls] that(2) by (cases "calls ! t") (simp add: start_thread_def)
  then show ?thesis by (simp add: all_below_def)
qed

lemma run_all_below: "(step bills)\<^sup>*\<^sup>* s s' \<Longrightarrow> locks_ok s \<Longrightarrow> all_below s \<Longrightarrow> all_below s'"
  by (induction rule: rtranclp_induct) (auto dest: step_all_below run_locks_ok)

lemma call_has_headroom:
  assumes "guards_ok calls" "(step bills)\<^sup>*\<^sup>* (initial_system ls calls) s"
    "t < length (s_threads s)" "t_phase (s_threads s ! t) = InCall"
    "l \<in> set (g_ledgers (t_guard (s_threads s ! t)))" "cap (b_config (ls l)) = Some c"
  shows "spent (s_ledgers s l) < c"
proof -
  have "all_below s" by (rule run_all_below [OF assms(2) initial_locks_ok [OF assms(1)] initial_all_below])
  then have "below s l" using assms(3,4,5) by (auto dest: all_below_thread [OF _ _ refl])
  moreover have "b_config (s_ledgers s l) = b_config (ls l)" using run_config [OF assms(2)] by simp
  ultimately show ?thesis using assms(6) by (simp add: below_def)
qed

end

section \<open>Progress\<close>

text \<open>Every step moves one thread on: to a later phase, or through the list of the one it is in.\<close>

fun phase_rank :: "phase \<Rightarrow> nat" where
  "phase_rank (Acquiring _) = 7"
| "phase_rank (Checking _) = 6"
| "phase_rank (Charging _) = 5"
| "phase_rank (Dropping _) = 4"
| "phase_rank InCall = 3"
| "phase_rank (Settling _ _) = 2"
| "phase_rank (Finally _ _) = 1"
| "phase_rank (Done _) = 0"

fun phase_todo :: "phase \<Rightarrow> nat" where
  "phase_todo (Acquiring ls) = length ls"
| "phase_todo (Checking ls) = length ls"
| "phase_todo (Charging ls) = length ls"
| "phase_todo (Dropping ls) = length ls"
| "phase_todo (Settling cs _) = length cs"
| "phase_todo (Finally ls _) = length ls"
| "phase_todo _ = 0"

definition work_left :: "budget_system \<Rightarrow> nat \<times> nat" where
  "work_left s = (\<Sum>th\<leftarrow>s_threads s. phase_rank (t_phase th), \<Sum>th\<leftarrow>s_threads s. phase_todo (t_phase th))"

lemma sum_list_update_less:
  fixes f :: "'a \<Rightarrow> nat"
  assumes "t < length xs"
  shows "f x < f (xs ! t) \<Longrightarrow> sum_list (map f (xs[t := x])) < sum_list (map f xs)"
    and "f x = f (xs ! t) \<Longrightarrow> sum_list (map f (xs[t := x])) = sum_list (map f xs)"
proof -
  have *: "sum_list (map f (xs[t := x])) + f (xs ! t) = sum_list (map f xs) + f x"
    using assms by (induction xs arbitrary: t) (auto split: nat.splits)
  show "f x < f (xs ! t) \<Longrightarrow> sum_list (map f (xs[t := x])) < sum_list (map f xs)"
    and "f x = f (xs ! t) \<Longrightarrow> sum_list (map f (xs[t := x])) = sum_list (map f xs)"
    using * by auto
qed

lemma go_work_left:
  assumes "t < length (s_threads s)" "s_threads s' = s_threads s"
    "phase_rank ph < phase_rank (t_phase (s_threads s ! t)) \<or>
     phase_rank ph = phase_rank (t_phase (s_threads s ! t)) \<and> phase_todo ph < phase_todo (t_phase (s_threads s ! t))"
  shows "(work_left (go t ph h s'), work_left s) \<in> less_than <*lex*> less_than"
  using assms sum_list_update_less [OF assms(1), of "\<lambda>th. phase_rank (t_phase th)"]
    sum_list_update_less [OF assms(1), of "\<lambda>th. phase_todo (t_phase th)"]
  by (auto simp: work_left_def go_def)

lemma step_work_left: "step bills s s' \<Longrightarrow> (work_left s', work_left s) \<in> less_than <*lex*> less_than"
  by (induction rule: step.induct; rule go_work_left) auto

lemma step_wf: "wf {(s', s). step bills s s'}"
  by (rule wf_subset [OF wf_inv_image [OF wf_lex_prod [OF wf_less_than wf_less_than], of work_left]])
    (auto simp: inv_image_def dest: step_work_left)

lemma unblocked_step:
  assumes "t < length (s_threads s)" "\<And>r. t_phase (s_threads s ! t) \<noteq> Done r"
    "\<And>l ls. t_phase (s_threads s ! t) = Acquiring (l # ls) \<Longrightarrow> s_locks s l = None"
  shows "\<exists>s'. step bills s s'"
proof (cases "t_phase (s_threads s ! t)")
  case (Acquiring ls)
  then show ?thesis using assms(1,3) by (cases ls) (auto intro: step.take_lock step.admitted)
next
  case (Checking ls)
  show ?thesis
  proof (cases ls)
    case (Cons l ls')
    then show ?thesis
      using assms(1) Checking step.headroom step.no_headroom
      by (cases "ensure_headroom (t_count (s_threads s ! t)) (s_ledgers s l)") (metis old.unit.exhaust)+
  qed (use assms(1) Checking in \<open>auto intro: step.checked\<close>)
next
  case (Charging ls)
  then show ?thesis
    using assms(1) by (cases ls; cases "t_kind (s_threads s ! t)") (auto intro: step.charge step.reserved step.charged)
next
  case (Dropping ls)
  then show ?thesis using assms(1) by (cases ls) (auto intro: step.drop_lock step.call)
next
  case InCall
  then show ?thesis using assms(1) by (auto intro: step.body_raises)
next
  case (Settling cs r)
  then show ?thesis
    using assms(1) by (cases cs) (auto intro: step.settle step.settled)
next
  case (Finally ls r)
  then show ?thesis using assms(1) by (cases ls) (auto intro: step.unlock step.finish_up)
qed (use assms(2) in blast)

text \<open>
  Admission locks are taken in ascending order, so the thread that waits for the highest lock
  waits for a thread that waits for nothing.
\<close>

lemma blocked_by_higher:
  assumes inv: "locks_ok s" and t: "t < length (s_threads s)" "t_phase (s_threads s ! t) = Acquiring (l # ls)"
    and stuck: "\<nexists>s'. step bills s s'"
  obtains u k ks where "u < length (s_threads s)" "t_phase (s_threads s ! u) = Acquiring (k # ks)" "l < k"
proof -
  obtain u where u: "s_locks s l = Some u"
    using unblocked_step [OF t(1)] t(2) stuck by fastforce
  then have o: "u < length (s_threads s)" "l \<in> set (t_held (s_threads s ! u))" using inv by (auto simp: locks_ok_def)
  have h: "phase_holds s (s_threads s ! u) (t_phase (s_threads s ! u))" "guard_ok (t_guard (s_threads s ! u))"
    using locks_ok_thread [OF inv o(1) refl] by blast+
  obtain k ks where k: "t_phase (s_threads s ! u) = Acquiring (k # ks)"
    using unblocked_step [OF o(1)] stuck h(1) o(2) by fastforce
  with h(1) have a: "t_held (s_threads s ! u) @ k # ks = admission_ledgers (t_guard (s_threads s ! u))" by simp
  moreover have "sorted (admission_ledgers (t_guard (s_threads s ! u)))" "distinct (admission_ledgers (t_guard (s_threads s ! u)))"
    using h(2) by (simp_all add: admission_ledgers_def guard_ok_def)
  ultimately have "sorted (t_held (s_threads s ! u) @ k # ks)" "distinct (t_held (s_threads s ! u) @ k # ks)" by simp_all
  with o(2) have "l < k" by (auto simp: sorted_append less_le)
  with that o(1) k show thesis by blast
qed

lemma stuck_all_finished:
  assumes inv: "locks_ok s" and stuck: "\<nexists>s'. step bills s s'" and t: "t < length (s_threads s)"
  shows "\<exists>r. t_phase (s_threads s ! t) = Done r"
proof (rule ccontr)
  assume going: "\<nexists>r. t_phase (s_threads s ! t) = Done r"
  define W where "W = {l. \<exists>u < length (s_threads s). \<exists>ls. t_phase (s_threads s ! u) = Acquiring (l # ls)}"
  have fin: "finite W"
  proof (rule finite_subset)
    show "W \<subseteq> (\<lambda>u. case t_phase (s_threads s ! u) of Acquiring (l # ls) \<Rightarrow> l | _ \<Rightarrow> 0) ` {..<length (s_threads s)}"
      by (force simp: W_def)
  qed simp
  have "W \<noteq> {}"
    using unblocked_step [OF t] stuck going t by (force simp: W_def)
  then obtain u ls where u: "u < length (s_threads s)" "t_phase (s_threads s ! u) = Acquiring (Max W # ls)"
    using Max_in [OF fin] by (auto simp: W_def)
  obtain v k ks where "v < length (s_threads s)" "t_phase (s_threads s ! v) = Acquiring (k # ks)" "Max W < k"
    using blocked_by_higher [OF inv u stuck] .
  then have "k \<in> W" by (auto simp: W_def)
  with Max_ge [OF fin] \<open>Max W < k\<close> show False by fastforce
qed

section \<open>Guarantees\<close>

text \<open>
  C5: No interleaving of concurrent reservations takes a ledger past its call cap: as long as
  providers bill no more calls than were reserved, and no ledger starts past its cap, the number of
  charged calls stays at or below \<^verbatim>\<open>max_api_calls\<close> of every ledger in every reachable state.\<close>

theorem call_cap_never_exceeded:
  assumes "honest bills" "guards_ok calls"
    "\<forall>l. under_cap (max_api_calls (b_config (ls l))) (b_api_calls (ls l))"
    "(step bills)\<^sup>*\<^sup>* (initial_system ls calls) s"
  shows "\<forall>l. under_cap (max_api_calls (b_config (ls l))) (b_api_calls (s_ledgers s l))"
proof
  fix l
  have "calls_ok s"
    by (rule run_calls_ok [OF assms(4,1) initial_locks_ok [OF assms(2)] initial_calls_ok]) (use assms(3) in blast)
  then have "fits s l 0" by (simp add: calls_ok_def)
  then show "under_cap (max_api_calls (b_config (ls l))) (b_api_calls (s_ledgers s l))"
    using run_config [OF assms(4), of l] by (simp add: fits_def)
qed

text \<open>A schedule names the thread that moves; a thread that is blocked or waits for its provider stays.\<close>

definition thread_step :: "nat \<Rightarrow> budget_system \<Rightarrow> budget_system" where
  "thread_step t s = (if t < length (s_threads s) then let th = s_threads s ! t in
     (case t_phase th of
        Acquiring (l # ls) \<Rightarrow> if s_locks s l = None then go t (Acquiring ls) (t_held th @ [l]) (acquire t l s) else s
      | Acquiring [] \<Rightarrow> go t (Checking (g_ledgers (t_guard th))) (t_held th) s
      | Checking (l # ls) \<Rightarrow> (case ensure_headroom (t_count th) (s_ledgers s l) of
            Inr _ \<Rightarrow> go t (Checking ls) (t_held th) s
          | Inl e \<Rightarrow> go t (Finally (rev (t_held th)) (Inl e)) (t_held th) s)
      | Checking [] \<Rightarrow> go t (Charging (g_ledgers (t_guard th))) (t_held th) s
      | Charging (l # ls) \<Rightarrow> go t (Charging ls) (t_held th) (on_ledger l (charge_usage (calls_usage (t_count th))) s)
      | Charging [] \<Rightarrow> if t_kind th = ReserveCalls then go t (Finally (rev (t_held th)) (Inr ())) (t_held th) s
          else go t (Dropping (filter (\<lambda>l. \<not> has_response_measured_caps (s_ledgers s l)) (rev (t_held th)))) (t_held th) s
      | Dropping (l # ls) \<Rightarrow> go t (Dropping ls) (removeAll l (t_held th)) (release l s)
      | Dropping [] \<Rightarrow> go t InCall (t_held th) s
      | Finally (l # ls) r \<Rightarrow> go t (Finally ls r) (removeAll l (t_held th)) (release l s)
      | Finally [] r \<Rightarrow> go t (Done r) (t_held th) s
      | _ \<Rightarrow> s) else s)"

lemma thread_step_steps: "(step bills)\<^sup>*\<^sup>* s (thread_step t s)"
proof (cases "t < length (s_threads s)")
  case True
  then have "thread_step t s = s \<or> step bills s (thread_step t s)"
    by (cases "t_kind (s_threads s ! t)")
      (auto simp: thread_step_def Let_def intro: step.intros split: phase.split list.split sum.split)
  then show ?thesis by (metis r_into_rtranclp rtranclp.rtrancl_refl)
qed (simp add: thread_step_def)

lemma schedule_steps: "(step bills)\<^sup>*\<^sup>* s (fold thread_step ts s)"
proof (induction ts arbitrary: s)
  case (Cons t ts)
  show ?case using rtranclp_trans [OF thread_step_steps Cons.IH] by simp
qed simp

definition demo_config :: budget_config where
  "demo_config = \<lparr>max_documents = None, max_file_bytes = None, max_total_bytes = None, max_input_tokens = Some 10,
     max_output_tokens = None, max_api_calls = Some 1, max_cost_usd = None\<rparr>"

definition demo_ledgers :: "nat \<Rightarrow> budget_ledger" where
  "demo_ledgers l = new_ledger demo_config ''run''"

definition demo_calls :: "(call_kind \<times> budget_guard \<times> int) list" where
  "demo_calls = [(ProviderCalls, new_guard (Some 0) (Some 1) None, 1), (ReserveCalls, new_guard (Some 2) (Some 1) None, 1)]"

definition demo_run :: "nat list \<Rightarrow> budget_system" where
  "demo_run ts = fold thread_step ts (initial_system demo_ledgers demo_calls)"

lemma demo_steps: "(step bills)\<^sup>*\<^sup>* (initial_system demo_ledgers demo_calls) (demo_run ts)"
  unfolding demo_run_def by (rule schedule_steps)

lemma demo_guards: "guards_ok demo_calls"
  by (simp add: guards_ok_def demo_calls_def new_guard_ok)

lemmas demo_eval = demo_run_def demo_calls_def demo_ledgers_def demo_config_def initial_system_def
  start_thread_def new_guard_def admission_ledgers_def set_add_def thread_step_def go_def acquire_def release_def on_ledger_def
  ensure_headroom_def headroom_checks_def new_ledger_def calls_usage_def charge_usage_def has_response_measured_caps_def

theorem call_cap_never_exceeded_witness:
  "b_api_calls (s_ledgers (demo_run [0,0,1,0,0,0,1,0,0,0,0,0]) 1) = 1 \<and>
   (\<forall>l. under_cap (Some 1) (b_api_calls (s_ledgers (demo_run [0,0,1,0,0,0,1,0,0,0,0,0]) l)))"
proof -
  let ?bills = "\<lambda>n ms a. n = 1 \<and> ms = [] \<and> a = Some 1"
  have h: "honest ?bills" by (simp add: honest_def)
  have c: "\<forall>l. under_cap (max_api_calls (b_config (demo_ledgers l))) (b_api_calls (demo_ledgers l))"
    by (simp add: demo_ledgers_def demo_config_def new_ledger_def under_cap_def)
  have "b_api_calls (s_ledgers (demo_run [0,0,1,0,0,0,1,0,0,0,0,0]) 1) = 1" by (simp add: demo_eval)
  moreover have "max_api_calls (b_config (demo_ledgers l)) = Some 1" for l
    by (simp add: demo_ledgers_def demo_config_def new_ledger_def)
  ultimately show ?thesis
    using call_cap_never_exceeded [OF h demo_guards c demo_steps] by simp
qed

text \<open>
  While a provider call of one thread is open (or its response is being settled), no other
  thread has a call open on a ledger they share that caps tokens or cost: such a ledger admits one
  response at a time.\<close>

theorem one_open_call_per_measured_ledger:
  assumes "guards_ok calls" "(step bills)\<^sup>*\<^sup>* (initial_system ls calls) s"
    "t < length calls" "u < length calls" "t \<noteq> u"
    "l \<in> set (g_ledgers (t_guard (s_threads s ! t)))" "l \<in> set (g_ledgers (t_guard (s_threads s ! u)))"
    "has_response_measured_caps (s_ledgers s l)"
    "phase_rank (t_phase (s_threads s ! t)) \<in> {2, 3}"
  shows "phase_rank (t_phase (s_threads s ! u)) \<notin> {2, 3}"
proof
  assume u: "phase_rank (t_phase (s_threads s ! u)) \<in> {2, 3}"
  have inv: "locks_ok s" by (rule run_locks_ok [OF assms(2) initial_locks_ok [OF assms(1)]])
  have len: "length (s_threads s) = length calls" using run_threads [OF assms(2)] by simp
  have holds: "s_locks s l = Some v"
    if "v < length calls" "l \<in> set (g_ledgers (t_guard (s_threads s ! v)))" "phase_rank (t_phase (s_threads s ! v)) \<in> {2, 3}" for v
    using locks_ok_thread [OF inv _ refl, of v] that len assms(8)
    by (cases "t_phase (s_threads s ! v)") (auto simp: response_ledgers_def)
  from holds [OF assms(3,6,9)] holds [OF assms(4,7) u] assms(5) show False by simp
qed

theorem one_open_call_per_measured_ledger_witness:
  "t_phase (s_threads (demo_run [0,0,1,0,0,0,1,0,0,0,0,0,0,1]) ! 0) = InCall \<and>
   phase_rank (t_phase (s_threads (demo_run [0,0,1,0,0,0,1,0,0,0,0,0,0,1]) ! 1)) \<notin> {2, 3}"
proof -
  let ?s = "demo_run [0,0,1,0,0,0,1,0,0,0,0,0,0,1]"
  have "t_phase (s_threads ?s ! 0) = InCall" "1 \<in> set (g_ledgers (t_guard (s_threads ?s ! 0)))"
    "1 \<in> set (g_ledgers (t_guard (s_threads ?s ! 1)))" "has_response_measured_caps (s_ledgers ?s 1)"
    by (simp_all add: demo_eval)
  then show ?thesis
    using one_open_call_per_measured_ledger [OF demo_guards demo_steps, of 0 1 1 "[0,0,1,0,0,0,1,0,0,0,0,0,0,1]"]
    by (simp add: demo_calls_def)
qed

text \<open>
  A provider call is only ever open while every ledger of its guard is still below its caps on
  input tokens, output tokens and cost, in every interleaving. The response is added to a value below
  the cap, so a cap is overshot by less than one response.\<close>

theorem open_call_below_measured_caps:
  assumes "guards_ok calls" "(step bills)\<^sup>*\<^sup>* (initial_system ls calls) s"
    "t < length calls" "t_phase (s_threads s ! t) = InCall" "l \<in> set (g_ledgers (t_guard (s_threads s ! t)))"
  shows "(\<forall>c. max_input_tokens (b_config (ls l)) = Some c \<longrightarrow> b_input_tokens (s_ledgers s l) < c) \<and>
    (\<forall>c. max_output_tokens (b_config (ls l)) = Some c \<longrightarrow> b_output_tokens (s_ledgers s l) < c) \<and>
    (\<forall>x. max_cost_usd (b_config (ls l)) = Some x \<longrightarrow> b_cost_usd (s_ledgers s l) < x)"
proof -
  have t: "t < length (s_threads s)" using run_threads [OF assms(2)] assms(3) by simp
  note at = assms(1,2) t assms(4,5)
  show ?thesis
    using input_cap.call_has_headroom [OF at] output_cap.call_has_headroom [OF at] cost_cap.call_has_headroom [OF at]
    by blast
qed

theorem open_call_below_measured_caps_witness:
  "t_phase (s_threads (demo_run [0,0,1,0,0,0,1,0,0,0,0,0,0]) ! 0) = InCall \<and>
   b_input_tokens (s_ledgers (demo_run [0,0,1,0,0,0,1,0,0,0,0,0,0]) 1) < 10"
proof -
  let ?s = "demo_run [0,0,1,0,0,0,1,0,0,0,0,0,0]"
  have c: "t_phase (s_threads ?s ! 0) = InCall" "1 \<in> set (g_ledgers (t_guard (s_threads ?s ! 0)))"
    by (simp_all add: demo_eval)
  have "max_input_tokens (b_config (demo_ledgers 1)) = Some 10"
    by (simp add: demo_ledgers_def demo_config_def new_ledger_def)
  with open_call_below_measured_caps [OF demo_guards demo_steps _ c] c show ?thesis
    by (simp add: demo_calls_def)
qed

text \<open>
  C6: Reservations never deadlock and always come to an end: the step relation is well-founded, so
  no run is infinite, and a reachable state with no further step has every thread returned or raised
  and every admission lock free.\<close>

theorem reservations_finish:
  assumes "guards_ok calls"
  shows "wf {(s', s). step bills s s'} \<and>
    (\<forall>s. (step bills)\<^sup>*\<^sup>* (initial_system ls calls) s \<and> (\<nexists>s'. step bills s s') \<longrightarrow>
       (\<forall>t < length calls. \<exists>r. t_phase (s_threads s ! t) = Done r) \<and> (\<forall>l. s_locks s l = None))"
proof (intro conjI allI impI step_wf; elim conjE)
  fix s assume run: "(step bills)\<^sup>*\<^sup>* (initial_system ls calls) s" and stuck: "\<nexists>s'. step bills s s'"
  have inv: "locks_ok s" by (rule run_locks_ok [OF run initial_locks_ok [OF assms]])
  have len: "length (s_threads s) = length calls" using run_threads [OF run] by simp
  show over: "\<exists>r. t_phase (s_threads s ! t) = Done r" if "t < length calls" for t
    using stuck_all_finished [OF inv stuck] that len by simp
  show "s_locks s l = None" for l
  proof (cases "s_locks s l")
    case (Some t)
    then have t: "t < length (s_threads s)" "l \<in> set (t_held (s_threads s ! t))" using inv by (auto simp: locks_ok_def)
    then obtain r where "t_phase (s_threads s ! t) = Done r" using over len by auto
    with locks_ok_thread(3) [OF inv t(1) refl] t(2) show ?thesis by simp
  qed
qed

lemma finished_no_step:
  "list_all (\<lambda>th. phase_rank (t_phase th) = 0) (s_threads s) \<Longrightarrow> \<not> step bills s s'"
  by (auto simp: list_all_length elim!: step.cases)

theorem reservations_finish_witness:
  "let s = fold thread_step (replicate 12 0 @ replicate 12 1)
         (initial_system demo_ledgers [(ReserveCalls, new_guard (Some 0) (Some 1) None, 1),
            (ReserveCalls, new_guard (Some 2) (Some 1) None, 1)])
   in wf {(s', s). step (\<lambda>n ms a. ms = []) s s'} \<and> map t_phase (s_threads s) =
        [Done (Inr ()), Done (Inl (BudgetExceeded ''run'' ''max_api_calls'' 1 2))] \<and> (\<forall>l. s_locks s l = None)"
proof -
  let ?calls = "[(ReserveCalls, new_guard (Some 0) (Some 1) None, 1), (ReserveCalls, new_guard (Some 2) (Some 1) None, 1)]"
  let ?s = "fold thread_step (replicate 12 0 @ replicate 12 1) (initial_system demo_ledgers ?calls)"
  have g: "guards_ok ?calls" by (simp add: guards_ok_def new_guard_ok)
  have phases: "map t_phase (s_threads ?s) = [Done (Inr ()), Done (Inl (BudgetExceeded ''run'' ''max_api_calls'' 1 2))]"
    by (simp add: demo_eval numeral_eq_Suc)
  then have "list_all (\<lambda>p. phase_rank p = 0) (map t_phase (s_threads ?s))" by simp
  then have "list_all (\<lambda>th. phase_rank (t_phase th) = 0) (s_threads ?s)" unfolding list.pred_map comp_def .
  from finished_no_step [OF this] have "\<nexists>s'. step (\<lambda>n ms a. ms = []) ?s s'" by blast
  then show ?thesis
    unfolding Let_def
    using reservations_finish [OF g, of "\<lambda>n ms a. ms = []" demo_ledgers] schedule_steps phases by blast
qed

text \<open>
  Charging documents (or bytes) to a guard succeeds exactly when no ledger of the guard would go
  past its cap, and then adds the amount to each ledger of the guard once and changes no other.\<close>

theorem guard_charges_exact:
  assumes "guard_ok g"
  shows "(fst (guard_charge_documents g n s) = Inr () \<longleftrightarrow>
      (\<forall>l \<in> set (g_ledgers g). under_cap (max_documents (b_config (s l))) (b_documents (s l) + n))) \<and>
    (fst (guard_charge_documents g n s) = Inr () \<longrightarrow> snd (guard_charge_documents g n s) =
      (\<lambda>l. if l \<in> set (g_ledgers g) then (s l)\<lparr>b_documents := b_documents (s l) + n\<rparr> else s l)) \<and>
    (fst (guard_charge_bytes g n s) = Inr () \<longleftrightarrow>
      (\<forall>l \<in> set (g_ledgers g). under_cap (max_total_bytes (b_config (s l))) (b_total_bytes (s l) + n))) \<and>
    (fst (guard_charge_bytes g n s) = Inr () \<longrightarrow> snd (guard_charge_bytes g n s) =
      (\<lambda>l. if l \<in> set (g_ledgers g) then (s l)\<lparr>b_total_bytes := b_total_bytes (s l) + n\<rparr> else s l))"
proof -
  have d: "distinct (g_ledgers g)" using assms by (simp add: guard_ok_def)
  have cap: "(\<forall>c. cap = Some c \<longrightarrow> x \<le> c) = under_cap cap x" for cap :: "int option" and x
    by (cases cap) (simp_all add: under_cap_def)
  show ?thesis
    unfolding guard_charge_documents_def guard_charge_bytes_def
    using charge_ledgers_result [OF d, of "charge_documents n" s] charge_ledgers_result [OF d, of "charge_bytes n" s]
    unfolding charge_documents_def charge_bytes_def Let_def fst_conv snd_conv over_cap_ok cap
    by (simp add: cap)
qed

theorem guard_charges_exact_witness:
  "fst (guard_charge_documents (new_guard (Some 0) (Some 1) None) 3 demo_ledgers) = Inr () \<and>
   b_documents (snd (guard_charge_documents (new_guard (Some 0) (Some 1) None) 3 demo_ledgers) 1) = 3"
  using guard_charges_exact [OF new_guard_ok, of "Some 0" "Some 1" None 3 demo_ledgers]
  by (simp add: new_guard_def set_add_def demo_ledgers_def demo_config_def new_ledger_def under_cap_def)

end
