(* ===== verification/Authorization.thy ===== *)
theory Authorization
  imports Py_Values
begin

text \<open>
  Principals, policy attributes and search filters, and authorization from trusted claims
  (\<^verbatim>\<open>src/stel/mcp_server/authorization.py\<close>, with the filter type of \<^verbatim>\<open>src/stel/search.py\<close> and the
  predicate compiler of \<^verbatim>\<open>src/stel/retrieval/duckdb.py\<close>).

  The environment, the request headers and the verified token are arguments of the resolvers;
  \<^verbatim>\<open>json.loads\<close> is the argument \<open>decode\<close>, which gives \<open>None\<close> for a \<^verbatim>\<open>JSONDecodeError\<close>.
\<close>

section \<open>Principals\<close>

datatype claim = One pyval | Many "pyval list"

datatype auth_error = AuthorizationError | GrantConfigurationError | InvalidValue | RepositoryError

record policy_attribute =
  attr_name :: string
  data_type :: string

record principal =
  subject_id :: string
  tenant_id :: "string option"
  access_groups :: "string list"
  policy_claims :: "(string \<times> claim) list"

definition new_principal :: "string \<Rightarrow> string option \<Rightarrow> string list \<Rightarrow> (string \<times> claim) list \<Rightarrow> auth_error + principal" where
  "new_principal subject tenant groups claims = rbind (guard (subject \<noteq> []) InvalidValue) (\<lambda>_.
     let groups = sort (remdups groups)
     in if [] \<in> set groups then Inl InvalidValue
        else Inr \<lparr>subject_id = subject, tenant_id = tenant, access_groups = groups, policy_claims = dict_of claims\<rparr>)"

fun is_claim_scalar :: "pyval \<Rightarrow> bool" where
  "is_claim_scalar (PyStr _) = True"
| "is_claim_scalar (PyInt _) = True"
| "is_claim_scalar (PyBool _) = True"
| "is_claim_scalar (PyFloat x) = (case x of Finite _ \<Rightarrow> True | _ \<Rightarrow> False)"
| "is_claim_scalar _ = False"

fun claim_of_json :: "pyval \<times> pyval \<Rightarrow> auth_error + (string \<times> claim)" where
  "claim_of_json (PyStr name, value) =
     (if name = [] then Inl AuthorizationError else (case value of
        PyList vs \<Rightarrow> if vs = [] \<or> \<not> list_all is_claim_scalar vs then Inl AuthorizationError else Inr (name, Many vs)
      | _ \<Rightarrow> if is_claim_scalar value then Inr (name, One value) else Inl AuthorizationError))"
| "claim_of_json _ = Inl AuthorizationError"

fun claims_of_json :: "(pyval \<times> pyval) list \<Rightarrow> auth_error + (string \<times> claim) list" where
  "claims_of_json [] = Inr []"
| "claims_of_json (kv # kvs) = rbind (claim_of_json kv) (\<lambda>c. rbind (claims_of_json kvs) (\<lambda>cs. Inr (c # cs)))"

definition parse_policy_claims :: "(string \<Rightarrow> pyval option) \<Rightarrow> string option \<Rightarrow> auth_error + (string \<times> claim) list" where
  "parse_policy_claims decode raw = (case raw of None \<Rightarrow> Inr []
     | Some s \<Rightarrow> if py_strip s = [] then Inr [] else (case decode s of
           Some (PyDict kvs) \<Rightarrow> claims_of_json kvs
         | _ \<Rightarrow> Inl AuthorizationError))"

text \<open>The header and the environment resolver read the same four settings; a missing one is empty.\<close>

definition split_groups :: "string \<Rightarrow> string list" where
  "split_groups s = filter (\<lambda>g. g \<noteq> []) (map py_strip (py_split_char CHR '','' s))"

definition optional_string :: "string \<Rightarrow> string option" where
  "optional_string s = (if py_strip s = [] then None else Some (py_strip s))"

definition resolve_settings :: "(string \<Rightarrow> pyval option) \<Rightarrow> string \<Rightarrow> string \<Rightarrow> string \<Rightarrow> string option \<Rightarrow>
    auth_error + principal option" where
  "resolve_settings decode subject tenant groups claims =
     (if py_strip subject = [] then Inr None
      else rbind (parse_policy_claims decode claims) (\<lambda>cs.
        rbind (new_principal (py_strip subject) (optional_string tenant) (split_groups groups) cs) (Inr \<circ> Some)))"

definition header :: "(string \<times> string) list \<Rightarrow> string \<Rightarrow> string" where
  "header hs name = (case map_of hs name of None \<Rightarrow> [] | Some v \<Rightarrow> v)"

definition header_principal :: "(string \<Rightarrow> pyval option) \<Rightarrow> (string \<times> string) list option \<Rightarrow> auth_error + principal option" where
  "header_principal decode request = (case request of None \<Rightarrow> Inr None
     | Some hs \<Rightarrow> resolve_settings decode (header hs ''x-stel-principal-id'') (header hs ''x-stel-tenant-id'')
         (header hs ''x-stel-access-groups'') (map_of hs ''x-stel-policy-claims''))"

definition environment_principal :: "(string \<Rightarrow> pyval option) \<Rightarrow> (string \<Rightarrow> string option) \<Rightarrow> auth_error + principal option" where
  "environment_principal decode env = (let get = (\<lambda>k. case env k of None \<Rightarrow> [] | Some v \<Rightarrow> v)
     in resolve_settings decode (get ''STEL_MCP_PRINCIPAL_ID'') (get ''STEL_MCP_TENANT_ID'') (get ''STEL_MCP_ACCESS_GROUPS'')
          (env ''STEL_MCP_POLICY_CLAIMS''))"

definition token_principal :: "string option \<Rightarrow> auth_error + principal option" where
  "token_principal subject = (case subject of None \<Rightarrow> Inr None
     | Some s \<Rightarrow> if py_strip s = [] then Inr None else rbind (new_principal (py_strip s) None [] []) (Inr \<circ> Some))"

section \<open>Search filters\<close>

datatype filter_operator =
    EqualTo | NotEqualTo | LessThan | LessThanOrEqual | GreaterThan | GreaterThanOrEqual | InValues | ArrayContainsAny

record search_filter =
  filter_field :: string
  filter_op :: filter_operator
  filter_value :: claim

definition new_filter :: "string \<Rightarrow> filter_operator \<Rightarrow> claim \<Rightarrow> auth_error + search_filter" where
  "new_filter field op value = rbind (guard (field \<noteq> []) InvalidValue) (\<lambda>_.
     rbind (guard (case value of Many vs \<Rightarrow> op \<in> {InValues, ArrayContainsAny} \<and> vs \<noteq> [] | One _ \<Rightarrow> op \<notin> {InValues, ArrayContainsAny}) InvalidValue) (\<lambda>_.
       Inr \<lparr>filter_field = field, filter_op = op, filter_value = value\<rparr>))"

text \<open>
  The clause a filter compiles to, evaluated on a row whose policy columns are strings or lists of
  strings: a null column satisfies no clause, and strings compare by code point.
\<close>

definition compare_strings :: "(string \<Rightarrow> string \<Rightarrow> bool) \<Rightarrow> pyval \<Rightarrow> claim \<Rightarrow> bool" where
  "compare_strings rel v c = (case (v, c) of (PyStr s, One (PyStr t)) \<Rightarrow> rel s t | _ \<Rightarrow> False)"

definition clause_holds :: "row \<Rightarrow> search_filter \<Rightarrow> bool" where
  "clause_holds r f = (let v = row_get r (filter_field f); c = filter_value f in
     v \<noteq> PyNone \<and> (case filter_op f of
       EqualTo \<Rightarrow> (case c of One w \<Rightarrow> py_eq v w | Many _ \<Rightarrow> False)
     | NotEqualTo \<Rightarrow> (case c of One w \<Rightarrow> \<not> py_eq v w | Many _ \<Rightarrow> False)
     | LessThan \<Rightarrow> compare_strings (<) v c
     | LessThanOrEqual \<Rightarrow> compare_strings (\<le>) v c
     | GreaterThan \<Rightarrow> compare_strings (>) v c
     | GreaterThanOrEqual \<Rightarrow> compare_strings (\<ge>) v c
     | InValues \<Rightarrow> (case c of Many ws \<Rightarrow> py_in v ws | One _ \<Rightarrow> False)
     | ArrayContainsAny \<Rightarrow> (case (v, c) of (PyList vs, Many ws) \<Rightarrow> list_ex (\<lambda>x. is_str x \<and> py_in x ws) vs | _ \<Rightarrow> False)))"

definition where_holds :: "row \<Rightarrow> search_filter list \<Rightarrow> bool" where
  "where_holds r fs \<longleftrightarrow> list_all (clause_holds r) fs"

section \<open>Authorization from claims\<close>

definition array_type :: string where
  "array_type = ''array[string]''"

definition policy_values_overlap :: "pyval \<Rightarrow> claim \<Rightarrow> bool" where
  "policy_values_overlap v allowed = (case v of
       PyList vs \<Rightarrow> list_ex (\<lambda>x. is_str x \<and> py_in x (case allowed of One c \<Rightarrow> [c] | Many cs \<Rightarrow> cs)) vs
     | _ \<Rightarrow> False)"

definition claim_value :: "principal \<Rightarrow> string \<Rightarrow> claim option" where
  "claim_value p field = (case map_of (policy_claims p) field of
       Some c \<Rightarrow> if c = One PyNone then None else Some c
     | None \<Rightarrow>
         if field \<in> {''tenant'', ''tenant_id''} then map_option (One \<circ> PyStr) (tenant_id p)
         else if field \<in> {''access_groups'', ''access_group'', ''group''} then Some (Many (map PyStr (access_groups p)))
         else None)"

definition claim_filter :: "principal \<Rightarrow> policy_attribute \<Rightarrow> auth_error + search_filter" where
  "claim_filter p a = (case claim_value p (attr_name a) of
       None \<Rightarrow> Inl AuthorizationError
     | Some (Many []) \<Rightarrow> Inl AuthorizationError
     | Some c \<Rightarrow> if data_type a = array_type
         then new_filter (attr_name a) ArrayContainsAny (case c of One v \<Rightarrow> Many [v] | Many vs \<Rightarrow> Many vs)
         else new_filter (attr_name a) (case c of One _ \<Rightarrow> EqualTo | Many _ \<Rightarrow> InValues) c)"

fun collect_filters :: "('a \<Rightarrow> auth_error + 'b list) \<Rightarrow> 'a list \<Rightarrow> auth_error + 'b list" where
  "collect_filters f [] = Inr []"
| "collect_filters f (a # as) = rbind (f a) (\<lambda>x. rbind (collect_filters f as) (\<lambda>xs. Inr (x @ xs)))"

definition require_filters :: "search_filter list \<Rightarrow> auth_error + search_filter list" where
  "require_filters fs = (if fs = [] then Inl AuthorizationError else Inr fs)"

definition claim_policy_filters :: "principal \<Rightarrow> string \<Rightarrow> policy_attribute list \<Rightarrow> auth_error + search_filter list" where
  "claim_policy_filters p access as = (if access = ''public'' then Inr []
     else rbind (collect_filters (\<lambda>a. rbind (claim_filter p a) (\<lambda>f. Inr [f])) as) require_filters)"

text \<open>
  Each check of \<^verbatim>\<open>can_read\<close> either refuses the row (\<open>None\<close>), matches (\<open>Some True\<close>) or has nothing
  to say (\<open>Some False\<close>); the row is readable when nothing refuses it and something matches.
\<close>

definition resolved :: "row \<Rightarrow> bool" where
  "resolved r \<longleftrightarrow> row_get r ''authorization_resolved'' = PyBool True"

definition public_row :: "row \<Rightarrow> bool" where
  "public_row r \<longleftrightarrow> row_get r ''is_public'' = PyBool True"

definition tenant_check :: "principal \<Rightarrow> row \<Rightarrow> bool option" where
  "tenant_check p r = (case row_get r ''tenant_id'' of
       PyStr t \<Rightarrow> if t = [] then Some False else if tenant_id p = Some t then Some True else None
     | _ \<Rightarrow> Some False)"

definition row_groups :: "row \<Rightarrow> string list" where
  "row_groups r = (case row_get r ''access_groups'' of
       PyList vs \<Rightarrow> map str_of (filter (\<lambda>v. is_str v \<and> str_of v \<noteq> []) vs) | _ \<Rightarrow> [])"

definition group_check :: "principal \<Rightarrow> row \<Rightarrow> bool option" where
  "group_check p r = (if row_groups r = [] then Some False
     else if list_ex (\<lambda>g. g \<in> set (access_groups p)) (row_groups r) then Some True else None)"

definition matches_claim :: "pyval \<Rightarrow> claim \<Rightarrow> bool" where
  "matches_claim v c = (case c of One w \<Rightarrow> py_eq v w | Many ws \<Rightarrow> py_in v ws)"

definition attribute_check :: "principal \<Rightarrow> row \<Rightarrow> policy_attribute \<Rightarrow> bool option" where
  "attribute_check p r a = (let v = row_get r (attr_name a) in
     (case claim_value p (attr_name a) of None \<Rightarrow> None
      | Some c \<Rightarrow>
          if v = PyNone then None
          else if (if data_type a = array_type then policy_values_overlap v c else matches_claim v c) then Some True
          else None))"

definition stated_claim_check :: "row \<Rightarrow> string \<times> claim \<Rightarrow> bool option" where
  "stated_claim_check r = (\<lambda>(field, c). let v = row_get r field in
     if v = PyNone then Some False else if matches_claim v c then Some True else None)"

fun all_checks :: "bool option list \<Rightarrow> bool \<Rightarrow> bool" where
  "all_checks [] matched = matched"
| "all_checks (None # cs) matched = False"
| "all_checks (Some m # cs) matched = all_checks cs (matched \<or> m)"

definition claim_can_read :: "principal \<Rightarrow> row \<Rightarrow> policy_attribute list \<Rightarrow> bool" where
  "claim_can_read p r as = (if \<not> resolved r then False else if public_row r then True
     else all_checks (tenant_check p r # group_check p r # map (attribute_check p r) as
            @ map (stated_claim_check r) (policy_claims p)) False)"

section \<open>The contract of a provider\<close>

lemma all_checks_iff: "all_checks cs m \<longleftrightarrow> None \<notin> set cs \<and> (m \<or> Some True \<in> set cs)"
  by (induction cs m rule: all_checks.induct) auto

text \<open>
  What the callers of an authorization provider rely on: it may fail, but it never lets through a
  row whose authorization was not resolved.
\<close>

locale authorization_provider =
  fixes can_read :: "principal \<Rightarrow> row \<Rightarrow> policy_attribute list \<Rightarrow> auth_error + bool"
  assumes unresolved_refused: "can_read p r as = Inr True \<Longrightarrow> resolved r"

interpretation claim_provider: authorization_provider "\<lambda>p r as. Inr (claim_can_read p r as)"
  by unfold_locales (auto simp: claim_can_read_def split: if_splits)

lemma collect_filters_Inr:
  "collect_filters f as = Inr xs \<longleftrightarrow> (\<exists>ys. list_all2 (\<lambda>a y. f a = Inr y) as ys \<and> xs = concat ys)"
proof (induction as arbitrary: xs)
  case (Cons a as)
  show ?case
    by (auto simp: rbind_eq_Inr Cons.IH list_all2_Cons1) (metis concat.simps(2) list_all2_Cons)
qed auto

text \<open>
  C28: The claim-based provider keeps tenants and groups apart: a row that is not public is readable
  only if its authorization was resolved, its tenant (if it names one) is the caller's, one of its
  access groups (if it names any) is the caller's, and the caller holds a matching value for every
  policy attribute of the model; and some check has to match.\<close>

theorem claim_can_read_sound:
  assumes "claim_can_read p r as" "\<not> public_row r"
  shows "resolved r \<and>
    (\<forall>t. row_get r ''tenant_id'' = PyStr t \<and> t \<noteq> [] \<longrightarrow> tenant_id p = Some t) \<and>
    (row_groups r \<noteq> [] \<longrightarrow> set (row_groups r) \<inter> set (access_groups p) \<noteq> {}) \<and>
    (\<forall>a \<in> set as. attribute_check p r a = Some True) \<and>
    (tenant_check p r = Some True \<or> group_check p r = Some True \<or> as \<noteq> [] \<or>
      (\<exists>c \<in> set (policy_claims p). stated_claim_check r c = Some True))"
proof -
  have attr: "attribute_check p r a \<noteq> Some False" for a
    by (auto simp: attribute_check_def Let_def split: option.splits)
  from assms have r: "resolved r" and checks: "all_checks (tenant_check p r # group_check p r # map (attribute_check p r) as
            @ map (stated_claim_check r) (policy_claims p)) False"
    by (auto simp: claim_can_read_def split: if_splits)
  then have none: "tenant_check p r \<noteq> None" "group_check p r \<noteq> None" "None \<notin> attribute_check p r ` set as"
    by (auto simp: all_checks_iff)
  then have "attribute_check p r a = Some True" if "a \<in> set as" for a
    using attr [of a] that by (cases "attribute_check p r a") force+
  with r none checks show ?thesis
    by (auto simp: all_checks_iff tenant_check_def group_check_def list_ex_iff split: if_splits)
qed

theorem claim_can_read_sound_witness:
  "let p = \<lparr>subject_id = ''ana'', tenant_id = Some ''acme'', access_groups = [''ops''], policy_claims = []\<rparr>;
       r = [(''authorization_resolved'', PyBool True), (''tenant_id'', PyStr ''acme''),
            (''access_groups'', PyList [PyStr ''dev'', PyStr ''ops''])]
   in claim_can_read p r [] \<and> set (row_groups r) \<inter> set (access_groups p) \<noteq> {}"
proof -
  let ?p = "\<lparr>subject_id = ''ana'', tenant_id = Some ''acme'', access_groups = [''ops''], policy_claims = []\<rparr>"
  let ?r = "[(''authorization_resolved'', PyBool True), (''tenant_id'', PyStr ''acme''),
            (''access_groups'', PyList [PyStr ''dev'', PyStr ''ops''])]"
  have "claim_can_read ?p ?r []" "\<not> public_row ?r" "row_groups ?r \<noteq> []" by code_simp+
  with claim_can_read_sound [of ?p ?r "[]"] show ?thesis by (simp add: Let_def)
qed

end
