(* ===== verification/Grants.thy ===== *)
theory Grants
  imports Authorization Identifiers
begin

text \<open>
  Operator-owned grants as the authorization source (\<^verbatim>\<open>src/stel/mcp_server/grants.py\<close>): reading
  grant rows, intervals, the static and the cached warehouse store, the provider that compiles
  search filters from grants and rechecks returned rows against them, and the warehouse identity.

  A store is a function from a subject to its grants or an exception. The warehouse relation is
  \<open>None\<close> when it does not exist and its rows otherwise. Clock readings are rationals.
\<close>

section \<open>Grants and intervals\<close>

record grant =
  grant_subject :: string
  grant_attribute :: string
  grant_value :: string
  grant_operator :: string

record grant_interval =
  lower :: "string option"
  upper :: "string option"

definition interval_contains :: "grant_interval \<Rightarrow> string \<Rightarrow> bool" where
  "interval_contains iv v \<longleftrightarrow>
     \<not> (case lower iv of None \<Rightarrow> False | Some l \<Rightarrow> v < l) \<and> \<not> (case upper iv of None \<Rightarrow> False | Some u \<Rightarrow> v > u)"

definition interval_bound :: "string \<Rightarrow> string option" where
  "interval_bound part = (if py_strip part \<in> {''..'', []} then None else Some (py_strip part))"

definition parse_interval :: "string \<Rightarrow> auth_error + grant_interval" where
  "parse_interval value = (case py_split_char CHR ''/'' value of
       [l, u] \<Rightarrow> (case (interval_bound l, interval_bound u) of
           (None, None) \<Rightarrow> Inl GrantConfigurationError
         | (Some a, Some b) \<Rightarrow> if a > b then Inl GrantConfigurationError else Inr \<lparr>lower = Some a, upper = Some b\<rparr>
         | (a, b) \<Rightarrow> Inr \<lparr>lower = a, upper = b\<rparr>)
     | _ \<Rightarrow> Inl GrantConfigurationError)"

definition validate_grants_relation :: "string \<Rightarrow> name_error option + string" where
  "validate_grants_relation relation = (if CHR ''.'' \<in> set relation then Inl None
     else (case validate_node_name relation ''Grants relation'' False of Inl e \<Rightarrow> Inl (Some e) | Inr n \<Rightarrow> Inr n))"

section \<open>Stores\<close>

definition static_store :: "grant list \<Rightarrow> (string \<times> grant list) list" where
  "static_store gs = fold (\<lambda>g d. AList.update (grant_subject g)
     ((case map_of d (grant_subject g) of None \<Rightarrow> [] | Some xs \<Rightarrow> xs) @ [g]) d) gs []"

definition static_grants_for :: "(string \<times> grant list) list \<Rightarrow> string \<Rightarrow> auth_error + grant list" where
  "static_grants_for d s = Inr (case map_of d s of None \<Rightarrow> [] | Some xs \<Rightarrow> xs)"

definition operator_from_row :: "row \<Rightarrow> auth_error + string" where
  "operator_from_row r = (case row_get r ''operator'' of
       PyNone \<Rightarrow> Inr ''eq''
     | PyStr s \<Rightarrow> if py_strip s = [] then Inr ''eq''
         else if py_strip s \<in> {''eq'', ''between''} then Inr (py_strip s) else Inl GrantConfigurationError
     | _ \<Rightarrow> Inl GrantConfigurationError)"

definition grant_column :: "row \<Rightarrow> string \<Rightarrow> auth_error + string" where
  "grant_column r c = (case row_get r c of
       PyStr s \<Rightarrow> if py_strip s = [] then Inl GrantConfigurationError else Inr (py_strip s)
     | _ \<Rightarrow> Inl GrantConfigurationError)"

definition grant_from_row :: "row \<Rightarrow> auth_error + grant" where
  "grant_from_row r = rbind (grant_column r ''subject_id'') (\<lambda>s. rbind (grant_column r ''attribute'') (\<lambda>a.
     rbind (grant_column r ''value'') (\<lambda>v. rbind (operator_from_row r) (\<lambda>op.
       Inr \<lparr>grant_subject = s, grant_attribute = a, grant_value = v, grant_operator = op\<rparr>))))"

fun grants_from_rows :: "row list \<Rightarrow> auth_error + grant list" where
  "grants_from_rows [] = Inr []"
| "grants_from_rows (r # rs) = rbind (grant_from_row r) (\<lambda>g. rbind (grants_from_rows rs) (\<lambda>gs. Inr (g # gs)))"

definition max_grant_rows :: nat where
  "max_grant_rows = 1000"

definition read_grants :: "row list option \<Rightarrow> string \<Rightarrow> auth_error + grant list" where
  "read_grants relation s =
     (let rows = (case relation of None \<Rightarrow> [] | Some rs \<Rightarrow> filter (\<lambda>r. row_get r ''subject_id'' = PyStr s) rs)
      in if length rows > max_grant_rows then Inl RepositoryError
         else if rows = [] \<and> relation = None then Inl GrantConfigurationError
         else grants_from_rows rows)"

record grant_cache =
  cache_ttl :: rat
  cache_entries :: "(string \<times> (rat \<times> grant list)) list"
  last_sweep :: rat

definition new_grant_cache :: "rat \<Rightarrow> rat \<Rightarrow> auth_error + grant_cache" where
  "new_grant_cache ttl now = (if ttl \<le> 0 then Inl InvalidValue
     else Inr \<lparr>cache_ttl = ttl, cache_entries = [], last_sweep = now\<rparr>)"

definition cached_grants :: "rat \<Rightarrow> string \<Rightarrow> grant_cache \<Rightarrow> grant list option" where
  "cached_grants now s c = (case map_of (cache_entries c) s of
       Some (expires, gs) \<Rightarrow> if now < expires then Some gs else None
     | None \<Rightarrow> None)"

definition sweep_expired :: "rat \<Rightarrow> grant_cache \<Rightarrow> grant_cache" where
  "sweep_expired now c = (if now - last_sweep c < cache_ttl c then c
     else c\<lparr>last_sweep := now, cache_entries := filter (\<lambda>(s, expires, gs). \<not> expires \<le> now) (cache_entries c)\<rparr>)"

definition store_grants :: "rat \<Rightarrow> string \<Rightarrow> grant list \<Rightarrow> grant_cache \<Rightarrow> grant_cache" where
  "store_grants now s gs c =
     sweep_expired now (c\<lparr>cache_entries := AList.update s (now + cache_ttl c, gs) (cache_entries c)\<rparr>)"

section \<open>What a subject holds\<close>

record attribute_grant =
  held_values :: "string list"
  held_interval :: "grant_interval option"

fun collect_grants :: "grant list \<Rightarrow> (string \<times> string list) list \<Rightarrow> (string \<times> grant_interval) list \<Rightarrow>
    auth_error + ((string \<times> string list) list \<times> (string \<times> grant_interval) list)" where
  "collect_grants [] vs ivs = Inr (vs, ivs)"
| "collect_grants (g # gs) vs ivs =
     (if grant_operator g = ''between'' then
        (if map_of ivs (grant_attribute g) \<noteq> None then Inl GrantConfigurationError
         else rbind (parse_interval (grant_value g)) (\<lambda>iv.
           collect_grants gs vs (AList.update (grant_attribute g) iv ivs)))
      else collect_grants gs (AList.update (grant_attribute g)
        ((case map_of vs (grant_attribute g) of None \<Rightarrow> [] | Some xs \<Rightarrow> xs) @ [grant_value g]) vs) ivs)"

definition merge_held :: "(string \<times> string list) list \<Rightarrow> (string \<times> grant_interval) list \<Rightarrow> (string \<times> attribute_grant) list" where
  "merge_held vs ivs = dict_of (map (\<lambda>a. (a,
     \<lparr>held_values = (case map_of vs a of None \<Rightarrow> [] | Some xs \<Rightarrow> xs), held_interval = map_of ivs a\<rparr>))
     (map fst vs @ map fst ivs))"

definition granted_values :: "(string \<Rightarrow> auth_error + grant list) \<Rightarrow> string \<Rightarrow> auth_error + (string \<times> attribute_grant) list" where
  "granted_values store s = rbind (store s) (\<lambda>gs. rbind (collect_grants gs [] []) (\<lambda>(vs, ivs).
     if list_ex (\<lambda>a. map_of vs a \<noteq> None) (map fst ivs) then Inl GrantConfigurationError else Inr (merge_held vs ivs)))"

section \<open>The provider\<close>

definition warehouse_identity_attribute :: string where
  "warehouse_identity_attribute = ''warehouse_identity''"

definition refuse_reserved :: "policy_attribute list \<Rightarrow> auth_error + unit" where
  "refuse_reserved as = each (\<lambda>a. guard (attr_name a \<noteq> warehouse_identity_attribute) GrantConfigurationError) as"

definition interval_filters :: "string \<Rightarrow> grant_interval \<Rightarrow> auth_error + search_filter list" where
  "interval_filters name iv =
     rbind (case lower iv of None \<Rightarrow> Inr [] | Some l \<Rightarrow> rbind (new_filter name GreaterThanOrEqual (One (PyStr l))) (\<lambda>f. Inr [f])) (\<lambda>fs.
     rbind (case upper iv of None \<Rightarrow> Inr [] | Some u \<Rightarrow> rbind (new_filter name LessThanOrEqual (One (PyStr u))) (\<lambda>f. Inr [f])) (\<lambda>gs.
       Inr (fs @ gs)))"

definition attribute_filters :: "(string \<times> attribute_grant) list \<Rightarrow> policy_attribute \<Rightarrow> auth_error + search_filter list" where
  "attribute_filters granted a = (case map_of granted (attr_name a) of
       None \<Rightarrow> Inl AuthorizationError
     | Some held \<Rightarrow> (case held_interval held of
         Some iv \<Rightarrow> if data_type a = array_type then Inl GrantConfigurationError else interval_filters (attr_name a) iv
       | None \<Rightarrow>
           rbind (if data_type a = array_type
                  then new_filter (attr_name a) ArrayContainsAny (Many (map PyStr (held_values held)))
                  else (case held_values held of
                      [v] \<Rightarrow> new_filter (attr_name a) EqualTo (One (PyStr v))
                    | vs \<Rightarrow> new_filter (attr_name a) InValues (Many (map PyStr vs)))) (\<lambda>f. Inr [f])))"

definition grant_policy_filters :: "(string \<Rightarrow> auth_error + grant list) \<Rightarrow> principal \<Rightarrow> string \<Rightarrow> policy_attribute list \<Rightarrow>
    auth_error + search_filter list" where
  "grant_policy_filters store p access as = (if access = ''public'' then Inr []
     else rbind (refuse_reserved as) (\<lambda>_. rbind (granted_values store (subject_id p)) (\<lambda>granted.
       rbind (collect_filters (attribute_filters granted) as) require_filters)))"

definition attribute_allowed :: "(string \<times> attribute_grant) list \<Rightarrow> row \<Rightarrow> policy_attribute \<Rightarrow> bool" where
  "attribute_allowed granted r a = (let v = row_get r (attr_name a) in
     (case map_of granted (attr_name a) of None \<Rightarrow> False
      | Some held \<Rightarrow> (case held_interval held of
          Some iv \<Rightarrow> data_type a \<noteq> array_type \<and> is_str v \<and> interval_contains iv (str_of v)
        | None \<Rightarrow> if data_type a = array_type then policy_values_overlap v (Many (map PyStr (held_values held)))
            else is_str v \<and> str_of v \<in> set (held_values held))))"

definition grant_can_read :: "(string \<Rightarrow> auth_error + grant list) \<Rightarrow> principal \<Rightarrow> row \<Rightarrow> policy_attribute list \<Rightarrow> auth_error + bool" where
  "grant_can_read store p r as = (if \<not> resolved r then Inr False else if public_row r then Inr True
     else if as = [] then Inr False
     else rbind (refuse_reserved as) (\<lambda>_. rbind (granted_values store (subject_id p)) (\<lambda>granted.
       Inr (list_all (attribute_allowed granted r) as))))"

definition identity_for :: "(string \<Rightarrow> auth_error + grant list) \<Rightarrow> principal \<Rightarrow> auth_error + string" where
  "identity_for store p = rbind (granted_values store (subject_id p)) (\<lambda>granted.
     (case map_of granted warehouse_identity_attribute of
        None \<Rightarrow> Inl AuthorizationError
      | Some held \<Rightarrow> if held_interval held \<noteq> None then Inl GrantConfigurationError
          else (case held_values held of [] \<Rightarrow> Inl AuthorizationError
            | v # vs \<Rightarrow> if length (remdups (v # vs)) > 1 then Inl GrantConfigurationError else Inr v)))"

interpretation grant_provider: authorization_provider "grant_can_read store" for store
  by unfold_locales (auto simp: grant_can_read_def split: if_splits)

end
