(* ===== verification/Grants_Props.thy ===== *)
theory Grants_Props
  imports Grants
begin

text \<open>
  What grants guarantee: the search filters and the recheck of a returned row decide alike, and a
  change to the grants relation takes effect within the cache's time to live.
\<close>

section \<open>What is held\<close>

text \<open>A subject holds a value or a bounded interval for an attribute, never both and never neither.\<close>

definition held_ok :: "attribute_grant \<Rightarrow> bool" where
  "held_ok h \<longleftrightarrow> (case held_interval h of
       None \<Rightarrow> held_values h \<noteq> []
     | Some iv \<Rightarrow> held_values h = [] \<and> (lower iv \<noteq> None \<or> upper iv \<noteq> None))"

lemma parse_interval_bounded: "parse_interval v = Inr iv \<Longrightarrow> lower iv \<noteq> None \<or> upper iv \<noteq> None"
  by (auto simp: parse_interval_def split: list.splits option.splits if_splits)

lemma collect_grants_ok:
  assumes "collect_grants gs vs ivs = Inr (vs', ivs')"
    "\<forall>xs \<in> ran (map_of vs). xs \<noteq> []" "\<forall>iv \<in> ran (map_of ivs). lower iv \<noteq> None \<or> upper iv \<noteq> None"
  shows "(\<forall>xs \<in> ran (map_of vs'). xs \<noteq> []) \<and> (\<forall>iv \<in> ran (map_of ivs'). lower iv \<noteq> None \<or> upper iv \<noteq> None)"
  using assms
proof (induction gs vs ivs rule: collect_grants.induct)
  case (2 g gs vs ivs)
  show ?case
  proof (cases "grant_operator g = ''between''")
    case True
    with 2(3) obtain iv where none: "map_of ivs (grant_attribute g) = None" and iv: "parse_interval (grant_value g) = Inr iv"
      and rest: "collect_grants gs vs (AList.update (grant_attribute g) iv ivs) = Inr (vs', ivs')"
      by (auto simp: rbind_eq_Inr split: if_splits)
    have "\<forall>iv \<in> ran (map_of (AList.update (grant_attribute g) iv ivs)). lower iv \<noteq> None \<or> upper iv \<noteq> None"
      using 2(5) parse_interval_bounded [OF iv] by (auto simp: update_conv' ran_def split: if_splits)
    with 2(1) [OF True _ rest 2(4)] none show ?thesis by simp
  next
    case False
    then show ?thesis
      using 2(3-5) by (intro 2(2)) (auto simp: update_conv' ran_def split: if_splits option.splits)
  qed
qed simp

lemma map_of_dict_of: "map_of (dict_of (map (\<lambda>a. (a, f a)) as)) k = (if k \<in> set as then Some (f k) else None)"
proof -
  have "map_of (fold (\<lambda>(k, v) d. AList.update k v d) (map (\<lambda>a. (a, f a)) as) d) k =
      (if k \<in> set as then Some (f k) else map_of d k)" for d
    by (induction as arbitrary: d) (auto simp: update_conv')
  then show ?thesis by (simp add: dict_of_def)
qed

lemma granted_values_ok:
  assumes "granted_values store s = Inr granted" "map_of granted a = Some h"
  shows "held_ok h"
proof -
  from assms(1) obtain gs vs ivs where c: "collect_grants gs [] [] = Inr (vs, ivs)"
    and apart: "\<forall>b \<in> fst ` set ivs. map_of vs b = None" and g: "granted = merge_held vs ivs"
    by (auto simp: granted_values_def rbind_eq_Inr list_ex_iff split: if_splits)
  from assms(2) have in_keys: "a \<in> fst ` set vs \<union> fst ` set ivs"
    and h: "h = \<lparr>held_values = (case map_of vs a of None \<Rightarrow> [] | Some xs \<Rightarrow> xs), held_interval = map_of ivs a\<rparr>"
    unfolding g merge_held_def map_of_dict_of by (auto split: if_splits)
  note ok = collect_grants_ok [OF c, simplified]
  show ?thesis
  proof (cases "map_of ivs a")
    case None
    then have "map_of vs a \<noteq> None" using in_keys by (auto simp: map_of_eq_None_iff)
    with ok None show ?thesis by (auto simp: held_ok_def h ran_def)
  next
    case (Some iv)
    then have "a \<in> fst ` set ivs" by (force dest: map_of_SomeD)
    with apart ok Some show ?thesis by (auto simp: held_ok_def h ran_def)
  qed
qed

section \<open>Filters and recheck agree\<close>

lemma new_filter_Inr:
  "new_filter n op c = Inr f \<Longrightarrow> f = \<lparr>filter_field = n, filter_op = op, filter_value = c\<rparr>"
  by (auto simp: new_filter_def rbind_eq_Inr)

lemma interval_filters_hold:
  assumes "interval_filters n iv = Inr fs" "lower iv \<noteq> None \<or> upper iv \<noteq> None"
  shows "list_all (clause_holds r) fs \<longleftrightarrow> is_str (row_get r n) \<and> interval_contains iv (str_of (row_get r n))"
  using assms
  by (cases "row_get r n"; cases "lower iv"; cases "upper iv")
    (auto simp: interval_filters_def rbind_eq_Inr clause_holds_def compare_strings_def interval_contains_def not_less
      dest!: new_filter_Inr)

lemma attribute_filters_hold:
  assumes "attribute_filters granted a = Inr fs" "\<And>h. map_of granted (attr_name a) = Some h \<Longrightarrow> held_ok h"
  shows "list_all (clause_holds r) fs \<longleftrightarrow> attribute_allowed granted r a"
proof -
  from assms(1) obtain h where h: "map_of granted (attr_name a) = Some h"
    by (auto simp: attribute_filters_def split: option.splits)
  note ok = assms(2) [OF h]
  show ?thesis
  proof (cases "held_interval h")
    case (Some iv)
    with assms(1) h have "data_type a \<noteq> array_type" "interval_filters (attr_name a) iv = Inr fs"
      by (auto simp: attribute_filters_def split: if_splits)
    moreover have "lower iv \<noteq> None \<or> upper iv \<noteq> None" using ok Some by (simp add: held_ok_def)
    ultimately show ?thesis using Some h interval_filters_hold by (simp add: attribute_allowed_def Let_def)
  next
    case None
    show ?thesis
    proof (cases "data_type a = array_type")
      case True
      with assms(1) h None show ?thesis
        by (cases "row_get r (attr_name a)")
          (auto simp: attribute_filters_def rbind_eq_Inr attribute_allowed_def Let_def clause_holds_def
            policy_values_overlap_def dest!: new_filter_Inr)
    next
      case False
      from ok None obtain v vs where "held_values h = v # vs" by (cases "held_values h") (auto simp: held_ok_def)
      with assms(1) h None False show ?thesis
        by (cases "row_get r (attr_name a)"; cases vs)
          (auto simp: attribute_filters_def rbind_eq_Inr attribute_allowed_def Let_def clause_holds_def
            py_in_def list_ex_iff dest!: new_filter_Inr)
    qed
  qed
qed

lemma collect_filters_hold:
  assumes "collect_filters f as = Inr fs" "\<And>a gs. a \<in> set as \<Longrightarrow> f a = Inr gs \<Longrightarrow> list_all P gs \<longleftrightarrow> Q a"
  shows "list_all P fs \<longleftrightarrow> list_all Q as"
  using assms
proof (induction as arbitrary: fs)
  case (Cons a as)
  then obtain x xs where "f a = Inr x" "collect_filters f as = Inr xs" "fs = x @ xs" by (auto simp: rbind_eq_Inr)
  moreover from this(1) have "list_all P x \<longleftrightarrow> Q a" by (rule Cons.prems(2) [rotated]) simp
  moreover from \<open>collect_filters f as = Inr xs\<close> have "list_all P xs \<longleftrightarrow> list_all Q as"
    by (rule Cons.IH) (rule Cons.prems(2), simp)
  ultimately show ?case by simp
qed simp


definition demo_store :: "string \<Rightarrow> auth_error + grant list" where
  "demo_store = static_grants_for (static_store
     [\<lparr>grant_subject = ''ana'', grant_attribute = ''tenant'', grant_value = ''acme'', grant_operator = ''eq''\<rparr>,
      \<lparr>grant_subject = ''ana'', grant_attribute = ''filed'', grant_value = ''2024-01-01/..'', grant_operator = ''between''\<rparr>])"

definition demo_principal :: principal where
  "demo_principal = \<lparr>subject_id = ''ana'', tenant_id = Some ''other'', access_groups = [], policy_claims = []\<rparr>"

definition demo_attributes :: "policy_attribute list" where
  "demo_attributes = [\<lparr>attr_name = ''tenant'', data_type = ''string''\<rparr>, \<lparr>attr_name = ''filed'', data_type = ''date''\<rparr>]"

definition demo_row :: row where
  "demo_row = [(''authorization_resolved'', PyBool True), (''tenant'', PyStr ''acme''), (''filed'', PyStr ''2024-03-05'')]"


text \<open>
  The interval parser accepts bounds of any shape and orders them as text: it takes \<open>10/9\<close>,
  an empty range of numbers, and then permits the value \<open>2\<close>, which lies between the two as text; and
  an end left blank counts as open.\<close>

theorem interval_shape_unchecked:
  "parse_interval ''10/9'' = Inr \<lparr>lower = Some ''10'', upper = Some ''9''\<rparr> \<and>
   interval_contains \<lparr>lower = Some ''10'', upper = Some ''9''\<rparr> ''2'' \<and>
   parse_interval ''2024-01-01/'' = Inr \<lparr>lower = Some ''2024-01-01'', upper = None\<rparr>"
  by code_simp

section \<open>Revocation\<close>

text \<open>
  Concurrent calls of \<^verbatim>\<open>grants_for\<close>: a call reads the clock, looks into the cache under the lock,
  reads the relation outside it on a miss, and stores the answer under the lock. Between these the
  clock advances, other calls run and the operator edits the relation.
\<close>

datatype grant_call =
    Looking string rat
  | Reading string rat
  | Storing string rat "grant list"
  | Returned string rat "auth_error + grant list"

record grant_system =
  now :: rat
  relation :: "row list option"
  changed_at :: rat
  cache :: grant_cache
  grant_calls :: "grant_call list"

inductive grant_step :: "grant_system \<Rightarrow> grant_system \<Rightarrow> bool" where
  tick: "now s \<le> t \<Longrightarrow> grant_step s (s\<lparr>now := t\<rparr>)"
| edit: "grant_step s (s\<lparr>relation := rel, changed_at := now s\<rparr>)"
| start: "grant_step s (s\<lparr>grant_calls := grant_calls s @ [Looking u (now s)]\<rparr>)"
| hit: "i < length (grant_calls s) \<Longrightarrow> grant_calls s ! i = Looking u t \<Longrightarrow> cached_grants t u (cache s) = Some gs \<Longrightarrow>
     grant_step s (s\<lparr>grant_calls := (grant_calls s)[i := Returned u t (Inr gs)]\<rparr>)"
| miss: "i < length (grant_calls s) \<Longrightarrow> grant_calls s ! i = Looking u t \<Longrightarrow> cached_grants t u (cache s) = None \<Longrightarrow>
     grant_step s (s\<lparr>grant_calls := (grant_calls s)[i := Reading u t]\<rparr>)"
| read_raises: "i < length (grant_calls s) \<Longrightarrow> grant_calls s ! i = Reading u t \<Longrightarrow> read_grants (relation s) u = Inl e \<Longrightarrow>
     grant_step s (s\<lparr>grant_calls := (grant_calls s)[i := Returned u t (Inl e)]\<rparr>)"
| read_rows: "i < length (grant_calls s) \<Longrightarrow> grant_calls s ! i = Reading u t \<Longrightarrow> read_grants (relation s) u = Inr gs \<Longrightarrow>
     grant_step s (s\<lparr>grant_calls := (grant_calls s)[i := Storing u t gs]\<rparr>)"
| remember: "i < length (grant_calls s) \<Longrightarrow> grant_calls s ! i = Storing u t gs \<Longrightarrow>
     grant_step s (s\<lparr>cache := store_grants t u gs (cache s), grant_calls := (grant_calls s)[i := Returned u t (Inr gs)]\<rparr>)"

definition grant_start :: "grant_cache \<Rightarrow> row list option \<Rightarrow> rat \<Rightarrow> grant_system" where
  "grant_start c rel t = \<lparr>now = t, relation = rel, changed_at = t, cache = c, grant_calls = []\<rparr>"

text \<open>An answer is what the relation says now, unless it may predate the last edit.\<close>

definition fresh :: "grant_system \<Rightarrow> string \<Rightarrow> auth_error + grant list \<Rightarrow> rat \<Rightarrow> bool" where
  "fresh s u r limit \<longleftrightarrow> r = read_grants (relation s) u \<or> limit \<le> changed_at s"

fun call_fresh :: "grant_system \<Rightarrow> grant_call \<Rightarrow> bool" where
  "call_fresh s (Looking u t) \<longleftrightarrow> t \<le> now s"
| "call_fresh s (Reading u t) \<longleftrightarrow> t \<le> now s"
| "call_fresh s (Storing u t gs) \<longleftrightarrow> t \<le> now s \<and> fresh s u (Inr gs) t"
| "call_fresh s (Returned u t r) \<longleftrightarrow> t \<le> now s \<and> (r = read_grants (relation s) u \<or> t < changed_at s + cache_ttl (cache s))"

definition grants_fresh :: "grant_system \<Rightarrow> bool" where
  "grants_fresh s \<longleftrightarrow> 0 < cache_ttl (cache s) \<and> changed_at s \<le> now s \<and>
     (\<forall>(u, t, gs) \<in> set (cache_entries (cache s)). t - cache_ttl (cache s) \<le> now s \<and> fresh s u (Inr gs) (t - cache_ttl (cache s))) \<and>
     (\<forall>c \<in> set (grant_calls s). call_fresh s c)"

lemma entry_update: "e \<in> set (AList.update k v es) \<Longrightarrow> e = (k, v) \<or> e \<in> set es"
  by (induction es) (auto split: if_splits)

lemma store_grants_simps [simp]: "cache_ttl (store_grants t u gs c) = cache_ttl c"
  by (simp add: store_grants_def sweep_expired_def)

lemma store_grants_entry:
  "e \<in> set (cache_entries (store_grants t u gs c)) \<Longrightarrow> e = (u, t + cache_ttl c, gs) \<or> e \<in> set (cache_entries c)"
  by (auto simp: store_grants_def sweep_expired_def dest: entry_update split: if_splits)

lemma fresh_cong: "relation s' = relation s \<Longrightarrow> changed_at s' = changed_at s \<Longrightarrow> fresh s' u r t = fresh s u r t"
  by (simp add: fresh_def)

text \<open>A step that leaves the relation alone and moves one call.\<close>

lemma grants_fresh_move:
  assumes inv: "grants_fresh s" and i: "i < length (grant_calls s)"
    and same: "relation s' = relation s" "changed_at s' = changed_at s" "now s' = now s" "cache_ttl (cache s') = cache_ttl (cache s)"
    and calls: "grant_calls s' = (grant_calls s)[i := c]" and new: "call_fresh s c"
    and entries: "\<And>u t gs. (u, t, gs) \<in> set (cache_entries (cache s')) \<Longrightarrow>
      (u, t, gs) \<in> set (cache_entries (cache s)) \<or> t - cache_ttl (cache s) \<le> now s \<and> fresh s u (Inr gs) (t - cache_ttl (cache s))"
  shows "grants_fresh s'"
proof -
  have f: "fresh s' = fresh s" by (intro ext fresh_cong same)
  have c: "call_fresh s' x = call_fresh s x" for x by (cases x) (simp_all add: same f)
  have "call_fresh s x" if "x \<in> set (grant_calls s')" for x
    using that new inv set_update_subset_insert [of "grant_calls s" i c] unfolding calls grants_fresh_def by auto
  moreover have "t - cache_ttl (cache s) \<le> now s \<and> fresh s u (Inr gs) (t - cache_ttl (cache s))"
    if "(u, t, gs) \<in> set (cache_entries (cache s'))" for u t gs
    using entries [OF that] inv unfolding grants_fresh_def by auto
  ultimately show ?thesis using inv unfolding grants_fresh_def same c f by auto
qed

lemma grant_step_fresh:
  assumes "grant_step s s'" "grants_fresh s"
  shows "grants_fresh s'"
  using assms(1)
proof cases
  case (tick t)
  have "call_fresh s' c" if "call_fresh s c" for c
    using that tick by (cases c) (auto simp: fresh_def)
  with tick assms(2) show ?thesis by (auto simp: grants_fresh_def fresh_def)
next
  case (edit rel)
  have old: "fresh s' u r t" if "t \<le> now s" for u r t using that edit by (simp add: fresh_def)
  have ttl: "0 < cache_ttl (cache s)" "changed_at s \<le> now s" using assms(2) by (simp_all add: grants_fresh_def)
  have "call_fresh s' c" if "call_fresh s c" for c
    using that edit old ttl by (cases c) auto
  moreover have "fresh s' u (Inr gs) (t - cache_ttl (cache s))" if "(u, t, gs) \<in> set (cache_entries (cache s))" for u t gs
    using assms(2) that by (intro old) (auto simp: grants_fresh_def)
  ultimately show ?thesis using edit assms(2) by (auto simp: grants_fresh_def)
next
  case (start u)
  have "call_fresh s' c" if "call_fresh s c" for c using that start by (cases c) (auto simp: fresh_def)
  with start assms(2) show ?thesis by (auto simp: grants_fresh_def fresh_def)
next
  case (hit i u t gs)
  then have old: "call_fresh s (Looking u t)" using assms(2) by (metis grants_fresh_def nth_mem)
  from hit(4) obtain e where e: "(u, e, gs) \<in> set (cache_entries (cache s))" "t < e"
    by (auto simp: cached_grants_def dest!: map_of_SomeD split: option.splits if_splits)
  with assms(2) have "fresh s u (Inr gs) (e - cache_ttl (cache s))" by (auto simp: grants_fresh_def)
  with old e have "call_fresh s (Returned u t (Inr gs))" by (auto simp: fresh_def)
  with hit show ?thesis by (intro grants_fresh_move [OF assms(2) hit(2)]) auto
next
  case (miss i u t)
  then have "call_fresh s (Looking u t)" using assms(2) by (metis grants_fresh_def nth_mem)
  with miss show ?thesis by (intro grants_fresh_move [OF assms(2) miss(2), where c = "Reading u t"]) auto
next
  case (read_raises i u t e)
  then have "call_fresh s (Reading u t)" using assms(2) by (metis grants_fresh_def nth_mem)
  with read_raises show ?thesis by (intro grants_fresh_move [OF assms(2) read_raises(2), where c = "Returned u t (Inl e)"]) auto
next
  case (read_rows i u t gs)
  then have "call_fresh s (Reading u t)" using assms(2) by (metis grants_fresh_def nth_mem)
  with read_rows show ?thesis
    by (intro grants_fresh_move [OF assms(2) read_rows(2), where c = "Storing u t gs"]) (auto simp: fresh_def)
next
  case (remember i u t gs)
  then have old: "call_fresh s (Storing u t gs)" using assms(2) by (metis grants_fresh_def nth_mem)
  have "0 < cache_ttl (cache s)" using assms(2) by (simp add: grants_fresh_def)
  with old have "call_fresh s (Returned u t (Inr gs))" by (auto simp: fresh_def)
  with remember old show ?thesis
    by (intro grants_fresh_move [OF assms(2) remember(2)]) (auto dest!: store_grants_entry)
qed

lemma grant_run_fresh: "grant_step\<^sup>*\<^sup>* s s' \<Longrightarrow> grants_fresh s \<Longrightarrow> grants_fresh s' \<and> cache_ttl (cache s') = cache_ttl (cache s)"
proof (induction rule: rtranclp_induct)
  case (step y z)
  from step(2) have "cache_ttl (cache z) = cache_ttl (cache y)" by cases simp_all
  with step grant_step_fresh show ?case by simp
qed simp

text \<open>
  C8: A change to the grants relation takes effect within the cache's time to live, whatever the
  interleaving of calls, edits and the clock: a call that starts at least \<^verbatim>\<open>ttl_seconds\<close> after the
  last edit answers with exactly what the relation holds for its subject, be it grants, none, or the
  error for a malformed or absent relation.\<close>

theorem grant_changes_apply_within_ttl:
  assumes "new_grant_cache ttl t0 = Inr c" "grant_step\<^sup>*\<^sup>* (grant_start c rel t0) s"
    "Returned u t r \<in> set (grant_calls s)" "changed_at s + ttl \<le> t"
  shows "r = read_grants (relation s) u"
proof -
  have c: "cache_ttl c = ttl" "0 < ttl" "cache_entries c = []" using assms(1) by (auto simp: new_grant_cache_def split: if_splits)
  then have "grants_fresh (grant_start c rel t0)" by (simp add: grants_fresh_def grant_start_def)
  from grant_run_fresh [OF assms(2) this] c have "call_fresh s (Returned u t r)" "cache_ttl (cache s) = ttl"
    using assms(3) by (auto simp: grants_fresh_def grant_start_def)
  with assms(4) show ?thesis by auto
qed

definition demo_grant_row :: row where
  "demo_grant_row = [(''subject_id'', PyStr ''ana''), (''attribute'', PyStr ''tenant''), (''value'', PyStr ''acme'')]"

definition demo_cache :: grant_cache where
  "demo_cache = \<lparr>cache_ttl = 60, cache_entries = [], last_sweep = 0\<rparr>"

lemma demo_revocation:
  "grant_step\<^sup>*\<^sup>* (grant_start demo_cache (Some [demo_grant_row]) 0)
     \<lparr>now = 60, relation = Some [], changed_at = 0, cache = store_grants 60 ''ana'' [] demo_cache,
      grant_calls = [Returned ''ana'' 60 (Inr [])]\<rparr>"
proof -
  let ?s = "\<lambda>t calls. \<lparr>now = t, relation = Some [], changed_at = 0, cache = demo_cache, grant_calls = calls\<rparr>"
  have "grant_step (grant_start demo_cache (Some [demo_grant_row]) 0) (?s 0 [])"
    using grant_step.edit [of "grant_start demo_cache (Some [demo_grant_row]) 0" "Some []"] by (simp add: grant_start_def)
  moreover have "grant_step (?s 0 []) (?s 60 [])" using grant_step.tick [of "?s 0 []" 60] by simp
  moreover have "grant_step (?s 60 []) (?s 60 [Looking ''ana'' 60])" using grant_step.start [of "?s 60 []" "''ana''"] by simp
  moreover have "grant_step (?s 60 [Looking ''ana'' 60]) (?s 60 [Reading ''ana'' 60])"
    using grant_step.miss [of 0 "?s 60 [Looking ''ana'' 60]" "''ana''" 60] by (simp add: cached_grants_def demo_cache_def)
  moreover have "grant_step (?s 60 [Reading ''ana'' 60]) (?s 60 [Storing ''ana'' 60 []])"
    using grant_step.read_rows [of 0 "?s 60 [Reading ''ana'' 60]" "''ana''" 60 "[]"] by (simp add: read_grants_def max_grant_rows_def)
  moreover have "grant_step (?s 60 [Storing ''ana'' 60 []]) \<lparr>now = 60, relation = Some [], changed_at = 0,
      cache = store_grants 60 ''ana'' [] demo_cache, grant_calls = [Returned ''ana'' 60 (Inr [])]\<rparr>"
    using grant_step.remember [of 0 "?s 60 [Storing ''ana'' 60 []]" "''ana''" 60 "[]"] by simp
  ultimately show ?thesis by (meson converse_rtranclp_into_rtranclp rtranclp.rtrancl_refl)
qed

theorem grant_changes_apply_within_ttl_witness:
  "new_grant_cache 60 0 = Inr demo_cache \<and> read_grants (Some [demo_grant_row]) ''ana'' \<noteq> Inr [] \<and>
   Inr [] = read_grants (Some []) ''ana''"
proof -
  have c: "new_grant_cache 60 0 = Inr demo_cache" by (simp add: new_grant_cache_def demo_cache_def)
  have "read_grants (Some [demo_grant_row]) ''ana'' \<noteq> Inr []" by code_simp
  with c grant_changes_apply_within_ttl [OF c demo_revocation, of "''ana''" 60 "Inr []"] show ?thesis by simp
qed

end
