(* ===== verification/Context_Assembly.thy ===== *)
theory Context_Assembly
  imports Authorization "HOL-Library.Product_Lexorder"
begin

text \<open>
  Packing governed evidence into a prompt (\<^verbatim>\<open>src/stel/context_assembly.py\<close>, with \<^verbatim>\<open>citation_locator\<close>
  of \<^verbatim>\<open>src/stel/agent_context.py\<close>): validation of evidence rows, selection of roots and neighbours,
  authorization, removal of proven overlap and greedy packing under a token budget.

  \<^verbatim>\<open>json.loads\<close> is the argument \<open>loads\<close> (\<open>None\<close> when it raises), \<^verbatim>\<open>json.dumps\<close> the argument \<open>dumps\<close>
  (likewise), the token counter \<open>counter\<close> (\<open>None\<close> when it raises), and the fingerprints of the
  policy, the snapshot and the prompt are arguments; the authorization provider is its \<open>can_read\<close>.
\<close>

section \<open>Evidence\<close>

datatype assembly_error =
    UnstableIds | UnresolvedVersion | BadText | BadOffsets | NoLocator | BadSnapshot
  | NoTokenizer | TooManyRows | DuplicateCandidates | ConflictingRows
  | AuthorizationFailed | EvidenceDenied | EnvelopeTooLarge | CountingFailed | BadCount | RenderFault

datatype pack_order = Relevance | Document

record assembly_policy =
  token_budget :: int
  pack_order :: pack_order
  remove_overlap :: bool
  neighbor_radius :: int
  max_neighbors :: int

definition policy_valid :: "assembly_policy \<Rightarrow> bool" where
  "policy_valid p \<longleftrightarrow> 1 \<le> token_budget p \<and> 0 \<le> neighbor_radius p \<and> neighbor_radius p \<le> 2 \<and>
     0 \<le> max_neighbors p \<and> max_neighbors p \<le> 64 \<and> (neighbor_radius p \<noteq> 0) = (max_neighbors p \<noteq> 0)"

record evidence =
  registry_row :: row
  chunk_row :: row

definition hex_digit :: "char \<Rightarrow> bool" where
  "hex_digit c \<longleftrightarrow> (let n = of_char c :: nat in 48 \<le> n \<and> n \<le> 57 \<or> 97 \<le> n \<and> n \<le> 102)"

definition stable_id :: "pyval \<Rightarrow> bool" where
  "stable_id v \<longleftrightarrow> is_str v \<and> length (str_of v) = 32 \<and> list_all hex_digit (str_of v)"

definition json_value :: "(string \<Rightarrow> pyval option) \<Rightarrow> pyval \<Rightarrow> pyval option" where
  "json_value loads v = (case v of PyStr s \<Rightarrow> loads s | _ \<Rightarrow> Some v)"

definition locator_fields :: "row \<Rightarrow> pyval \<Rightarrow> pyval \<Rightarrow> row" where
  "locator_fields r path extra =
     [(''source_uri'', row_get r ''source_uri''), (''chunk_index'', row_get r ''chunk_index''),
      (''page_number'', row_get r ''citation_page_number''), (''section_path'', path),
      (''char_start'', row_get r ''citation_char_start''), (''char_end'', row_get r ''citation_char_end''),
      (''speaker'', row_get r ''citation_speaker''), (''start_seconds'', row_get r ''citation_start_seconds''),
      (''end_seconds'', row_get r ''citation_end_seconds''), (''extra'', extra)]"

definition citation_locator :: "(string \<Rightarrow> pyval option) \<Rightarrow> row \<Rightarrow> row option" where
  "citation_locator loads r = (case (json_value loads (row_get r ''citation_section_path''), json_value loads (row_get r ''citation_locator'')) of
       (Some path, Some extra) \<Rightarrow> Some (filter (\<lambda>(k, v). v \<noteq> PyNone) (locator_fields r path extra))
     | _ \<Rightarrow> None)"

definition offsets_ok :: "row \<Rightarrow> bool" where
  "offsets_ok chunk \<longleftrightarrow> (case (row_get chunk ''citation_char_start'', row_get chunk ''citation_char_end'') of
       (PyNone, PyNone) \<Rightarrow> True
     | (PyInt a, PyInt b) \<Rightarrow> 0 \<le> a \<and> b - a = int (length (str_of (row_get chunk ''text'')))
     | _ \<Rightarrow> False)"

definition from_rows :: "(string \<Rightarrow> pyval option) \<Rightarrow> (pyval \<Rightarrow> string option) \<Rightarrow> row \<Rightarrow> row \<Rightarrow> assembly_error + evidence" where
  "from_rows loads dumps registry chunk =
     rbind (guard (list_all (\<lambda>k. stable_id (row_get chunk k))
       [''document_id'', ''document_version_id'', ''context_id'', ''chunk_id'']) UnstableIds) (\<lambda>_.
     rbind (guard (list_all (\<lambda>k. py_eq (row_get registry k) (row_get chunk k))
       [''document_id'', ''document_version_id'']) UnresolvedVersion) (\<lambda>_.
     rbind (guard (is_plain_int (row_get chunk ''chunk_index'') \<and> 0 \<le> int_of (row_get chunk ''chunk_index'') \<and>
       is_str (row_get chunk ''text'') \<and> str_of (row_get chunk ''text'') \<noteq> []) BadText) (\<lambda>_.
     rbind (guard (offsets_ok chunk) BadOffsets) (\<lambda>_.
       (case citation_locator loads chunk of None \<Rightarrow> Inl BadSnapshot
        | Some loc \<Rightarrow> if loc = [] then Inl NoLocator
            else if dumps (PyDict (map (\<lambda>(k, v). (PyStr k, v)) loc)) = None then Inl BadSnapshot
            else Inr \<lparr>registry_row = registry, chunk_row = chunk\<rparr>)))))"

definition ev_str :: "string \<Rightarrow> evidence \<Rightarrow> string" where
  "ev_str k e = str_of (row_get (chunk_row e) k)"

definition ev_index :: "evidence \<Rightarrow> int" where
  "ev_index e = int_of (row_get (chunk_row e) ''chunk_index'')"

section \<open>Selection\<close>

text \<open>Equality of rows as dictionaries, whatever the order of their keys.\<close>

definition row_eq :: "row \<Rightarrow> row \<Rightarrow> bool" where
  "row_eq r s \<longleftrightarrow> list_all (\<lambda>(k, _). case (map_of r k, map_of s k) of
     (Some v, Some w) \<Rightarrow> py_eq v w | _ \<Rightarrow> False) (r @ s)"

definition same_rows :: "evidence \<Rightarrow> evidence \<Rightarrow> bool" where
  "same_rows a b \<longleftrightarrow> row_eq (registry_row a) (registry_row b) \<and> row_eq (chunk_row a) (chunk_row b)"

definition document_key :: "evidence \<Rightarrow> string \<times> string \<times> int \<times> string" where
  "document_key e = (ev_str ''document_id'' e, ev_str ''document_version_id'' e, ev_index e, ev_str ''context_id'' e)"

definition is_neighbor :: "evidence \<Rightarrow> evidence list \<Rightarrow> int \<Rightarrow> bool" where
  "is_neighbor e roots radius \<longleftrightarrow> radius > 0 \<and> list_ex (\<lambda>root.
     ev_str ''document_id'' e = ev_str ''document_id'' root \<and>
     ev_str ''document_version_id'' e = ev_str ''document_version_id'' root \<and>
     0 < \<bar>ev_index e - ev_index root\<bar> \<and> \<bar>ev_index e - ev_index root\<bar> \<le> radius) roots"

fun check_conflicts :: "(string \<times> evidence) list \<Rightarrow> evidence list \<Rightarrow> assembly_error + unit" where
  "check_conflicts by_id [] = Inr ()"
| "check_conflicts by_id (e # es) = (let key = ev_str ''context_id'' e in
     (case map_of by_id key of
        Some other \<Rightarrow> if same_rows other e then check_conflicts (AList.update key e by_id) es else Inl ConflictingRows
      | None \<Rightarrow> check_conflicts (AList.update key e by_id) es))"

fun expand_neighbors :: "assembly_policy \<Rightarrow> evidence list \<Rightarrow> evidence list \<Rightarrow> string list \<Rightarrow> evidence list \<Rightarrow> evidence list" where
  "expand_neighbors p roots [] seen expanded = expanded"
| "expand_neighbors p roots (e # es) seen expanded =
     (if ev_str ''context_id'' e \<in> set seen \<or> \<not> is_neighbor e roots (neighbor_radius p)
      then expand_neighbors p roots es seen expanded
      else if int (length expanded) \<ge> max_neighbors p then expanded
      else expand_neighbors p roots es (ev_str ''context_id'' e # seen) (expanded @ [e]))"

definition select_evidence :: "evidence list \<Rightarrow> evidence list \<Rightarrow> assembly_policy \<Rightarrow> assembly_error + (evidence \<times> bool) list" where
  "select_evidence candidates neighbors p =
     (let ids = map (ev_str ''context_id'') candidates in
      if \<not> distinct ids then Inl DuplicateCandidates
      else rbind (check_conflicts (map (\<lambda>e. (ev_str ''context_id'' e, e)) candidates) neighbors) (\<lambda>_.
        let expanded = expand_neighbors p candidates (sort_key document_key neighbors) ids [];
            selected = map (\<lambda>e. (e, False)) candidates @ map (\<lambda>e. (e, True)) expanded
        in Inr (case pack_order p of Document \<Rightarrow> sort_key (document_key \<circ> fst) selected | Relevance \<Rightarrow> selected)))"

definition authorize :: "(principal \<Rightarrow> row \<Rightarrow> policy_attribute list \<Rightarrow> auth_error + bool) \<Rightarrow> principal \<Rightarrow> policy_attribute list \<Rightarrow>
    evidence \<Rightarrow> assembly_error + unit" where
  "authorize can_read who as e = (case can_read who (registry_row e) as of
       Inl _ \<Rightarrow> Inl AuthorizationFailed
     | Inr False \<Rightarrow> Inl EvidenceDenied
     | Inr True \<Rightarrow> (case can_read who (chunk_row e) as of
           Inl _ \<Rightarrow> Inl AuthorizationFailed
         | Inr False \<Rightarrow> Inl EvidenceDenied
         | Inr True \<Rightarrow> Inr ()))"

section \<open>Packing\<close>

record packed_evidence =
  pk_context_id :: string
  pk_document_id :: string
  pk_document_version_id :: string
  pk_chunk_id :: string
  pk_chunk_index :: int
  pk_text :: string
  pk_citation :: row
  pk_expanded :: bool

definition block_of :: "(string \<Rightarrow> pyval option) \<Rightarrow> evidence \<Rightarrow> bool \<Rightarrow> packed_evidence" where
  "block_of loads e expanded = \<lparr>pk_context_id = ev_str ''context_id'' e, pk_document_id = ev_str ''document_id'' e,
     pk_document_version_id = ev_str ''document_version_id'' e, pk_chunk_id = ev_str ''chunk_id'' e, pk_chunk_index = ev_index e,
     pk_text = ev_str ''text'' e, pk_citation = (case citation_locator loads (chunk_row e) of None \<Rightarrow> [] | Some loc \<Rightarrow> loc),
     pk_expanded = expanded\<rparr>"

definition char_span :: "packed_evidence \<Rightarrow> (int \<times> int) option" where
  "char_span b = (case (row_get (pk_citation b) ''char_start'', row_get (pk_citation b) ''char_end'') of
     (PyInt l, PyInt r) \<Rightarrow> Some (l, r) | _ \<Rightarrow> None)"

definition py_slice :: "'a list \<Rightarrow> int \<Rightarrow> int \<Rightarrow> 'a list" where
  "py_slice xs a b = take (nat (b - a)) (drop (nat a) xs)"

definition same_version :: "packed_evidence \<Rightarrow> packed_evidence \<Rightarrow> bool" where
  "same_version a b \<longleftrightarrow> pk_document_id a = pk_document_id b \<and> pk_document_version_id a = pk_document_version_id b"

fun cover_step :: "packed_evidence \<Rightarrow> int \<Rightarrow> int \<Rightarrow> packed_evidence \<Rightarrow> int \<times> string list \<Rightarrow> int \<times> string list" where
  "cover_step block start stop_at prior (cursor, covered) =
     (if \<not> same_version prior block then (cursor, covered) else (case char_span prior of
        None \<Rightarrow> (cursor, covered)
      | Some (l, r) \<Rightarrow>
          if \<not> (l \<le> cursor \<and> cursor < r) then (cursor, covered)
          else (let stop = min stop_at r in
            if py_slice (pk_text prior) (cursor - l) (stop - l) = py_slice (pk_text block) (cursor - start) (stop - start)
            then (stop, covered @ [pk_context_id prior]) else (cursor, covered))))"

definition start_key :: "packed_evidence \<Rightarrow> int" where
  "start_key b = (case row_get (pk_citation b) ''char_start'' of PyInt n \<Rightarrow> n | _ \<Rightarrow> -1)"

definition trim_overlap :: "packed_evidence \<Rightarrow> packed_evidence list \<Rightarrow> packed_evidence \<times> string list" where
  "trim_overlap block packed = (case char_span block of None \<Rightarrow> (block, [])
     | Some (start, stop_at) \<Rightarrow>
         (case fold (cover_step block start stop_at) (sort_key start_key packed) (start, []) of (cursor, covered) \<Rightarrow>
            if cursor = start then (block, [])
            else (block\<lparr>pk_text := drop (nat (cursor - start)) (pk_text block),
                        pk_citation := AList.update ''char_start'' (PyInt cursor) (pk_citation block)\<rparr>, covered)))"

definition payload :: "packed_evidence \<Rightarrow> pyval" where
  "payload b = PyDict [(PyStr ''context_id'', PyStr (pk_context_id b)), (PyStr ''document_id'', PyStr (pk_document_id b)),
     (PyStr ''document_version_id'', PyStr (pk_document_version_id b)), (PyStr ''chunk_id'', PyStr (pk_chunk_id b)),
     (PyStr ''chunk_index'', PyInt (pk_chunk_index b)),
     (PyStr ''citation'', PyDict (map (\<lambda>(k, v). (PyStr k, v)) (pk_citation b))), (PyStr ''text'', PyStr (pk_text b))]"

definition render_prompt :: "(pyval \<Rightarrow> string option) \<Rightarrow> string \<Rightarrow> string \<Rightarrow> packed_evidence list \<Rightarrow> assembly_error + string" where
  "render_prompt dumps prefix suffix bs = (case dumps (PyList (map payload bs)) of None \<Rightarrow> Inl RenderFault
     | Some j \<Rightarrow> Inr (prefix @ j @ suffix))"

definition count_of :: "(string \<Rightarrow> pyval option) \<Rightarrow> string \<Rightarrow> assembly_error + int" where
  "count_of counter s = (case counter s of None \<Rightarrow> Inl CountingFailed
     | Some (PyInt n) \<Rightarrow> if n < 0 then Inl BadCount else Inr n
     | Some _ \<Rightarrow> Inl BadCount)"

datatype omission_reason = OverBudget | Overlap "string list"

type_synonym omission = "string \<times> omission_reason"

record prompt_env =
  env_loads :: "string \<Rightarrow> pyval option"
  env_dumps :: "pyval \<Rightarrow> string option"
  env_counter :: "string \<Rightarrow> pyval option"
  env_prefix :: string
  env_suffix :: string

definition prompt_tokens :: "prompt_env \<Rightarrow> packed_evidence list \<Rightarrow> assembly_error + int" where
  "prompt_tokens env bs = rbind (render_prompt (env_dumps env) (env_prefix env) (env_suffix env) bs) (count_of (env_counter env))"

fun pack :: "prompt_env \<Rightarrow> assembly_policy \<Rightarrow> (evidence \<times> bool) list \<Rightarrow> packed_evidence list \<Rightarrow> omission list \<Rightarrow>
    assembly_error + (packed_evidence list \<times> omission list)" where
  "pack env p [] packed omissions = Inr (packed, omissions)"
| "pack env p ((e, expanded) # es) packed omissions =
     (let block = block_of (env_loads env) e expanded in
      (case (if remove_overlap p then trim_overlap block packed else (block, [])) of (block, covered) \<Rightarrow>
         if pk_text block = [] then pack env p es packed (omissions @ [(pk_context_id block, Overlap covered)])
         else rbind (prompt_tokens env (packed @ [block])) (\<lambda>n.
           if n \<le> token_budget p then pack env p es (packed @ [block]) omissions
           else pack env p es packed (omissions @ [(pk_context_id block, OverBudget)]))))"

record assembled_context =
  ac_prompt :: string
  ac_token_count :: int
  ac_metadata_tokens :: int
  ac_text_tokens :: int
  ac_evidence :: "packed_evidence list"
  ac_omissions :: "omission list"
  ac_ids :: "string \<times> string \<times> string"

fun text_tokens :: "prompt_env \<Rightarrow> packed_evidence list \<Rightarrow> assembly_error + int" where
  "text_tokens env [] = Inr 0"
| "text_tokens env (b # bs) = rbind (count_of (env_counter env) (pk_text b)) (\<lambda>n. rbind (text_tokens env bs) (\<lambda>m. Inr (n + m)))"

definition finish_context :: "prompt_env \<Rightarrow> (string \<Rightarrow> string) \<Rightarrow> string \<Rightarrow> string \<Rightarrow> packed_evidence list \<Rightarrow> omission list \<Rightarrow>
    assembly_error + assembled_context" where
  "finish_context env prompt_fp policy_id snapshot_id packed omissions =
     rbind (render_prompt (env_dumps env) (env_prefix env) (env_suffix env) packed) (\<lambda>prompt.
     rbind (count_of (env_counter env) prompt) (\<lambda>n.
     rbind (prompt_tokens env (map (\<lambda>b. b\<lparr>pk_text := []\<rparr>) packed)) (\<lambda>m.
     rbind (text_tokens env packed) (\<lambda>t.
       Inr \<lparr>ac_prompt = prompt, ac_token_count = n, ac_metadata_tokens = m, ac_text_tokens = t,
         ac_evidence = packed, ac_omissions = omissions, ac_ids = (policy_id, snapshot_id, prompt_fp prompt)\<rparr>))))"

definition assemble_context :: "prompt_env \<Rightarrow> (principal \<Rightarrow> row \<Rightarrow> policy_attribute list \<Rightarrow> auth_error + bool) \<Rightarrow>
    (assembly_policy \<Rightarrow> string \<Rightarrow> string) \<Rightarrow> (evidence list \<Rightarrow> evidence list \<Rightarrow> string option) \<Rightarrow> (string \<Rightarrow> string) \<Rightarrow>
    principal \<Rightarrow> policy_attribute list \<Rightarrow> string \<Rightarrow> assembly_policy \<Rightarrow> evidence list \<Rightarrow> evidence list \<Rightarrow>
    assembly_error + assembled_context" where
  "assemble_context env can_read policy_fp snapshot_fp prompt_fp who as tokenizer p candidates neighbors =
     rbind (guard (py_strip tokenizer \<noteq> []) NoTokenizer) (\<lambda>_.
     rbind (guard (length candidates \<le> 1000 \<and> length neighbors \<le> 1000) TooManyRows) (\<lambda>_.
     rbind (select_evidence candidates neighbors p) (\<lambda>selected.
     rbind (each (\<lambda>(e, _). authorize can_read who as e) selected) (\<lambda>_.
     (case snapshot_fp candidates (sort_key (ev_str ''context_id'') neighbors) of None \<Rightarrow> Inl BadSnapshot
      | Some snapshot_id \<Rightarrow>
     rbind (prompt_tokens env []) (\<lambda>n.
     rbind (guard (n \<le> token_budget p) EnvelopeTooLarge) (\<lambda>_.
     rbind (pack env p selected [] []) (\<lambda>(packed, omissions).
       finish_context env prompt_fp (policy_fp p tokenizer) snapshot_id packed omissions))))))))"

end
