(* ===== verification/Assembly_Props.thy ===== *)
theory Assembly_Props
  imports Context_Assembly Grants "HOL-Library.Multiset"
begin

text \<open>
  What context assembly guarantees: the budget and the authorization of everything packed, the bound
  on expansion, an account of every selected chunk, and that overlap removal loses no text.
\<close>

section \<open>Selection\<close>

lemma expand_neighbors_subset:
  "set (expand_neighbors p roots es seen expanded) \<subseteq> set es \<union> set expanded"
  by (induction p roots es seen expanded rule: expand_neighbors.induct) auto

lemma expand_neighbors_near:
  "\<forall>e \<in> set expanded. is_neighbor e roots (neighbor_radius p) \<Longrightarrow>
     \<forall>e \<in> set (expand_neighbors p roots es seen expanded). is_neighbor e roots (neighbor_radius p)"
  by (induction p roots es seen expanded rule: expand_neighbors.induct) simp_all

lemma expand_neighbors_bound:
  "int (length expanded) \<le> max_neighbors p \<Longrightarrow> int (length (expand_neighbors p roots es seen expanded)) \<le> max_neighbors p"
  by (induction p roots es seen expanded rule: expand_neighbors.induct) auto

lemma select_evidence_ok:
  assumes "select_evidence candidates neighbors p = Inr selected" "0 \<le> max_neighbors p"
  shows "fst ` set selected \<subseteq> set candidates \<union> set neighbors"
    and "(e, True) \<in> set selected \<Longrightarrow> is_neighbor e candidates (neighbor_radius p)"
    and "int (length (filter snd selected)) \<le> max_neighbors p"
proof -
  let ?ids = "map (ev_str ''context_id'') candidates"
  let ?ex = "expand_neighbors p candidates (sort_key document_key neighbors) ?ids []"
  let ?sel = "map (\<lambda>e. (e, False)) candidates @ map (\<lambda>e. (e, True)) ?ex"
  have sel: "selected = (case pack_order p of Document \<Rightarrow> sort_key (document_key \<circ> fst) ?sel | Relevance \<Rightarrow> ?sel)"
    using assms(1) by (auto simp: select_evidence_def Let_def rbind_eq_Inr split: if_splits)
  have m: "mset selected = mset ?sel" unfolding sel by (cases "pack_order p") simp_all
  then have s: "set selected = set ?sel" by (rule mset_eq_setD)
  show "fst ` set selected \<subseteq> set candidates \<union> set neighbors"
    unfolding s using expand_neighbors_subset [of p candidates "sort_key document_key neighbors" ?ids "[]"] by auto
  show "(e, True) \<in> set selected \<Longrightarrow> is_neighbor e candidates (neighbor_radius p)"
    unfolding s using expand_neighbors_near [of "[]" candidates p "sort_key document_key neighbors" ?ids] by auto
  have "length (filter snd selected) = length (filter snd ?sel)"
    using m by (metis mset_filter size_mset)
  also have "\<dots> = length ?ex" by (simp add: filter_empty_conv comp_def)
  finally show "int (length (filter snd selected)) \<le> max_neighbors p"
    using expand_neighbors_bound [of "[]" p candidates "sort_key document_key neighbors" ?ids] assms(2) by simp
qed

section \<open>Packing\<close>

definition derived :: "assembly_policy \<Rightarrow> evidence \<Rightarrow> bool \<Rightarrow> packed_evidence \<Rightarrow> bool" where
  "derived p e x b \<longleftrightarrow> pk_context_id b = ev_str ''context_id'' e \<and> pk_document_id b = ev_str ''document_id'' e \<and>
     pk_document_version_id b = ev_str ''document_version_id'' e \<and> pk_chunk_id b = ev_str ''chunk_id'' e \<and> pk_expanded b = x \<and>
     pk_text b \<noteq> [] \<and> (\<exists>k. pk_text b = drop k (ev_str ''text'' e) \<and> (remove_overlap p \<or> k = 0))"

lemma trim_overlap_fields:
  assumes "trim_overlap b packed = (b', cs)"
  shows "pk_context_id b' = pk_context_id b" "pk_document_id b' = pk_document_id b"
    "pk_document_version_id b' = pk_document_version_id b" "pk_chunk_id b' = pk_chunk_id b" "pk_expanded b' = pk_expanded b"
    "\<exists>k. pk_text b' = drop k (pk_text b)"
  using assms by (auto simp: trim_overlap_def split: option.splits prod.splits if_splits intro: exI [of _ 0])

lemma block_of_simps [simp]:
  "pk_context_id (block_of loads e x) = ev_str ''context_id'' e" "pk_document_id (block_of loads e x) = ev_str ''document_id'' e"
  "pk_document_version_id (block_of loads e x) = ev_str ''document_version_id'' e"
  "pk_chunk_id (block_of loads e x) = ev_str ''chunk_id'' e" "pk_expanded (block_of loads e x) = x"
  "pk_text (block_of loads e x) = ev_str ''text'' e"
  by (simp_all add: block_of_def)

text \<open>One round of the loop: the block, what covers it, and what becomes of it.\<close>

definition placed :: "prompt_env \<Rightarrow> assembly_policy \<Rightarrow> evidence \<Rightarrow> bool \<Rightarrow> packed_evidence list \<Rightarrow> packed_evidence \<times> string list" where
  "placed env p e x packed = (if remove_overlap p then trim_overlap (block_of (env_loads env) e x) packed
     else (block_of (env_loads env) e x, []))"

lemma pack_Cons:
  assumes "pack env p ((e, x) # es) packed om = Inr (packed', om')" "placed env p e x packed = (b, cs)"
  obtains (overlap) "pk_text b = []" "pack env p es packed (om @ [(pk_context_id b, Overlap cs)]) = Inr (packed', om')"
    | (fits) n where "pk_text b \<noteq> []" "prompt_tokens env (packed @ [b]) = Inr n" "n \<le> token_budget p"
        "pack env p es (packed @ [b]) om = Inr (packed', om')"
    | (budget) "pk_text b \<noteq> []" "pack env p es packed (om @ [(pk_context_id b, OverBudget)]) = Inr (packed', om')"
  using assms by (auto simp: placed_def [symmetric] Let_def rbind_eq_Inr split: if_splits)

lemma placed_derived:
  assumes "placed env p e x packed = (b, cs)" "pk_text b \<noteq> []"
  shows "derived p e x b"
proof (cases "remove_overlap p")
  case True
  then have t: "trim_overlap (block_of (env_loads env) e x) packed = (b, cs)" using assms(1) by (simp add: placed_def)
  show ?thesis unfolding derived_def using trim_overlap_fields [OF t] assms(2) True by simp
qed (use assms in \<open>auto simp: placed_def derived_def intro: exI [of _ 0]\<close>)

lemma placed_id: "placed env p e x packed = (b, cs) \<Longrightarrow> pk_context_id b = ev_str ''context_id'' e"
  by (auto simp: placed_def dest: trim_overlap_fields(1) split: if_splits)

definition accounts :: "assembly_policy \<Rightarrow> (evidence \<times> bool) list \<Rightarrow> packed_evidence list \<Rightarrow> omission list \<Rightarrow> bool" where
  "accounts p es new dropped \<longleftrightarrow>
     mset (map pk_context_id new) + mset (map fst dropped) = mset (map (ev_str ''context_id'' \<circ> fst) es) \<and>
     (\<forall>b \<in> set new. \<exists>(e, x) \<in> set es. derived p e x b) \<and> length (filter pk_expanded new) \<le> length (filter snd es)"

lemma accounts_dropped: "accounts p es new dropped \<Longrightarrow> accounts p ((e, x) # es) new ((ev_str ''context_id'' e, why) # dropped)"
  by (auto simp: accounts_def)

lemma accounts_packed: "accounts p es new dropped \<Longrightarrow> derived p e x b \<Longrightarrow> accounts p ((e, x) # es) (b # new) dropped"
  by (auto simp: accounts_def) (auto simp: derived_def)

lemma pack_accounts:
  assumes "pack env p es packed om = Inr (packed', om')"
  shows "\<exists>new dropped. packed' = packed @ new \<and> om' = om @ dropped \<and> accounts p es new dropped"
  using assms
proof (induction es arbitrary: packed om)
  case (Cons ex es)
  obtain e x where ex: "ex = (e, x)" by (cases ex)
  obtain b cs where b: "placed env p e x packed = (b, cs)" by (cases "placed env p e x packed")
  have skip: ?case if "pack env p es packed (om @ [(pk_context_id b, why)]) = Inr (packed', om')" for why
  proof -
    from Cons.IH [OF that] obtain new dropped where n: "packed' = packed @ new"
      "om' = (om @ [(pk_context_id b, why)]) @ dropped" "accounts p es new dropped" by blast
    with accounts_dropped [OF n(3), of e x why] show ?thesis
      unfolding ex placed_id [OF b] by (metis append.assoc append_Cons append_Nil)
  qed
  from Cons.prems [unfolded ex] b show ?case
  proof (cases rule: pack_Cons)
    case (fits n)
    from Cons.IH [OF fits(4)] obtain new dropped where n: "packed' = (packed @ [b]) @ new" "om' = om @ dropped"
      "accounts p es new dropped" by blast
    with accounts_packed [OF n(3) placed_derived [OF b fits(1)]] show ?thesis
      unfolding ex by (metis append.assoc append_Cons append_Nil)
  qed (erule skip)+
qed (simp add: accounts_def)

lemma pack_budget:
  assumes "pack env p es packed om = Inr (packed', om')" "prompt_tokens env packed = Inr n" "n \<le> token_budget p"
  shows "\<exists>m. prompt_tokens env packed' = Inr m \<and> m \<le> token_budget p"
  using assms
proof (induction es arbitrary: packed om n)
  case (Cons ex es)
  obtain e x where ex: "ex = (e, x)" by (cases ex)
  obtain b cs where b: "placed env p e x packed = (b, cs)" by (cases "placed env p e x packed")
  from Cons.prems(1) [unfolded ex] b show ?case
    by (cases rule: pack_Cons) (use Cons.IH Cons.prems(2,3) in blast)+
qed auto

section \<open>Overlap\<close>

text \<open>A block's text fills its span, and shows a character of the document at each position of it.\<close>

definition block_ok :: "packed_evidence \<Rightarrow> bool" where
  "block_ok b \<longleftrightarrow> (case char_span b of None \<Rightarrow> True | Some (l, r) \<Rightarrow> 0 \<le> l \<and> r - l = int (length (pk_text b)))"

definition shows_at :: "packed_evidence \<Rightarrow> int \<Rightarrow> char \<Rightarrow> bool" where
  "shows_at b i c \<longleftrightarrow> (case char_span b of None \<Rightarrow> False | Some (l, r) \<Rightarrow> l \<le> i \<and> i < r \<and> pk_text b ! nat (i - l) = c)"

definition shown :: "packed_evidence list \<Rightarrow> packed_evidence \<Rightarrow> int \<Rightarrow> char \<Rightarrow> bool" where
  "shown bs block i c \<longleftrightarrow> (\<exists>b \<in> set bs. same_version b block \<and> shows_at b i c)"

lemma py_slice_nth: "0 \<le> a \<Longrightarrow> a \<le> i \<Longrightarrow> i < b \<Longrightarrow> b \<le> int (length xs) \<Longrightarrow> py_slice xs a b ! nat (i - a) = xs ! nat i"
  by (simp add: py_slice_def nat_less_eq_zless add.commute flip: nat_add_distrib)

lemma py_slice_agree:
  assumes "py_slice xs (c - l) (e - l) = py_slice ys (c - m) (e - m)" "c \<le> i" "i < e" "l \<le> c" "m \<le> c"
    "e - l \<le> int (length xs)" "e - m \<le> int (length ys)"
  shows "xs ! nat (i - l) = ys ! nat (i - m)"
proof -
  have "nat (i - l - (c - l)) = nat (i - m - (c - m))" by simp
  then show ?thesis
    using py_slice_nth [of "c - l" "i - l" "e - l" xs] py_slice_nth [of "c - m" "i - m" "e - m" ys] assms by simp
qed

lemma cover_step_ok:
  assumes "cover_step block start stop_at prior (cursor, cs) = (cursor', cs')"
    "block_ok prior" "stop_at - start = int (length (pk_text block))" "start \<le> cursor" "cursor \<le> stop_at"
  shows "start \<le> cursor'" "cursor' \<le> stop_at"
    and "cursor \<le> i \<Longrightarrow> i < cursor' \<Longrightarrow> same_version prior block \<and> shows_at prior i (pk_text block ! nat (i - start))"
proof -
  have "cursor' = cursor \<or> same_version prior block \<and> (\<exists>l r. char_span prior = Some (l, r) \<and> l \<le> cursor \<and> cursor < r \<and> cursor' = min stop_at r \<and>
      py_slice (pk_text prior) (cursor - l) (cursor' - l) = py_slice (pk_text block) (cursor - start) (cursor' - start))"
    using assms(1) by (auto simp: Let_def split: if_splits option.splits)
  then consider "cursor' = cursor" | l r where "same_version prior block" "char_span prior = Some (l, r)" "l \<le> cursor" "cursor < r"
      "cursor' = min stop_at r"
      "py_slice (pk_text prior) (cursor - l) (cursor' - l) = py_slice (pk_text block) (cursor - start) (cursor' - start)" by blast
  then have "start \<le> cursor' \<and> cursor' \<le> stop_at \<and> (cursor \<le> i \<longrightarrow> i < cursor' \<longrightarrow>
      same_version prior block \<and> shows_at prior i (pk_text block ! nat (i - start)))"
  proof cases
    case 1
    then show ?thesis using assms(4,5) by simp
  next
    case 2
    have "r - l = int (length (pk_text prior))" using assms(2) 2(2) by (simp add: block_ok_def)
    then have "pk_text prior ! nat (i - l) = pk_text block ! nat (i - start)" if "cursor \<le> i" "i < cursor'"
      using py_slice_agree [OF 2(6), of i] that 2(3,5) assms(3,4) by simp
    with 2 assms(3-5) show ?thesis by (auto simp: shows_at_def)
  qed
  then show "start \<le> cursor'" "cursor' \<le> stop_at"
    and "cursor \<le> i \<Longrightarrow> i < cursor' \<Longrightarrow> same_version prior block \<and> shows_at prior i (pk_text block ! nat (i - start))"
    by blast+
qed

lemma cover_fold_ok:
  assumes "fold (cover_step block start stop_at) ps (cursor, cs) = (cursor', cs')"
    "\<forall>q \<in> set ps. block_ok q" "stop_at - start = int (length (pk_text block))" "start \<le> cursor" "cursor \<le> stop_at"
  shows "start \<le> cursor' \<and> cursor' \<le> stop_at \<and> (\<forall>i. cursor \<le> i \<longrightarrow> i < cursor' \<longrightarrow> shown ps block i (pk_text block ! nat (i - start)))"
  using assms
proof (induction ps arbitrary: cursor cs)
  case (Cons q ps)
  obtain c1 cs1 where s: "cover_step block start stop_at q (cursor, cs) = (c1, cs1)"
    by (cases "cover_step block start stop_at q (cursor, cs)")
  note q = cover_step_ok [OF s _ Cons.prems(3-5)]
  have ok: "block_ok q" using Cons.prems(2) by simp
  have rest: "start \<le> cursor' \<and> cursor' \<le> stop_at \<and> (\<forall>i. c1 \<le> i \<longrightarrow> i < cursor' \<longrightarrow> shown ps block i (pk_text block ! nat (i - start)))"
    using Cons.prems s q(1,2) [OF ok] by (intro Cons.IH) auto
  have "shown (q # ps) block i (pk_text block ! nat (i - start))" if "cursor \<le> i" "i < cursor'" for i
  proof (cases "i < c1")
    case True
    with q(3) [OF ok that(1)] show ?thesis by (auto simp: shown_def)
  next
    case False
    with rest that show ?thesis by (auto simp: shown_def)
  qed
  with rest show ?case by blast
qed simp

lemma span_trimmed:
  "char_span b = Some (l, r) \<Longrightarrow> char_span (b\<lparr>pk_text := t, pk_citation := AList.update ''char_start'' (PyInt c) (pk_citation b)\<rparr>) = Some (c, r)"
  by (auto simp: char_span_def row_get_def update_conv' split: option.splits pyval.splits)

lemma trim_overlap_shows:
  assumes t: "trim_overlap block packed = (b, cs)" and ok: "block_ok block" "\<forall>q \<in> set packed. block_ok q"
    and sp: "char_span block = Some (start, stop_at)"
  shows "block_ok b" and "start \<le> i \<Longrightarrow> i < stop_at \<Longrightarrow> shown (packed @ [b]) block i (pk_text block ! nat (i - start))"
    and "pk_text b = [] \<Longrightarrow> start \<le> i \<Longrightarrow> i < stop_at \<Longrightarrow> shown packed block i (pk_text block ! nat (i - start))"
proof -
  obtain cursor cs0 where f: "fold (cover_step block start stop_at) (sort_key start_key packed) (start, []) = (cursor, cs0)"
    by (cases "fold (cover_step block start stop_at) (sort_key start_key packed) (start, [])")
  have len: "stop_at - start = int (length (pk_text block))" "0 \<le> start" using ok(1) sp by (simp_all add: block_ok_def)
  note c = cover_fold_ok [OF f _ len(1), simplified]
  have c1: "start \<le> cursor" "cursor \<le> stop_at" and
    sh: "\<And>i. start \<le> i \<Longrightarrow> i < cursor \<Longrightarrow> shown packed block i (pk_text block ! nat (i - start))"
    using c ok(2) len by (auto simp: shown_def)
  have b: "b = (if cursor = start then block else block\<lparr>pk_text := drop (nat (cursor - start)) (pk_text block),
      pk_citation := AList.update ''char_start'' (PyInt cursor) (pk_citation block)\<rparr>)"
    using t sp f by (auto simp: trim_overlap_def split: if_splits)
  have sb: "char_span b = Some (cursor, stop_at)" using b sp span_trimmed [OF sp] by auto
  have tb: "pk_text b = drop (nat (cursor - start)) (pk_text block)" using b by auto
  have vb: "same_version b block" using b by (auto simp: same_version_def)
  show "block_ok b" using sb tb len c1 by (simp add: block_ok_def)
  have own: "shows_at b i (pk_text block ! nat (i - start))" if "cursor \<le> i" "i < stop_at" for i
  proof -
    have "nat (cursor - start) + nat (i - cursor) = nat (i - start)" using that c1 by simp
    with that tb len sb show ?thesis by (simp add: shows_at_def)
  qed
  show "shown (packed @ [b]) block i (pk_text block ! nat (i - start))" if "start \<le> i" "i < stop_at"
    using own [of i] sh [of i] vb that by (cases "i < cursor") (auto simp: shown_def)
  show "shown packed block i (pk_text block ! nat (i - start))" if "pk_text b = []" "start \<le> i" "i < stop_at"
  proof -
    have "cursor = stop_at" using that(1) tb len c1 by auto
    with sh that show ?thesis by simp
  qed
qed

definition evidence_ok :: "prompt_env \<Rightarrow> evidence \<Rightarrow> bool" where
  "evidence_ok env e \<longleftrightarrow> from_rows (env_loads env) (env_dumps env) (registry_row e) (chunk_row e) = Inr e"

lemma row_get_filter:
  "distinct (map fst kvs) \<Longrightarrow> row_get (filter (\<lambda>(k, v). v \<noteq> PyNone) kvs) k = row_get kvs k"
proof (induction kvs)
  case (Cons kv kvs)
  then have "map_of (filter (\<lambda>(k, v). v \<noteq> PyNone) kvs) (fst kv) = None" by (auto simp: map_of_eq_None_iff)
  with Cons show ?case by (cases kv) (auto simp: row_get_def)
qed (simp add: row_get_def)

lemma citation_locator_offsets:
  assumes "citation_locator loads r = Some loc"
  shows "row_get loc ''char_start'' = row_get r ''citation_char_start''" "row_get loc ''char_end'' = row_get r ''citation_char_end''"
proof -
  obtain path extra where loc: "loc = filter (\<lambda>(k, v). v \<noteq> PyNone) (locator_fields r path extra)"
    using assms by (auto simp: citation_locator_def split: option.splits)
  have "row_get loc k = row_get (locator_fields r path extra) k" for k
    unfolding loc by (rule row_get_filter) (simp add: locator_fields_def)
  then show "row_get loc ''char_start'' = row_get r ''citation_char_start''" "row_get loc ''char_end'' = row_get r ''citation_char_end''"
    by (simp_all add: row_get_def locator_fields_def)
qed

lemma evidence_block_ok:
  assumes "evidence_ok env e"
  shows "block_ok (block_of (env_loads env) e x)"
proof -
  from assms have off: "offsets_ok (chunk_row e)" by (auto simp: evidence_ok_def from_rows_def rbind_eq_Inr)
  from assms obtain loc where loc: "citation_locator (env_loads env) (chunk_row e) = Some loc"
    by (auto simp: evidence_ok_def from_rows_def rbind_eq_Inr split: option.splits)
  with citation_locator_offsets [OF loc] off show ?thesis
    by (auto simp: block_ok_def char_span_def block_of_def offsets_ok_def ev_str_def split: pyval.splits)
qed

lemma pack_keeps: "pack env p es packed om = Inr (packed', om') \<Longrightarrow> set packed \<subseteq> set packed' \<and> set om \<subseteq> set om'"
  using pack_accounts by fastforce

text \<open>What the placement of one block leaves to see, and to say.\<close>

lemma placed_shows:
  assumes "placed env p e x packed = (b, cs)" "evidence_ok env e" "\<forall>q \<in> set packed. block_ok q"
    "char_span (block_of (env_loads env) e x) = Some (s, t)" "s \<le> i" "i < t"
  shows "shown (if pk_text b = [] then packed else packed @ [b]) (block_of (env_loads env) e x) i (ev_str ''text'' e ! nat (i - s))"
proof (cases "remove_overlap p")
  case True
  then have "trim_overlap (block_of (env_loads env) e x) packed = (b, cs)" using assms(1) by (simp add: placed_def)
  from trim_overlap_shows [OF this evidence_block_ok [OF assms(2)] assms(3,4)] assms(5,6) show ?thesis by simp
next
  case False
  then have "b = block_of (env_loads env) e x" using assms(1) by (simp add: placed_def)
  with evidence_block_ok [OF assms(2), of x] assms(4-6) show ?thesis
    by (auto simp: shown_def shows_at_def same_version_def block_ok_def)
qed

lemma placed_ok:
  assumes "placed env p e x packed = (b, cs)" "evidence_ok env e" "\<forall>q \<in> set packed. block_ok q"
  shows "block_ok b"
proof (cases "remove_overlap p")
  case True
  then have t: "trim_overlap (block_of (env_loads env) e x) packed = (b, cs)" using assms(1) by (simp add: placed_def)
  show ?thesis
  proof (cases "char_span (block_of (env_loads env) e x)")
    case None
    with t have "b = block_of (env_loads env) e x" by (simp add: trim_overlap_def)
    with evidence_block_ok [OF assms(2)] show ?thesis by simp
  next
    case (Some st)
    with trim_overlap_shows(1) [OF t evidence_block_ok [OF assms(2)] assms(3)] show ?thesis by (cases st) simp
  qed
qed (use assms evidence_block_ok in \<open>auto simp: placed_def\<close>)

definition visible :: "prompt_env \<Rightarrow> packed_evidence list \<Rightarrow> omission list \<Rightarrow> evidence \<Rightarrow> bool \<Rightarrow> bool" where
  "visible env bs om e x \<longleftrightarrow> (ev_str ''context_id'' e, OverBudget) \<in> set om \<or>
    (\<forall>s t i. char_span (block_of (env_loads env) e x) = Some (s, t) \<longrightarrow> s \<le> i \<longrightarrow> i < t \<longrightarrow>
       shown bs (block_of (env_loads env) e x) i (ev_str ''text'' e ! nat (i - s)))"

lemma visible_mono: "visible env bs om e x \<Longrightarrow> set bs \<subseteq> set bs' \<Longrightarrow> set om \<subseteq> set om' \<Longrightarrow> visible env bs' om' e x"
  unfolding visible_def shown_def by blast

lemma pack_shows:
  assumes "pack env p es packed om = Inr (packed', om')" "\<forall>ex \<in> set es. evidence_ok env (fst ex)" "\<forall>q \<in> set packed. block_ok q"
  shows "\<forall>(e, x) \<in> set es. visible env packed' om' e x"
  using assms
proof (induction es arbitrary: packed om)
  case (Cons ex es)
  obtain e x where ex: "ex = (e, x)" by (cases ex)
  obtain b cs where b: "placed env p e x packed = (b, cs)" by (cases "placed env p e x packed")
  have e: "evidence_ok env e" and es: "\<forall>ex \<in> set es. evidence_ok env (fst ex)" using Cons.prems(2) ex by auto
  note sh = placed_shows [OF b e Cons.prems(3)] and ok = placed_ok [OF b e Cons.prems(3)]
  have all: ?case if "pack env p es xs o1 = Inr (packed', om')" "\<forall>q \<in> set xs. block_ok q" "visible env xs o1 e x" for xs o1
    using Cons.IH [OF that(1) es that(2)] visible_mono [OF that(3)] pack_keeps [OF that(1)] by (simp add: ex)
  from Cons.prems(1) [unfolded ex] b show ?case
  proof (cases rule: pack_Cons)
    case overlap
    then show ?thesis using Cons.prems(3) sh by (intro all [OF overlap(2)]) (auto simp: visible_def)
  next
    case (fits n)
    then show ?thesis using Cons.prems(3) sh ok by (intro all [OF fits(4)]) (auto simp: visible_def)
  next
    case budget
    then show ?thesis using Cons.prems(3) placed_id [OF b] by (intro all [OF budget(2)]) (auto simp: visible_def)
  qed
qed simp

section \<open>From a run to its parts\<close>

lemma assemble_context_steps:
  assumes "assemble_context env can_read policy_fp snapshot_fp prompt_fp who as tokenizer p candidates neighbors = Inr ctx"
  obtains selected n where "select_evidence candidates neighbors p = Inr selected"
    "\<forall>ex \<in> set selected. authorize can_read who as (fst ex) = Inr ()"
    "prompt_tokens env [] = Inr n" "n \<le> token_budget p" "pack env p selected [] [] = Inr (ac_evidence ctx, ac_omissions ctx)"
    "prompt_tokens env (ac_evidence ctx) = Inr (ac_token_count ctx)"
  using assms
  by (auto simp: assemble_context_def rbind_eq_Inr each_ok finish_context_def prompt_tokens_def split_beta split: option.splits)

lemma authorize_ok: "authorize can_read who as e = Inr () \<longleftrightarrow>
    can_read who (registry_row e) as = Inr True \<and> can_read who (chunk_row e) as = Inr True"
  by (auto simp: authorize_def split: sum.splits bool.splits)

context authorization_provider
begin

lemma packed_evidence_governed:
  assumes "assemble_context env can_read policy_fp snapshot_fp prompt_fp who as tokenizer p candidates neighbors = Inr ctx"
    "0 \<le> max_neighbors p" "b \<in> set (ac_evidence ctx)"
  shows "\<exists>e \<in> set candidates \<union> set neighbors. derived p e (pk_expanded b) b \<and>
    (pk_expanded b \<longrightarrow> is_neighbor e candidates (neighbor_radius p)) \<and>
    can_read who (registry_row e) as = Inr True \<and> can_read who (chunk_row e) as = Inr True \<and>
    resolved (registry_row e) \<and> resolved (chunk_row e)"
proof -
  obtain selected n where sel: "select_evidence candidates neighbors p = Inr selected"
    and auth: "\<forall>ex \<in> set selected. authorize can_read who as (fst ex) = Inr ()"
    and pk: "pack env p selected [] [] = Inr (ac_evidence ctx, ac_omissions ctx)"
    using assemble_context_steps [OF assms(1)] by metis
  from pack_accounts [OF pk] have "accounts p selected (ac_evidence ctx) (ac_omissions ctx)" by simp
  then obtain e x where e: "(e, x) \<in> set selected" "derived p e x b" using assms(3) by (auto simp: accounts_def)
  then have x: "x = pk_expanded b" by (simp add: derived_def)
  from auth e(1) have r: "can_read who (registry_row e) as = Inr True" "can_read who (chunk_row e) as = Inr True"
    by (auto simp: authorize_ok)
  note s = select_evidence_ok [OF sel assms(2)]
  from s(1) e(1) have "e \<in> set candidates \<union> set neighbors" by force
  moreover have "pk_expanded b \<longrightarrow> is_neighbor e candidates (neighbor_radius p)" using s(2) e(1) x by auto
  ultimately show ?thesis using e(2) x r unresolved_refused by blast
qed

end

section \<open>An example\<close>

definition demo_id :: "char \<Rightarrow> string" where
  "demo_id c = replicate 32 c"

definition demo_chunk :: "char \<Rightarrow> int \<Rightarrow> int \<Rightarrow> string \<Rightarrow> evidence" where
  "demo_chunk c ix start t =
     (let ids = [(''document_id'', PyStr (demo_id CHR ''a'')), (''document_version_id'', PyStr (demo_id CHR ''b'')),
        (''authorization_resolved'', PyBool True), (''tenant'', PyStr ''acme'')]
      in \<lparr>registry_row = ids, chunk_row = ids @ [(''context_id'', PyStr (demo_id c)), (''chunk_id'', PyStr (demo_id c)),
           (''chunk_index'', PyInt ix), (''text'', PyStr t), (''citation_char_start'', PyInt start),
           (''citation_char_end'', PyInt (start + int (length t)))]\<rparr>)"

definition demo_env :: prompt_env where
  "demo_env = \<lparr>env_loads = (\<lambda>_. None), env_dumps = (\<lambda>v. case v of PyList vs \<Rightarrow> Some (replicate (length vs) CHR ''#'') | _ \<Rightarrow> Some []),
     env_counter = (\<lambda>t. Some (PyInt (int (length t)))), env_prefix = ''Q:'', env_suffix = []\<rparr>"

definition demo_policy :: assembly_policy where
  "demo_policy = \<lparr>token_budget = 4, pack_order = Document, remove_overlap = True, neighbor_radius = 1, max_neighbors = 1\<rparr>"

definition demo_assembly :: "assembly_error + assembled_context" where
  "demo_assembly = assemble_context demo_env
     (grant_can_read (\<lambda>_. Inr [\<lparr>grant_subject = ''ana'', grant_attribute = ''tenant'', grant_value = ''acme'', grant_operator = ''eq''\<rparr>]))
     (\<lambda>_ _. ''p'') (\<lambda>_ _. Some ''s'') (\<lambda>_. ''r'')
     \<lparr>subject_id = ''ana'', tenant_id = None, access_groups = [], policy_claims = []\<rparr> [\<lparr>attr_name = ''tenant'', data_type = ''string''\<rparr>]
     ''tok-1'' demo_policy [demo_chunk CHR ''c'' 0 0 ''abcd''] [demo_chunk CHR ''d'' 1 2 ''cdef'', demo_chunk CHR ''e'' 2 6 ''gh'']"

lemma demo_evidence_ok:
  "list_all (evidence_ok demo_env) [demo_chunk CHR ''c'' 0 0 ''abcd'', demo_chunk CHR ''d'' 1 2 ''cdef'', demo_chunk CHR ''e'' 2 6 ''gh'']"
  by code_simp

lemma case_sum_Inr: "(case r of Inl _ \<Rightarrow> False | Inr x \<Rightarrow> P x) \<longleftrightarrow> (\<exists>x. r = Inr x \<and> P x)"
  by (cases r) auto

lemma demo_assembly_result:
  "\<exists>ctx. demo_assembly = Inr ctx \<and>
     (map pk_text (ac_evidence ctx) = [''abcd'', ''ef''] \<and> ac_token_count ctx = 4 \<and> ac_omissions ctx = [])"
  by (rule case_sum_Inr [THEN iffD1]) code_simp

section \<open>Properties\<close>

text \<open>
  C9: A context assembled under operator grants stays within its token budget, and everything in it
  is governed: each packed block is a chunk of the given evidence whose registry row and chunk row
  were both resolved and readable by the caller, the blocks added by expansion are neighbours of a
  retrieved chunk in the same document version, and there are at most \<^verbatim>\<open>max_neighbors\<close> of them.\<close>

theorem assembled_context_governed:
  assumes "assemble_context env (grant_can_read store) policy_fp snapshot_fp prompt_fp who as tokenizer p candidates neighbors = Inr ctx"
    "policy_valid p"
  shows "ac_token_count ctx \<le> token_budget p \<and>
    (\<forall>b \<in> set (ac_evidence ctx). \<exists>e \<in> set candidates \<union> set neighbors. derived p e (pk_expanded b) b \<and>
      (pk_expanded b \<longrightarrow> is_neighbor e candidates (neighbor_radius p)) \<and>
      grant_can_read store who (registry_row e) as = Inr True \<and> grant_can_read store who (chunk_row e) as = Inr True \<and>
      resolved (registry_row e) \<and> resolved (chunk_row e)) \<and>
    int (length (filter pk_expanded (ac_evidence ctx))) \<le> max_neighbors p"
proof (intro conjI ballI)
  have m: "0 \<le> max_neighbors p" using assms(2) by (simp add: policy_valid_def)
  obtain selected n where sel: "select_evidence candidates neighbors p = Inr selected"
    and t: "prompt_tokens env [] = Inr n" "n \<le> token_budget p"
    and pk: "pack env p selected [] [] = Inr (ac_evidence ctx, ac_omissions ctx)"
    and c: "prompt_tokens env (ac_evidence ctx) = Inr (ac_token_count ctx)"
    using assemble_context_steps [OF assms(1)] by metis
  show "ac_token_count ctx \<le> token_budget p" using pack_budget [OF pk t] c by auto
  from pack_accounts [OF pk] have "length (filter pk_expanded (ac_evidence ctx)) \<le> length (filter snd selected)"
    by (simp add: accounts_def)
  with select_evidence_ok(3) [OF sel m] show "int (length (filter pk_expanded (ac_evidence ctx))) \<le> max_neighbors p" by linarith
qed (rule grant_provider.packed_evidence_governed [OF assms(1)]; use assms(2) in \<open>simp add: policy_valid_def\<close>)

theorem assembled_context_governed_witness:
  "\<exists>ctx. demo_assembly = Inr ctx \<and> length (ac_evidence ctx) = 2 \<and> ac_token_count ctx \<le> token_budget demo_policy \<and>
     int (length (filter pk_expanded (ac_evidence ctx))) \<le> 1"
proof -
  obtain ctx where c: "demo_assembly = Inr ctx" "map pk_text (ac_evidence ctx) = [''abcd'', ''ef'']"
    using demo_assembly_result by (elim exE conjE) (rule that)
  have len: "length (ac_evidence ctx) = 2" using arg_cong [OF c(2), of length] by simp
  have v: "policy_valid demo_policy" and m: "max_neighbors demo_policy = 1" by code_simp+
  note g = assembled_context_governed [OF c(1) [unfolded demo_assembly_def] v]
  show ?thesis
    by (rule exI [of _ ctx], intro conjI c(1) len g [THEN conjunct1] g [THEN conjunct2, THEN conjunct2, unfolded m])
qed

text \<open>
  C11: Assembly accounts for every selected chunk and loses no text silently: the retrieved chunks
  and the expanded neighbours are each either packed or reported as omitted, exactly once, and every
  character of a chunk with known offsets is shown, at its place in the same document version, by
  some packed block, unless the chunk is reported as over budget.\<close>

theorem assembly_loses_nothing_silently:
  assumes "assemble_context env can_read policy_fp snapshot_fp prompt_fp who as tokenizer p candidates neighbors = Inr ctx"
    "\<forall>e \<in> set candidates \<union> set neighbors. evidence_ok env e" "policy_valid p"
  shows "\<exists>selected. select_evidence candidates neighbors p = Inr selected \<and>
    mset (map pk_context_id (ac_evidence ctx)) + mset (map fst (ac_omissions ctx)) = mset (map (ev_str ''context_id'' \<circ> fst) selected) \<and>
    (\<forall>(e, x) \<in> set selected. visible env (ac_evidence ctx) (ac_omissions ctx) e x)"
proof -
  obtain selected where sel: "select_evidence candidates neighbors p = Inr selected"
    and pk: "pack env p selected [] [] = Inr (ac_evidence ctx, ac_omissions ctx)"
    using assemble_context_steps [OF assms(1)] by metis
  have "fst ` set selected \<subseteq> set candidates \<union> set neighbors"
    using select_evidence_ok(1) [OF sel] assms(3) by (simp add: policy_valid_def)
  with assms(2) have "\<forall>ex \<in> set selected. evidence_ok env (fst ex)" by blast
  from pack_shows [OF pk this] pack_accounts [OF pk] sel show ?thesis by (auto simp: accounts_def)
qed

theorem assembly_loses_nothing_silently_witness:
  "\<exists>ctx (selected :: (evidence \<times> bool) list). demo_assembly = Inr ctx \<and> ac_omissions ctx = [] \<and>
     mset (map pk_context_id (ac_evidence ctx)) = mset (map (ev_str ''context_id'' \<circ> fst) selected)"
proof -
  obtain ctx where c: "demo_assembly = Inr ctx" "ac_omissions ctx = []"
    using demo_assembly_result by (elim exE conjE) (rule that)
  have v: "policy_valid demo_policy" by code_simp
  have ok: "\<forall>e \<in> set [demo_chunk CHR ''c'' 0 0 ''abcd''] \<union> set [demo_chunk CHR ''d'' 1 2 ''cdef'', demo_chunk CHR ''e'' 2 6 ''gh''].
      evidence_ok demo_env e"
    using demo_evidence_ok by simp
  from assembly_loses_nothing_silently [OF c(1) [unfolded demo_assembly_def] ok v] obtain selected :: "(evidence \<times> bool) list" where
    "mset (map pk_context_id (ac_evidence ctx)) + mset (map fst (ac_omissions ctx)) = mset (map (ev_str ''context_id'' \<circ> fst) selected)"
    by blast
  then have "mset (map pk_context_id (ac_evidence ctx)) = mset (map (ev_str ''context_id'' \<circ> fst) selected)" unfolding c(2) by simp
  with c show ?thesis by (intro exI conjI)
qed

end
