(* ===== verification/Planning.thy ===== *)
theory Planning
  imports Complex_Main "HOL-Library.Product_Lexorder" Dag_Build State_Table
begin

text \<open>
  What the next run would reprocess (\<^verbatim>\<open>src/stel/plan.py\<close>) and the two guards that read it before the
  first model runs: the reprocess guard (\<^verbatim>\<open>reprocess_guard.py\<close>) and the cost guard (\<^verbatim>\<open>cost_guard.py\<close>),
  as \<^verbatim>\<open>runner.py\<close> composes them.

  The state table is the one of \<open>State_Table\<close>. Parameters, in \<open>plan_env\<close>: the code version of a model, the
  provider identity and request estimate of a model, and the serving descriptor of a retrieval store. The
  explanatory texts (\<^verbatim>\<open>reason\<close>, refusal messages) and the identity fields they quote are left out. Money is
  exact; \<open>py_round6\<close> is \<^verbatim>\<open>round(x, 6)\<close>.
\<close>

section \<open>Models as the planner reads them\<close>

record reprocess_policy =
  on_code_change :: string
  reprocess_limit :: int

text \<open>
  \<open>ms_embed\<close> and \<open>ms_llm\<close> are the settings of the block named, read only when the model has that block.
\<close>

record model_spec = model_config +
  ms_materialization :: string
  ms_embed :: reprocess_policy
  ms_batch_size :: int
  ms_llm :: reprocess_policy
  ms_store :: "string option"
  ms_collection :: "string option"
  ms_on_source_deletion :: string
  ms_transform_type :: string
  ms_incremental_strategy :: "string option"

definition has_block :: "model_kind \<Rightarrow> model_spec \<Rightarrow> bool" where
  "has_block k m \<longleftrightarrow> k \<in> set (m_kinds m)"

definition kind_label :: "model_spec \<Rightarrow> string" where
  "kind_label m = (case model_kind_of (model_config.truncate m) of Some k \<Rightarrow> kind_value k | None \<Rightarrow> ''unknown'')"

datatype plan_status = New | Unchanged | Changed | Cascade | Full

record model_plan =
  pl_name :: string
  pl_kind :: string
  pl_materialization :: string
  pl_status :: plan_status
  pl_code_version :: string
  pl_state_rows :: int
  pl_stale_rows :: int
  pl_rows_to_reprocess :: int
  pl_upper_bound :: bool
  pl_caused_by :: "string list"
  pl_provider_calls :: "int option"
  pl_provider :: "string option"
  pl_provider_model :: "string option"
  pl_cost :: "rat option"
  pl_policy :: "string option"
  pl_limit :: "int option"
  pl_priced_rows :: "int option"

datatype plan_error =
    NoRetrievalTarget string
  | UnknownStore string string
  | MissingModel string

record retrieval_config =
  rc_default :: string
  rc_stores :: "string list"

record plan_env =
  pe_code_version :: "model_spec \<Rightarrow> string"
  pe_retrieval :: "retrieval_config option"
  pe_target_identity :: "string \<Rightarrow> string \<Rightarrow> string"
  pe_embed_identity :: "model_spec \<Rightarrow> string \<times> string"
  pe_embed_requests :: "model_spec \<Rightarrow> int \<Rightarrow> int option"
  pe_describe_llm :: "model_spec \<Rightarrow> (string \<times> string) list option"
  pe_describe_inference :: "model_spec \<Rightarrow> (string \<times> string) list option"

section \<open>Scopes and counts\<close>

definition materialization_scope :: "string \<Rightarrow> state_scope" where
  "materialization_scope name = \<lparr>model_name = name, stage = ''materialization'', target_identity = ''warehouse-v1''\<rparr>"

definition or_default :: "string option \<Rightarrow> string \<Rightarrow> string" where
  "or_default v d = (case v of Some s \<Rightarrow> if s \<noteq> [] then s else d | None \<Rightarrow> d)"

definition state_scope_for :: "plan_env \<Rightarrow> model_spec \<Rightarrow> plan_error + state_scope" where
  "state_scope_for env m =
     (if \<not> has_block Search m then Inr (materialization_scope (m_name m))
      else (case pe_retrieval env of
          None \<Rightarrow> Inl (NoRetrievalTarget (m_name m))
        | Some rc \<Rightarrow>
            let alias = or_default (ms_store m) (rc_default rc) in
            if alias \<notin> set (rc_stores rc) then Inl (UnknownStore (m_name m) alias)
            else Inr \<lparr>model_name = m_name m, stage = ''retrieval_publish'',
              target_identity = pe_target_identity env alias (or_default (ms_collection m) (m_name m))\<rparr>))"

text \<open>The groups are listed in the order their versions appear; only sums over them are used.\<close>

definition state_code_version_counts :: "state_row list \<Rightarrow> state_scope \<Rightarrow> (string \<times> int) list" where
  "state_code_version_counts t sc =
     map (\<lambda>v. (v, int (length (filter (\<lambda>r. sr_version r = v) (scope_state sc t)))))
       (remdups (map sr_version (scope_state sc t)))"

section \<open>Classification\<close>

definition embed_calls :: "plan_env \<Rightarrow> model_spec \<Rightarrow> int \<Rightarrow> int option" where
  "embed_calls env m rows =
     (if rows = 0 then Some 0
      else let full_batches = rows div ms_batch_size m; remainder = rows mod ms_batch_size m in
        case (if full_batches \<noteq> 0 then pe_embed_requests env m (ms_batch_size m) else Some 0) of
          None \<Rightarrow> None
        | Some per_full_batch \<Rightarrow>
            (case (if remainder \<noteq> 0 then pe_embed_requests env m remainder else Some 0) of
               None \<Rightarrow> None
             | Some per_remainder \<Rightarrow> Some (full_batches * per_full_batch + per_remainder)))"

definition descriptor_identity :: "(string \<times> string) list option \<Rightarrow> string option \<times> string option" where
  "descriptor_identity descriptor =
     (case descriptor of None \<Rightarrow> (None, None) | Some d \<Rightarrow> (map_of d ''provider'', map_of d ''model''))"

definition estimate_provider_calls ::
  "plan_env \<Rightarrow> model_spec \<Rightarrow> int \<Rightarrow> int option \<times> string option \<times> string option" where
  "estimate_provider_calls env m rows =
     (if has_block Embed m then
        (embed_calls env m rows, Some (fst (pe_embed_identity env m)), Some (snd (pe_embed_identity env m)))
      else if has_block Llm m then (Some rows, descriptor_identity (pe_describe_llm env m))
      else (case pe_describe_inference env m of
          None \<Rightarrow> (None, None, None)
        | Some d \<Rightarrow> (if has_block Extraction m then Some rows else None, descriptor_identity (Some d))))"

definition policy_of :: "model_spec \<Rightarrow> reprocess_policy option" where
  "policy_of m = (if has_block Embed m then Some (ms_embed m) else if has_block Llm m then Some (ms_llm m) else None)"

definition classify :: "plan_env \<Rightarrow> bool \<Rightarrow> model_spec \<Rightarrow> (string \<times> int) list \<Rightarrow> string list \<Rightarrow> model_plan" where
  "classify env reprocess_all m versions caused_by =
     (let code_version = pe_code_version env m;
          state_rows = sum_list (map snd versions);
          stale_rows = sum_list (map snd (filter (\<lambda>(v, n). v \<noteq> code_version) versions));
          (outcome, rows, upper_bound) =
            (if \<not> has_block Search m \<and> ms_materialization m = ''full'' then (Full, 0, False)
             else if state_rows = 0 then (New, 0, False)
             else if reprocess_all \<and> \<not> has_block Search m then (Changed, state_rows, False)
             else if 0 < stale_rows then
               (Changed, if caused_by \<noteq> [] then (state_rows, True) else (stale_rows, False))
             else if caused_by \<noteq> [] then (Cascade, state_rows, True)
             else (Unchanged, 0, False));
          (calls, provider, provider_model) = estimate_provider_calls env m rows in
      \<lparr>pl_name = m_name m, pl_kind = kind_label m, pl_materialization = ms_materialization m,
       pl_status = outcome, pl_code_version = code_version, pl_state_rows = state_rows,
       pl_stale_rows = stale_rows, pl_rows_to_reprocess = rows, pl_upper_bound = upper_bound,
       pl_caused_by = caused_by, pl_provider_calls = (if outcome = Full then None else calls),
       pl_provider = provider, pl_provider_model = provider_model, pl_cost = None,
       pl_policy = map_option on_code_change (policy_of m),
       pl_limit = map_option reprocess_limit (policy_of m), pl_priced_rows = None\<rparr>)"

fun plan_loop ::
  "plan_env \<Rightarrow> project_dag \<Rightarrow> state_row list \<Rightarrow> bool \<Rightarrow> model_spec list \<Rightarrow> string list \<Rightarrow> plan_error + model_plan list" where
  "plan_loop env d t reprocess_all [] roots = Inr []"
| "plan_loop env d t reprocess_all (m # ms) roots =
     rbind (state_scope_for env m) (\<lambda>sc.
       let caused_by = sort (filter (\<lambda>a. a \<in> set roots) (ancestors d (m_name m)));
           plan = classify env reprocess_all m (state_code_version_counts t sc) caused_by in
       rbind (plan_loop env d t reprocess_all ms (if pl_status plan = Changed then set_add (m_name m) roots else roots))
         (\<lambda>plans. Inr (plan # plans)))"

definition plan_models ::
  "plan_env \<Rightarrow> project_dag \<Rightarrow> state_row list \<Rightarrow> bool \<Rightarrow> model_spec list \<Rightarrow> plan_error + model_plan list" where
  "plan_models env d t reprocess_all planned = plan_loop env d t reprocess_all planned []"

section \<open>Prices\<close>

record log_row =
  lg_model :: string
  lg_rows_processed :: "int option"
  lg_cache_hits :: "int option"
  lg_cost :: "rat option"
  lg_completed_at :: "string option"

text \<open>
  A read of the run log: \<open>Inl\<close> is an \<^verbatim>\<open>AdapterError\<close>, \<open>Inr None\<close> a relation that does not exist, and otherwise
  its columns and rows.
\<close>

type_synonym log_read = "unit + (string list \<times> log_row list) option"

definition priced_runs :: nat where
  "priced_runs = 5"

definition run_log_cost_columns :: "string list" where
  "run_log_cost_columns = [''model_name'', ''rows_processed'', ''cache_hits'', ''estimated_cost_usd'', ''completed_at'']"

definition or_zero :: "int option \<Rightarrow> int" where
  "or_zero v = (case v of Some n \<Rightarrow> n | None \<Rightarrow> 0)"

definition priced_run :: "log_row \<Rightarrow> (string \<times> rat \<times> int) option" where
  "priced_run r =
     (let provider_rows = or_zero (lg_rows_processed r) - or_zero (lg_cache_hits r) in
      case lg_cost r of
        None \<Rightarrow> None
      | Some cost \<Rightarrow> if cost \<le> 0 \<or> provider_rows \<le> 0 then None
          else Some (or_default (lg_completed_at r) [], cost, provider_rows))"

definition rate_of :: "(string \<times> rat \<times> int) list \<Rightarrow> rat" where
  "rate_of history =
     (let recent = take priced_runs (rev (sort history)) in
      sum_list (map (\<lambda>(_, cost, _). cost) recent) / of_int (sum_list (map (\<lambda>(_, _, rows). rows) recent)))"

definition cost_per_provider_row :: "log_read \<Rightarrow> string list \<Rightarrow> unit + (string \<times> rat) list" where
  "cost_per_provider_row run_log models =
     rbind run_log (\<lambda>found. case found of
         None \<Rightarrow> Inr []
       | Some (columns, rows) \<Rightarrow>
           if \<not> set run_log_cost_columns \<subseteq> set columns then Inr []
           else let runs = filter (\<lambda>r. lg_model r \<in> set models \<and> priced_run r \<noteq> None) rows in
             Inr (map (\<lambda>name. (name, rate_of (List.map_filter priced_run (filter (\<lambda>r. lg_model r = name) runs))))
               (remdups (map lg_model runs))))"

definition py_round6 :: "rat \<Rightarrow> rat" where
  "py_round6 x =
     (let scaled = x * 1000000; down = \<lfloor>scaled\<rfloor>; rest = scaled - of_int down in
      of_int (if rest < 1 / 2 \<or> (rest = 1 / 2 \<and> even down) then down else down + 1) / 1000000)"

definition provider_rows :: "bool \<Rightarrow> string list \<Rightarrow> model_plan \<Rightarrow> int" where
  "provider_rows reprocess_all code_changed p =
     (if reprocess_all \<and> pl_kind p = ''embed'' \<and> set code_changed \<inter> set (pl_caused_by p) = {}
      then pl_stale_rows p else pl_rows_to_reprocess p)"

definition priced :: "int \<Rightarrow> rat \<Rightarrow> model_plan \<Rightarrow> model_plan" where
  "priced rows per_row p = p\<lparr>pl_priced_rows := Some rows, pl_cost := Some (py_round6 (of_int rows * per_row))\<rparr>"

definition price_plans :: "log_read \<Rightarrow> bool \<Rightarrow> model_plan list \<Rightarrow> unit + model_plan list" where
  "price_plans run_log reprocess_all plans =
     (let wanted = map pl_name (filter (\<lambda>p. 0 < pl_rows_to_reprocess p \<and> pl_provider p \<noteq> None) plans) in
      if wanted = [] then Inr plans
      else rbind (cost_per_provider_row run_log wanted) (\<lambda>rates.
        let code_changed = map pl_name (filter (\<lambda>p. 0 < pl_stale_rows p) plans) in
        Inr (map (\<lambda>p. case map_of rates (pl_name p) of
            None \<Rightarrow> p | Some per_row \<Rightarrow> priced (provider_rows reprocess_all code_changed p) per_row p) plans)))"

section \<open>Guards\<close>

definition guard_reprocess :: "model_plan list \<Rightarrow> model_plan list" where
  "guard_reprocess plans = filter (\<lambda>p. pl_policy p = Some ''fail'' \<and> (case pl_limit p of None \<Rightarrow> False
     | Some limit \<Rightarrow> pl_status p \<in> {Changed, Cascade} \<and> limit < pl_rows_to_reprocess p)) plans"

record cost_projection =
  cp_threshold :: rat
  cp_total :: rat
  cp_priced :: "model_plan list"
  cp_unpriced :: "string list"

definition exceeds_threshold :: "cost_projection \<Rightarrow> bool" where
  "exceeds_threshold c \<longleftrightarrow> cp_threshold c < cp_total c"

definition full_refresh_rows :: "model_plan list \<Rightarrow> model_plan list" where
  "full_refresh_rows plans = map (\<lambda>p.
     if pl_provider p \<noteq> None \<and> pl_status p \<noteq> Full \<and> 0 < pl_state_rows p
     then p\<lparr>pl_rows_to_reprocess := pl_state_rows p, pl_upper_bound := False\<rparr> else p) plans"

definition cost_or_zero :: "model_plan \<Rightarrow> rat" where
  "cost_or_zero p = (case pl_cost p of Some c \<Rightarrow> c | None \<Rightarrow> 0)"

definition project_cost :: "rat \<Rightarrow> model_plan list \<Rightarrow> cost_projection" where
  "project_cost threshold plans =
     (let with_price = filter (\<lambda>p. 0 < pl_rows_to_reprocess p \<and> pl_cost p \<noteq> None) plans in
      \<lparr>cp_threshold = threshold, cp_total = py_round6 (sum_list (map cost_or_zero with_price)),
       cp_priced = with_price,
       cp_unpriced = map pl_name (filter (\<lambda>p. 0 < pl_rows_to_reprocess p \<and> pl_provider p \<noteq> None \<and> pl_cost p = None) plans)\<rparr>)"

datatype run_refusal =
    PlanFailed plan_error
  | ReprocessRefused "model_plan list"
  | NoRunLog
  | RunLogUnreadable
  | CostRefused cost_projection bool

record run_flags =
  rf_full_refresh :: bool
  rf_reprocess_all :: bool
  rf_accept_reprocess :: bool
  rf_accept_cost :: bool

fun lookup_models :: "model_spec list \<Rightarrow> string list \<Rightarrow> plan_error + model_spec list" where
  "lookup_models models [] = Inr []"
| "lookup_models models (n # ns) =
     (case map_of (rev (map (\<lambda>m. (m_name m, m)) models)) n of
        None \<Rightarrow> Inl (MissingModel n)
      | Some m \<Rightarrow> rbind (lookup_models models ns) (\<lambda>ms. Inr (m # ms)))"

definition lift_plan :: "plan_error + 'a \<Rightarrow> run_refusal + 'a" where
  "lift_plan r = (case r of Inl e \<Rightarrow> Inl (PlanFailed e) | Inr x \<Rightarrow> Inr x)"

definition guarded_models :: "bool \<Rightarrow> model_spec list \<Rightarrow> model_spec list" where
  "guarded_models reprocess_all planned = filter (\<lambda>m.
     (has_block Embed m \<and> on_code_change (ms_embed m) = ''fail'' \<and> \<not> reprocess_all)
     \<or> (has_block Llm m \<and> on_code_change (ms_llm m) = ''fail'')) planned"

definition enforce_reprocess_guard ::
  "plan_env \<Rightarrow> project_dag \<Rightarrow> state_row list \<Rightarrow> run_flags \<Rightarrow> model_spec list \<Rightarrow> string list
   \<Rightarrow> run_refusal + model_plan list option" where
  "enforce_reprocess_guard env d t flags models selected =
     (if rf_full_refresh flags \<or> rf_accept_reprocess flags then Inr None
      else rbind (lift_plan (lookup_models models selected)) (\<lambda>planned.
        if guarded_models (rf_reprocess_all flags) planned = [] then Inr None
        else rbind (lift_plan (plan_models env d t (rf_reprocess_all flags) planned)) (\<lambda>plans.
          if guard_reprocess plans \<noteq> [] then Inl (ReprocessRefused (guard_reprocess plans)) else Inr (Some plans))))"

text \<open>
  \<open>threshold\<close> is \<^verbatim>\<open>confirm_cost_above_usd\<close>, \<open>run_log\<close> the read of the run log when the target has one enabled, and
  \<open>confirm\<close> the question put to a person at the terminal, when there is one.
\<close>

definition enforce_cost_guard ::
  "plan_env \<Rightarrow> project_dag \<Rightarrow> state_row list \<Rightarrow> run_flags \<Rightarrow> rat option \<Rightarrow> log_read option
   \<Rightarrow> (cost_projection \<Rightarrow> bool) option \<Rightarrow> model_spec list \<Rightarrow> string list \<Rightarrow> model_plan list option
   \<Rightarrow> run_refusal + unit" where
  "enforce_cost_guard env d t flags threshold run_log confirm models selected plans =
     (case threshold of
        None \<Rightarrow> Inr ()
      | Some usd \<Rightarrow>
         if rf_accept_cost flags then Inr ()
         else (case run_log of
             None \<Rightarrow> Inl NoRunLog
           | Some read \<Rightarrow>
               rbind (case plans of Some ps \<Rightarrow> Inr ps
                 | None \<Rightarrow> rbind (lift_plan (lookup_models models selected)) (\<lambda>planned.
                     lift_plan (plan_models env d t (rf_reprocess_all flags) planned))) (\<lambda>ps.
               let ps = (if rf_full_refresh flags then full_refresh_rows ps else ps) in
               case price_plans read (rf_reprocess_all flags) ps of
                 Inl _ \<Rightarrow> Inl RunLogUnreadable
               | Inr priced_plans \<Rightarrow>
                   let projection = project_cost usd priced_plans in
                   if \<not> exceeds_threshold projection then Inr ()
                   else (case confirm of
                       None \<Rightarrow> Inl (CostRefused projection False)
                     | Some ask \<Rightarrow> if ask projection then Inr () else Inl (CostRefused projection True)))))"

definition enforce_spend_guards ::
  "plan_env \<Rightarrow> project_dag \<Rightarrow> state_row list \<Rightarrow> run_flags \<Rightarrow> rat option \<Rightarrow> log_read option
   \<Rightarrow> (cost_projection \<Rightarrow> bool) option \<Rightarrow> model_spec list \<Rightarrow> string list \<Rightarrow> run_refusal + unit" where
  "enforce_spend_guards env d t flags threshold run_log confirm models selected =
     rbind (enforce_reprocess_guard env d t flags models selected)
       (enforce_cost_guard env d t flags threshold run_log confirm models selected)"

end
