(* ===== verification/Runner.thy ===== *)
theory Runner
  imports Planning Py_Values
begin

text \<open>
  Running models (\<^verbatim>\<open>src/stel/runner.py\<close>): one model's run with the skip of an unchanged parent, and the build
  that runs and tests a selection in order and blocks what lies below a failure.

  The execution of a stage (\<^verbatim>\<open>execution/\<close>) and of a model's tests are parameters: functions of the warehouse
  that return a result or fail. An adapter call that raises is a flag of \<open>call_faults\<close>. Of the warehouse a run
  reads the state table, the content of model tables, the sync watermarks and the recorded identities; the hash
  of a table's content is the parameter \<open>content_hash\<close>. Durations, time stamps and log lines are left out.
\<close>

section \<open>Results and failures\<close>

record model_run_result =
  rr_model :: string
  rr_materialization :: string
  rr_kind :: string
  rr_status :: "string option"
  rr_documents_processed :: int
  rr_documents_skipped :: int
  rr_documents_deleted :: int
  rr_rows_written :: int
  rr_rows_inserted :: int
  rr_rows_updated :: int
  rr_rows_failed :: int
  rr_errors :: "string list"

definition new_result :: "model_spec \<Rightarrow> model_run_result" where
  "new_result m = \<lparr>rr_model = m_name m, rr_materialization = ms_materialization m, rr_kind = kind_label m, rr_status = None,
     rr_documents_processed = 0, rr_documents_skipped = 0, rr_documents_deleted = 0, rr_rows_written = 0,
     rr_rows_inserted = 0, rr_rows_updated = 0, rr_rows_failed = 0, rr_errors = []\<rparr>"

record run_error =
  re_text :: string
  re_progress :: "(string \<times> pyval) list"

text \<open>\<open>RunFailed\<close> is \<^verbatim>\<open>RunError\<close>, which the build records; any other exception ends the invocation.\<close>

datatype failure = RunFailed run_error | OtherException

fun set_progress :: "string \<times> pyval \<Rightarrow> model_run_result \<Rightarrow> model_run_result" where
  "set_progress (name, PyInt n) r =
     (if name = ''documents_processed'' then r\<lparr>rr_documents_processed := n\<rparr>
      else if name = ''documents_skipped'' then r\<lparr>rr_documents_skipped := n\<rparr>
      else if name = ''documents_deleted'' then r\<lparr>rr_documents_deleted := n\<rparr>
      else if name = ''rows_written'' then r\<lparr>rr_rows_written := n\<rparr>
      else if name = ''rows_inserted'' then r\<lparr>rr_rows_inserted := n\<rparr>
      else if name = ''rows_updated'' then r\<lparr>rr_rows_updated := n\<rparr>
      else if name = ''rows_failed'' then r\<lparr>rr_rows_failed := n\<rparr>
      else r)"
| "set_progress (name, v) r = r"

definition failed_model_result :: "(run_error \<Rightarrow> string) \<Rightarrow> model_spec \<Rightarrow> run_error \<Rightarrow> model_run_result" where
  "failed_model_result artifact_error_text m e =
     fold set_progress (re_progress e) ((new_result m)\<lparr>rr_errors := [artifact_error_text e]\<rparr>)"

section \<open>The warehouse as a run sees it\<close>

type_synonym content_fingerprint = "int \<times> string"
type_synonym state_generation = "int \<times> int"

record sync_watermark =
  wm_state :: state_generation
  wm_content :: content_fingerprint

record 'r run_world =
  rw_state :: "state_row list"
  rw_tables :: "(string \<times> 'r list) list"
  rw_watermarks :: "((state_scope \<times> state_scope) \<times> sync_watermark) list"
  rw_identities :: "((state_scope \<times> string) \<times> (string \<times> string) list) list"

definition state_generation :: "state_row list \<Rightarrow> state_scope \<Rightarrow> state_generation option" where
  "state_generation t sc =
     (let rows = scope_state sc t in
      if rows = [] then None else Some (int (length rows), Max (set (map sr_last_run rows))))"

definition table_content_fingerprint :: "('r list \<Rightarrow> string) \<Rightarrow> 'r run_world \<Rightarrow> string \<Rightarrow> content_fingerprint option" where
  "table_content_fingerprint content_hash w table =
     map_option (\<lambda>rows. (int (length rows), content_hash rows)) (map_of (rw_tables w) table)"

definition read_sync_watermark :: "'r run_world \<Rightarrow> state_scope \<Rightarrow> state_scope \<Rightarrow> sync_watermark option" where
  "read_sync_watermark w child parent = map_of (rw_watermarks w) (child, parent)"

definition write_sync_watermark :: "state_scope \<Rightarrow> state_scope \<Rightarrow> sync_watermark \<Rightarrow> 'r run_world \<Rightarrow> 'r run_world" where
  "write_sync_watermark child parent wm w = w\<lparr>rw_watermarks := AList.update (child, parent) wm (rw_watermarks w)\<rparr>"

definition record_code_identity ::
  "state_scope \<Rightarrow> string \<Rightarrow> (string \<times> string) list \<Rightarrow> 'r run_world \<Rightarrow> 'r run_world" where
  "record_code_identity sc version components w =
     w\<lparr>rw_identities := filter (\<lambda>(k, _). k \<noteq> (sc, version)) (rw_identities w) @ [((sc, version), components)]\<rparr>"

section \<open>One model\<close>

record run_options =
  ro_full_refresh :: bool
  ro_reprocess_all :: bool
  ro_subset_run :: bool

record call_faults =
  cf_generation :: bool
  cf_counts :: bool
  cf_read_watermark :: bool
  cf_content :: bool
  cf_content_again :: bool
  cf_write_watermark :: bool
  cf_identity :: bool

datatype stage_kind =
  ExtractionStage | MlStage | SqlStage | TransformStage | ChunkStage | EmbedStage | LlmStage | SearchStage | EvalStage

type_synonym 'r stage_runner =
  "stage_kind \<Rightarrow> model_spec \<Rightarrow> run_options \<Rightarrow> 'r run_world \<Rightarrow> (failure + model_run_result) \<times> 'r run_world"

definition watermark_safely :: "bool \<Rightarrow> 'a option \<Rightarrow> 'a option" where
  "watermark_safely fault v = (if fault then None else v)"

definition single_data_parent :: "project_dag \<Rightarrow> string \<Rightarrow> string option" where
  "single_data_parent d name =
     (case filter (\<lambda>p. node_kind_of d p \<noteq> Some SourceNode) (adj_get (predecessors d) name) of
        [p] \<Rightarrow> Some p | _ \<Rightarrow> None)"

definition can_skip_unchanged_scan :: "run_options \<Rightarrow> model_spec \<Rightarrow> bool" where
  "can_skip_unchanged_scan opts m \<longleftrightarrow> \<not> ro_full_refresh opts \<and> \<not> ro_reprocess_all opts \<and> \<not> ro_subset_run opts
     \<and> ms_materialization m = ''incremental'' \<and> \<not> has_block Search m \<and> \<not> has_block Ml m \<and> \<not> has_block Eval m"

definition published_row_count_if_code_unchanged ::
  "plan_env \<Rightarrow> model_spec \<Rightarrow> call_faults \<Rightarrow> 'r run_world \<Rightarrow> failure + int option" where
  "published_row_count_if_code_unchanged env m faults w =
     (if cf_counts faults then Inl OtherException
      else let by_version = state_code_version_counts (rw_state w) (materialization_scope (m_name m));
          state_rows = sum_list (map snd by_version);
          stale_rows = sum_list (map snd (filter (\<lambda>(v, n). v \<noteq> pe_code_version env m) by_version)) in
        Inr (if state_rows = 0 then None else if stale_rows = 0 then Some state_rows else None))"

text \<open>What is decided before the stage: the count to report for a skip, and the parent's content read on the way.\<close>

definition skip_decision ::
  "plan_env \<Rightarrow> ('r list \<Rightarrow> string) \<Rightarrow> call_faults \<Rightarrow> model_spec \<Rightarrow> string \<Rightarrow> state_generation \<Rightarrow> 'r run_world
   \<Rightarrow> failure + int option \<times> content_fingerprint option" where
  "skip_decision env content_hash faults m parent parent_state w =
     rbind (published_row_count_if_code_unchanged env m faults w) (\<lambda>published.
       let (count, content) =
         (case published of
            None \<Rightarrow> (None, None)
          | Some n \<Rightarrow>
             (case watermark_safely (cf_read_watermark faults)
                (read_sync_watermark w (materialization_scope (m_name m)) (materialization_scope parent)) of
                None \<Rightarrow> (None, None)
              | Some synced \<Rightarrow>
                  if wm_state synced \<noteq> parent_state then (None, None)
                  else let found = watermark_safely (cf_content faults) (table_content_fingerprint content_hash w parent) in
                    if found = None \<or> Some (wm_content synced) \<noteq> found then (None, found) else (Some n, found)))
       in Inr (count, if count = None \<and> content = None
         then watermark_safely (cf_content_again faults) (table_content_fingerprint content_hash w parent) else content))"

definition dispatch :: "model_spec \<Rightarrow> stage_kind option" where
  "dispatch m =
     (if has_block Extraction m then Some ExtractionStage
      else if has_block Ml m then Some MlStage
      else if has_block Transform m then Some (if ms_transform_type m = ''sql'' then SqlStage else TransformStage)
      else if has_block Chunk m then Some ChunkStage
      else if has_block Embed m then Some EmbedStage
      else if has_block Llm m then Some LlmStage
      else if has_block Search m then Some SearchStage
      else if has_block Eval m then Some EvalStage
      else None)"

definition no_block_error :: "model_spec \<Rightarrow> run_error" where
  "no_block_error m = \<lparr>re_text = ''Model has no extraction, transform, ml, chunk, embed, llm, search, or eval block configured'', re_progress = []\<rparr>"

definition record_identity_safely ::
  "plan_env \<Rightarrow> (model_spec \<Rightarrow> (string \<times> string) list) \<Rightarrow> call_faults \<Rightarrow> model_spec \<Rightarrow> 'r run_world \<Rightarrow> 'r run_world" where
  "record_identity_safely env components faults m w =
     (if cf_identity faults \<or> (\<not> has_block Search m \<and> ms_materialization m = ''full'') then w
      else (case state_scope_for env m of
          Inl _ \<Rightarrow> w
        | Inr sc \<Rightarrow> record_code_identity sc (pe_code_version env m) (components m) w))"

definition execute_stage ::
  "'r stage_runner \<Rightarrow> run_options \<Rightarrow> model_spec \<Rightarrow> 'r run_world \<Rightarrow> (failure + model_run_result) \<times> 'r run_world" where
  "execute_stage run_stage opts m w =
     (case dispatch m of
        None \<Rightarrow> (Inl (RunFailed (no_block_error m)), w)
      | Some k \<Rightarrow> run_stage k m opts w)"

definition after_stage ::
  "plan_env \<Rightarrow> (model_spec \<Rightarrow> (string \<times> string) list) \<Rightarrow> call_faults \<Rightarrow> model_spec
   \<Rightarrow> (string \<times> state_generation \<times> content_fingerprint) option \<Rightarrow> model_run_result \<Rightarrow> 'r run_world \<Rightarrow> 'r run_world" where
  "after_stage env components faults m synced r w =
     (let w = (case synced of
           Some (parent, state, content) \<Rightarrow>
             if rr_errors r = [] \<and> \<not> cf_write_watermark faults
             then write_sync_watermark (materialization_scope (m_name m)) (materialization_scope parent)
               \<lparr>wm_state = state, wm_content = content\<rparr> w
             else w
         | None \<Rightarrow> w) in
      if rr_errors r = [] \<and> rr_status r \<noteq> Some ''unchanged'' then record_identity_safely env components faults m w else w)"

definition run_model ::
  "plan_env \<Rightarrow> (model_spec \<Rightarrow> (string \<times> string) list) \<Rightarrow> ('r list \<Rightarrow> string) \<Rightarrow> 'r stage_runner \<Rightarrow> project_dag
   \<Rightarrow> run_options \<Rightarrow> call_faults \<Rightarrow> model_spec \<Rightarrow> 'r run_world \<Rightarrow> (failure + model_run_result) \<times> 'r run_world" where
  "run_model env components content_hash run_stage d opts faults m w =
     (let parent = (if can_skip_unchanged_scan opts m then single_data_parent d (m_name m) else None);
          generation = Option.bind parent (\<lambda>p.
            map_option (Pair p) (watermark_safely (cf_generation faults) (state_generation (rw_state w) (materialization_scope p))));
          decided = (case generation of
              None \<Rightarrow> Inr (None, None)
            | Some (p, g) \<Rightarrow> skip_decision env content_hash faults m p g w) in
      case decided of
        Inl e \<Rightarrow> (Inl e, w)
      | Inr (count, content) \<Rightarrow>
          let synced = Option.bind generation (\<lambda>(p, g). map_option (\<lambda>c. (p, g, c)) content);
              (outcome, w) = (case count of
                  Some n \<Rightarrow> (Inr ((new_result m)\<lparr>rr_status := Some ''unchanged'', rr_documents_skipped := n\<rparr>), w)
                | None \<Rightarrow> execute_stage run_stage opts m w) in
          (case outcome of
             Inl e \<Rightarrow> (Inl e, w)
           | Inr r \<Rightarrow> (Inr r, after_stage env components faults m synced r w)))"

section \<open>A build\<close>

record test_result =
  tr_model :: string
  tr_status :: string

definition is_hard_failure :: "test_result \<Rightarrow> bool" where
  "is_hard_failure t \<longleftrightarrow> tr_status t = ''fail''"

record build_result =
  br_runs :: "model_run_result list"
  br_tests :: "test_result list"
  br_skipped :: "string list"

text \<open>
  One model of the build: \<open>run\<close> and \<open>tests\<close> take the warehouse and return it. A search model has no tests.
\<close>

definition build_model ::
  "(run_error \<Rightarrow> string) \<Rightarrow> (model_spec \<Rightarrow> 'w \<Rightarrow> (failure + model_run_result) \<times> 'w) \<Rightarrow> (model_spec \<Rightarrow> 'w \<Rightarrow> (failure + test_result list) \<times> 'w)
   \<Rightarrow> project_dag \<Rightarrow> model_spec \<Rightarrow> build_result \<times> string list \<times> 'w \<Rightarrow> failure + build_result \<times> string list \<times> 'w" where
  "build_model artifact_error_text run tests d m = (\<lambda>(out, blocked, w).
     if m_name m \<in> set blocked then Inr (out\<lparr>br_skipped := br_skipped out @ [m_name m]\<rparr>, blocked, w)
     else (case run m w of
         (Inl (RunFailed e), w) \<Rightarrow>
           Inr (out\<lparr>br_runs := br_runs out @ [failed_model_result artifact_error_text m e]\<rparr>, set_update (descendants d (m_name m)) blocked, w)
       | (Inl OtherException, w) \<Rightarrow> Inl OtherException
       | (Inr r, w) \<Rightarrow>
           let out = out\<lparr>br_runs := br_runs out @ [r]\<rparr> in
           if rr_errors r \<noteq> [] then Inr (out, set_update (descendants d (m_name m)) blocked, w)
           else (case (if has_block Search m then (Inr [], w) else tests m w) of
               (Inl e, w) \<Rightarrow> Inl e
             | (Inr ts, w) \<Rightarrow>
                 Inr (out\<lparr>br_tests := br_tests out @ ts\<rparr>,
                   if list_ex is_hard_failure ts then set_update (descendants d (m_name m)) blocked else blocked, w))))"

fun build_loop ::
  "(run_error \<Rightarrow> string) \<Rightarrow> (model_spec \<Rightarrow> 'w \<Rightarrow> (failure + model_run_result) \<times> 'w) \<Rightarrow> (model_spec \<Rightarrow> 'w \<Rightarrow> (failure + test_result list) \<times> 'w)
   \<Rightarrow> project_dag \<Rightarrow> model_spec list \<Rightarrow> build_result \<times> string list \<times> 'w \<Rightarrow> failure + build_result \<times> string list \<times> 'w" where
  "build_loop artifact_error_text run tests d [] s = Inr s"
| "build_loop artifact_error_text run tests d (m # ms) s =
     rbind (build_model artifact_error_text run tests d m s) (build_loop artifact_error_text run tests d ms)"

definition start_build :: "'w \<Rightarrow> build_result \<times> string list \<times> 'w" where
  "start_build w = (\<lparr>br_runs = [], br_tests = [], br_skipped = []\<rparr>, [], w)"

text \<open>The counts of the closing report.\<close>

definition errored_count :: "build_result \<Rightarrow> nat" where
  "errored_count out =
     length (filter (\<lambda>r. rr_errors r \<noteq> []) (br_runs out))
     + card (tr_model ` set (filter is_hard_failure (br_tests out)) - rr_model ` set (filter (\<lambda>r. rr_errors r \<noteq> []) (br_runs out)))"

definition ok_count :: "build_result \<Rightarrow> int" where
  "ok_count out = int (length (br_runs out)) - int (errored_count out)"

end
