(* ===== verification/Invocation.thy ===== *)
theory Invocation
  imports Runner Chunking
begin

text \<open>
  An invocation of \<^verbatim>\<open>build\<close> (\<^verbatim>\<open>runner.py\<close>): the checks of its flags and filters against the selection, the spend
  guards, and the build of what is left. Checks that need a profile or an adapter (warehouse and retrieval
  capabilities, required tests) are parameters, as are JSON decoding and the adapter's reading of a model's
  incremental strategy.
\<close>

section \<open>Requests and refusals\<close>

record run_request =
  rq_flags :: run_flags
  rq_select :: "string option"
  rq_exclude :: "string option"
  rq_source_filter :: "string list"
  rq_read_filter :: "(string \<times> string \<times> string) list"
  rq_approvals :: "(string \<times> string) list"

datatype read_operator = Equal | NotEqual | LessThan | LessThanOrEqual | GreaterThan | GreaterThanOrEqual | InList

record read_predicate =
  rp_column :: string
  rp_operator :: read_operator
  rp_value :: "string + string list"

datatype invocation_error =
    ConflictingFlags
  | ApprovalNeedsPlainRun
  | InvalidApproval
  | GuardedStateSelector
  | GuardedFullRefresh
  | ApprovalStateSelector
  | ApprovalOutsideSelection
  | SourceFilterFullRefresh
  | SourceFilterUnsafe "string list"
  | ReadFilterFullRefresh
  | ReadFilterUnsafe "string list"
  | UnknownOperator string
  | BadInList
  | EmptyColumn
  | DbtRefModels "string list"
  | SelectionFailed selection_error
  | WarehouseUnsupported
  | RetrievalUnsupported
  | TestsUnsupported
  | GuardRefused run_refusal
  | BuildStopped failure

definition lift_selection :: "selection_error + 'a \<Rightarrow> invocation_error + 'a" where
  "lift_selection r = (case r of Inl e \<Rightarrow> Inl (SelectionFailed e) | Inr x \<Rightarrow> Inr x)"

section \<open>Flags and approvals\<close>

definition reject_conflicting_reprocess_flags :: "run_flags \<Rightarrow> invocation_error + unit" where
  "reject_conflicting_reprocess_flags flags = guard (\<not> (rf_full_refresh flags \<and> rf_reprocess_all flags)) ConflictingFlags"

definition is_hex :: "char \<Rightarrow> bool" where
  "is_hex c \<longleftrightarrow> (let n = of_char c :: nat in 48 \<le> n \<and> n \<le> 57 \<or> 97 \<le> n \<and> n \<le> 102)"

definition is_valid_approval :: "string \<Rightarrow> bool" where
  "is_valid_approval s \<longleftrightarrow> length s = 64 \<and> list_all is_hex s"

definition guards_deletions :: "model_spec \<Rightarrow> bool" where
  "guards_deletions m \<longleftrightarrow> has_block Extraction m \<and> ms_on_source_deletion m = ''guard''"

definition validate_deletion_approvals :: "run_request \<Rightarrow> model_spec list \<Rightarrow> invocation_error + unit" where
  "validate_deletion_approvals rq models =
     (if rq_approvals rq = [] then Inr ()
      else rbind (guard (\<not> (rf_full_refresh (rq_flags rq) \<or> rq_source_filter rq \<noteq> [] \<or> rq_read_filter rq \<noteq> [])) ApprovalNeedsPlainRun)
        (\<lambda>_. guard (list_all (\<lambda>(name, token). name \<in> m_name ` set (filter guards_deletions models) \<and> is_valid_approval token)
          (rq_approvals rq)) InvalidApproval))"

definition names_state :: "string option \<Rightarrow> bool" where
  "names_state s \<longleftrightarrow> py_contains ''state:'' (case s of Some t \<Rightarrow> t | None \<Rightarrow> [])"

definition validate_guarded_full_refresh :: "run_request \<Rightarrow> model_spec list \<Rightarrow> project_dag \<Rightarrow> invocation_error + unit" where
  "validate_guarded_full_refresh rq models d =
     (let guarded = map m_name (filter guards_deletions models) in
      if \<not> rf_full_refresh (rq_flags rq) \<or> guarded = [] then Inr ()
      else rbind (guard (\<not> (names_state (rq_select rq) \<or> names_state (rq_exclude rq))) GuardedStateSelector) (\<lambda>_.
        rbind (lift_selection (select_models d (rq_select rq) (rq_exclude rq) None)) (\<lambda>chosen.
          guard (set guarded \<inter> set chosen = {}) GuardedFullRefresh)))"

definition validate_deletion_approval_selection :: "run_request \<Rightarrow> project_dag \<Rightarrow> invocation_error + unit" where
  "validate_deletion_approval_selection rq d =
     (if rq_approvals rq = [] then Inr ()
      else rbind (guard (\<not> (names_state (rq_select rq) \<or> names_state (rq_exclude rq))) ApprovalStateSelector) (\<lambda>_.
        rbind (lift_selection (select_models d (rq_select rq) (rq_exclude rq) None)) (\<lambda>chosen.
          guard (fst ` set (rq_approvals rq) \<subseteq> set chosen) ApprovalOutsideSelection)))"

section \<open>Filters\<close>

text \<open>
  \<open>how\<close> is the model's incremental strategy: as configured in the check before the profile is resolved, as
  the adapter parses it in the second.
\<close>

definition filter_unsafe :: "(model_spec \<Rightarrow> string option) \<Rightarrow> string list \<Rightarrow> model_spec \<Rightarrow> bool" where
  "filter_unsafe how selected m \<longleftrightarrow> m_name m \<in> set selected \<and> has_block Extraction m
     \<and> (ms_materialization m \<noteq> ''incremental'' \<or> how m = Some ''insert_overwrite'')"

definition prepare_subset_run ::
  "(model_spec \<Rightarrow> string option) \<Rightarrow> run_request \<Rightarrow> string list \<Rightarrow> model_spec list \<Rightarrow> invocation_error + bool" where
  "prepare_subset_run how rq selected models =
     (if rq_source_filter rq = [] then Inr False
      else rbind (guard (\<not> rf_full_refresh (rq_flags rq)) SourceFilterFullRefresh) (\<lambda>_.
        let unsafe = map m_name (filter (filter_unsafe how selected) models) in
        rbind (guard (unsafe = []) (SourceFilterUnsafe (sort unsafe))) (\<lambda>_. Inr True)))"

definition reads_narrowed :: "model_spec \<Rightarrow> bool" where
  "reads_narrowed m \<longleftrightarrow> has_block Embed m \<or> (has_block Transform m \<and> ms_transform_type m = ''python'')"

definition read_filter_operators :: "(string \<times> read_operator) list" where
  "read_filter_operators = [(''eq'', Equal), (''ne'', NotEqual), (''lt'', LessThan), (''le'', LessThanOrEqual),
     (''gt'', GreaterThan), (''ge'', GreaterThanOrEqual), (''in'', InList)]"

fun py_strings :: "pyval list \<Rightarrow> string list option" where
  "py_strings [] = Some []"
| "py_strings (PyStr s # vs) = map_option (Cons s) (py_strings vs)"
| "py_strings (v # vs) = None"

fun read_predicates :: "(string \<Rightarrow> pyval option) \<Rightarrow> (string \<times> string \<times> string) list \<Rightarrow> invocation_error + read_predicate list" where
  "read_predicates json_loads [] = Inr []"
| "read_predicates json_loads ((column, name, raw) # rest) =
     (case map_of read_filter_operators name of
        None \<Rightarrow> Inl (UnknownOperator name)
      | Some op \<Rightarrow>
          rbind (if op = InList then
              (case json_loads raw of
                 Some (PyList vs) \<Rightarrow> (case py_strings vs of Some (s # ss) \<Rightarrow> Inr (Inr (s # ss)) | _ \<Rightarrow> Inl BadInList)
               | _ \<Rightarrow> Inl BadInList)
            else Inr (Inl raw)) (\<lambda>value.
          rbind (guard (column \<noteq> []) EmptyColumn) (\<lambda>_.
          rbind (read_predicates json_loads rest) (\<lambda>ps. Inr (\<lparr>rp_column = column, rp_operator = op, rp_value = value\<rparr> # ps)))))"

definition prepare_read_filter ::
  "(string \<Rightarrow> pyval option) \<Rightarrow> run_request \<Rightarrow> string list \<Rightarrow> model_spec list \<Rightarrow> invocation_error + read_predicate list" where
  "prepare_read_filter json_loads rq selected models =
     (if rq_read_filter rq = [] then Inr []
      else rbind (guard (\<not> rf_full_refresh (rq_flags rq)) ReadFilterFullRefresh) (\<lambda>_.
        let unsafe = map m_name (filter (\<lambda>m. m_name m \<in> set selected \<and> reads_narrowed m \<and> ms_materialization m \<noteq> ''incremental'') models) in
        rbind (guard (unsafe = []) (ReadFilterUnsafe (sort unsafe))) (\<lambda>_. read_predicates json_loads (rq_read_filter rq))))"

section \<open>The invocation\<close>

record cleared_run =
  cr_selected :: "string list"
  cr_subset_run :: bool
  cr_predicates :: "read_predicate list"

definition uses_dbt_ref :: "model_spec \<Rightarrow> bool" where
  "uses_dbt_ref m \<longleftrightarrow> (case m_source m of None \<Rightarrow> False | Some s \<Rightarrow> is_dbt_ref s)"

record capabilities =
  cap_warehouse :: "string list \<Rightarrow> bool"
  cap_retrieval :: "string list \<Rightarrow> bool"
  cap_tests :: "string list \<Rightarrow> bool"

definition clear_run ::
  "(string \<Rightarrow> pyval option) \<Rightarrow> (model_spec \<Rightarrow> string option) \<Rightarrow> capabilities \<Rightarrow> string list option
   \<Rightarrow> project_dag \<Rightarrow> model_spec list \<Rightarrow> run_request \<Rightarrow> invocation_error + cleared_run" where
  "clear_run json_loads parsed_strategy capable modified d models rq =
     rbind (reject_conflicting_reprocess_flags (rq_flags rq)) (\<lambda>_.
     rbind (validate_deletion_approvals rq models) (\<lambda>_.
     rbind (validate_guarded_full_refresh rq models d) (\<lambda>_.
     rbind (validate_deletion_approval_selection rq d) (\<lambda>_.
     rbind (if rq_source_filter rq = [] then Inr False
       else rbind (lift_selection (select_models d (rq_select rq) (rq_exclude rq) None)) (\<lambda>chosen.
         prepare_subset_run ms_incremental_strategy rq chosen models)) (\<lambda>_.
     rbind (lift_selection (select_models d (rq_select rq) (rq_exclude rq) modified)) (\<lambda>selected.
     rbind (guard (fst ` set (rq_approvals rq) \<subseteq> set selected) ApprovalOutsideSelection) (\<lambda>_.
     rbind (guard (cap_warehouse capable selected) WarehouseUnsupported) (\<lambda>_.
     rbind (prepare_subset_run parsed_strategy rq selected models) (\<lambda>subset_run.
     rbind (prepare_read_filter json_loads rq selected models) (\<lambda>predicates.
     rbind (guard (cap_retrieval capable selected) RetrievalUnsupported) (\<lambda>_.
     let dbt = map m_name (filter (\<lambda>m. m_name m \<in> set selected \<and> uses_dbt_ref m) models) in
     rbind (guard (dbt = []) (DbtRefModels (sort dbt))) (\<lambda>_.
     rbind (guard (cap_tests capable selected) TestsUnsupported) (\<lambda>_.
       Inr \<lparr>cr_selected = selected, cr_subset_run = (subset_run \<or> rq_read_filter rq \<noteq> []), cr_predicates = predicates\<rparr>)))))))))))))"

definition options_of :: "run_request \<Rightarrow> cleared_run \<Rightarrow> run_options" where
  "options_of rq c = \<lparr>ro_full_refresh = rf_full_refresh (rq_flags rq), ro_reprocess_all = rf_reprocess_all (rq_flags rq),
     ro_subset_run = cr_subset_run c\<rparr>"

text \<open>
  The build itself: \<open>cleared\<close> is the outcome of \<open>clear_run\<close>, \<open>faults\<close> the adapter calls that raise during each
  model, \<open>run_stage\<close> and \<open>tests\<close> the execution of a model and of its tests.
\<close>

definition build_cleared ::
  "plan_env \<Rightarrow> (model_spec \<Rightarrow> (string \<times> string) list) \<Rightarrow> ('r list \<Rightarrow> string) \<Rightarrow> 'r stage_runner
   \<Rightarrow> (model_spec \<Rightarrow> 'r run_world \<Rightarrow> (failure + test_result list) \<times> 'r run_world) \<Rightarrow> (run_error \<Rightarrow> string) \<Rightarrow> (string \<Rightarrow> call_faults)
   \<Rightarrow> rat option \<Rightarrow> log_read option \<Rightarrow> (cost_projection \<Rightarrow> bool) option
   \<Rightarrow> project_dag \<Rightarrow> model_spec list \<Rightarrow> run_request \<Rightarrow> cleared_run \<Rightarrow> 'r run_world
   \<Rightarrow> invocation_error + build_result \<times> 'r run_world" where
  "build_cleared env components content_hash run_stage tests artifact_error_text faults threshold run_log confirm d models rq c w =
     rbind (lift_selection (required_sources d (cr_selected c))) (\<lambda>_.
     rbind (map_sum GuardRefused id
       (enforce_spend_guards env d (rw_state w) (rq_flags rq) threshold run_log confirm models (cr_selected c))) (\<lambda>_.
     rbind (map_sum (GuardRefused \<circ> PlanFailed) id (lookup_models models (cr_selected c))) (\<lambda>planned.
     rbind (map_sum BuildStopped id (build_loop artifact_error_text
         (\<lambda>m. run_model env components content_hash run_stage d (options_of rq c) (faults (m_name m)) m)
         tests d planned (start_build w)))
       (\<lambda>(out, blocked, w). Inr (out, w)))))"

end
