(* ===== verification/Run_Order.thy ===== *)
theory Run_Order
  imports Dag_Build
begin

text \<open>
  What the callers of the project graph rely on: a selection lists models once, every model after the
  selected models it transitively refers to, and ancestors and descendants are inverse to each other. The
  planner and the build loop both walk a selection in that order.
\<close>

definition run_order :: "project_dag \<Rightarrow> string list \<Rightarrow> bool" where
  "run_order d names \<longleftrightarrow> distinct names
     \<and> (\<forall>xs n ys. names = xs @ n # ys \<longrightarrow> set (ancestors d n) \<inter> set (n # ys) = {})"

lemma run_orderD:
  "run_order d (xs @ n # ys) \<Longrightarrow> set (ancestors d n) \<inter> set (n # ys) = {}"
  "run_order d names \<Longrightarrow> distinct names"
  by (auto simp: run_order_def)

lemma ancestors_before:
  assumes "dag_wf d" "sorted_names d = xs @ n # ys"
  shows "set (ancestors d n) \<subseteq> set xs"
proof
  fix a assume "a \<in> set (ancestors d n)"
  then have "(n, a) \<in> (succ_rel (adj_get (predecessors d)))\<^sup>+" by (simp add: ancestors_def set_bfs)
  then show "a \<in> set xs"
  proof (induction rule: trancl_induct)
    case (base y)
    with dag_wfD(7) [OF assms(1) assms(2)] show ?case by auto
  next
    case (step y z)
    then obtain us vs where u: "xs = us @ y # vs" by (meson split_list)
    with assms(2) have "sorted_names d = us @ y # (vs @ n # ys)" by simp
    from dag_wfD(7) [OF assms(1) this] step(2) u show ?case by auto
  qed
qed

lemma filter_split_at: "filter P xs = as @ x # bs \<Longrightarrow> \<exists>ys zs. xs = ys @ x # zs \<and> bs = filter P zs"
proof (induction xs arbitrary: as)
  case (Cons y xs)
  show ?case
  proof (cases "P y \<and> as = []")
    case True
    with Cons.prems show ?thesis by (intro exI [of _ "[]"] exI [of _ xs]) auto
  next
    case False
    with Cons.prems obtain as' where "filter P xs = as' @ x # bs"
      by (cases as) (auto split: if_splits)
    from Cons.IH [OF this] obtain ys zs where "xs = ys @ x # zs" "bs = filter P zs" by blast
    then show ?thesis by (intro exI [of _ "y # ys"] exI [of _ zs]) simp
  qed
qed simp

lemma run_order_filter:
  assumes "dag_wf d"
  shows "run_order d (filter P (sorted_names d))"
proof -
  have "set (ancestors d n) \<inter> set (n # ys) = {}" if "filter P (sorted_names d) = xs @ n # ys" for xs n ys
  proof -
    from filter_split_at [OF that] obtain us vs where s: "sorted_names d = us @ n # vs" "ys = filter P vs" by blast
    from ancestors_before [OF assms s(1)] have "set (ancestors d n) \<subseteq> set us" .
    moreover have "distinct (us @ n # vs)" using dag_wfD(5) [OF assms] s(1) by simp
    ultimately show ?thesis using s(2) by auto
  qed
  moreover have "distinct (filter P (sorted_names d))" using dag_wfD(5) [OF assms] by simp
  ultimately show ?thesis by (simp add: run_order_def)
qed

lemma selection_run_order:
  assumes "dag_wf d" "select_models d select exclude modified = Inr selected"
  shows "run_order d selected" "set selected \<subseteq> {n \<in> fst ` set (nodes d). runs d n}"
proof -
  from assms(2) obtain chosen where c: "selected = filter (\<lambda>n. n \<in> set chosen \<and> runs d n) (sorted_names d)"
    by (auto simp: select_models_def rbind_eq_Inr)
  show "run_order d selected" unfolding c by (rule run_order_filter [OF assms(1)])
  show "set selected \<subseteq> {n \<in> fst ` set (nodes d). runs d n}" using c dag_wfD(4) [OF assms(1)] by auto
qed

lemma descendants_iff_ancestors:
  assumes "dag_wf d"
  shows "n \<in> set (descendants d a) \<longleftrightarrow> a \<in> set (ancestors d n)"
proof -
  have "succ_rel (adj_get (successors d)) = (succ_rel (adj_get (predecessors d)))\<inverse>"
    using dag_wfD(8) [OF assms] by (auto simp: succ_rel_def)
  then have "(succ_rel (adj_get (successors d)))\<^sup>+ = ((succ_rel (adj_get (predecessors d)))\<^sup>+)\<inverse>"
    by (simp add: trancl_converse)
  then show ?thesis by (auto simp: ancestors_def descendants_def set_bfs)
qed

end
