(* ===== verification/Planning_Props.thy ===== *)
theory Planning_Props
  imports Planning Run_Order
begin

text \<open>
  Properties of the plan and of the guards. \<open>plan_describes\<close> states what a plan says of a model without the
  loop: the rows of its scope, those of another code version, and the selected models above it whose own
  version moved. From it follows what a run that passed the guards may reprocess.
\<close>

section \<open>The plan in closed form\<close>


definition published_rows :: "plan_env \<Rightarrow> state_row list \<Rightarrow> model_spec \<Rightarrow> state_row list" where
  "published_rows env t m = (case state_scope_for env m of Inl _ \<Rightarrow> [] | Inr sc \<Rightarrow> scope_state sc t)"

definition outdated_rows :: "plan_env \<Rightarrow> state_row list \<Rightarrow> model_spec \<Rightarrow> state_row list" where
  "outdated_rows env t m = filter (\<lambda>r. sr_version r \<noteq> pe_code_version env m) (published_rows env t m)"

definition rebuilt_every_run :: "model_spec \<Rightarrow> bool" where
  "rebuilt_every_run m \<longleftrightarrow> \<not> has_block Search m \<and> ms_materialization m = ''full''"

definition own_change :: "plan_env \<Rightarrow> state_row list \<Rightarrow> bool \<Rightarrow> model_spec \<Rightarrow> bool" where
  "own_change env t reprocess_all m \<longleftrightarrow> \<not> rebuilt_every_run m \<and> published_rows env t m \<noteq> []
     \<and> (reprocess_all \<and> \<not> has_block Search m \<or> outdated_rows env t m \<noteq> [])"

definition changed_above :: "plan_env \<Rightarrow> project_dag \<Rightarrow> state_row list \<Rightarrow> bool \<Rightarrow> model_spec list \<Rightarrow> model_spec \<Rightarrow> string set" where
  "changed_above env d t reprocess_all planned m =
     {m_name a | a. a \<in> set planned \<and> own_change env t reprocess_all a \<and> m_name a \<in> set (ancestors d (m_name m))}"

definition plan_describes ::
  "plan_env \<Rightarrow> project_dag \<Rightarrow> state_row list \<Rightarrow> bool \<Rightarrow> model_spec list \<Rightarrow> model_spec \<Rightarrow> model_plan \<Rightarrow> bool" where
  "plan_describes env d t reprocess_all planned m p \<longleftrightarrow>
     (let above = changed_above env d t reprocess_all planned m in
      pl_name p = m_name m
      \<and> pl_state_rows p = int (length (published_rows env t m))
      \<and> pl_stale_rows p = int (length (outdated_rows env t m))
      \<and> pl_caused_by p = sorted_list_of_set above
      \<and> pl_status p =
          (if rebuilt_every_run m then Full
           else if published_rows env t m = [] then New
           else if own_change env t reprocess_all m then Changed
           else if above \<noteq> {} then Cascade else Unchanged)
      \<and> pl_rows_to_reprocess p =
          (if rebuilt_every_run m then 0
           else if reprocess_all \<and> \<not> has_block Search m \<or> above \<noteq> {} then pl_state_rows p
           else pl_stale_rows p)
      \<and> pl_policy p = map_option on_code_change (policy_of m)
      \<and> pl_limit p = map_option reprocess_limit (policy_of m))"

lemma sum_group_lengths:
  "finite A \<Longrightarrow> (\<Sum>v \<in> A. int (length (filter (\<lambda>r. f r = v) xs))) = int (length (filter (\<lambda>r. f r \<in> A) xs))"
proof (induction xs)
  case (Cons x xs)
  have "(\<Sum>v \<in> A. int (length (filter (\<lambda>r. f r = v) (x # xs)))) =
      (\<Sum>v \<in> A. (if f x = v then 1 else 0) + int (length (filter (\<lambda>r. f r = v) xs)))"
    by (rule sum.cong) auto
  also have "\<dots> = (\<Sum>v \<in> A. if f x = v then 1 else 0) + (\<Sum>v \<in> A. int (length (filter (\<lambda>r. f r = v) xs)))"
    by (rule sum.distrib)
  finally show ?case using Cons by (simp add: sum.delta')
qed simp

lemma counts_of_versions:
  "sum_list (map snd (filter (\<lambda>(v, n). P v) (state_code_version_counts t sc))) =
     int (length (filter (\<lambda>r. P (sr_version r)) (scope_state sc t)))"
proof -
  let ?rows = "scope_state sc t"
  let ?vs = "filter P (remdups (map sr_version ?rows))"
  let ?n = "\<lambda>v. int (length (filter (\<lambda>r. sr_version r = v) ?rows))"
  have "map snd (filter (\<lambda>(v, n). P v) (state_code_version_counts t sc)) = map ?n ?vs"
    by (simp add: state_code_version_counts_def filter_map comp_def)
  then have "sum_list (map snd (filter (\<lambda>(v, n). P v) (state_code_version_counts t sc))) = sum ?n (set ?vs)"
    by (simp add: sum_list_distinct_conv_sum_set)
  also have "\<dots> = int (length (filter (\<lambda>r. sr_version r \<in> set ?vs) ?rows))" by (rule sum_group_lengths) simp
  also have "filter (\<lambda>r. sr_version r \<in> set ?vs) ?rows = filter (\<lambda>r. P (sr_version r)) ?rows"
    by (rule filter_cong) auto
  finally show ?thesis .
qed

lemma counts_total: "sum_list (map snd (state_code_version_counts t sc)) = int (length (scope_state sc t))"
  using counts_of_versions [of "\<lambda>_. True"] by simp

lemma classify_fields:
  fixes versions :: "(string \<times> int) list"
  defines "rows \<equiv> sum_list (map snd versions)"
  shows "pl_name (classify env reprocess_all m versions caused_by) = m_name m"
    and "pl_state_rows (classify env reprocess_all m versions caused_by) = rows"
    and "pl_stale_rows (classify env reprocess_all m versions caused_by) =
      sum_list (map snd (filter (\<lambda>(v, n). v \<noteq> pe_code_version env m) versions))"
    and "pl_caused_by (classify env reprocess_all m versions caused_by) = caused_by"
    and "pl_policy (classify env reprocess_all m versions caused_by) = map_option on_code_change (policy_of m)"
    and "pl_limit (classify env reprocess_all m versions caused_by) = map_option reprocess_limit (policy_of m)"
  unfolding classify_def Let_def rows_def by (simp_all split: prod.split del: split_paired_All)

lemma classify_outcome:
  fixes env :: plan_env and m :: model_spec and versions :: "(string \<times> int) list"
  defines "rows \<equiv> sum_list (map snd versions)"
    and "stale \<equiv> sum_list (map snd (filter (\<lambda>(v, n). v \<noteq> pe_code_version env m) versions))"
  shows "pl_status (classify env reprocess_all m versions caused_by) =
      (if rebuilt_every_run m then Full else if rows = 0 then New
       else if reprocess_all \<and> \<not> has_block Search m \<or> 0 < stale then Changed
       else if caused_by \<noteq> [] then Cascade else Unchanged)"
    and "pl_rows_to_reprocess (classify env reprocess_all m versions caused_by) =
      (if rebuilt_every_run m \<or> rows = 0 then 0
       else if reprocess_all \<and> \<not> has_block Search m \<or> caused_by \<noteq> [] then rows
       else if 0 < stale then stale else 0)"
  unfolding classify_def Let_def rows_def stale_def rebuilt_every_run_def
  by (simp_all split: prod.split del: split_paired_All)

lemma classify_describes:
  assumes "state_scope_for env m = Inr sc"
    and "caused_by = sorted_list_of_set (changed_above env d t reprocess_all planned m)"
    and "finite (changed_above env d t reprocess_all planned m)"
  shows "plan_describes env d t reprocess_all planned m
      (classify env reprocess_all m (state_code_version_counts t sc) caused_by)"
proof -
  let ?above = "changed_above env d t reprocess_all planned m"
  have rows: "published_rows env t m = scope_state sc t" using assms(1) by (simp add: published_rows_def)
  have stale: "sum_list (map snd (filter (\<lambda>(v, n). v \<noteq> pe_code_version env m) (state_code_version_counts t sc))) =
      int (length (outdated_rows env t m))"
    by (simp add: counts_of_versions [of "\<lambda>v. v \<noteq> pe_code_version env m"] outdated_rows_def rows)
  have above: "caused_by \<noteq> [] \<longleftrightarrow> ?above \<noteq> {}" using assms(2,3) by auto
  have fewer: "length (outdated_rows env t m) \<le> length (published_rows env t m)" by (simp add: outdated_rows_def)
  show ?thesis
    unfolding plan_describes_def Let_def classify_fields classify_outcome counts_total stale above
    using assms(2) rows fewer by (auto simp: own_change_def)
qed

lemma status_changed: "plan_describes env d t reprocess_all planned m p \<Longrightarrow> pl_status p = Changed \<longleftrightarrow> own_change env t reprocess_all m"
  by (auto simp: plan_describes_def Let_def own_change_def split: if_splits)

lemma sorted_filter_set:
  "distinct xs \<Longrightarrow> sort (filter P xs) = sorted_list_of_set {x \<in> set xs. P x}"
  by (metis distinct_filter sorted_list_of_set_sort_remdups remdups_id_iff_distinct set_filter)

lemma plan_loop_describes:
  assumes "plan_loop env d t reprocess_all ms roots = Inr plans"
    and "run_order d (map m_name (pre @ ms))"
    and "set roots = m_name ` {a \<in> set pre. own_change env t reprocess_all a}"
  shows "list_all2 (plan_describes env d t reprocess_all (pre @ ms)) ms plans"
  using assms
proof (induction ms arbitrary: pre roots plans)
  case (Cons m ms)
  let ?above = "changed_above env d t reprocess_all (pre @ m # ms) m"
  let ?caused = "sort (filter (\<lambda>a. a \<in> set roots) (ancestors d (m_name m)))"
  from Cons.prems(1) obtain sc where sc: "state_scope_for env m = Inr sc" by (auto simp: rbind_eq_Inr)
  let ?plan = "classify env reprocess_all m (state_code_version_counts t sc) ?caused"
  let ?roots = "if pl_status ?plan = Changed then set_add (m_name m) roots else roots"
  from Cons.prems(1) sc obtain rest where rest: "plan_loop env d t reprocess_all ms ?roots = Inr rest" "plans = ?plan # rest"
    by (auto simp: rbind_eq_Inr Let_def)
  have "set (ancestors d (m_name m)) \<inter> m_name ` set (m # ms) = {}"
    using run_orderD(1) [of d "map m_name pre" "m_name m" "map m_name ms"] Cons.prems(2) by simp
  then have above: "?above = {a \<in> set (ancestors d (m_name m)). a \<in> set roots}"
    using Cons.prems(3) by (auto simp: changed_above_def)
  then have "?caused = sorted_list_of_set ?above"
    by (simp add: sorted_filter_set ancestors_def distinct_bfs)
  then have plan: "plan_describes env d t reprocess_all (pre @ m # ms) m ?plan"
    by (rule classify_describes [OF sc]) (simp add: above)
  have "set ?roots = m_name ` {a \<in> set (pre @ [m]). own_change env t reprocess_all a}"
    using Cons.prems(3) status_changed [OF plan] by auto
  with Cons.IH [OF rest(1), of "pre @ [m]"] Cons.prems(2)
  have "list_all2 (plan_describes env d t reprocess_all (pre @ m # ms)) ms rest" by simp
  with plan rest(2) show ?case by simp
qed simp

section \<open>Planning a selection\<close>

lemma lookup_models_ok:
  assumes "set names \<subseteq> m_name ` set models"
  shows "\<exists>planned. lookup_models models names = Inr planned \<and> map m_name planned = names"
  using assms
proof (induction names)
  case (Cons n names)
  let ?al = "map (\<lambda>m. (m_name m, m)) models"
  from Cons obtain planned where p: "lookup_models models names = Inr planned" "map m_name planned = names" by auto
  have "n \<in> fst ` set (rev ?al)" using Cons.prems by (auto simp: image_iff)
  then obtain m where m: "map_of (rev ?al) n = Some m"
    by (metis map_of_eq_None_iff not_None_eq)
  then have "(n, m) \<in> set ?al" by (metis map_of_SomeD set_rev)
  then have "m_name m = n" by auto
  with p m show ?case by simp
qed simp

lemma plan_loop_error:
  "plan_loop env d t reprocess_all ms roots = Inl e \<Longrightarrow> \<exists>m \<in> set ms. state_scope_for env m = Inl e"
  by (induction ms arbitrary: roots) (auto simp: rbind_eq_Inl Let_def)

lemma truncated_names: "map m_name (map model_config.truncate models) = map m_name models"
  by (simp add: model_config.defs)

lemma selected_models:
  assumes "keeps_elements iter" "build_dag iter re_ok ss (map model_config.truncate models) = Inr d"
    and "select_models d select exclude modified = Inr selected"
  obtains planned where "lookup_models models selected = Inr planned" "map m_name planned = selected"
    "run_order d (map m_name planned)"
proof -
  note w = build_dag_wf [OF assms(1,2)]
  note sel = selection_run_order [OF w(1) assms(3)]
  have "n \<in> m_name ` set models" if "n \<in> set selected" for n
  proof -
    have "n \<in> fst ` set (nodes d)" "runs d n" using sel(2) that by auto
    then have "n \<in> set (map s_name ss @ map m_name models)" using w(2) truncated_names by (metis set_map)
    moreover have "n \<notin> s_name ` set ss"
      using \<open>runs d n\<close> w(3) by (auto simp: runs_def node_kind_of_def source_node_def)
    ultimately show ?thesis by auto
  qed
  then have "set selected \<subseteq> m_name ` set models" by blast
  from lookup_models_ok [OF this] sel(1) show ?thesis using that by auto
qed

lemma plans_described:
  assumes "run_order d (map m_name planned)" "plan_models env d t reprocess_all planned = Inr plans"
  shows "list_all2 (plan_describes env d t reprocess_all planned) planned plans"
  using plan_loop_describes [of env d t reprocess_all planned "[]" plans "[]"] assms by (simp add: plan_models_def)

text \<open>
  C35: planning a selection looks up every selected model and then either fails for a search model without its
  retrieval target or says, for each model, exactly: how many rows it has published and how many under another
  code version; which selected models above it changed themselves, through whatever lies between; its status;
  and the number of rows the next run reprocesses, which is all of them when something above changed.
\<close>

theorem plan_models_exact:
  assumes "keeps_elements iter" "build_dag iter re_ok ss (map model_config.truncate models) = Inr d"
    and "select_models d select exclude modified = Inr selected"
  shows "\<exists>planned. lookup_models models selected = Inr planned \<and> map m_name planned = selected
    \<and> (case plan_models env d t reprocess_all planned of
         Inl e \<Rightarrow> \<exists>m \<in> set planned. state_scope_for env m = Inl e
       | Inr plans \<Rightarrow> list_all2 (plan_describes env d t reprocess_all planned) planned plans)"
proof -
  from selected_models [OF assms] obtain planned where p: "lookup_models models selected = Inr planned"
    "map m_name planned = selected" "run_order d (map m_name planned)" .
  have "case plan_models env d t reprocess_all planned of
         Inl e \<Rightarrow> \<exists>m \<in> set planned. state_scope_for env m = Inl e
       | Inr plans \<Rightarrow> list_all2 (plan_describes env d t reprocess_all planned) planned plans"
    using plan_loop_error [of env d t reprocess_all planned "[]"] plans_described [OF p(3)]
    by (auto simp: plan_models_def split: sum.split)
  with p show ?thesis by blast
qed

section \<open>What passes the guards\<close>

definition reprocess_bound :: "plan_env \<Rightarrow> project_dag \<Rightarrow> state_row list \<Rightarrow> bool \<Rightarrow> model_spec list \<Rightarrow> model_spec \<Rightarrow> int" where
  "reprocess_bound env d t reprocess_all planned m =
     int (length (if reprocess_all \<or> changed_above env d t reprocess_all planned m \<noteq> {} then published_rows env t m
       else outdated_rows env t m))"

lemma guard_bounds_plan:
  assumes "plan_describes env d t reprocess_all planned m p" "guard_reprocess [p] = []"
    and "policy_of m = Some pol" "on_code_change pol = ''fail''" "\<not> rebuilt_every_run m" "\<not> has_block Search m"
  shows "reprocess_bound env d t reprocess_all planned m \<le> max 0 (reprocess_limit pol)"
proof -
  note p = assms(1) [unfolded plan_describes_def Let_def]
  have "published_rows env t m = [] \<Longrightarrow> outdated_rows env t m = []" by (simp add: outdated_rows_def)
  moreover have "pl_status p \<notin> {Changed, Cascade} \<or> pl_rows_to_reprocess p \<le> reprocess_limit pol"
    using assms(2,3,4) p by (auto simp: guard_reprocess_def split: if_splits)
  ultimately show ?thesis
    using p assms(5,6) by (auto simp: reprocess_bound_def own_change_def split: if_splits)
qed

lemma guard_reprocess_none: "guard_reprocess plans = [] \<Longrightarrow> p \<in> set plans \<Longrightarrow> guard_reprocess [p] = []"
  by (auto simp: guard_reprocess_def filter_empty_conv split: if_splits)

lemma reprocess_guard_passed:
  assumes "enforce_reprocess_guard env d t flags models selected = Inr made"
    and "\<not> rf_full_refresh flags" "\<not> rf_accept_reprocess flags"
    and "lookup_models models selected = Inr planned"
  shows "made = None \<and> guarded_models (rf_reprocess_all flags) planned = []
    \<or> (\<exists>plans. made = Some plans \<and> plan_models env d t (rf_reprocess_all flags) planned = Inr plans \<and> guard_reprocess plans = [])"
  using assms by (auto simp: enforce_reprocess_guard_def lift_plan_def rbind_eq_Inr split: if_splits sum.splits)

lemma cost_guard_passed:
  assumes "enforce_cost_guard env d t flags (Some usd) run_log confirm models selected made = Inr ()"
    and "\<not> rf_full_refresh flags" "\<not> rf_accept_cost flags" "lookup_models models selected = Inr planned"
    and "made = None \<or> made = Some plans' \<and> plan_models env d t (rf_reprocess_all flags) planned = Inr plans'"
  shows "\<exists>read plans with_price. run_log = Some read \<and> plan_models env d t (rf_reprocess_all flags) planned = Inr plans
    \<and> price_plans read (rf_reprocess_all flags) plans = Inr with_price
    \<and> (cp_total (project_cost usd with_price) \<le> usd \<or> (\<exists>ask. confirm = Some ask \<and> ask (project_cost usd with_price)))"
proof -
  have threshold: "cp_threshold (project_cost usd ps) = usd" for ps by (simp add: project_cost_def Let_def)
  from assms show ?thesis
    by (auto simp: enforce_cost_guard_def lift_plan_def rbind_eq_Inr exceeds_threshold_def threshold Let_def
        split: option.splits sum.splits if_splits)
qed



section \<open>A worked project\<close>

definition plain_policy :: reprocess_policy where
  "plain_policy = \<lparr>on_code_change = ''fail'', reprocess_limit = 0\<rparr>"

definition demo_spec :: "string \<Rightarrow> string option \<Rightarrow> string list option \<Rightarrow> model_kind \<Rightarrow> model_spec" where
  "demo_spec n src deps k = \<lparr>m_name = n, m_source = src, m_depends_on = deps, m_kinds = [k], m_tags = [], m_tests = [],
     m_golden_sets = [], ms_materialization = ''incremental'', ms_embed = plain_policy\<lparr>reprocess_limit := 1\<rparr>, ms_batch_size = 2,
     ms_llm = plain_policy, ms_store = None, ms_collection = None, ms_on_source_deletion = ''delete'',
     ms_transform_type = ''python'', ms_incremental_strategy = None\<rparr>"

definition demo_specs :: "model_spec list" where
  "demo_specs = [demo_spec ''c'' (Some ''r'') None Extraction, demo_spec ''v'' None (Some [''c'']) Embed,
     demo_spec ''f'' None (Some [''c'']) Llm]"

definition demo_sources :: "source_config list" where
  "demo_sources = [\<lparr>s_name = ''r'', s_tags = []\<rparr>]"

definition demo_dag :: project_dag where
  "demo_dag = projr (build_dag rev (\<lambda>_. True) demo_sources (map model_config.truncate demo_specs))"

definition demo_env :: plan_env where
  "demo_env = \<lparr>pe_code_version = (\<lambda>m. if m_name m = ''c'' then ''v2'' else ''v1''), pe_retrieval = None,
     pe_target_identity = (\<lambda>_ _. []), pe_embed_identity = (\<lambda>_. (''p'', ''m'')), pe_embed_requests = (\<lambda>_ n. Some 1),
     pe_describe_llm = (\<lambda>_. None), pe_describe_inference = (\<lambda>_. None)\<rparr>"

definition demo_row :: "string \<Rightarrow> string \<Rightarrow> string \<Rightarrow> state_row" where
  "demo_row model key version = \<lparr>sr_scope = materialization_scope model, sr_key = key, sr_fingerprint = ''f'',
     sr_version = version, sr_last_run = 0\<rparr>"

definition demo_state :: "state_row list" where
  "demo_state = [demo_row ''c'' ''a'' ''v1'', demo_row ''c'' ''b'' ''v2'', demo_row ''v'' ''a'' ''v1'']"

definition no_flags :: run_flags where
  "no_flags = \<lparr>rf_full_refresh = False, rf_reprocess_all = False, rf_accept_reprocess = False, rf_accept_cost = False\<rparr>"

lemma demo_dag:
  "keeps_elements (rev :: string list \<Rightarrow> string list)"
  "build_dag rev (\<lambda>_. True) demo_sources (map model_config.truncate demo_specs) = Inr demo_dag"
proof -
  show "keeps_elements (rev :: string list \<Rightarrow> string list)" by (simp add: keeps_elements_def)
  have "is_ok (build_dag rev (\<lambda>_. True) demo_sources (map model_config.truncate demo_specs))" by code_simp
  then show "build_dag rev (\<lambda>_. True) demo_sources (map model_config.truncate demo_specs) = Inr demo_dag"
    by (auto simp: demo_dag_def is_ok_iff)
qed

lemma demo_selection: "select_models demo_dag None None None = Inr [''c'', ''v'', ''f'']"
  by code_simp

theorem plan_models_exact_witness:
  "\<exists>planned plans. lookup_models demo_specs [''c'', ''v'', ''f''] = Inr planned
    \<and> plan_models demo_env demo_dag demo_state False planned = Inr plans
    \<and> list_all2 (plan_describes demo_env demo_dag demo_state False planned) planned plans
    \<and> map pl_status plans = [Changed, Cascade, New] \<and> map pl_caused_by plans = [[], [''c''], [''c'']]"
proof -
  have computed: "map_sum id (map pl_status) (plan_models demo_env demo_dag demo_state False demo_specs) = Inr [Changed, Cascade, New]"
    "map_sum id (map pl_caused_by) (plan_models demo_env demo_dag demo_state False demo_specs) = Inr [[], [''c''], [''c'']]"
    "lookup_models demo_specs [''c'', ''v'', ''f''] = Inr demo_specs" by (code_simp, code_simp, code_simp)
  from computed(1) obtain plans where plans: "plan_models demo_env demo_dag demo_state False demo_specs = Inr plans"
    by (cases "plan_models demo_env demo_dag demo_state False demo_specs") auto
  have "list_all2 (plan_describes demo_env demo_dag demo_state False demo_specs) demo_specs plans"
    using plan_models_exact [OF demo_dag demo_selection, of demo_env demo_state False] computed(3) plans by auto
  with computed plans show ?thesis by auto
qed


text \<open>
  With \<^verbatim>\<open>--reprocess-all\<close> an embed model is released: selected alone it runs however many rows it has. Beside an
  llm model under the guard that has nothing to reprocess, the same embed model is refused, because the guard then
  plans the whole selection and \<^verbatim>\<open>guard_reprocess\<close> looks at every plan.
\<close>

theorem reprocess_all_release_lost:
  "enforce_reprocess_guard demo_env demo_dag [demo_row ''v'' ''a'' ''v1'', demo_row ''v'' ''b'' ''v1'']
     (no_flags\<lparr>rf_reprocess_all := True\<rparr>) demo_specs [''v''] = Inr None
   \<and> map_sum (\<lambda>e. case e of ReprocessRefused ps \<Rightarrow> map pl_name ps | _ \<Rightarrow> []) id
       (enforce_reprocess_guard demo_env demo_dag [demo_row ''v'' ''a'' ''v1'', demo_row ''v'' ''b'' ''v1'']
         (no_flags\<lparr>rf_reprocess_all := True\<rparr>) demo_specs [''v'', ''f'']) = Inl [''v'']"
  by (rule conjI; code_simp)

end
