(* ===== verification/Skip_Props.thy ===== *)
theory Skip_Props
  imports Planning_Props Runner
begin

text \<open>
  The skip of an unchanged parent. A history interleaves runs of any model, under any flags, faults, project and
  code, with writes to the warehouse by others; beside the warehouse it keeps which models worked cleanly and what
  the warehouse held when they started. A model is skipped only where it once worked on the same parent.
\<close>

section \<open>What a run does with the watermark\<close>

definition keeps_watermarks :: "'r stage_runner \<Rightarrow> bool" where
  "keeps_watermarks run_stage \<longleftrightarrow> (\<forall>k m opts w. rw_watermarks (snd (run_stage k m opts w)) = rw_watermarks w)"

definition never_unchanged :: "'r stage_runner \<Rightarrow> bool" where
  "never_unchanged run_stage \<longleftrightarrow> (\<forall>k m opts w r w'. run_stage k m opts w = (Inr r, w') \<longrightarrow> rr_status r \<noteq> Some ''unchanged'')"

definition worked_cleanly :: "failure + model_run_result \<Rightarrow> bool" where
  "worked_cleanly outcome \<longleftrightarrow> (case outcome of Inl _ \<Rightarrow> False
     | Inr r \<Rightarrow> rr_errors r = [] \<and> rr_status r \<noteq> Some ''unchanged'')"

text \<open>The parent as a watermark describes it.\<close>

definition describes_parent :: "('r list \<Rightarrow> string) \<Rightarrow> sync_watermark \<Rightarrow> string \<Rightarrow> 'r run_world \<Rightarrow> bool" where
  "describes_parent content_hash wm p w \<longleftrightarrow> state_generation (rw_state w) (materialization_scope p) = Some (wm_state wm)
     \<and> table_content_fingerprint content_hash w p = Some (wm_content wm)"

lemma materialization_scope_eq [simp]: "materialization_scope a = materialization_scope b \<longleftrightarrow> a = b"
  by (simp add: materialization_scope_def)

lemma watermark_parts [simp]: "\<lparr>wm_state = wm_state wm, wm_content = wm_content wm\<rparr> = wm"
  by simp

lemma identity_keeps_watermarks [simp]: "rw_watermarks (record_identity_safely env components faults m w) = rw_watermarks w"
  by (simp add: record_identity_safely_def record_code_identity_def split: sum.split)

lemma skip_decision_cases:
  assumes "skip_decision env content_hash faults m p g w = Inr (count, content)"
  obtains wm n where "count = Some n" "content = Some (wm_content wm)" "table_content_fingerprint content_hash w p = content"
      "read_sync_watermark w (materialization_scope (m_name m)) (materialization_scope p) = Some wm" "wm_state wm = g"
      "published_row_count_if_code_unchanged env m faults w = Inr (Some n)"
    | "count = None" "content \<in> {None, table_content_fingerprint content_hash w p}"
proof -
  let ?read = "watermark_safely (cf_read_watermark faults)
      (read_sync_watermark w (materialization_scope (m_name m)) (materialization_scope p))"
  let ?found = "watermark_safely (cf_content faults) (table_content_fingerprint content_hash w p)"
  from assms obtain published where pub: "published_row_count_if_code_unchanged env m faults w = Inr published"
    by (auto simp: skip_decision_def rbind_eq_Inr)
  note d = assms [unfolded skip_decision_def pub rbind_simps Let_def]
  have safe: "watermark_safely f v \<in> {None, v}" for f and v :: "content_fingerprint option" by (simp add: watermark_safely_def)
  show thesis
  proof (cases "published \<noteq> None \<and> (\<exists>wm. ?read = Some wm \<and> wm_state wm = g \<and> ?found = Some (wm_content wm))")
    case True
    then obtain n wm where t: "published = Some n" "?read = Some wm" "wm_state wm = g" "?found = Some (wm_content wm)" by blast
    then have "count = Some n" "content = Some (wm_content wm)" using d by simp_all
    moreover have "read_sync_watermark w (materialization_scope (m_name m)) (materialization_scope p) = Some wm"
      "table_content_fingerprint content_hash w p = Some (wm_content wm)"
      using t(2,4) by (simp_all add: watermark_safely_def split: if_splits)
    ultimately show thesis using that(1) pub t by simp
  next
    case False
    then have "count = None \<and> content \<in> {?found, watermark_safely (cf_content_again faults) (table_content_fingerprint content_hash w p)}"
      using d by (cases published; cases ?read; cases ?found) (auto split: if_splits)
    then show thesis using that(2) safe by auto
  qed
qed

text \<open>The three ways a run that does not fail can end.\<close>

lemma run_model_cases [consumes 1, case_names skipped worked untracked]:
  assumes "run_model env components content_hash run_stage d opts faults m w = (Inr r, w')"
  obtains p wm n where "r = (new_result m)\<lparr>rr_status := Some ''unchanged'', rr_documents_skipped := n\<rparr>"
      "read_sync_watermark w (materialization_scope (m_name m)) (materialization_scope p) = Some wm"
      "describes_parent content_hash wm p w" "published_row_count_if_code_unchanged env m faults w = Inr (Some n)"
      "can_skip_unchanged_scan opts m" "single_data_parent d (m_name m) = Some p"
      "w' = after_stage env components faults m (Some (p, wm_state wm, wm_content wm)) r w"
    | p wm w1 where "execute_stage run_stage opts m w = (Inr r, w1)" "describes_parent content_hash wm p w"
      "w' = after_stage env components faults m (Some (p, wm_state wm, wm_content wm)) r w1"
    | w1 where "execute_stage run_stage opts m w = (Inr r, w1)" "w' = after_stage env components faults m None r w1"
proof -
  let ?parent = "if can_skip_unchanged_scan opts m then single_data_parent d (m_name m) else None"
  let ?generation = "Option.bind ?parent (\<lambda>p. map_option (Pair p)
      (watermark_safely (cf_generation faults) (state_generation (rw_state w) (materialization_scope p))))"
  let ?skipped = "\<lambda>n. (new_result m)\<lparr>rr_status := Some ''unchanged'', rr_documents_skipped := n\<rparr>"
  show thesis
  proof (cases ?generation)
    case None
    then obtain w1 where "execute_stage run_stage opts m w = (Inr r, w1)" "w' = after_stage env components faults m None r w1"
      using assms by (auto simp: run_model_def Let_def split: prod.splits sum.splits)
    then show thesis by (rule that(3))
  next
    case (Some pg)
    obtain p g where pg: "pg = (p, g)" by (cases pg)
    with Some have p: "can_skip_unchanged_scan opts m" "single_data_parent d (m_name m) = Some p"
      "state_generation (rw_state w) (materialization_scope p) = Some g"
      by (auto simp: bind_eq_Some_conv watermark_safely_def split: if_splits)
    from assms Some pg obtain count content where dec: "skip_decision env content_hash faults m p g w = Inr (count, content)"
      by (auto simp: run_model_def Let_def split: sum.splits)
    show thesis
    proof (cases count)
      case (Some n)
      with dec obtain wm where wm:
        "read_sync_watermark w (materialization_scope (m_name m)) (materialization_scope p) = Some wm"
        "wm_state wm = g" "content = Some (wm_content wm)" "table_content_fingerprint content_hash w p = content"
        "published_row_count_if_code_unchanged env m faults w = Inr (Some n)" by (auto elim: skip_decision_cases)
      have "r = ?skipped n \<and> w' = after_stage env components faults m (Some (p, g, wm_content wm)) r w"
        using assms \<open>?generation = Some pg\<close> pg dec Some wm(3) by (auto simp: run_model_def Let_def)
      then show thesis using that(1) [of n p wm] wm p by (simp add: describes_parent_def)
    next
      case None
      then obtain w1 where w1: "execute_stage run_stage opts m w = (Inr r, w1)"
        "w' = after_stage env components faults m (map_option (\<lambda>c. (p, g, c)) content) r w1"
        using assms \<open>?generation = Some pg\<close> pg dec
        by (auto simp: run_model_def Let_def split: prod.splits sum.splits)
      show thesis
      proof (cases content)
        case None
        with w1 show thesis using that(3) by simp
      next
        case (Some c)
        with dec None have "table_content_fingerprint content_hash w p = Some c" by (auto elim: skip_decision_cases)
        with p(3) have "describes_parent content_hash \<lparr>wm_state = g, wm_content = c\<rparr> p w"
          by (auto simp: describes_parent_def)
        with w1 Some show thesis using that(2) [of w1 "\<lparr>wm_state = g, wm_content = c\<rparr>" p] by simp
      qed
    qed
  qed
qed

section \<open>Histories\<close>

inductive run_history :: "('r list \<Rightarrow> string) \<Rightarrow> 'r run_world \<Rightarrow> (string \<times> 'r run_world) list \<Rightarrow> bool" for content_hash where
  start: "rw_watermarks w = [] \<Longrightarrow> run_history content_hash w []"
| outside: "run_history content_hash w h \<Longrightarrow> rw_watermarks w' = rw_watermarks w \<Longrightarrow> run_history content_hash w' h"
| ran: "run_history content_hash w h \<Longrightarrow> keeps_watermarks run_stage \<Longrightarrow> never_unchanged run_stage \<Longrightarrow>
    run_model env components content_hash run_stage d opts faults m w = (outcome, w') \<Longrightarrow>
    run_history content_hash w' (if worked_cleanly outcome then h @ [(m_name m, w)] else h)"

text \<open>Every watermark was left by a clean run of the model that started from a parent it describes.\<close>

definition watermarks_earned :: "('r list \<Rightarrow> string) \<Rightarrow> 'r run_world \<Rightarrow> (string \<times> 'r run_world) list \<Rightarrow> bool" where
  "watermarks_earned content_hash w h \<longleftrightarrow>
     (\<forall>child p wm. read_sync_watermark w (materialization_scope child) (materialization_scope p) = Some wm \<longrightarrow>
        (\<exists>w0. (child, w0) \<in> set h \<and> describes_parent content_hash wm p w0))"

lemma after_stage_watermarks:
  "rw_watermarks (after_stage env components faults m synced r w) =
     (case synced of None \<Rightarrow> rw_watermarks w
      | Some (p, g, c) \<Rightarrow> if rr_errors r = [] \<and> \<not> cf_write_watermark faults
          then AList.update (materialization_scope (m_name m), materialization_scope p) \<lparr>wm_state = g, wm_content = c\<rparr> (rw_watermarks w)
          else rw_watermarks w)"
  by (cases synced) (auto simp: after_stage_def Let_def write_sync_watermark_def)

lemma execute_keeps_watermarks:
  "keeps_watermarks run_stage \<Longrightarrow> rw_watermarks (snd (execute_stage run_stage opts m w)) = rw_watermarks w"
  by (simp add: execute_stage_def keeps_watermarks_def split: option.split)

lemma execute_never_unchanged:
  "never_unchanged run_stage \<Longrightarrow> execute_stage run_stage opts m w = (Inr r, w') \<Longrightarrow> rr_status r \<noteq> Some ''unchanged''"
  by (simp add: execute_stage_def never_unchanged_def split: option.splits) blast

lemma failed_run_keeps_watermarks:
  assumes "run_model env components content_hash run_stage d opts faults m w = (Inl e, w')" "keeps_watermarks run_stage"
  shows "rw_watermarks w' = rw_watermarks w"
  using assms execute_keeps_watermarks [OF assms(2), of opts m w]
  by (auto simp: run_model_def Let_def split: sum.splits option.splits prod.splits)

lemma earned_extend: "watermarks_earned content_hash w h \<Longrightarrow> set h \<subseteq> set h' \<Longrightarrow> rw_watermarks w' = rw_watermarks w \<Longrightarrow>
    watermarks_earned content_hash w' h'"
  unfolding watermarks_earned_def read_sync_watermark_def by (metis subsetD)

lemma earned_write:
  assumes "watermarks_earned content_hash w h" "set h \<subseteq> set h'"
    and "(m_name m, w0) \<in> set h'" "describes_parent content_hash wm p w0"
    and "rw_watermarks w' = rw_watermarks w \<or>
      rw_watermarks w' = AList.update (materialization_scope (m_name m), materialization_scope p) wm (rw_watermarks w)"
  shows "watermarks_earned content_hash w' h'"
  using assms(5)
proof
  assume "rw_watermarks w' = rw_watermarks w"
  with earned_extend [OF assms(1,2)] show ?thesis .
next
  assume written: "rw_watermarks w' = AList.update (materialization_scope (m_name m), materialization_scope p) wm (rw_watermarks w)"
  show ?thesis unfolding watermarks_earned_def
  proof (intro allI impI)
    fix child q wm'
    assume found: "read_sync_watermark w' (materialization_scope child) (materialization_scope q) = Some wm'"
    show "\<exists>w0. (child, w0) \<in> set h' \<and> describes_parent content_hash wm' q w0"
    proof (cases "child = m_name m \<and> q = p")
      case True
      with found written have "wm' = wm" by (simp add: read_sync_watermark_def update_conv')
      with True assms(3,4) show ?thesis by blast
    next
      case False
      with found written have "read_sync_watermark w (materialization_scope child) (materialization_scope q) = Some wm'"
        by (auto simp: read_sync_watermark_def update_conv' split: if_splits)
      with assms(1,2) show ?thesis unfolding watermarks_earned_def by (metis subsetD)
    qed
  qed
qed

lemma run_history_earned: "run_history content_hash w h \<Longrightarrow> watermarks_earned content_hash w h"
proof (induction rule: run_history.induct)
  case (start w)
  then show ?case by (simp add: watermarks_earned_def read_sync_watermark_def)
next
  case (outside w h w')
  then show ?case by (auto intro: earned_extend)
next
  case (ran w h run_stage env components d opts faults m outcome w')
  let ?h = "if worked_cleanly outcome then h @ [(m_name m, w)] else h"
  have more: "set h \<subseteq> set ?h" by auto
  show ?case
  proof (cases outcome)
    case (Inl e)
    with failed_run_keeps_watermarks ran.hyps have "rw_watermarks w' = rw_watermarks w" by blast
    with ran.IH more show ?thesis by (rule earned_extend)
  next
    case (Inr r)
    note run = ran.hyps(4) [unfolded Inr]
    from run show ?thesis
    proof (cases rule: run_model_cases)
      case (skipped p wm n)
      from ran.IH skipped(2) obtain w0 where "(m_name m, w0) \<in> set h" "describes_parent content_hash wm p w0"
        unfolding watermarks_earned_def by blast
      then show ?thesis
        by (intro earned_write [OF ran.IH more, of m w0 wm p]) (use more skipped in \<open>auto simp: after_stage_watermarks\<close>)
    next
      case (worked p wm w1)
      have w1: "rw_watermarks w1 = rw_watermarks w" using execute_keeps_watermarks [OF ran.hyps(2), of opts m w] worked(1) by simp
      show ?thesis
      proof (cases "rr_errors r = []")
        case True
        then have "worked_cleanly outcome" using Inr execute_never_unchanged [OF ran.hyps(3) worked(1)] by (simp add: worked_cleanly_def)
        then show ?thesis
          by (intro earned_write [OF ran.IH more, of m w wm p]) (use worked w1 in \<open>auto simp: after_stage_watermarks\<close>)
      next
        case False
        then have "rw_watermarks w' = rw_watermarks w" using worked(3) w1 by (simp add: after_stage_watermarks)
        with ran.IH more show ?thesis by (rule earned_extend)
      qed
    next
      case (untracked w1)
      then have "rw_watermarks w' = rw_watermarks w"
        using execute_keeps_watermarks [OF ran.hyps(2), of opts m w] by (simp add: after_stage_watermarks)
      with ran.IH more show ?thesis by (rule earned_extend)
    qed
  qed
qed

lemma published_count_exact:
  assumes "published_row_count_if_code_unchanged env m faults w = Inr (Some n)"
  shows "n = int (length (scope_state (materialization_scope (m_name m)) (rw_state w))) \<and> n \<noteq> 0
    \<and> (\<forall>r \<in> set (scope_state (materialization_scope (m_name m)) (rw_state w)). sr_version r = pe_code_version env m)"
  using assms counts_of_versions [of "\<lambda>v. v \<noteq> pe_code_version env m" "rw_state w" "materialization_scope (m_name m)"]
  by (auto simp: published_row_count_if_code_unchanged_def Let_def counts_total filter_empty_conv split: if_splits)

text \<open>
  C14: a model reported unchanged really had nothing to do. In every history of runs, whatever their flags, faults
  and code, and of writes by others, a model is skipped only if it is an incremental model with one data parent, it
  has published rows and all of them under its current code, and at an earlier time it worked without errors
  starting from a parent with the same state generation and the same content fingerprint. The count reported is the
  number of its published rows, and the skip changes nothing in the warehouse.
\<close>

theorem unchanged_only_after_same_parent:
  assumes "run_history content_hash w h" "never_unchanged run_stage"
    and "run_model env components content_hash run_stage d opts faults m w = (Inr r, w')" "rr_status r = Some ''unchanged''"
  shows "\<exists>p w0. single_data_parent d (m_name m) = Some p \<and> can_skip_unchanged_scan opts m \<and> (m_name m, w0) \<in> set h
    \<and> state_generation (rw_state w0) (materialization_scope p) = state_generation (rw_state w) (materialization_scope p)
    \<and> table_content_fingerprint content_hash w0 p = table_content_fingerprint content_hash w p
    \<and> table_content_fingerprint content_hash w p \<noteq> None
    \<and> (let rows = scope_state (materialization_scope (m_name m)) (rw_state w) in
        rows \<noteq> [] \<and> rr_documents_skipped r = int (length rows) \<and> list_all (\<lambda>x. sr_version x = pe_code_version env m) rows)
    \<and> rr_errors r = [] \<and> w' = w"
  using assms(3)
proof (cases rule: run_model_cases)
  case (skipped p wm n)
  from run_history_earned [OF assms(1)] skipped(2) obtain w0 where w0: "(m_name m, w0) \<in> set h" "describes_parent content_hash wm p w0"
    unfolding watermarks_earned_def by blast
  have "AList.update (materialization_scope (m_name m), materialization_scope p) wm (rw_watermarks w) = rw_watermarks w"
    using skipped(2) by (intro update_triv) (simp add: read_sync_watermark_def)
  then have same: "w' = w" using skipped(7) skipped(1) by (simp add: after_stage_def write_sync_watermark_def new_result_def)
  have "let rows = scope_state (materialization_scope (m_name m)) (rw_state w) in
      rows \<noteq> [] \<and> rr_documents_skipped r = int (length rows) \<and> list_all (\<lambda>x. sr_version x = pe_code_version env m) rows"
    using published_count_exact [OF skipped(4)] skipped(1) by (auto simp: Let_def list_all_iff)
  moreover have "rr_errors r = []" using skipped(1) by (simp add: new_result_def)
  ultimately show ?thesis
    using skipped w0 same by (intro exI [of _ p] exI [of _ w0]) (auto simp: describes_parent_def)
next
  case (worked p wm w1)
  with execute_never_unchanged [OF assms(2)] assms(4) show ?thesis by blast
next
  case (untracked w1)
  with execute_never_unchanged [OF assms(2)] assms(4) show ?thesis by blast
qed

section \<open>Example histories\<close>

text \<open>A stage that copies the table of its parent; a table is a string and its own hash.\<close>

definition copy_stage :: "char stage_runner" where
  "copy_stage k m opts w = (Inr (new_result m),
     w\<lparr>rw_tables := AList.update (m_name m) (case map_of (rw_tables w) ''c'' of Some t \<Rightarrow> t | None \<Rightarrow> []) (rw_tables w)\<rparr>)"

definition plain_options :: run_options where
  "plain_options = \<lparr>ro_full_refresh = False, ro_reprocess_all = False, ro_subset_run = False\<rparr>"

definition no_faults :: call_faults where
  "no_faults = \<lparr>cf_generation = False, cf_counts = False, cf_read_watermark = False, cf_content = False, cf_content_again = False,
     cf_write_watermark = False, cf_identity = False\<rparr>"

definition copier :: model_spec where
  "copier = demo_spec ''v'' None (Some [''c'']) Embed"

definition run_copier :: "run_options \<Rightarrow> char run_world \<Rightarrow> (failure + model_run_result) \<times> char run_world" where
  "run_copier opts = run_model demo_env (\<lambda>_. []) id copy_stage demo_dag opts no_faults copier"

definition fresh_world :: "char run_world" where
  "fresh_world = \<lparr>rw_state = demo_state, rw_tables = [(''c'', ''A'')], rw_watermarks = [], rw_identities = []\<rparr>"

definition write_parent :: "string \<Rightarrow> char run_world \<Rightarrow> char run_world" where
  "write_parent t w = w\<lparr>rw_tables := AList.update ''c'' t (rw_tables w)\<rparr>"

lemma copy_stage_ok: "keeps_watermarks copy_stage" "never_unchanged copy_stage"
  by (auto simp: keeps_watermarks_def never_unchanged_def copy_stage_def new_result_def)

lemma copier_twice:
  "worked_cleanly (fst (run_copier plain_options fresh_world))
   \<and> map_sum id rr_status (fst (run_copier plain_options (snd (run_copier plain_options fresh_world)))) = Inr (Some ''unchanged'')"
  by code_simp

theorem unchanged_only_after_same_parent_witness:
  "\<exists>p w0. (''v'', w0) \<in> set [(''v'', fresh_world)] \<and> map_of (rw_tables w0) p \<noteq> None
    \<and> table_content_fingerprint id w0 p = table_content_fingerprint id (snd (run_copier plain_options fresh_world)) p"
proof -
  let ?w = "snd (run_copier plain_options fresh_world)"
  have "run_history id fresh_world []" by (rule run_history.start) (simp add: fresh_world_def)
  from run_history.ran [OF this copy_stage_ok, of demo_env "\<lambda>_. []" demo_dag plain_options no_faults copier
      "fst (run_copier plain_options fresh_world)" ?w]
  have h: "run_history id ?w [(''v'', fresh_world)]"
    using copier_twice by (simp add: run_copier_def copier_def demo_spec_def)
  from copier_twice obtain r where r: "fst (run_copier plain_options ?w) = Inr r" "rr_status r = Some ''unchanged''"
    by (cases "fst (run_copier plain_options ?w)") auto
  then have "run_model demo_env (\<lambda>_. []) id copy_stage demo_dag plain_options no_faults copier ?w = (Inr r, snd (run_copier plain_options ?w))"
    by (simp add: run_copier_def prod_eq_iff)
  from unchanged_only_after_same_parent [OF h copy_stage_ok(2) this r(2)]
  obtain p w0 where p: "(m_name copier, w0) \<in> set [(''v'', fresh_world)]"
    "table_content_fingerprint id w0 p = table_content_fingerprint id ?w p" "table_content_fingerprint id ?w p \<noteq> None" by blast
  then show ?thesis
    by (intro exI [of _ p] exI [of _ w0] conjI) (auto simp: copier_def demo_spec_def table_content_fingerprint_def)
qed

text \<open>
  Only the runs the skip is eligible for move the watermark. A full refresh that consumed a parent written by somebody
  else leaves the older watermark behind; when that parent is written back, the next run reports the model unchanged
  although it holds rows made from the other content.
\<close>

theorem untracked_run_hides_parent:
  "let w1 = snd (run_copier plain_options fresh_world);
       w2 = snd (run_copier (plain_options\<lparr>ro_full_refresh := True\<rparr>) (write_parent ''B'' w1));
       (outcome, w3) = run_copier plain_options (write_parent ''A'' w2)
   in map_sum id rr_status outcome = Inr (Some ''unchanged'')
      \<and> map_of (rw_tables w3) ''c'' = Some ''A'' \<and> map_of (rw_tables w3) ''v'' = Some ''B''"
  by code_simp

end
