(* ===== verification/Runner_Props.thy ===== *)
theory Runner_Props
  imports Invocation Skip_Props
begin

text \<open>
  Properties of a build: it runs or skips every selected model, and skips exactly what lies below a failure.
\<close>

section \<open>What a build runs\<close>

definition failed_in :: "build_result \<Rightarrow> string \<Rightarrow> bool" where
  "failed_in out n \<longleftrightarrow> (\<exists>r \<in> set (br_runs out). rr_model r = n \<and> rr_errors r \<noteq> [])
     \<or> (\<exists>t \<in> set (br_tests out). tr_model t = n \<and> is_hard_failure t)"

definition names_results :: "(model_spec \<Rightarrow> 'w \<Rightarrow> (failure + model_run_result) \<times> 'w) \<Rightarrow> bool" where
  "names_results run \<longleftrightarrow> (\<forall>m w r w'. run m w = (Inr r, w') \<longrightarrow> rr_model r = m_name m)"

definition names_tests :: "(model_spec \<Rightarrow> 'w \<Rightarrow> (failure + test_result list) \<times> 'w) \<Rightarrow> bool" where
  "names_tests tests \<longleftrightarrow> (\<forall>m w ts w'. tests m w = (Inr ts, w') \<longrightarrow> tr_model ` set ts \<subseteq> {m_name m})"

definition build_inv :: "project_dag \<Rightarrow> string list \<Rightarrow> build_result \<Rightarrow> string list \<Rightarrow> bool" where
  "build_inv d names out blocked \<longleftrightarrow>
     set blocked = (\<Union>a \<in> {a \<in> set names. failed_in out a}. set (descendants d a))
     \<and> br_skipped out = filter (\<lambda>n. n \<in> set blocked) names
     \<and> map rr_model (br_runs out) = filter (\<lambda>n. n \<notin> set blocked) names
     \<and> tr_model ` set (br_tests out) \<subseteq> rr_model ` set (br_runs out)"

lemma ran_names: "build_inv d names out blocked \<Longrightarrow> rr_model ` set (br_runs out) \<subseteq> set names"
  by (metis (no_types, lifting) build_inv_def filter_is_subset set_map)

lemma failed_in_ran: "build_inv d names out blocked \<Longrightarrow> failed_in out a \<Longrightarrow> a \<in> rr_model ` set (br_runs out)"
  by (auto simp: build_inv_def failed_in_def)

lemma build_inv_skip:
  assumes "build_inv d names out blocked" "n \<in> set blocked" "n \<notin> set names"
  shows "build_inv d (names @ [n]) (out\<lparr>br_skipped := br_skipped out @ [n]\<rparr>) blocked"
proof -
  have "\<not> failed_in out n" using failed_in_ran [OF assms(1)] ran_names [OF assms(1)] assms(3) by blast
  then have "{a \<in> set (names @ [n]). failed_in out a} = {a \<in> set names. failed_in out a}" by auto
  then show ?thesis using assms by (simp add: build_inv_def failed_in_def)
qed

lemma build_inv_ran:
  assumes inv: "build_inv d names out blocked"
    and n: "n \<notin> set blocked" "n \<notin> set names" "set (descendants d n) \<inter> set (names @ [n]) = {}"
    and r: "rr_model r = n" "tr_model ` set ts \<subseteq> {n}"
    and blocked': "set blocked' = set blocked \<union> (if rr_errors r \<noteq> [] \<or> list_ex is_hard_failure ts then set (descendants d n) else {})"
  shows "build_inv d (names @ [n]) (out\<lparr>br_runs := br_runs out @ [r], br_tests := br_tests out @ ts\<rparr>) blocked'"
proof -
  let ?out = "out\<lparr>br_runs := br_runs out @ [r], br_tests := br_tests out @ ts\<rparr>"
  note i = inv [unfolded build_inv_def]
  have "\<not> failed_in out n" using failed_in_ran [OF inv] ran_names [OF inv] n(2) by blast
  then have new: "failed_in ?out n \<longleftrightarrow> rr_errors r \<noteq> [] \<or> list_ex is_hard_failure ts"
    using r by (auto simp: failed_in_def list_ex_iff)
  have old: "failed_in ?out a = failed_in out a" if "a \<in> set names" for a
    using that n(2) r by (auto simp: failed_in_def)
  have fails: "{a \<in> set (names @ [n]). failed_in ?out a} =
      {a \<in> set names. failed_in out a} \<union> (if failed_in ?out n then {n} else {})" using old by auto
  have "set blocked' = (\<Union>a \<in> {a \<in> set (names @ [n]). failed_in ?out a}. set (descendants d a))"
    unfolding fails using blocked' i new by auto
  moreover have "filter (\<lambda>x. x \<in> set blocked') names = filter (\<lambda>x. x \<in> set blocked) names"
    "filter (\<lambda>x. x \<notin> set blocked') names = filter (\<lambda>x. x \<notin> set blocked) names"
    using blocked' n(3) by (auto intro!: filter_cong)
  moreover have "n \<notin> set blocked'" using blocked' n(1,3) by auto
  ultimately show ?thesis using i r by (auto simp: build_inv_def)
qed

lemma build_model_inv:
  assumes "build_model txt run tests d m (out, blocked, w) = Inr (out', blocked', w')"
    and "names_results run" "names_tests tests" "build_inv d names out blocked"
    and "m_name m \<notin> set names" "set (descendants d (m_name m)) \<inter> set (names @ [m_name m]) = {}"
  shows "build_inv d (names @ [m_name m]) out' blocked'"
proof (cases "m_name m \<in> set blocked")
  case True
  with assms(1) build_inv_skip [OF assms(4) True assms(5)] show ?thesis by (simp add: build_model_def)
next
  case False
  note ran = build_inv_ran [OF assms(4) False assms(5,6)]
  obtain result w1 where run: "run m w = (result, w1)" by (cases "run m w")
  show ?thesis
  proof (cases result)
    case (Inl e)
    with assms(1) False run obtain e' where e: "e = RunFailed e'"
      and out: "out' = out\<lparr>br_runs := br_runs out @ [failed_model_result txt m e']\<rparr>" "blocked' = set_update (descendants d (m_name m)) blocked"
      by (auto simp: build_model_def split: failure.splits)
    have keeps: "rr_model (set_progress p r) = rr_model r \<and> rr_errors (set_progress p r) = rr_errors r" for p r
      by (cases "(p, r)" rule: set_progress.cases) auto
    have "rr_model (fold set_progress ps r) = rr_model r \<and> rr_errors (fold set_progress ps r) = rr_errors r" for ps r
      by (induction ps arbitrary: r) (auto simp: keeps)
    then have "rr_model (failed_model_result txt m e') = m_name m" "rr_errors (failed_model_result txt m e') \<noteq> []"
      by (simp_all add: failed_model_result_def new_result_def)
    from ran [OF this(1), of "[]" blocked'] this(2) out show ?thesis by (simp add: Un_commute)
  next
    case (Inr r)
    have name: "rr_model r = m_name m" using assms(2) run Inr by (auto simp: names_results_def)
    show ?thesis
    proof (cases "rr_errors r = []")
      case False
      with ran [OF name, of "[]" blocked'] assms(1) \<open>m_name m \<notin> set blocked\<close> run Inr show ?thesis
        by (auto simp: build_model_def Let_def Un_commute)
    next
      case True
      let ?tested = "if has_block Search m then (Inr [], w1) else tests m w1"
      obtain ts w2 where ts: "?tested = (Inr ts, w2)"
        using assms(1) False run Inr True by (cases ?tested) (auto simp: build_model_def Let_def split: sum.splits)
      have "tr_model ` set ts \<subseteq> {m_name m}" using assms(3) ts by (cases "has_block Search m") (auto simp: names_tests_def, blast)
      with ran [OF name this, of blocked'] assms(1) False run Inr True ts show ?thesis
        by (auto simp: build_model_def Let_def Un_commute)
    qed
  qed
qed

lemma build_loop_inv:
  assumes "build_loop txt run tests d ms (out, blocked, w) = Inr (out', blocked', w')"
    and "names_results run" "names_tests tests" "build_inv d (map m_name pre) out blocked"
    and "dag_wf d" "run_order d (map m_name (pre @ ms))"
  shows "build_inv d (map m_name (pre @ ms)) out' blocked'"
  using assms(1,4,6)
proof (induction ms arbitrary: pre out blocked w)
  case (Cons m ms)
  from Cons.prems(1) obtain out1 blocked1 w1 where step: "build_model txt run tests d m (out, blocked, w) = Inr (out1, blocked1, w1)"
    and rest: "build_loop txt run tests d ms (out1, blocked1, w1) = Inr (out', blocked', w')" by (auto simp: rbind_eq_Inr)
  have order: "run_order d (map m_name pre @ m_name m # map m_name ms)" using Cons.prems(3) by simp
  have "m_name m \<notin> set (map m_name pre)" using run_orderD(2) [OF order] by auto
  moreover have "set (descendants d (m_name m)) \<inter> set (map m_name pre @ [m_name m]) = {}"
  proof -
    have False if "x \<in> set (descendants d (m_name m))" "x \<in> set (map m_name pre @ [m_name m])" for x
    proof -
      have a: "m_name m \<in> set (ancestors d x)" using that(1) descendants_iff_ancestors [OF assms(5)] by blast
      from that(2) obtain us vs where "map m_name pre @ [m_name m] = us @ x # vs" by (meson split_list)
      then have "\<exists>vs'. map m_name pre @ m_name m # map m_name ms = us @ x # vs' \<and> m_name m \<in> set (x # vs')"
        by (metis (no_types, lifting) append.assoc append_Cons append_Nil in_set_conv_decomp list.set_intros(1) snoc_eq_iff_butlast
            Un_iff last_ConsL last_in_set last_snoc last_appendR list.distinct(1) set_append)
      then show False using run_orderD(1) order a by (metis disjoint_iff)
    qed
    then show ?thesis by blast
  qed
  ultimately have "build_inv d (map m_name (pre @ [m])) out1 blocked1"
    using build_model_inv [OF step assms(2,3) Cons.prems(2)] by simp
  from Cons.IH [OF rest this] Cons.prems(3) show ?case by simp
qed simp

lemma errored_count_failed:
  assumes "build_inv d names out blocked" "distinct names"
  shows "errored_count out = card {n \<in> set names. failed_in out n}"
proof -
  let ?bad = "filter (\<lambda>r. rr_errors r \<noteq> []) (br_runs out)"
  let ?hard = "tr_model ` set (filter is_hard_failure (br_tests out))"
  have "distinct (map rr_model (br_runs out))" using assms by (simp add: build_inv_def)
  then have "length ?bad = card (rr_model ` set ?bad)" by (metis distinct_card distinct_map_filter length_map set_map)
  then have "errored_count out = card (rr_model ` set ?bad \<union> (?hard - rr_model ` set ?bad))"
    unfolding errored_count_def by (subst card_Un_disjoint) auto
  also have "rr_model ` set ?bad \<union> (?hard - rr_model ` set ?bad) = {n \<in> set names. failed_in out n}"
  proof -
    have "tr_model ` set (br_tests out) \<subseteq> set names" using ran_names [OF assms(1)] assms(1) unfolding build_inv_def by blast
    then show ?thesis using ran_names [OF assms(1)] by (auto simp: failed_in_def)
  qed
  finally show ?thesis .
qed

lemma descendants_trans:
  assumes "dag_wf d" "b \<in> set (descendants d a)" "c \<in> set (descendants d b)"
  shows "c \<in> set (descendants d a)"
  using assms(2,3) by (auto simp: descendants_def set_bfs)

lemma build_inv_ancestors:
  assumes "build_inv d names out blocked" "dag_wf d"
    and "n \<in> rr_model ` set (br_runs out)" "a \<in> set names" "a \<in> set (ancestors d n)"
  shows "a \<in> rr_model ` set (br_runs out) \<and> \<not> failed_in out a"
proof -
  note i = assms(1) [unfolded build_inv_def]
  have ran: "rr_model ` set (br_runs out) = set names - set blocked" using i by (metis list.set_map set_filter set_diff_eq)
  have n: "n \<in> set (descendants d a)" using assms(2,5) descendants_iff_ancestors by blast
  have "n \<notin> set blocked" using assms(3) ran by blast
  then have "\<not> failed_in out a" and "a \<notin> set blocked"
    using i n assms(4) descendants_trans [OF assms(2) _ n] by auto
  with assms(4) ran show ?thesis by blast
qed

definition stages_name_results :: "'r stage_runner \<Rightarrow> bool" where
  "stages_name_results run_stage \<longleftrightarrow> (\<forall>k m opts w r w'. run_stage k m opts w = (Inr r, w') \<longrightarrow> rr_model r = m_name m)"

lemma run_model_named:
  assumes "stages_name_results run_stage"
  shows "names_results (\<lambda>m. run_model env components content_hash run_stage d opts (faults (m_name m)) m)"
  unfolding names_results_def
proof (intro allI impI)
  fix m w r w'
  assume "run_model env components content_hash run_stage d opts (faults (m_name m)) m w = (Inr r, w')"
  then have "rr_model r = m_name m \<or> (\<exists>w1. execute_stage run_stage opts m w = (Inr r, w1))"
    by (auto simp: run_model_def Let_def new_result_def split: sum.splits option.splits prod.splits)
  then show "rr_model r = m_name m"
    using assms unfolding execute_stage_def stages_name_results_def by (auto split: option.splits) metis
qed

lemma clear_run_selects:
  "clear_run json_loads parsed capable modified d models rq = Inr c \<Longrightarrow>
   select_models d (rq_select rq) (rq_exclude rq) modified = Inr (cr_selected c)"
  by (auto simp: clear_run_def rbind_eq_Inr lift_selection_def Let_def split: sum.splits)

text \<open>
  C15: a build that was cleared and ended runs or skips every selected model, in execution order. It skips exactly
  the models with a failed model above them, where a model fails by its own errors or by a failing test; so
  everything above a model that ran has run without failing. The closing counts add up: the errored models are
  those that failed and the others that ran are reported ok.
\<close>

theorem build_skips_exactly_below_failures:
  assumes "keeps_elements iter" "build_dag iter re_ok ss (map model_config.truncate models) = Inr d"
    and "clear_run json_loads parsed capable modified d models rq = Inr c"
    and "build_cleared env components content_hash run_stage tests txt faults threshold run_log confirm d models rq c w = Inr (out, w')"
    and "stages_name_results run_stage" "names_tests tests"
  shows "br_skipped out = filter (\<lambda>n. \<exists>a \<in> set (cr_selected c). failed_in out a \<and> n \<in> set (descendants d a)) (cr_selected c)
    \<and> map rr_model (br_runs out) = filter (\<lambda>n. n \<notin> set (br_skipped out)) (cr_selected c)
    \<and> (\<forall>n \<in> rr_model ` set (br_runs out). \<forall>a \<in> set (cr_selected c) \<inter> set (ancestors d n).
         a \<in> rr_model ` set (br_runs out) \<and> \<not> failed_in out a)
    \<and> errored_count out = card {n \<in> set (cr_selected c). failed_in out n}
    \<and> ok_count out = int (card {n \<in> rr_model ` set (br_runs out). \<not> failed_in out n})"
proof -
  note wf = build_dag_wf(1) [OF assms(1,2)]
  from selected_models [OF assms(1,2) clear_run_selects [OF assms(3)]] obtain planned
    where p: "lookup_models models (cr_selected c) = Inr planned" "map m_name planned = cr_selected c" "run_order d (map m_name planned)" .
  let ?run = "\<lambda>m. run_model env components content_hash run_stage d (options_of rq c) (faults (m_name m)) m"
  from assms(4) p(1) obtain blocked where loop: "build_loop txt ?run tests d planned (start_build w) = Inr (out, blocked, w')"
    by (auto simp: build_cleared_def rbind_eq_Inr map_sum_def split: sum.splits prod.splits)
  have start: "build_inv d (map m_name []) \<lparr>br_runs = [], br_tests = [], br_skipped = []\<rparr> []"
    by (simp add: build_inv_def failed_in_def)
  from build_loop_inv [OF loop [unfolded start_build_def] run_model_named [OF assms(5)] assms(6) start wf]
  have inv: "build_inv d (cr_selected c) out blocked" using p(2,3) by simp
  note i = inv [unfolded build_inv_def]
  have distinct: "distinct (cr_selected c)" using run_orderD(2) [OF p(3)] p(2) by simp
  have blocked: "n \<in> set blocked \<longleftrightarrow> (\<exists>a \<in> set (cr_selected c). failed_in out a \<and> n \<in> set (descendants d a))" for n
    using i by auto
  have skipped: "br_skipped out = filter (\<lambda>n. n \<in> set blocked) (cr_selected c)" using i by simp
  have ran: "map rr_model (br_runs out) = filter (\<lambda>n. n \<notin> set (br_skipped out)) (cr_selected c)"
    using i skipped by (auto intro: filter_cong)
  have runs: "distinct (map rr_model (br_runs out))" using ran distinct by simp
  let ?R = "rr_model ` set (br_runs out)" and ?F = "{n \<in> set (cr_selected c). failed_in out n}"
  have "?F \<subseteq> ?R" using failed_in_ran [OF inv] by blast
  then have "?R = ?F \<union> {n \<in> ?R. \<not> failed_in out n}" using ran_names [OF inv] by auto
  then have "card ?R = card ?F + card {n \<in> ?R. \<not> failed_in out n}"
    by (metis (no_types, lifting) List.finite_set card_Un_disjoint disjoint_iff finite_Un finite_imageI mem_Collect_eq)
  moreover have "length (br_runs out) = card ?R" using distinct_card [OF runs] by simp
  ultimately have "ok_count out = int (card {n \<in> ?R. \<not> failed_in out n})"
    using errored_count_failed [OF inv distinct] by (simp add: ok_count_def)
  then show ?thesis
    using skipped blocked ran build_inv_ancestors [OF inv wf] errored_count_failed [OF inv distinct] by auto
qed

definition plain_request :: run_request where
  "plain_request = \<lparr>rq_flags = no_flags, rq_select = None, rq_exclude = None, rq_source_filter = [], rq_read_filter = [], rq_approvals = []\<rparr>"

definition all_capable :: capabilities where
  "all_capable = \<lparr>cap_warehouse = (\<lambda>_. True), cap_retrieval = (\<lambda>_. True), cap_tests = (\<lambda>_. True)\<rparr>"

definition demo_stage :: "unit stage_runner" where
  "demo_stage k m opts w = (if m_name m = ''c'' then Inl (RunFailed \<lparr>re_text = ''x'', re_progress = [(''rows_written'', PyInt 3)]\<rparr>)
     else Inr (new_result m), w)"

definition demo_tests :: "model_spec \<Rightarrow> unit run_world \<Rightarrow> (failure + test_result list) \<times> unit run_world" where
  "demo_tests m w = (Inr [], w)"

definition demo_world :: "unit run_world" where
  "demo_world = \<lparr>rw_state = demo_state, rw_tables = [], rw_watermarks = [], rw_identities = []\<rparr>"

definition demo_cleared :: cleared_run where
  "demo_cleared = \<lparr>cr_selected = [''c'', ''v'', ''f''], cr_subset_run = False, cr_predicates = []\<rparr>"

lemma demo_cleared: "clear_run (\<lambda>_. None) ms_incremental_strategy all_capable None demo_dag demo_specs plain_request = Inr demo_cleared"
  by code_simp

theorem build_skips_exactly_below_failures_witness:
  "\<exists>out w. build_cleared demo_env (\<lambda>_. []) (\<lambda>_. []) demo_stage demo_tests re_text (\<lambda>_. no_faults) None None None
      demo_dag demo_specs plain_request demo_cleared demo_world = Inr (out, w)
    \<and> br_skipped out = [''v'', ''f''] \<and> map rr_rows_written (br_runs out) = [3]
    \<and> errored_count out = card {n \<in> set (cr_selected demo_cleared). failed_in out n}"
proof -
  let ?b = "build_cleared demo_env (\<lambda>_. []) (\<lambda>_. []) demo_stage demo_tests re_text (\<lambda>_. no_faults) None None None
      demo_dag demo_specs plain_request demo_cleared demo_world"
  have computed: "map_sum (\<lambda>_. ()) (\<lambda>(out, w). (br_skipped out, map rr_rows_written (br_runs out))) ?b = Inr ([''v'', ''f''], [3])"
    by code_simp
  then obtain out w where b: "?b = Inr (out, w)" "br_skipped out = [''v'', ''f'']" "map rr_rows_written (br_runs out) = [3]"
    by (cases ?b) auto
  have "stages_name_results demo_stage" "names_tests demo_tests"
    by (auto simp: stages_name_results_def names_tests_def demo_stage_def demo_tests_def new_result_def split: if_splits)
  from build_skips_exactly_below_failures [OF demo_dag demo_cleared b(1) this]
  have "errored_count out = card {n \<in> set (cr_selected demo_cleared). failed_in out n}" by blast
  with b show ?thesis by (intro exI [of _ out] exI [of _ w] conjI)
qed

end
