(* ===== verification/Vocabulary.thy ===== *)
theory Vocabulary
  imports Class_Hierarchy
begin

text \<open>
  Declared vocabularies (\<^verbatim>\<open>src/stel/config/vocabulary.py\<close>): terms with a broader term, their validation, the
  chain above a term, the terms below it, and the check of a declaration against the project around it. The loops
  interpret the walks of \<open>Graph_Walk\<close>.
\<close>

section \<open>Declarations\<close>

record vocabulary_term =
  vt_label :: string
  vt_description :: "string option"
  vt_aliases :: "string list"
  vt_broader :: "string option"
  vt_class :: "string option"

record vocabulary_source =
  vs_path :: "string option"
  vs_relation :: "string option"
  vs_label_column :: string
  vs_description_column :: "string option"
  vs_max_terms :: int

text \<open>\<open>vb_terms_given\<close> is \<^verbatim>\<open>"terms" in self.model_fields_set\<close>.\<close>

record vocabulary =
  vb_terms :: "vocabulary_term list"
  vb_terms_given :: bool
  vb_source :: "vocabulary_source option"
  vb_extra_terms :: "vocabulary_term list"

datatype vocabulary_error =
    EmptyLabel
  | EmptyClass
  | EmptyAlias
  | DuplicateAlias string
  | SourceChoice
  | SeedNotCsv
  | RelationScheme
  | RelationParts
  | RelationPart string
  | EmptyColumn
  | NonPositiveMax
  | TermsAndSource
  | DuplicateExtraLabels
  | TooManyExtraTerms
  | NoTerms
  | ExtraTermsNeedSource
  | DuplicateLabel string
  | OwnBroader string
  | UnknownBroader string string
  | BroaderCycle string
  | BadVocabularyName name_error
  | UndeclaredClass string string string
  | EmptyRelationType

section \<open>Validation of one term\<close>

definition validate_label :: "string \<Rightarrow> vocabulary_error + string" where
  "validate_label v = (if py_strip v = [] then Inl EmptyLabel else Inr v)"

definition validate_entity_class :: "string option \<Rightarrow> vocabulary_error + string option" where
  "validate_entity_class v = (case v of None \<Rightarrow> Inr None
     | Some c \<Rightarrow> if py_strip c = [] then Inl EmptyClass else Inr (Some (py_strip c)))"

fun validate_alias_list :: "string list \<Rightarrow> string list \<Rightarrow> vocabulary_error + unit" where
  "validate_alias_list seen [] = Inr ()"
| "validate_alias_list seen (a # as) =
     (if py_strip a = [] then Inl EmptyAlias
      else if a \<in> set seen then Inl (DuplicateAlias a)
      else validate_alias_list (a # seen) as)"

definition new_term :: "string \<Rightarrow> string option \<Rightarrow> string list \<Rightarrow> string option \<Rightarrow> string option \<Rightarrow> vocabulary_error + vocabulary_term" where
  "new_term label description aliases broader entity_class =
     rbind (validate_label label) (\<lambda>label.
     rbind (validate_alias_list [] aliases) (\<lambda>_.
     rbind (validate_entity_class entity_class) (\<lambda>c.
       Inr \<lparr>vt_label = label, vt_description = description, vt_aliases = aliases, vt_broader = broader, vt_class = c\<rparr>)))"

section \<open>Sources\<close>

definition relation_head_char :: "char \<Rightarrow> bool" where
  "relation_head_char c \<longleftrightarrow> ident_char c \<or> c = CHR ''-''"

text \<open>\<^verbatim>\<open>_RELATION_HEAD\<close>: a letter or digit, then letters, digits, underscores and dashes; the end also matches before a newline.\<close>

fun relation_head :: "string \<Rightarrow> bool" where
  "relation_head [] = False"
| "relation_head (c # s) = (ident_char c \<and> c \<noteq> CHR ''_'' \<and> list_all relation_head_char s)"

definition relation_head_match :: "string \<Rightarrow> bool" where
  "relation_head_match s \<longleftrightarrow> relation_head s \<or> (s \<noteq> [] \<and> last s = CHR 0x0A \<and> relation_head (butlast s))"

definition validate_relation_name :: "string \<Rightarrow> vocabulary_error + unit" where
  "validate_relation_name relation =
     (let parts = py_split_char CHR ''.'' relation;
          tail = drop (length parts - 2) parts; heads = take (length parts - 2) parts in
      rbind (guard (1 \<le> length parts \<and> length parts \<le> 3) RelationParts) (\<lambda>_.
      rbind (each (\<lambda>part. guard (ident_re_match part) (RelationPart part)) tail) (\<lambda>_.
        each (\<lambda>part. guard (relation_head_match part) (RelationPart part)) heads)))"

definition warehouse_source_scheme :: string where
  "warehouse_source_scheme = ''warehouse://''"

definition validate_source :: "vocabulary_source \<Rightarrow> vocabulary_error + unit" where
  "validate_source s =
     rbind (guard (0 < vs_max_terms s) NonPositiveMax) (\<lambda>_.
     rbind (guard ((vs_path s = None) \<noteq> (vs_relation s = None)) SourceChoice) (\<lambda>_.
     rbind (case vs_path s of None \<Rightarrow> Inr ()
       | Some p \<Rightarrow> guard (p \<noteq> [] \<and> py_endswith (py_lower p) ''.csv'') SeedNotCsv) (\<lambda>_.
     rbind (case vs_relation s of None \<Rightarrow> Inr ()
       | Some r \<Rightarrow> rbind (guard (py_startswith r warehouse_source_scheme) RelationScheme) (\<lambda>_.
           validate_relation_name (drop (length warehouse_source_scheme) r))) (\<lambda>_.
     rbind (guard (py_strip (vs_label_column s) \<noteq> []) EmptyColumn) (\<lambda>_.
       case vs_description_column s of None \<Rightarrow> Inr () | Some c \<Rightarrow> guard (py_strip c \<noteq> []) EmptyColumn)))))"

section \<open>Validation of a vocabulary\<close>

definition by_label :: "vocabulary_term list \<Rightarrow> (string \<times> vocabulary_term) list" where
  "by_label terms = dict_of (map (\<lambda>t. (vt_label t, t)) terms)"

text \<open>
  The inner loop of \<^verbatim>\<open>_reject_broader_cycles\<close>: whether it meets a label again. A label without a term is a
  \<^verbatim>\<open>KeyError\<close> there, which the checks before it exclude; it ends the loop here.
\<close>

function broader_loops :: "(string \<times> vocabulary_term) list \<Rightarrow> string list \<Rightarrow> string option \<Rightarrow> bool" where
  "broader_loops terms seen current =
     (case current of None \<Rightarrow> False
      | Some c \<Rightarrow> if c \<in> set seen then True
          else (case map_of terms c of None \<Rightarrow> False | Some t \<Rightarrow> broader_loops terms (seen @ [c]) (vt_broader t)))"
  by pat_completeness auto
termination
proof (relation "measure (\<lambda>(terms, seen, current). card (fst ` set terms - set seen))")
  show "wf (measure (\<lambda>(terms, seen, current :: string option). card (fst ` set (terms :: (string \<times> vocabulary_term) list) - set seen)))"
    by simp
next
  fix terms :: "(string \<times> vocabulary_term) list" and seen current c t
  assume "c \<notin> set seen" "map_of terms c = Some t"
  then have "c \<in> fst ` set terms - set seen" by (force dest: map_of_SomeD)
  then have "card (fst ` set terms - set (seen @ [c])) < card (fst ` set terms - set seen)" by (intro psubset_card_mono) auto
  then show "((terms, seen @ [c], vt_broader t), terms, seen, current) \<in> measure (\<lambda>(terms, seen, current). card (fst ` set terms - set seen))"
    by simp
qed

declare broader_loops.simps [simp del]

fun reject_duplicate_labels :: "string list \<Rightarrow> vocabulary_term list \<Rightarrow> vocabulary_error + unit" where
  "reject_duplicate_labels seen [] = Inr ()"
| "reject_duplicate_labels seen (t # ts) =
     (if vt_label t \<in> set seen then Inl (DuplicateLabel (vt_label t)) else reject_duplicate_labels (vt_label t # seen) ts)"

definition check_broader :: "(string \<times> vocabulary_term) list \<Rightarrow> vocabulary_term \<Rightarrow> vocabulary_error + unit" where
  "check_broader terms t = (case vt_broader t of None \<Rightarrow> Inr ()
     | Some b \<Rightarrow> if b = vt_label t then Inl (OwnBroader b)
         else if map_of terms b = None then Inl (UnknownBroader (vt_label t) b) else Inr ())"

definition reject_broader_cycles :: "(string \<times> vocabulary_term) list \<Rightarrow> vocabulary_error + unit" where
  "reject_broader_cycles terms = each (\<lambda>(start, t). guard (\<not> broader_loops terms [] (Some start)) (BroaderCycle start)) terms"

definition validate_terms :: "vocabulary \<Rightarrow> vocabulary_error + unit" where
  "validate_terms v =
     (case vb_source v of
        Some s \<Rightarrow>
          (let extra = map vt_label (vb_extra_terms v) in
           rbind (guard (\<not> vb_terms_given v) TermsAndSource) (\<lambda>_.
           rbind (guard (length extra = card (set extra)) DuplicateExtraLabels) (\<lambda>_.
             guard (int (length extra) \<le> vs_max_terms s) TooManyExtraTerms)))
      | None \<Rightarrow>
          rbind (guard (vb_terms v \<noteq> []) NoTerms) (\<lambda>_.
          rbind (guard (vb_extra_terms v = []) ExtraTermsNeedSource) (\<lambda>_.
          rbind (reject_duplicate_labels [] (vb_terms v)) (\<lambda>_.
          rbind (each (check_broader (by_label (vb_terms v))) (vb_terms v)) (\<lambda>_.
            reject_broader_cycles (by_label (vb_terms v)))))))"

section \<open>Reading a vocabulary\<close>

definition labels :: "vocabulary \<Rightarrow> string list" where
  "labels v = map vt_label (vb_terms v)"

definition descriptions :: "vocabulary \<Rightarrow> (string \<times> string) list" where
  "descriptions v = dict_of (List.map_filter (\<lambda>t. case vt_description t of
     Some d \<Rightarrow> if d \<noteq> [] then Some (vt_label t, d) else None | None \<Rightarrow> None) (vb_terms v))"

definition labels_in_class :: "vocabulary \<Rightarrow> string \<Rightarrow> string list" where
  "labels_in_class v entity_class = map vt_label (filter (\<lambda>t. vt_class t = Some entity_class) (vb_terms v))"

definition broader_of :: "(string \<times> vocabulary_term) list \<Rightarrow> string \<Rightarrow> string option" where
  "broader_of terms l = Option.bind (map_of terms l) vt_broader"

function broader_walk :: "(string \<times> vocabulary_term) list \<Rightarrow> string \<Rightarrow> string list \<Rightarrow> string list" where
  "broader_walk terms l seen =
     (case broader_of terms l of None \<Rightarrow> []
      | Some b \<Rightarrow> if b \<in> set seen then [] else b # broader_walk terms b (b # seen))"
  by pat_completeness auto
termination
proof (relation "measure (\<lambda>(terms, l, seen). card (ran (broader_of terms) - set seen))")
  show "wf (measure (\<lambda>(terms, l :: string, seen). card (ran (broader_of terms) - set seen)))" by simp
next
  fix terms :: "(string \<times> vocabulary_term) list" and l seen b
  assume "broader_of terms l = Some b" "b \<notin> set seen"
  moreover have "finite (ran (broader_of terms))"
  proof (rule finite_subset)
    show "ran (broader_of terms) \<subseteq> (\<Union>x \<in> snd ` set terms. set_option (vt_broader x))"
      by (force simp: ran_def broader_of_def bind_eq_Some_conv dest: map_of_SomeD)
  qed simp
  ultimately have "card (ran (broader_of terms) - set (b # seen)) < card (ran (broader_of terms) - set seen)"
    by (intro psubset_card_mono) (auto simp: ran_def)
  then show "((terms, b, b # seen), terms, l, seen) \<in> measure (\<lambda>(terms, l, seen). card (ran (broader_of terms) - set seen))" by simp
qed

declare broader_walk.simps [simp del]

definition broader_chain :: "vocabulary \<Rightarrow> string \<Rightarrow> string list" where
  "broader_chain v l = (let terms = by_label (vb_terms v) in
     if map_of terms l = None then [] else broader_walk terms l [l])"

definition children_of :: "vocabulary_term list \<Rightarrow> string \<Rightarrow> string list" where
  "children_of terms l = map vt_label (filter (\<lambda>t. vt_broader t = Some l) terms)"

function narrower_loop :: "vocabulary_term list \<Rightarrow> string \<Rightarrow> string list \<Rightarrow> string list \<Rightarrow> string list" where
  "narrower_loop terms start frontier out =
     (case frontier of [] \<Rightarrow> out
      | current # rest \<Rightarrow>
          if current \<in> {start} \<union> set out then narrower_loop terms start rest out
          else narrower_loop terms start (rest @ children_of terms current) (out @ [current]))"
  by pat_completeness auto
termination
proof (relation "measures [\<lambda>(terms, start, frontier, out). card ((set frontier \<union> vt_label ` set terms) - set out),
    \<lambda>(terms, start, frontier, out). length frontier]")
  show "wf (measures [\<lambda>(terms, start :: string, frontier, out). card ((set frontier \<union> vt_label ` set terms) - set out),
    \<lambda>(terms, start, frontier, out). length frontier])" by simp
next
  fix terms :: "vocabulary_term list" and start current :: string and frontier out rest :: "string list"
  assume f: "frontier = current # rest" "current \<in> {start} \<union> set out"
  have "card ((set rest \<union> vt_label ` set terms) - set out) \<le> card ((set frontier \<union> vt_label ` set terms) - set out)"
    by (rule card_mono) (auto simp: f)
  then show "((terms, start, rest, out), terms, start, frontier, out) \<in> measures
      [\<lambda>(terms, start, frontier, out). card ((set frontier \<union> vt_label ` set terms) - set out), \<lambda>(terms, start, frontier, out). length frontier]"
    using f by auto
next
  fix terms :: "vocabulary_term list" and start current :: string and frontier out rest :: "string list"
  assume f: "frontier = current # rest" "current \<notin> {start} \<union> set out"
  have "card ((set (rest @ children_of terms current) \<union> vt_label ` set terms) - set (out @ [current]))
      < card ((set frontier \<union> vt_label ` set terms) - set out)"
    by (rule psubset_card_mono) (use f in \<open>auto simp: children_of_def\<close>)
  then show "((terms, start, rest @ children_of terms current, out @ [current]), terms, start, frontier, out) \<in> measures
      [\<lambda>(terms, start, frontier, out). card ((set frontier \<union> vt_label ` set terms) - set out), \<lambda>(terms, start, frontier, out). length frontier]"
    by simp
qed

declare narrower_loop.simps [simp del]

definition narrower_labels :: "vocabulary \<Rightarrow> string \<Rightarrow> string list" where
  "narrower_labels v l = narrower_loop (vb_terms v) l (children_of (vb_terms v) l) []"

section \<open>A declaration in its project\<close>

definition check_declaration :: "(string \<times> vocabulary) list \<Rightarrow> string list \<Rightarrow> vocabulary_error + unit" where
  "check_declaration vocabularies classes =
     each (\<lambda>(name, v).
       rbind (case validate_node_name name ''Vocabulary'' False of Inl e \<Rightarrow> Inl (BadVocabularyName e) | Inr _ \<Rightarrow> Inr ()) (\<lambda>_.
         each (\<lambda>t. case vt_class t of None \<Rightarrow> Inr ()
           | Some c \<Rightarrow> guard (c \<in> set classes) (UndeclaredClass name (vt_label t) c)) (vb_terms v @ vb_extra_terms v))) vocabularies"

definition declared_terms :: "(string \<times> vocabulary) list \<Rightarrow> ((string \<times> string) \<times> vocabulary_term) list" where
  "declared_terms vocabularies =
     dict_of (concat (map (\<lambda>(name, v). map (\<lambda>t. ((name, vt_label t), t)) (vb_terms v)) vocabularies))"

record relation_type_def =
  rt_name :: string
  rt_subject_class :: string
  rt_object_class :: string

definition non_empty :: "string \<Rightarrow> vocabulary_error + string" where
  "non_empty v = (if py_strip v = [] then Inl EmptyRelationType else Inr (py_strip v))"

definition new_relation_type :: "string \<Rightarrow> string \<Rightarrow> string \<Rightarrow> vocabulary_error + relation_type_def" where
  "new_relation_type name subject object =
     rbind (non_empty name) (\<lambda>name. rbind (non_empty subject) (\<lambda>subject. rbind (non_empty object) (\<lambda>object.
       Inr \<lparr>rt_name = name, rt_subject_class = subject, rt_object_class = object\<rparr>)))"

end
