(* ===== verification/Vocabulary_Props.thy ===== *)
theory Vocabulary_Props
  imports Vocabulary
begin

text \<open>
  Properties of vocabularies: what validation accepts, and that on an accepted vocabulary the chain above a term
  and the terms below it are inverse readings of one acyclic relation.
\<close>

section \<open>The loops are the walks of the library\<close>

interpretation broader: guarded_walk "broader_of terms" "broader_walk terms" for terms
proof unfold_locales
  show "finite (ran (broader_of terms))"
  proof (rule finite_subset)
    show "ran (broader_of terms) \<subseteq> (\<Union>x \<in> snd ` set terms. set_option (vt_broader x))"
      by (force simp: ran_def broader_of_def bind_eq_Some_conv dest: map_of_SomeD)
  qed simp
  show "broader_walk terms x seen =
      (case broader_of terms x of None \<Rightarrow> [] | Some p \<Rightarrow> if p \<in> set seen then [] else p # broader_walk terms p (p # seen))" for x seen
    by (rule broader_walk.simps)
qed

interpretation narrower: worklist_walk "children_of terms" "\<lambda>q. (hd q, tl q)" "{start}" "narrower_loop terms start" for terms start
proof unfold_locales
  show "finite (\<Union>x. set (children_of terms x))"
    by (rule finite_subset [of _ "vt_label ` set terms"]) (auto simp: children_of_def)
  show "set queue = insert x (set rest) \<and> length rest < length queue" if "queue \<noteq> []" "(hd queue, tl queue) = (x, rest)" for queue rest :: "string list" and x
    using that by (cases queue) auto
  show "narrower_loop terms start queue out = (if queue = [] then out else case (hd queue, tl queue) of (x, rest) \<Rightarrow>
      if x \<in> {start} \<union> set out then narrower_loop terms start rest out
      else narrower_loop terms start (rest @ children_of terms x) (out @ [x]))" for queue out
    by (subst narrower_loop.simps) (simp split: list.splits)
qed

text \<open>The cycle check follows the same links as the check of class hierarchies.\<close>

definition broader_pairs :: "(string \<times> vocabulary_term) list \<Rightarrow> (string \<times> string) list" where
  "broader_pairs terms = List.map_filter (\<lambda>(l, t). map_option (Pair l) (vt_broader t)) terms"

lemma map_of_broader_pairs: "distinct (map fst terms) \<Longrightarrow> map_of (broader_pairs terms) = broader_of terms"
proof (induction terms)
  case Nil
  show ?case by (simp add: broader_pairs_def broader_of_def fun_eq_iff List.map_filter_def)
next
  case (Cons lt terms)
  obtain l t where lt: "lt = (l, t)" by (cases lt)
  have "map_of terms l = None" using Cons.prems lt by (simp add: map_of_eq_None_iff)
  then have "broader_of terms l = None" by (simp add: broader_of_def)
  with Cons lt show ?case
    by (cases "vt_broader t") (auto simp: broader_pairs_def broader_of_def fun_eq_iff map_filter_simps)
qed

lemma broader_loops_class_cycle:
  assumes "distinct (map fst terms)" "set seen \<subseteq> dom (broader_of terms)"
    and "\<And>l b. broader_of terms l = Some b \<Longrightarrow> map_of terms b \<noteq> None" "map_of terms c \<noteq> None"
  shows "broader_loops terms seen (Some c) \<longleftrightarrow> class_cycle (broader_pairs terms) seen c \<noteq> None"
  using assms
proof (induction "broader_pairs terms" seen c rule: class_cycle.induct)
  case (1 seen c)
  note pairs = map_of_broader_pairs [OF "1.prems"(1)]
  obtain t where t: "map_of terms c = Some t" using "1.prems"(4) by blast
  show ?case
  proof (cases "vt_broader t")
    case None
    with t have "c \<notin> set seen" "map_of (broader_pairs terms) c = None"
      using "1.prems"(2) pairs by (auto simp: broader_of_def)
    with None t show ?thesis by (subst broader_loops.simps, subst class_cycle.simps) (simp add: broader_loops.simps)
  next
    case (Some b)
    then have b: "broader_of terms c = Some b" using t by (simp add: broader_of_def)
    show ?thesis
    proof (cases "c \<in> set seen")
      case True
      with b pairs show ?thesis by (subst broader_loops.simps, subst class_cycle.simps) simp
    next
      case False
      have "broader_loops terms (seen @ [c]) (Some b) \<longleftrightarrow> class_cycle (broader_pairs terms) (seen @ [c]) b \<noteq> None"
        by (rule "1.hyps") (use b pairs False "1.prems" in auto)
      with False t Some b pairs show ?thesis by (subst broader_loops.simps, subst class_cycle.simps) simp
    qed
  qed
qed

section \<open>What validation accepts\<close>

definition broader_link :: "vocabulary_term list \<Rightarrow> (string \<times> string) set" where
  "broader_link terms = {(vt_label t, b) | t b. t \<in> set terms \<and> vt_broader t = Some b}"

lemma reject_duplicate_labels_ok:
  "reject_duplicate_labels seen ts = Inr () \<longleftrightarrow> distinct (map vt_label ts) \<and> set (map vt_label ts) \<inter> set seen = {}"
  by (induction ts arbitrary: seen) auto

lemma by_label_distinct: "distinct (map vt_label ts) \<Longrightarrow> by_label ts = map (\<lambda>t. (vt_label t, t)) ts"
  unfolding by_label_def by (rule dict_of_distinct) (simp add: comp_def)

lemma broader_of_link:
  assumes "distinct (map vt_label ts)"
  shows "parent_rel (broader_of (by_label ts)) = broader_link ts"
proof -
  have "map_of (map (\<lambda>t. (vt_label t, t)) ts) l = Some t \<longleftrightarrow> t \<in> set ts \<and> vt_label t = l" for l t
    using assms by (subst map_of_eq_Some_iff) (auto simp: comp_def)
  then show ?thesis
    by (auto simp: broader_link_def broader_of_def by_label_distinct [OF assms] bind_eq_Some_conv)
qed

lemma by_label_None: "map_of (by_label ts) b = None \<longleftrightarrow> b \<notin> vt_label ` set ts"
  by (simp add: map_of_eq_None_iff by_label_def image_image)

lemma check_broader_ok:
  "each (check_broader (by_label ts)) ts = Inr () \<longleftrightarrow>
    (\<forall>l. (l, l) \<notin> broader_link ts) \<and> snd ` broader_link ts \<subseteq> vt_label ` set ts"
proof -
  have "check_broader (by_label ts) t = Inr () \<longleftrightarrow>
      (\<forall>b. vt_broader t = Some b \<longrightarrow> b \<noteq> vt_label t \<and> b \<in> vt_label ` set ts)" for t
    by (simp add: check_broader_def by_label_None split: option.split)
  then show ?thesis by (auto simp: each_ok broader_link_def image_def)
qed

lemma reject_broader_cycles_ok:
  assumes "distinct (map vt_label ts)" "snd ` broader_link ts \<subseteq> vt_label ` set ts"
  shows "reject_broader_cycles (by_label ts) = Inr () \<longleftrightarrow> acyclic (broader_link ts)"
proof -
  let ?terms = "by_label ts"
  have d: "distinct (map fst ?terms)" using assms(1) by (simp add: by_label_distinct comp_def)
  have declared: "map_of ?terms b \<noteq> None" if "broader_of ?terms l = Some b" for l b
  proof -
    have "(l, b) \<in> broader_link ts" using that broader_of_link [OF assms(1)] by (metis in_parent_rel)
    then have "b \<in> snd ` broader_link ts" by force
    with assms(2) show ?thesis unfolding by_label_None by blast
  qed
  have "reject_broader_cycles ?terms = Inr () \<longleftrightarrow> (\<forall>l \<in> fst ` set ?terms. \<not> broader_loops ?terms [] (Some l))"
    by (auto simp: reject_broader_cycles_def each_ok)
  also have "\<dots> \<longleftrightarrow> (\<forall>l \<in> fst ` set ?terms. \<not> class_cycle (broader_pairs ?terms) [] l \<noteq> None)"
  proof (rule ball_cong [OF refl])
    fix l
    assume "l \<in> fst ` set ?terms"
    then have "map_of ?terms l \<noteq> None" by (simp add: map_of_eq_None_iff)
    from broader_loops_class_cycle [OF d _ declared this, of "[]"]
    show "(\<not> broader_loops ?terms [] (Some l)) = (\<not> class_cycle (broader_pairs ?terms) [] l \<noteq> None)" by simp
  qed
  also have "\<dots> \<longleftrightarrow> acyclic (parent_rel (map_of (broader_pairs ?terms)))"
  proof -
    have "dom (map_of (broader_pairs ?terms)) \<subseteq> set (map fst ?terms)"
      by (force simp: map_of_broader_pairs [OF d] broader_of_def bind_eq_Some_conv dest: map_of_SomeD)
    from class_loop.no_loops_iff_acyclic [OF this] show ?thesis by simp
  qed
  finally show ?thesis using map_of_broader_pairs [OF d] broader_of_link [OF assms(1)] by simp
qed

lemma validate_terms_ok:
  assumes "vb_source v = None"
  shows "validate_terms v = Inr () \<longleftrightarrow> vb_terms v \<noteq> [] \<and> vb_extra_terms v = [] \<and> distinct (labels v)
    \<and> snd ` broader_link (vb_terms v) \<subseteq> set (labels v) \<and> acyclic (broader_link (vb_terms v))"
proof -
  let ?ts = "vb_terms v" and ?irreflexive = "\<forall>l. (l, l) \<notin> broader_link (vb_terms v)"
  have "validate_terms v = Inr () \<longleftrightarrow> ?ts \<noteq> [] \<and> vb_extra_terms v = [] \<and> distinct (map vt_label ?ts)
      \<and> (?irreflexive \<and> snd ` broader_link ?ts \<subseteq> vt_label ` set ?ts) \<and> reject_broader_cycles (by_label ?ts) = Inr ()"
    using assms by (simp add: validate_terms_def rbind_eq_Inr reject_duplicate_labels_ok check_broader_ok)
  moreover have "?irreflexive" if "acyclic (broader_link ?ts)" using that by (auto simp: acyclic_def)
  ultimately show ?thesis using reject_broader_cycles_ok [of ?ts] by (auto simp: labels_def)
qed

section \<open>Above and below\<close>

lemma narrower_link: "succ_rel (children_of ts) = (broader_link ts)\<inverse>"
  by (auto simp: succ_rel_def children_of_def broader_link_def)

text \<open>
  C36: a vocabulary with its own terms validates exactly when it has terms, no label twice, and its broader terms
  are declared and never lead back. On one that does, the chain above a term and the terms below it are
  inverse to each other: each lists a label once, never the one it starts from, the chain follows the declared
  links nearest first, and a term is below another exactly when that one is above it.
\<close>

theorem vocabulary_above_and_below:
  assumes "vb_source v = None"
  shows "(validate_terms v = Inr () \<longleftrightarrow> vb_terms v \<noteq> [] \<and> vb_extra_terms v = [] \<and> distinct (labels v)
      \<and> snd ` broader_link (vb_terms v) \<subseteq> set (labels v) \<and> acyclic (broader_link (vb_terms v)))
    \<and> (validate_terms v = Inr () \<longrightarrow>
         set (broader_chain v l) = {b. (l, b) \<in> (broader_link (vb_terms v))\<^sup>+}
         \<and> set (narrower_labels v l) = {n. l \<in> set (broader_chain v n)}
         \<and> distinct (l # broader_chain v l) \<and> distinct (l # narrower_labels v l)
         \<and> (\<forall>i < length (broader_chain v l). ((l # broader_chain v l) ! i, broader_chain v l ! i) \<in> broader_link (vb_terms v)))"
proof -
  let ?ts = "vb_terms v" and ?L = "broader_link (vb_terms v)"
  have "set (broader_chain v l) = {b. (l, b) \<in> ?L\<^sup>+} \<and> set (narrower_labels v l) = {n. l \<in> set (broader_chain v n)}
      \<and> distinct (l # broader_chain v l) \<and> distinct (l # narrower_labels v l)
      \<and> (\<forall>i < length (broader_chain v l). ((l # broader_chain v l) ! i, broader_chain v l ! i) \<in> ?L)"
    if "validate_terms v = Inr ()"
  proof -
    have ok: "distinct (map vt_label ?ts)" "acyclic ?L"
      using that validate_terms_ok [OF assms] by (simp_all add: labels_def)
    have chain: "broader_chain v x = broader_walk (by_label ?ts) x [x]" for x
    proof (cases "map_of (by_label ?ts) x = None")
      case True
      then have "broader_of (by_label ?ts) x = None" by (simp add: broader_of_def)
      with True show ?thesis by (simp add: broader_chain_def broader_walk.simps)
    qed (auto simp: broader_chain_def Let_def)
    note link = broader_of_link [OF ok(1)]
    have loopless: "(x, x) \<notin> ?L\<^sup>+" for x using ok(2) by (simp add: acyclic_def)
    have above: "set (broader_chain v x) = {b. (x, b) \<in> ?L\<^sup>+}" for x
      unfolding chain broader.walk_set link using loopless by auto
    have "set (narrower_labels v l) = {n. (l, n) \<in> (?L\<inverse>)\<^sup>+} - {l}"
      unfolding narrower_labels_def narrower_link [symmetric] by (rule narrower.loop_set) simp
    then have below: "set (narrower_labels v l) = {n. l \<in> set (broader_chain v n)}"
      using above loopless by (auto simp: trancl_converse)
    have "distinct (narrower_labels v l)"
      using narrower.loop_extends [of ?ts l "children_of ?ts l" "[]"] by (auto simp: narrower_labels_def)
    moreover have "distinct (broader_chain v l)" unfolding chain using broader.walk_distinct by blast
    moreover have "((l # broader_chain v l) ! i, broader_chain v l ! i) \<in> ?L" if "i < length (broader_chain v l)" for i
      using broader.walk_chain [of i "by_label ?ts" l "[l]"] that unfolding chain link [symmetric] by simp
    ultimately show ?thesis using above below loopless by auto
  qed
  with validate_terms_ok [OF assms] show ?thesis by blast
qed

definition demo_term :: "string \<Rightarrow> string option \<Rightarrow> vocabulary_term" where
  "demo_term l b = \<lparr>vt_label = l, vt_description = None, vt_aliases = [], vt_broader = b, vt_class = None\<rparr>"

definition demo_vocabulary :: vocabulary where
  "demo_vocabulary = \<lparr>vb_terms = [demo_term ''b'' (Some ''a''), demo_term ''a'' None, demo_term ''c'' (Some ''b'')],
     vb_terms_given = True, vb_source = None, vb_extra_terms = []\<rparr>"

theorem vocabulary_above_and_below_witness:
  "validate_terms demo_vocabulary = Inr () \<and> broader_chain demo_vocabulary ''c'' = [''b'', ''a'']
   \<and> set (narrower_labels demo_vocabulary ''a'') = {n. ''a'' \<in> set (broader_chain demo_vocabulary n)}"
proof -
  have "vb_source demo_vocabulary = None" "validate_terms demo_vocabulary = Inr ()" "broader_chain demo_vocabulary ''c'' = [''b'', ''a'']"
    by (code_simp, code_simp, code_simp)
  with vocabulary_above_and_below [of demo_vocabulary "''a''"] show ?thesis by blast
qed

end
