(* ===== verification/Evolution.thy ===== *)
theory Evolution
  imports Prelude Complex_Main
begin

text \<open>
  Changes of a search configuration (\<^verbatim>\<open>src/stel/retrieval/evolution.py\<close>) and what a publication does about them
  (\<^verbatim>\<open>execution/search.py\<close>): the projection that defines an index, the classification of two descriptors field by
  field, the plan of a rebuild, and the digest the rows keep.

  A descriptor is a JSON object as \<^verbatim>\<open>json.loads\<close> returns it. Python's \<^verbatim>\<open>==\<close> on such values is equality of their
  normal forms \<open>jnorm\<close>: objects by their keys, numbers by value whatever their type (\<^verbatim>\<open>True == 1\<close>). A descriptor
  that is not of the shape stel writes is \<open>Malformed\<close>. The texts that describe a change are left out.
\<close>

section \<open>JSON values\<close>

datatype json = JNull | JBool bool | JNum rat | JText string | JArr "json list" | JObj "(string \<times> json) list"

fun jnorm :: "json \<Rightarrow> json" where
  "jnorm JNull = JNull"
| "jnorm (JBool b) = JNum (if b then 1 else 0)"
| "jnorm (JNum x) = JNum x"
| "jnorm (JText s) = JText s"
| "jnorm (JArr xs) = JArr (map jnorm xs)"
| "jnorm (JObj kvs) = JObj (sort_key fst (map (\<lambda>(k, v). (k, jnorm v)) kvs))"

definition json_eq :: "json \<Rightarrow> json \<Rightarrow> bool" where
  "json_eq a b \<longleftrightarrow> jnorm a = jnorm b"

fun falsy :: "json \<Rightarrow> bool" where
  "falsy JNull = True"
| "falsy (JBool b) = (\<not> b)"
| "falsy (JNum x) = (x = 0)"
| "falsy (JText s) = (s = [])"
| "falsy (JArr xs) = (xs = [])"
| "falsy (JObj kvs) = (kvs = [])"

type_synonym jobject = "(string \<times> json) list"

definition jget :: "jobject \<Rightarrow> string \<Rightarrow> json" where
  "jget d k = (case map_of d k of Some v \<Rightarrow> v | None \<Rightarrow> JNull)"

datatype evolution_error = Malformed

section \<open>The projection that defines an index\<close>

definition non_semantic_fields :: "string list" where
  "non_semantic_fields = [''batch_size'', ''freshness'', ''index_options'', ''on_index_change'']"

definition routing_fields :: "string list" where
  "routing_fields = [''collection'', ''store'']"

definition additive_fields :: "string list" where
  "additive_fields = [''display_fields'', ''return_text_fields'']"

definition vector_index_only_fields :: "string list" where
  "vector_index_only_fields = [''search'', ''index'']"

definition vector_query_only_fields :: "string list" where
  "vector_query_only_fields = [''refine_factor'', ''nprobes'']"

text \<open>\<^verbatim>\<open>json_safe\<close> on plain JSON values: mappings are sorted by key. (Sets and tuples are already lists here.)\<close>

fun json_safe :: "json \<Rightarrow> json" where
  "json_safe (JObj kvs) = JObj (map (\<lambda>(k, v). (k, json_safe v)) (sort_key fst kvs))"
| "json_safe (JArr xs) = JArr (map json_safe xs)"
| "json_safe v = v"

definition without_query_knobs :: "jobject \<Rightarrow> jobject" where
  "without_query_knobs payload =
     (case jget payload ''vector'' of
        JObj v \<Rightarrow> AList.update ''vector'' (JObj (filter (\<lambda>(k, _). k \<notin> set vector_query_only_fields) v)) payload
      | _ \<Rightarrow> payload)"

definition semantic_search_config :: "jobject \<Rightarrow> jobject" where
  "semantic_search_config payload =
     without_query_knobs (map (\<lambda>(k, v). (k, json_safe v))
       (filter (\<lambda>(k, _). k \<notin> set non_semantic_fields \<union> set routing_fields) (sort_key fst payload)))"

definition search_code_identity :: "jobject \<Rightarrow> jobject" where
  "search_code_identity payload =
     fold (\<lambda>k identity. case map_of payload k of None \<Rightarrow> identity | Some v \<Rightarrow> AList.update k (json_safe v) identity)
       routing_fields (semantic_search_config payload)"

section \<open>Classification\<close>

datatype change_kind = Compatible | RebuildRequired

record config_change =
  cc_field :: string
  cc_kind :: change_kind
  cc_index_only :: bool

definition change :: "string \<Rightarrow> change_kind \<Rightarrow> config_change" where
  "change field kind = \<lparr>cc_field = field, cc_kind = kind, cc_index_only = False\<rparr>"

definition items_or_empty :: "json \<Rightarrow> evolution_error + json list" where
  "items_or_empty v = (if falsy v then Inr [] else case v of JArr xs \<Rightarrow> Inr xs | _ \<Rightarrow> Inl Malformed)"

definition object_or_empty :: "json \<Rightarrow> evolution_error + jobject" where
  "object_or_empty v = (if falsy v then Inr [] else case v of JObj kvs \<Rightarrow> Inr kvs | _ \<Rightarrow> Inl Malformed)"

definition classify_projection :: "string \<Rightarrow> json \<Rightarrow> json \<Rightarrow> evolution_error + config_change" where
  "classify_projection field before after =
     rbind (items_or_empty before) (\<lambda>old. rbind (items_or_empty after) (\<lambda>new.
       Inr (change field (if jnorm ` set old \<subseteq> jnorm ` set new then Compatible else RebuildRequired))))"

definition moved_keys :: "jobject \<Rightarrow> jobject \<Rightarrow> string list" where
  "moved_keys old new = filter (\<lambda>k. \<not> json_eq (jget old k) (jget new k)) (remdups (map fst old @ map fst new))"

definition classify_vector :: "json \<Rightarrow> json \<Rightarrow> evolution_error + config_change" where
  "classify_vector before after =
     rbind (object_or_empty before) (\<lambda>old. rbind (object_or_empty after) (\<lambda>new.
       let moved = moved_keys old new in
       Inr (if moved \<noteq> [] \<and> set moved \<subseteq> set vector_index_only_fields
         then \<lparr>cc_field = ''vector'', cc_kind = Compatible, cc_index_only = True\<rparr>
         else change ''vector'' RebuildRequired)))"

fun named_items :: "json list \<Rightarrow> evolution_error + (string \<times> json) list" where
  "named_items [] = Inr []"
| "named_items (JObj kvs # xs) =
     (case map_of kvs ''name'' of
        Some (JText n) \<Rightarrow> rbind (named_items xs) (\<lambda>rest. Inr ((n, JObj kvs) # rest))
      | _ \<Rightarrow> Inl Malformed)"
| "named_items (x # xs) = Inl Malformed"

definition classify_attributes :: "json \<Rightarrow> json \<Rightarrow> evolution_error + config_change" where
  "classify_attributes before after =
     rbind (items_or_empty before) (\<lambda>olds. rbind (named_items olds) (\<lambda>old_items.
     rbind (items_or_empty after) (\<lambda>news. rbind (named_items news) (\<lambda>new_items.
       let old = dict_of old_items; new = dict_of new_items in
       Inr (if \<not> fst ` set old \<subseteq> fst ` set new then change ''attributes'' RebuildRequired
         else if list_ex (\<lambda>(n, v). \<not> json_eq v (jget new n)) old then change ''attributes'' RebuildRequired
         else change ''attributes'' Compatible)))))"

definition classify_field :: "string \<Rightarrow> json \<Rightarrow> json \<Rightarrow> evolution_error + config_change option" where
  "classify_field field before after =
     (if json_eq before after then Inr None
      else rbind (if field = ''attributes'' then classify_attributes before after
        else if field = ''vector'' then classify_vector before after
        else if field \<in> set additive_fields then classify_projection field before after
        else Inr (change field RebuildRequired)) (\<lambda>c. Inr (Some c)))"

fun classify_fields :: "jobject \<Rightarrow> jobject \<Rightarrow> string list \<Rightarrow> evolution_error + config_change list" where
  "classify_fields stored current [] = Inr []"
| "classify_fields stored current (f # fs) =
     rbind (classify_field f (jget stored f) (jget current f)) (\<lambda>c.
     rbind (classify_fields stored current fs) (\<lambda>cs. Inr (case c of None \<Rightarrow> cs | Some c \<Rightarrow> c # cs)))"

definition classify_changes :: "jobject \<Rightarrow> jobject \<Rightarrow> evolution_error + config_change list" where
  "classify_changes stored current = classify_fields stored current (sort (remdups (map fst stored @ map fst current)))"

definition rebuild_required :: "config_change list \<Rightarrow> config_change list" where
  "rebuild_required changes = filter (\<lambda>c. cc_kind c = RebuildRequired) changes"

definition advances_row_fingerprint :: "config_change list \<Rightarrow> bool" where
  "advances_row_fingerprint changes \<longleftrightarrow> list_ex (\<lambda>c. \<not> cc_index_only c) changes"

definition contract_fields :: "string list" where
  "contract_fields = [''contract_version'', ''store_type'', ''store_implementation'']"

definition search_of :: "jobject \<Rightarrow> evolution_error + jobject" where
  "search_of d = (case map_of d ''search'' of None \<Rightarrow> Inr [] | Some (JObj s) \<Rightarrow> Inr s | Some _ \<Rightarrow> Inl Malformed)"

definition classify_descriptor_changes :: "jobject \<Rightarrow> jobject \<Rightarrow> evolution_error + config_change list" where
  "classify_descriptor_changes stored current =
     rbind (search_of stored) (\<lambda>old. rbind (search_of current) (\<lambda>new.
     rbind (classify_changes old new) (\<lambda>cs.
       Inr (map (\<lambda>f. change f RebuildRequired)
         (filter (\<lambda>f. \<not> json_eq (jget stored f) (jget current f)) contract_fields) @ cs))))"

section \<open>What a publication does\<close>

record collection_spec =
  sp_descriptor :: jobject
  sp_legacy_fingerprint :: string
  sp_config_fingerprint :: string
  sp_row_fingerprint :: string

record collection_metadata =
  md_descriptor :: "jobject option"
  md_config_fingerprint :: "string option"
  md_row_fingerprint :: "string option"

record config_change_plan =
  cp_rebuild :: bool
  cp_rows_unchanged :: bool

datatype publish_refusal =
    ChangedWithoutDescriptor
  | RequiresRebuild "config_change list"
  | OnlineNeedsPrivate
  | ChangedCompatibly "config_change list"
  | BadDescriptor

definition lift_evolution :: "evolution_error + 'a \<Rightarrow> publish_refusal + 'a" where
  "lift_evolution r = (case r of Inl _ \<Rightarrow> Inl BadDescriptor | Inr x \<Rightarrow> Inr x)"

text \<open>\<open>Inr True\<close>: the stamp is rewritten in place (\<^verbatim>\<open>restamp_collection\<close>); the value the code returns is \<^verbatim>\<open>False\<close> either way.\<close>

definition verify_collection_config :: "string \<Rightarrow> collection_metadata \<Rightarrow> collection_spec \<Rightarrow> publish_refusal + bool" where
  "verify_collection_config policy existing spec =
     (case md_descriptor existing of
        None \<Rightarrow> if md_config_fingerprint existing = Some (sp_legacy_fingerprint spec) then Inr True else Inl ChangedWithoutDescriptor
      | Some stored \<Rightarrow>
          if stored = sp_descriptor spec then Inr False
          else rbind (lift_evolution (classify_descriptor_changes stored (sp_descriptor spec))) (\<lambda>changes.
            if rebuild_required changes \<noteq> [] then Inl (RequiresRebuild (rebuild_required changes))
            else if policy = ''online'' then Inl OnlineNeedsPrivate
            else Inl (ChangedCompatibly changes)))"

definition config_change_forces_rebuild ::
  "string \<Rightarrow> collection_metadata option \<Rightarrow> collection_spec \<Rightarrow> publish_refusal + config_change_plan" where
  "config_change_forces_rebuild on_index_change existing spec =
     (let settled = \<lparr>cp_rebuild = False, cp_rows_unchanged = False\<rparr> in
      case existing of
        None \<Rightarrow> Inr settled
      | Some md \<Rightarrow>
         (case md_descriptor md of
            None \<Rightarrow> if md_config_fingerprint md \<noteq> Some (sp_legacy_fingerprint spec) then Inl ChangedWithoutDescriptor else Inr settled
          | Some stored \<Rightarrow>
              if stored = sp_descriptor spec then Inr settled
              else rbind (lift_evolution (classify_descriptor_changes stored (sp_descriptor spec))) (\<lambda>changes.
                rbind (if on_index_change = ''fail'' then verify_collection_config ''fail'' md spec else Inr False) (\<lambda>_.
                if rebuild_required changes \<noteq> [] \<and> on_index_change = ''online'' then Inl (RequiresRebuild (rebuild_required changes))
                else Inr \<lparr>cp_rebuild = (changes \<noteq> []),
                  cp_rows_unchanged = (changes \<noteq> [] \<and> \<not> advances_row_fingerprint changes)\<rparr>))))"

definition resolve_row_fingerprint :: "collection_spec \<Rightarrow> collection_metadata option \<Rightarrow> publish_refusal + collection_spec" where
  "resolve_row_fingerprint spec existing =
     (case existing of
        None \<Rightarrow> Inr spec
      | Some md \<Rightarrow>
         (case md_descriptor md of
            None \<Rightarrow> Inr spec
          | Some stored \<Rightarrow>
             (case (case md_row_fingerprint md of Some f \<Rightarrow> if f \<noteq> [] then Some f else md_config_fingerprint md
                | None \<Rightarrow> md_config_fingerprint md) of
                None \<Rightarrow> Inr spec
              | Some digest \<Rightarrow>
                  rbind (lift_evolution (classify_descriptor_changes stored (sp_descriptor spec))) (\<lambda>changes.
                    Inr (if advances_row_fingerprint changes then spec else spec\<lparr>sp_row_fingerprint := digest\<rparr>)))))"

end
