(* ===== verification/Evolution_Props.thy ===== *)
theory Evolution_Props
  imports Evolution
begin

text \<open>
  What the classification of a configuration change means: when two descriptors describe the same index, when the
  rows already written are the rows the new one asks for, and when a published collection can serve the change. The
  plan of a publication and the digest its rows keep follow from these three.
\<close>

section \<open>The three readings of a change\<close>

definition same_field :: "jobject \<Rightarrow> jobject \<Rightarrow> string \<Rightarrow> bool" where
  "same_field old new f \<longleftrightarrow> json_eq (jget old f) (jget new f)"

definition index_only_move :: "json \<Rightarrow> json \<Rightarrow> bool" where
  "index_only_move before after \<longleftrightarrow> (\<exists>old new. object_or_empty before = Inr old \<and> object_or_empty after = Inr new
     \<and> (\<exists>k. \<not> same_field old new k) \<and> (\<forall>k. k \<notin> {''search'', ''index''} \<longrightarrow> same_field old new k))"

definition attributes_grow :: "json \<Rightarrow> json \<Rightarrow> bool" where
  "attributes_grow before after \<longleftrightarrow> (\<exists>olds news old new. items_or_empty before = Inr olds \<and> items_or_empty after = Inr news
     \<and> named_items olds = Inr old \<and> named_items news = Inr new
     \<and> (\<forall>(n, v) \<in> set (dict_of old). \<exists>v'. map_of (dict_of new) n = Some v' \<and> json_eq v v'))"

definition projection_grows :: "json \<Rightarrow> json \<Rightarrow> bool" where
  "projection_grows before after \<longleftrightarrow> (\<exists>old new. items_or_empty before = Inr old \<and> items_or_empty after = Inr new
     \<and> (\<forall>v \<in> set old. \<exists>v' \<in> set new. json_eq v v'))"

definition same_index :: "jobject \<Rightarrow> jobject \<Rightarrow> jobject \<Rightarrow> jobject \<Rightarrow> bool" where
  "same_index stored current old new \<longleftrightarrow> (\<forall>f \<in> set contract_fields. same_field stored current f) \<and> (\<forall>f. same_field old new f)"

definition same_rows :: "jobject \<Rightarrow> jobject \<Rightarrow> jobject \<Rightarrow> jobject \<Rightarrow> bool" where
  "same_rows stored current old new \<longleftrightarrow> (\<forall>f \<in> set contract_fields. same_field stored current f)
     \<and> (\<forall>f. same_field old new f \<or> f = ''vector'' \<and> index_only_move (jget old f) (jget new f))"

definition servable :: "jobject \<Rightarrow> jobject \<Rightarrow> jobject \<Rightarrow> jobject \<Rightarrow> bool" where
  "servable stored current old new \<longleftrightarrow> (\<forall>f \<in> set contract_fields. same_field stored current f)
     \<and> (\<forall>f. same_field old new f
        \<or> f = ''vector'' \<and> index_only_move (jget old f) (jget new f)
        \<or> f = ''attributes'' \<and> attributes_grow (jget old f) (jget new f)
        \<or> f \<in> set additive_fields \<and> projection_grows (jget old f) (jget new f))"

section \<open>One field\<close>

lemma json_eq_refl [simp]: "json_eq v v"
  by (simp add: json_eq_def)

lemma same_absent: "f \<notin> fst ` set old \<Longrightarrow> f \<notin> fst ` set new \<Longrightarrow> same_field old new f"
  by (simp add: same_field_def jget_def map_of_eq_None_iff [THEN iffD2])

lemma set_moved_keys: "set (moved_keys old new) = {k. \<not> same_field old new k}"
  using same_absent [of _ old new] by (auto simp: moved_keys_def same_field_def)

lemma classify_vector_Inr:
  assumes "classify_vector before after = Inr c"
  shows "cc_index_only c \<longleftrightarrow> index_only_move before after" "cc_kind c = Compatible \<longleftrightarrow> index_only_move before after"
proof -
  from assms obtain old new where o: "object_or_empty before = Inr old" "object_or_empty after = Inr new"
    and c: "c = (if moved_keys old new \<noteq> [] \<and> set (moved_keys old new) \<subseteq> set vector_index_only_fields
      then \<lparr>cc_field = ''vector'', cc_kind = Compatible, cc_index_only = True\<rparr> else change ''vector'' RebuildRequired)"
    by (auto simp: classify_vector_def rbind_eq_Inr Let_def)
  have "index_only_move before after \<longleftrightarrow> moved_keys old new \<noteq> [] \<and> set (moved_keys old new) \<subseteq> set vector_index_only_fields"
  proof -
    have "moved_keys old new \<noteq> [] \<longleftrightarrow> (\<exists>k. \<not> same_field old new k)"
      using set_moved_keys [of old new] by (metis (mono_tags, lifting) empty_Collect_eq set_empty)
    then show ?thesis using o set_moved_keys [of old new] by (auto simp: index_only_move_def vector_index_only_fields_def)
  qed
  with c show "cc_index_only c \<longleftrightarrow> index_only_move before after" "cc_kind c = Compatible \<longleftrightarrow> index_only_move before after"
    by (auto simp: change_def)
qed

lemma classify_attributes_Inr:
  assumes "classify_attributes before after = Inr c"
  shows "\<not> cc_index_only c" "cc_kind c = Compatible \<longleftrightarrow> attributes_grow before after"
proof -
  from assms obtain olds news old new where p: "items_or_empty before = Inr olds" "items_or_empty after = Inr news"
      "named_items olds = Inr old" "named_items news = Inr new"
    and src: "c = (if \<not> fst ` set (dict_of old) \<subseteq> fst ` set (dict_of new) then change ''attributes'' RebuildRequired
      else if list_ex (\<lambda>(n, v). \<not> json_eq v (jget (dict_of new) n)) (dict_of old) then change ''attributes'' RebuildRequired
      else change ''attributes'' Compatible)"
    unfolding classify_attributes_def rbind_eq_Inr Let_def by blast
  have c: "c = change ''attributes'' (if fst ` set (dict_of old) \<subseteq> fst ` set (dict_of new)
        \<and> (\<forall>(n, v) \<in> set (dict_of old). json_eq v (jget (dict_of new) n)) then Compatible else RebuildRequired)"
    unfolding src list_ex_iff by (auto simp del: keys_dict_of)
  show "\<not> cc_index_only c" using c by (simp add: change_def)
  have hit: "n \<in> fst ` set (dict_of new) \<and> json_eq v (jget (dict_of new) n) \<longleftrightarrow> (\<exists>v'. map_of (dict_of new) n = Some v' \<and> json_eq v v')" for n v
    using map_of_eq_None_iff [of "dict_of new" n] by (cases "map_of (dict_of new) n") (simp_all add: jget_def)
  have "attributes_grow before after
      \<longleftrightarrow> (\<forall>x \<in> set (dict_of old). \<exists>v'. map_of (dict_of new) (fst x) = Some v' \<and> json_eq (snd x) v')"
    using p by (simp add: attributes_grow_def split_beta)
  also have "\<dots> \<longleftrightarrow> fst ` set (dict_of old) \<subseteq> fst ` set (dict_of new)
        \<and> (\<forall>(n, v) \<in> set (dict_of old). json_eq v (jget (dict_of new) n))"
    unfolding hit [symmetric] ball_conj_distrib image_subset_iff split_beta ..
  finally have "attributes_grow before after \<longleftrightarrow> fst ` set (dict_of old) \<subseteq> fst ` set (dict_of new)
        \<and> (\<forall>(n, v) \<in> set (dict_of old). json_eq v (jget (dict_of new) n))" .
  with c show "cc_kind c = Compatible \<longleftrightarrow> attributes_grow before after" by (simp add: change_def)
qed

lemma classify_projection_Inr:
  assumes "classify_projection f before after = Inr c"
  shows "\<not> cc_index_only c" "cc_kind c = Compatible \<longleftrightarrow> projection_grows before after"
proof -
  from assms obtain old new where o: "items_or_empty before = Inr old" "items_or_empty after = Inr new"
    and c: "c = change f (if jnorm ` set old \<subseteq> jnorm ` set new then Compatible else RebuildRequired)"
    by (auto simp: classify_projection_def rbind_eq_Inr)
  show "\<not> cc_index_only c" using c by (simp add: change_def)
  have "projection_grows before after \<longleftrightarrow> jnorm ` set old \<subseteq> jnorm ` set new"
    using o by (simp add: projection_grows_def json_eq_def image_subset_iff image_iff)
  with c show "cc_kind c = Compatible \<longleftrightarrow> projection_grows before after" by (simp add: change_def)
qed

lemma classify_field_Inr:
  assumes "classify_field f before after = Inr (Some c)"
  shows "\<not> json_eq before after" "cc_index_only c \<longleftrightarrow> f = ''vector'' \<and> index_only_move before after"
    and "cc_kind c = Compatible \<longleftrightarrow> f = ''vector'' \<and> index_only_move before after
      \<or> f = ''attributes'' \<and> attributes_grow before after \<or> f \<in> set additive_fields \<and> projection_grows before after"
    (is ?kind)
proof -
  show "\<not> json_eq before after" using assms by (auto simp: classify_field_def)
  consider "f = ''attributes''" "classify_attributes before after = Inr c" | "f = ''vector''" "classify_vector before after = Inr c"
    | "f \<in> set additive_fields" "classify_projection f before after = Inr c"
    | "f \<notin> {''attributes'', ''vector''} \<union> set additive_fields" "c = change f RebuildRequired"
    using assms by (auto simp: classify_field_def rbind_eq_Inr split: if_splits)
  then have "(cc_index_only c \<longleftrightarrow> f = ''vector'' \<and> index_only_move before after) \<and> ?kind"
  proof cases
    case 1
    with classify_attributes_Inr [OF 1(2)] show ?thesis by (simp add: additive_fields_def)
  next
    case 2
    with classify_vector_Inr [OF 2(2)] show ?thesis by (simp add: additive_fields_def)
  next
    case 3
    with classify_projection_Inr [OF 3(2)] show ?thesis by (auto simp: additive_fields_def)
  next
    case 4
    then show ?thesis by (simp add: change_def)
  qed
  then show "cc_index_only c \<longleftrightarrow> f = ''vector'' \<and> index_only_move before after" ?kind by blast+
qed

lemma classify_field_None: "classify_field f before after = Inr None \<longleftrightarrow> json_eq before after"
  by (auto simp: classify_field_def rbind_eq_Inr)

section \<open>A whole descriptor\<close>

lemma classify_fields_Inr:
  assumes "classify_fields stored current fs = Inr cs"
  shows "f \<in> set fs \<Longrightarrow> \<exists>c. classify_field f (jget stored f) (jget current f) = Inr c"
    and "c \<in> set cs \<longleftrightarrow> (\<exists>f \<in> set fs. classify_field f (jget stored f) (jget current f) = Inr (Some c))"
  using assms
proof (induction fs arbitrary: cs)
  case (Cons g fs)
  { case 1
    then show ?case using Cons.IH(1) by (auto simp: rbind_eq_Inr)
  next
    case 2
    then obtain c' rest where "classify_field g (jget stored g) (jget current g) = Inr c'" "classify_fields stored current fs = Inr rest"
      "cs = (case c' of None \<Rightarrow> rest | Some c \<Rightarrow> c # rest)" by (auto simp: rbind_eq_Inr)
    with Cons.IH(2) [of rest] show ?case by (cases c') auto }
qed auto

lemma changes_over_fields:
  assumes "classify_changes old new = Inr cs"
  shows "(\<forall>c \<in> set cs. P c) \<longleftrightarrow> (\<forall>f. same_field old new f \<or> (\<forall>c. classify_field f (jget old f) (jget new f) = Inr (Some c) \<longrightarrow> P c))"
    (is "_ \<longleftrightarrow> ?fields")
    and "\<not> same_field old new f \<Longrightarrow> \<exists>c. classify_field f (jget old f) (jget new f) = Inr (Some c)"
proof -
  let ?fs = "sort (remdups (map fst old @ map fst new))"
  note fields = classify_fields_Inr [OF assms [unfolded classify_changes_def]]
  have keyed: "f \<in> set ?fs" if "\<not> same_field old new f" for f using that same_absent [of f old new] by auto
  show "(\<forall>c \<in> set cs. P c) \<longleftrightarrow> ?fields"
  proof
    assume all: "\<forall>c \<in> set cs. P c"
    show ?fields
    proof
      fix f
      show "same_field old new f \<or> (\<forall>c. classify_field f (jget old f) (jget new f) = Inr (Some c) \<longrightarrow> P c)"
        using all keyed [of f] fields(2) by blast
    qed
  next
    assume all: ?fields
    show "\<forall>c \<in> set cs. P c"
    proof
      fix c assume "c \<in> set cs"
      then obtain f where f: "classify_field f (jget old f) (jget new f) = Inr (Some c)" using fields(2) by blast
      then have "\<not> same_field old new f" using classify_field_Inr(1) by (simp add: same_field_def)
      with all f show "P c" by blast
    qed
  qed
  show "\<exists>c. classify_field f (jget old f) (jget new f) = Inr (Some c)" if d: "\<not> same_field old new f"
  proof -
    from fields(1) [OF keyed [OF d]] obtain r where r: "classify_field f (jget old f) (jget new f) = Inr r" by blast
    show ?thesis
    proof (cases r)
      case None
      with r d show ?thesis by (simp add: classify_field_None same_field_def)
    qed (use r in blast)
  qed
qed

lemma classification_exact:
  assumes "classify_descriptor_changes stored current = Inr changes" "search_of stored = Inr old" "search_of current = Inr new"
  shows "changes = [] \<longleftrightarrow> same_index stored current old new"
    and "\<not> advances_row_fingerprint changes \<longleftrightarrow> same_rows stored current old new"
    and "rebuild_required changes = [] \<longleftrightarrow> servable stored current old new"
proof -
  let ?contract = "map (\<lambda>f. change f RebuildRequired) (filter (\<lambda>f. \<not> same_field stored current f) contract_fields)"
  from assms obtain cs where cs: "classify_changes old new = Inr cs" "changes = ?contract @ cs"
    by (auto simp: classify_descriptor_changes_def rbind_eq_Inr same_field_def)
  note over = changes_over_fields [OF cs(1)]
  have pointwise: "(\<forall>c \<in> set cs. P c) \<longleftrightarrow> (\<forall>f. same_field old new f \<or> Q f)"
    if "\<And>f c. classify_field f (jget old f) (jget new f) = Inr (Some c) \<Longrightarrow> P c \<longleftrightarrow> Q f" for P Q
    unfolding over(1) using over(2) that by (intro iff_allI disj_cong refl) blast
  have contract: "?contract = [] \<longleftrightarrow> (\<forall>f \<in> set contract_fields. same_field stored current f)" by (simp add: filter_empty_conv)
  have "cs = [] \<longleftrightarrow> (\<forall>c \<in> set cs. False)" by auto
  then have "cs = [] \<longleftrightarrow> (\<forall>f. same_field old new f)" using over(1) [of "\<lambda>_. False"] over(2) by blast
  with cs(2) contract show "changes = [] \<longleftrightarrow> same_index stored current old new" by (simp add: same_index_def)
  have "\<not> advances_row_fingerprint changes \<longleftrightarrow> ?contract = [] \<and> (\<forall>c \<in> set cs. cc_index_only c)"
    unfolding cs(2) advances_row_fingerprint_def list_ex_iff by (simp add: ball_Un change_def filter_empty_conv) blast
  also have "\<dots> \<longleftrightarrow> same_rows stored current old new"
    unfolding contract same_rows_def by (subst pointwise [OF classify_field_Inr(2)]) auto
  finally show "\<not> advances_row_fingerprint changes \<longleftrightarrow> same_rows stored current old new" .
  have kinds: "k \<noteq> RebuildRequired \<longleftrightarrow> k = Compatible" for k by (cases k) auto
  have "rebuild_required changes = [] \<longleftrightarrow> ?contract = [] \<and> (\<forall>c \<in> set cs. cc_kind c = Compatible)"
    unfolding cs(2) rebuild_required_def filter_empty_conv kinds by (simp add: ball_Un change_def filter_empty_conv) blast
  also have "\<dots> \<longleftrightarrow> servable stored current old new"
    unfolding contract servable_def by (subst pointwise [OF classify_field_Inr(3)]) auto
  finally show "rebuild_required changes = [] \<longleftrightarrow> servable stored current old new" .
qed

section \<open>Cadence and query settings are not part of the index\<close>

lemma filter_update_excluded:
  "\<not> P k \<Longrightarrow> filter (\<lambda>(k, _). P k) (AList.update k v d) = filter (\<lambda>(k, _). P k) d"
  by (induction d) auto

text \<open>Setting a field of execution cadence or routing to any value leaves the projection, and so the descriptor, as it is.\<close>

lemma semantic_search_config_cadence:
  assumes "k \<in> set non_semantic_fields \<union> set routing_fields"
  shows "semantic_search_config (AList.update k v payload) = semantic_search_config payload"
  using assms unfolding semantic_search_config_def filter_sort
  by (subst filter_update_excluded [where P = "\<lambda>k. k \<notin> set non_semantic_fields \<union> set routing_fields"]) simp_all

section \<open>The plan of a publication\<close>

lemma same_index_refl: "search_of d = Inr s \<Longrightarrow> same_index d d s s"
  by (simp add: same_index_def same_field_def)

lemma same_index_same_rows: "same_index stored current old new \<Longrightarrow> same_rows stored current old new"
  by (simp add: same_index_def same_rows_def)

lemma same_rows_servable: "same_rows stored current old new \<Longrightarrow> servable stored current old new"
  by (auto simp: same_rows_def servable_def)

definition stored_digest :: "collection_metadata \<Rightarrow> string option" where
  "stored_digest md = (case md_row_fingerprint md of Some f \<Rightarrow> if f \<noteq> [] then Some f else md_config_fingerprint md
     | None \<Rightarrow> md_config_fingerprint md)"

text \<open>
  C17: Against a collection that carries a descriptor, \<^verbatim>\<open>on_index_change: rebuild\<close> plans a rebuild exactly when the two
  descriptors do not describe the same index, \<^verbatim>\<open>online\<close> plans the same rebuild exactly when the published collection
  could serve the change and refuses otherwise, and \<^verbatim>\<open>fail\<close> goes on only with an unchanged descriptor. The rows of a
  planned rebuild are taken as unchanged, and keep the digest they were written under, exactly when nothing but the
  choice of index over the same vectors moved.
\<close>

theorem index_change_plan_exact:
  assumes "md_descriptor md = Some stored" "search_of stored = Inr old" "search_of (sp_descriptor spec) = Inr new"
    and "classify_descriptor_changes stored (sp_descriptor spec) = Inr changes"
  shows "config_change_forces_rebuild ''rebuild'' (Some md) spec =
        Inr \<lparr>cp_rebuild = (\<not> same_index stored (sp_descriptor spec) old new),
          cp_rows_unchanged = (\<not> same_index stored (sp_descriptor spec) old new \<and> same_rows stored (sp_descriptor spec) old new)\<rparr>
    \<and> config_change_forces_rebuild ''online'' (Some md) spec =
        (if servable stored (sp_descriptor spec) old new then config_change_forces_rebuild ''rebuild'' (Some md) spec
         else Inl (RequiresRebuild (rebuild_required changes)))
    \<and> config_change_forces_rebuild ''fail'' (Some md) spec =
        (if stored = sp_descriptor spec then Inr \<lparr>cp_rebuild = False, cp_rows_unchanged = False\<rparr>
         else if servable stored (sp_descriptor spec) old new then Inl (ChangedCompatibly changes)
         else Inl (RequiresRebuild (rebuild_required changes)))
    \<and> resolve_row_fingerprint spec (Some md) =
        Inr (case stored_digest md of Some d \<Rightarrow> if same_rows stored (sp_descriptor spec) old new then spec\<lparr>sp_row_fingerprint := d\<rparr> else spec
             | None \<Rightarrow> spec)"
proof -
  note exact = classification_exact [OF assms(4,2,3)]
  have refl: "same_index stored (sp_descriptor spec) old new" if "stored = sp_descriptor spec"
    using that assms(2,3) same_index_refl by simp
  note below = same_index_same_rows [of stored "sp_descriptor spec" old new]
    same_rows_servable [of stored "sp_descriptor spec" old new]
  show ?thesis
    using assms(1,4) exact refl below
    by (auto simp: config_change_forces_rebuild_def verify_collection_config_def resolve_row_fingerprint_def
      lift_evolution_def stored_digest_def split: option.splits)
qed

text \<open>A collection whose vectors are searched exactly, published again with an approximate index over the same vectors.\<close>

definition demo_exact :: jobject where
  "demo_exact = [(''vector'', JObj [(''dimensions'', JNum 3), (''search'', JText ''exact'')])]"

definition demo_approximate :: jobject where
  "demo_approximate = [(''vector'', JObj [(''dimensions'', JNum 3), (''search'', JText ''approximate'')])]"

definition demo_published :: collection_metadata where
  "demo_published = \<lparr>md_descriptor = Some [(''search'', JObj demo_exact)], md_config_fingerprint = Some ''c'', md_row_fingerprint = None\<rparr>"

definition demo_spec :: collection_spec where
  "demo_spec = \<lparr>sp_descriptor = [(''search'', JObj demo_approximate)], sp_legacy_fingerprint = ''l'',
     sp_config_fingerprint = ''n'', sp_row_fingerprint = ''n''\<rparr>"

theorem index_change_plan_exact_witness:
  "\<not> same_index [(''search'', JObj demo_exact)] (sp_descriptor demo_spec) demo_exact demo_approximate
   \<and> same_rows [(''search'', JObj demo_exact)] (sp_descriptor demo_spec) demo_exact demo_approximate
   \<and> resolve_row_fingerprint demo_spec (Some demo_published) = Inr (demo_spec\<lparr>sp_row_fingerprint := ''c''\<rparr>)"
proof -
  have parsed: "md_descriptor demo_published = Some [(''search'', JObj demo_exact)]" "search_of [(''search'', JObj demo_exact)] = Inr demo_exact"
    "search_of (sp_descriptor demo_spec) = Inr demo_approximate"
    "classify_descriptor_changes [(''search'', JObj demo_exact)] (sp_descriptor demo_spec)
       = Inr [\<lparr>cc_field = ''vector'', cc_kind = Compatible, cc_index_only = True\<rparr>]"
    "stored_digest demo_published = Some ''c''"
    by code_simp+
  have "config_change_forces_rebuild ''rebuild'' (Some demo_published) demo_spec = Inr \<lparr>cp_rebuild = True, cp_rows_unchanged = True\<rparr>"
    by code_simp
  then show ?thesis using index_change_plan_exact [OF parsed(1-4)] parsed(5) by simp
qed

end
