(* ===== verification/Linking.thy ===== *)
theory Linking
  imports Vocabulary Py_Values Hashing
begin

text \<open>
  Entity linking (\<^verbatim>\<open>src/stel/text/linking.py\<close> and the driver \<^verbatim>\<open>text/transforms/_linking.py\<close>): the options of the
  three resolvers, their reference data, the resolution of one mention, and the table of links.

  A data frame is its columns and rows; a row has a value for every column. Scores are exact rational numbers. What the model
  takes as parameters (\<open>link_env\<close>): the Unicode fold (\<^verbatim>\<open>NFKC\<close> and \<^verbatim>\<open>casefold\<close>), the square root, \<^verbatim>\<open>str\<close> of values that are neither
  strings nor integers, the bits of a float, and the digest of fingerprints. Column types of the output are left out.
\<close>

section \<open>Options\<close>

datatype match_method = ExactMatch | NormalizedMatch
datatype similarity_metric = Cosine | Euclidean | Dot
datatype fuzzy_metric = TrigramDice | JaccardToken

text \<open>The part of the options that depends on the resolver, as given and as parsed.\<close>

datatype 'n resolver_options =
    AliasTable string "match_method list"
  | VectorSimilarity string string similarity_metric 'n 'n "string option"
  | Fuzzy string fuzzy_metric bool 'n 'n

record 'n link_options =
  lo_mentions :: string
  lo_aliases :: string
  lo_mention_id_field :: string
  lo_document_id_field :: string
  lo_mention_text_field :: string
  lo_label_field :: "string option"
  lo_start_field :: "string option"
  lo_end_field :: "string option"
  lo_namespace_field :: string
  lo_canonical_id_field :: string
  lo_on_ambiguity :: string
  lo_include_fields :: "string list"
  lo_include_mention_text :: bool
  lo_resolver :: "'n resolver_options"

datatype link_error =
    EmptyOption
  | BadIncludeFields
  | SameModel
  | RepeatedField "string list"
  | BadMethods
  | NotANumber
  | BadThreshold
  | BadMargin
  | VocabularyNeedsAliasTable string
  | WrongDependencies "string list"
  | SameColumnNames
  | UndeclaredVocabulary string
  | MissingColumns "string list"
  | UnknownIncludeFields "string list"
  | IncludeCollision "string list"
  | MissingId string
  | DuplicateMention string
  | MentionTextNotString
  | BadVector
  | VectorOverflow
  | BadReference string nat
  | EmptyVector nat
  | MixedDimensions nat
  | MixedEmbeddingSpaces nat
  | DimensionMismatch nat nat
  | AmbiguousPairs "(string \<times> string) list"
  | HashFailed hash_error

definition require_non_empty :: "string \<Rightarrow> link_error + string" where
  "require_non_empty v = (if py_strip v = [] then Inl EmptyOption else Inr (py_strip v))"

definition non_empty_optional :: "string option \<Rightarrow> link_error + string option" where
  "non_empty_optional v = (case v of None \<Rightarrow> Inr None | Some s \<Rightarrow> rbind (require_non_empty s) (\<lambda>s. Inr (Some s)))"

definition unique_include_fields :: "string list \<Rightarrow> link_error + string list" where
  "unique_include_fields vs = (let ns = map py_strip vs in
     if [] \<in> set ns \<or> length ns \<noteq> card (set ns) then Inl BadIncludeFields else Inr ns)"

text \<open>\<^verbatim>\<open>_reject_coerced_number\<close> and the check that the number is finite.\<close>

definition finite_number :: "link_error \<Rightarrow> pyval \<Rightarrow> link_error + rat" where
  "finite_number e v =
     (case v of
        PyInt n \<Rightarrow> (case py_float n of None \<Rightarrow> Inl e | Some x \<Rightarrow> Inr x)
      | PyFloat (Finite x) \<Rightarrow> Inr x
      | PyFloat _ \<Rightarrow> Inl e
      | _ \<Rightarrow> Inl NotANumber)"

definition margin_of :: "pyval \<Rightarrow> link_error + rat" where
  "margin_of v = rbind (finite_number BadMargin v) (\<lambda>x. if x < 0 then Inl BadMargin else Inr x)"

definition parse_resolver :: "pyval resolver_options \<Rightarrow> link_error + rat resolver_options" where
  "parse_resolver r =
     (case r of
        AliasTable alias methods \<Rightarrow>
          rbind (require_non_empty alias) (\<lambda>alias.
            if methods = [] \<or> \<not> distinct methods then Inl BadMethods else Inr (AliasTable alias methods))
      | VectorSimilarity mention alias metric threshold margin hash \<Rightarrow>
          rbind (require_non_empty mention) (\<lambda>mention.
          rbind (require_non_empty alias) (\<lambda>alias.
          rbind (finite_number BadThreshold threshold) (\<lambda>threshold.
          rbind (margin_of margin) (\<lambda>margin.
          rbind (non_empty_optional hash) (\<lambda>hash.
            Inr (VectorSimilarity mention alias metric threshold margin hash))))))
      | Fuzzy alias metric folded threshold margin \<Rightarrow>
          rbind (require_non_empty alias) (\<lambda>alias.
          rbind (finite_number BadThreshold threshold) (\<lambda>threshold.
          rbind (if 0 < threshold \<and> threshold \<le> 1 then Inr () else Inl BadThreshold) (\<lambda>_.
          rbind (margin_of margin) (\<lambda>margin.
            Inr (Fuzzy alias metric folded threshold margin))))))"

definition parse_entity_link_options :: "pyval link_options \<Rightarrow> link_error + rat link_options" where
  "parse_entity_link_options opts =
     rbind (require_non_empty (lo_mentions opts)) (\<lambda>mentions.
     rbind (require_non_empty (lo_aliases opts)) (\<lambda>aliases.
     rbind (require_non_empty (lo_mention_id_field opts)) (\<lambda>mention_id.
     rbind (require_non_empty (lo_document_id_field opts)) (\<lambda>document_id.
     rbind (require_non_empty (lo_mention_text_field opts)) (\<lambda>mention_text.
     rbind (require_non_empty (lo_namespace_field opts)) (\<lambda>namespace.
     rbind (require_non_empty (lo_canonical_id_field opts)) (\<lambda>canonical.
     rbind (non_empty_optional (lo_label_field opts)) (\<lambda>lab.
     rbind (non_empty_optional (lo_start_field opts)) (\<lambda>start.
     rbind (non_empty_optional (lo_end_field opts)) (\<lambda>stop.
     rbind (unique_include_fields (lo_include_fields opts)) (\<lambda>include.
     rbind (parse_resolver (lo_resolver opts)) (\<lambda>resolver.
     if mentions = aliases then Inl SameModel
     else let repeated = filter (\<lambda>f. f \<in> set include) [mention_id, document_id, mention_text] in
       if repeated \<noteq> [] then Inl (RepeatedField (sort (remdups repeated)))
       else Inr \<lparr>lo_mentions = mentions, lo_aliases = aliases, lo_mention_id_field = mention_id,
         lo_document_id_field = document_id, lo_mention_text_field = mention_text, lo_label_field = lab,
         lo_start_field = start, lo_end_field = stop, lo_namespace_field = namespace, lo_canonical_id_field = canonical,
         lo_on_ambiguity = lo_on_ambiguity opts, lo_include_fields = include,
         lo_include_mention_text = lo_include_mention_text opts, lo_resolver = resolver\<rparr>))))))))))))"

text \<open>
  \<^verbatim>\<open>VALUES_FROM_PATTERN\<close>: \<^verbatim>\<open>vocab.\<close>, a letter or underscore, then word characters; the end also matches before a
  newline, which is not part of the name.
\<close>

definition word_char :: "char \<Rightarrow> bool" where
  "word_char c \<longleftrightarrow> (let n = of_char c :: nat in
     ident_char c \<or> n \<in> {170, 178, 179, 181, 185, 186, 188, 189, 190} \<or> (192 \<le> n \<and> n \<noteq> 215 \<and> n \<noteq> 247))"

fun vocabulary_name :: "string \<Rightarrow> bool" where
  "vocabulary_name [] = False"
| "vocabulary_name (c # s) = (ident_start c \<and> list_all word_char s)"

definition parse_vocabulary_alias_source :: "string \<Rightarrow> string option" where
  "parse_vocabulary_alias_source aliases =
     (if \<not> py_startswith aliases ''vocab.'' then None
      else let n = drop 6 aliases in
        if vocabulary_name n then Some n
        else if n \<noteq> [] \<and> last n = CHR 0x0A \<and> vocabulary_name (butlast n) then Some (butlast n)
        else None)"

definition vocab_aliases :: "'n link_options \<Rightarrow> string option" where
  "vocab_aliases opts = (case lo_resolver opts of AliasTable _ _ \<Rightarrow> parse_vocabulary_alias_source (lo_aliases opts) | _ \<Rightarrow> None)"

definition validate_link_options :: "pyval link_options \<Rightarrow> link_error + unit" where
  "validate_link_options raw =
     rbind (parse_entity_link_options raw) (\<lambda>opts.
       case parse_vocabulary_alias_source (lo_aliases opts) of
         Some v \<Rightarrow> (case lo_resolver opts of AliasTable _ _ \<Rightarrow> Inr () | _ \<Rightarrow> Inl (VocabularyNeedsAliasTable v))
       | None \<Rightarrow> Inr ())"

definition declared_link_dependencies :: "pyval link_options \<Rightarrow> link_error + string list" where
  "declared_link_dependencies raw =
     rbind (parse_entity_link_options raw) (\<lambda>opts.
       Inr (if vocab_aliases opts \<noteq> None then [lo_mentions opts] else [lo_mentions opts, lo_aliases opts]))"

record incremental_contract =
  ic_parent_key :: string
  ic_child_key :: string
  ic_parent_source :: string
  ic_parent_source_key :: string
  ic_reference_deps :: "string list"

definition declared_link_incremental_contract :: "pyval link_options \<Rightarrow> link_error + incremental_contract" where
  "declared_link_incremental_contract raw =
     rbind (parse_entity_link_options raw) (\<lambda>opts.
       Inr \<lparr>ic_parent_key = ''document_id'', ic_child_key = ''entity_link_id'', ic_parent_source = lo_mentions opts,
         ic_parent_source_key = lo_document_id_field opts,
         ic_reference_deps = (if vocab_aliases opts \<noteq> None then [] else [lo_aliases opts])\<rparr>)"

fun resolver_name :: "'n resolver_options \<Rightarrow> string" where
  "resolver_name (AliasTable _ _) = ''alias_table''"
| "resolver_name (VectorSimilarity _ _ _ _ _ _) = ''vector_similarity''"
| "resolver_name (Fuzzy _ _ _ _ _) = ''fuzzy''"

fun resolver_version :: "'n resolver_options \<Rightarrow> string" where
  "resolver_version (AliasTable _ _) = ''2''"
| "resolver_version (VectorSimilarity _ _ _ _ _ _) = ''1''"
| "resolver_version (Fuzzy _ _ _ _ _) = ''1''"

section \<open>Frames and reference data\<close>

record table_frame =
  tf_columns :: "string list"
  tf_rows :: "(string \<times> pyval) list list"

record link_env =
  le_fold :: "string \<Rightarrow> string"
  le_sqrt :: "rat \<Rightarrow> rat"
  le_str :: "pyval \<Rightarrow> string"
  le_bits :: "rat \<Rightarrow> 64 word"
  le_digest :: "int \<Rightarrow> nat list \<Rightarrow> string"

definition cell :: "(string \<times> pyval) list \<Rightarrow> string \<Rightarrow> pyval" where
  "cell row f = (case map_of row f of Some v \<Rightarrow> v | None \<Rightarrow> PyNone)"

fun str_value :: "link_env \<Rightarrow> pyval \<Rightarrow> string" where
  "str_value env (PyStr s) = s"
| "str_value env (PyInt n) = py_str_int n"
| "str_value env v = le_str env v"

record alias_row =
  ar_alias :: string
  ar_namespace :: string
  ar_canonical_id :: string

definition vocabulary_alias_rows :: "string \<Rightarrow> vocabulary \<Rightarrow> alias_row list" where
  "vocabulary_alias_rows name v = concat (map (\<lambda>t. map (\<lambda>a.
     \<lparr>ar_alias = a, ar_namespace = name, ar_canonical_id = vt_label t\<rparr>) (vt_label t # vt_aliases t)) (vb_terms v))"

definition normalize_alias_text :: "link_env \<Rightarrow> string \<Rightarrow> string" where
  "normalize_alias_text env v = py_join '' '' (py_split (le_fold env v))"

definition reference_string :: "(string \<times> pyval) list \<Rightarrow> string \<Rightarrow> nat \<Rightarrow> link_error + string" where
  "reference_string row f position =
     (case cell row f of PyStr s \<Rightarrow> if py_strip s = [] then Inl (BadReference f position) else Inr s
      | _ \<Rightarrow> Inl (BadReference f position))"

definition missing_columns :: "string list \<Rightarrow> table_frame \<Rightarrow> string list" where
  "missing_columns required df = sort (remdups (filter (\<lambda>f. f \<notin> set (tf_columns df)) required))"

fun reference_rows_from :: "'n link_options \<Rightarrow> string \<Rightarrow> nat \<Rightarrow> (string \<times> pyval) list list \<Rightarrow> link_error + alias_row list" where
  "reference_rows_from opts alias position [] = Inr []"
| "reference_rows_from opts alias position (row # rows) =
     rbind (reference_string row alias position) (\<lambda>a.
     rbind (reference_string row (lo_namespace_field opts) position) (\<lambda>n.
     rbind (reference_string row (lo_canonical_id_field opts) position) (\<lambda>c.
     rbind (reference_rows_from opts alias (Suc position) rows) (\<lambda>rest.
       Inr (\<lparr>ar_alias = a, ar_namespace = n, ar_canonical_id = c\<rparr> # rest)))))"

definition reference_rows :: "'n link_options \<Rightarrow> string \<Rightarrow> table_frame \<Rightarrow> link_error + alias_row list" where
  "reference_rows opts alias df =
     (let missing = missing_columns [alias, lo_namespace_field opts, lo_canonical_id_field opts] df in
      if missing \<noteq> [] then Inl (MissingColumns missing) else reference_rows_from opts alias 0 (tf_rows df))"

definition hash_result :: "hash_error + 'a \<Rightarrow> link_error + 'a" where
  "hash_result r = (case r of Inl e \<Rightarrow> Inl (HashFailed e) | Inr x \<Rightarrow> Inr x)"

definition hash_digest_size :: int where
  "hash_digest_size = 16"

definition fingerprint_in :: "link_env \<Rightarrow> string \<Rightarrow> hval \<Rightarrow> link_error + string" where
  "fingerprint_in env domain v = hash_result (canonical_fingerprint (le_digest env) v domain 1 hash_digest_size)"

text \<open>\<^verbatim>\<open>sorted({...})\<close> of tuples of strings.\<close>

definition alias_set_fingerprint :: "link_env \<Rightarrow> alias_row list \<Rightarrow> link_error + string" where
  "alias_set_fingerprint env rows =
     fingerprint_in env ''dbt-ml.entity-alias-set''
       (HSeq ''builtins.list'' (map (\<lambda>t. HSeq ''builtins.tuple'' (map HStr t))
         (sort (remdups (map (\<lambda>r. [ar_namespace r, ar_alias r, ar_canonical_id r]) rows)))))"

section \<open>Resolution\<close>

datatype link_status = Matched | Ambiguous | Unmatched

record candidate =
  ca_canonical_id :: string
  ca_score :: "rat option"

record namespace_resolution =
  nr_method :: string
  nr_status :: link_status
  nr_candidates :: "candidate list"

definition get_list :: "('k \<times> 'v list) list \<Rightarrow> 'k \<Rightarrow> 'v list" where
  "get_list d k = (case map_of d k of Some v \<Rightarrow> v | None \<Rightarrow> [])"

definition status_of :: "string list \<Rightarrow> link_status" where
  "status_of ids = (if length ids = 1 then Matched else Ambiguous)"

definition resolve_scored :: "rat \<Rightarrow> string \<Rightarrow> (rat \<times> string) list \<Rightarrow> namespace_resolution" where
  "resolve_scored margin method scored =
     (let top = Max (fst ` set scored);
          winners = sort (remdups (map snd (filter (\<lambda>(score, _). top - score \<le> margin) scored))) in
      \<lparr>nr_method = method, nr_status = status_of winners,
        nr_candidates = map (\<lambda>c. \<lparr>ca_canonical_id = c,
          ca_score = Some (Max (fst ` {x \<in> set scored. snd x = c}))\<rparr>) winners\<rparr>)"

definition resolve_scored_candidates ::
  "rat \<Rightarrow> string \<Rightarrow> (string \<times> (rat \<times> string) list) list \<Rightarrow> (string \<times> namespace_resolution) list" where
  "resolve_scored_candidates margin method by_namespace = map (\<lambda>(n, scored). (n, resolve_scored margin method scored)) by_namespace"

text \<open>The loop of the two scoring resolvers: candidates at or above the threshold, by namespace.\<close>

definition scored_by_namespace :: "('a \<Rightarrow> rat) \<Rightarrow> rat \<Rightarrow> ('a \<Rightarrow> string) \<Rightarrow> ('a \<Rightarrow> string) \<Rightarrow> 'a list \<Rightarrow> (string \<times> (rat \<times> string) list) list" where
  "scored_by_namespace score threshold ns cid aliases =
     fold (\<lambda>a d. if score a \<ge> threshold then AList.update (ns a) (get_list d (ns a) @ [(score a, cid a)]) d else d) aliases []"

subsection \<open>Alias tables\<close>

fun method_name :: "match_method \<Rightarrow> string" where
  "method_name ExactMatch = ''exact''"
| "method_name NormalizedMatch = ''normalized''"

definition match_key :: "link_env \<Rightarrow> match_method \<Rightarrow> string \<Rightarrow> string" where
  "match_key env m s = (if m = ExactMatch then s else normalize_alias_text env s)"

type_synonym alias_lookup = "(string \<times> (string \<times> string list) list) list"

definition add_alias :: "string \<Rightarrow> alias_row \<Rightarrow> alias_lookup \<Rightarrow> alias_lookup" where
  "add_alias key r table =
     (let hits = get_list table key in
      AList.update key (AList.update (ar_namespace r) (set_add (ar_canonical_id r) (get_list hits (ar_namespace r))) hits) table)"

definition build_lookup :: "link_env \<Rightarrow> match_method \<Rightarrow> alias_row list \<Rightarrow> alias_lookup" where
  "build_lookup env m rows = fold (\<lambda>r. add_alias (match_key env m (ar_alias r)) r) rows []"

definition take_hits :: "match_method \<Rightarrow> (string \<times> string list) list \<Rightarrow> (string \<times> namespace_resolution) list \<Rightarrow> (string \<times> namespace_resolution) list" where
  "take_hits m hits resolved =
     fold (\<lambda>(n, ids) resolved. if map_of resolved n \<noteq> None then resolved
       else AList.update n \<lparr>nr_method = method_name m, nr_status = status_of ids,
         nr_candidates = map (\<lambda>c. \<lparr>ca_canonical_id = c, ca_score = None\<rparr>) (sort ids)\<rparr> resolved) hits resolved"

definition resolve_alias_table ::
  "link_env \<Rightarrow> (match_method \<Rightarrow> alias_lookup) \<Rightarrow> match_method list \<Rightarrow> string \<Rightarrow> (string \<times> namespace_resolution) list" where
  "resolve_alias_table env lookups methods s =
     (if py_strip s = [] then []
      else fold (\<lambda>m. take_hits m (get_list (lookups m) (match_key env m s))) methods [])"

subsection \<open>Vectors\<close>

fun coerce_items :: "pyval list \<Rightarrow> link_error + rat list" where
  "coerce_items [] = Inr []"
| "coerce_items (v # vs) =
     rbind (case v of
         PyInt n \<Rightarrow> (case py_float n of None \<Rightarrow> Inl VectorOverflow | Some x \<Rightarrow> Inr x)
       | PyFloat (Finite x) \<Rightarrow> Inr x
       | _ \<Rightarrow> Inl BadVector) (\<lambda>x.
     rbind (coerce_items vs) (\<lambda>xs. Inr (x # xs)))"

definition coerce_vector :: "pyval \<Rightarrow> link_error + rat list option" where
  "coerce_vector v =
     (case v of PyNone \<Rightarrow> Inr None
      | PyList vs \<Rightarrow> rbind (coerce_items vs) (\<lambda>xs. Inr (if xs = [] then None else Some xs))
      | _ \<Rightarrow> Inl BadVector)"

definition dot_product :: "rat list \<Rightarrow> rat list \<Rightarrow> rat" where
  "dot_product a b = sum_list (map (\<lambda>(x, y). x * y) (zip a b))"

definition norm_of :: "link_env \<Rightarrow> rat list \<Rightarrow> rat" where
  "norm_of env a = le_sqrt env (sum_list (map (\<lambda>x. x * x) a))"

fun similarity :: "link_env \<Rightarrow> similarity_metric \<Rightarrow> rat list \<Rightarrow> rat list \<Rightarrow> rat" where
  "similarity env Dot a b = dot_product a b"
| "similarity env Euclidean a b = - le_sqrt env (sum_list (map (\<lambda>(x, y). (x - y) ^ 2) (zip a b)))"
| "similarity env Cosine a b = (if norm_of env a = 0 \<or> norm_of env b = 0 then 0 else dot_product a b / (norm_of env a * norm_of env b))"

fun metric_name :: "similarity_metric \<Rightarrow> string" where
  "metric_name Cosine = ''cosine''"
| "metric_name Euclidean = ''euclidean''"
| "metric_name Dot = ''dot''"

record alias_vector =
  av_namespace :: string
  av_canonical_id :: string
  av_vector :: "rat list"

definition resolve_vector ::
  "link_env \<Rightarrow> alias_vector list \<Rightarrow> nat \<Rightarrow> similarity_metric \<Rightarrow> rat \<Rightarrow> rat \<Rightarrow> rat list \<Rightarrow> link_error + (string \<times> namespace_resolution) list" where
  "resolve_vector env aliases dimensions metric threshold margin v =
     (if aliases = [] then Inr []
      else if length v \<noteq> dimensions then Inl (DimensionMismatch (length v) dimensions)
      else Inr (resolve_scored_candidates margin (metric_name metric)
        (scored_by_namespace (\<lambda>a. similarity env metric v (av_vector a)) threshold av_namespace av_canonical_id aliases)))"

fun alias_vectors_from ::
  "'n link_options \<Rightarrow> string \<Rightarrow> nat \<Rightarrow> nat option \<Rightarrow> (string \<times> pyval) list list \<Rightarrow> link_error + (alias_vector list \<times> nat option)" where
  "alias_vectors_from opts field position dimensions [] = Inr ([], dimensions)"
| "alias_vectors_from opts field position dimensions (row # rows) =
     rbind (reference_string row (lo_namespace_field opts) position) (\<lambda>n.
     rbind (reference_string row (lo_canonical_id_field opts) position) (\<lambda>c.
     rbind (coerce_vector (cell row field)) (\<lambda>v.
       case v of None \<Rightarrow> Inl (EmptyVector position)
       | Some v \<Rightarrow>
           if dimensions \<noteq> None \<and> dimensions \<noteq> Some (length v) then Inl (MixedDimensions position)
           else rbind (alias_vectors_from opts field (Suc position) (Some (length v)) rows) (\<lambda>(rest, dims).
             Inr (\<lparr>av_namespace = n, av_canonical_id = c, av_vector = v\<rparr> # rest, dims)))))"

definition alias_vectors :: "'n link_options \<Rightarrow> string \<Rightarrow> table_frame \<Rightarrow> link_error + (alias_vector list \<times> nat)" where
  "alias_vectors opts field df =
     (let missing = missing_columns [field, lo_namespace_field opts, lo_canonical_id_field opts] df in
      if missing \<noteq> [] then Inl (MissingColumns missing)
      else rbind (alias_vectors_from opts field 0 None (tf_rows df)) (\<lambda>(vs, dims).
        Inr (vs, case dims of None \<Rightarrow> 0 | Some d \<Rightarrow> d)))"

text \<open>\<^verbatim>\<open>sorted({...})\<close> of (namespace, canonical ID, vector).\<close>

definition vector_fingerprint :: "link_env \<Rightarrow> alias_vector list \<Rightarrow> link_error + string" where
  "vector_fingerprint env vs =
     fingerprint_in env ''dbt-ml.entity-vector-reference-set''
       (HSeq ''builtins.list'' (map (\<lambda>a. HSeq ''builtins.tuple'' [HStr (av_namespace a), HStr (av_canonical_id a),
           HSeq ''builtins.tuple'' (map (\<lambda>x. HFloat (le_bits env x)) (av_vector a))])
         (sort_key (\<lambda>a. [av_namespace a, av_canonical_id a]) (sort_key av_vector (remdups vs)))))"

definition distinct_values :: "link_env \<Rightarrow> table_frame \<Rightarrow> string \<Rightarrow> string set option" where
  "distinct_values env df f =
     (if f \<notin> set (tf_columns df) then None
      else let vs = str_value env ` set (filter (\<lambda>v. v \<noteq> PyNone) (map (\<lambda>row. cell row f) (tf_rows df))) in
        if vs = {} then None else Some vs)"

definition validate_frames :: "link_env \<Rightarrow> table_frame \<Rightarrow> table_frame \<Rightarrow> 'n resolver_options \<Rightarrow> link_error + unit" where
  "validate_frames env mentions aliases r =
     (case r of
        VectorSimilarity _ _ _ _ _ (Some hash) \<Rightarrow>
          (case (distinct_values env mentions hash, distinct_values env aliases hash) of
             (Some ms, Some as) \<Rightarrow> guard (card (ms \<union> as) \<le> 1) (MixedEmbeddingSpaces (card (ms \<union> as)))
           | _ \<Rightarrow> Inr ())
      | _ \<Rightarrow> Inr ())"

subsection \<open>Fuzzy text\<close>

definition fuzzy_representation :: "string \<Rightarrow> fuzzy_metric \<Rightarrow> string set" where
  "fuzzy_representation s metric =
     (if s = [] then {}
      else case metric of
        JaccardToken \<Rightarrow> set (py_split s)
      | TrigramDice \<Rightarrow> (let padded = ''  '' @ s @ ''  '' in
          set (map (\<lambda>i. take 3 (drop i padded)) [0..<length padded - 2])))"

definition fuzzy_score :: "string set \<Rightarrow> string set \<Rightarrow> fuzzy_metric \<Rightarrow> rat" where
  "fuzzy_score a b metric =
     (if a = {} \<or> b = {} then 0
      else case metric of
        JaccardToken \<Rightarrow> of_nat (card (a \<inter> b)) / of_nat (card (a \<union> b))
      | TrigramDice \<Rightarrow> 2 * of_nat (card (a \<inter> b)) / of_nat (card a + card b))"

fun fuzzy_name :: "fuzzy_metric \<Rightarrow> string" where
  "fuzzy_name TrigramDice = ''trigram_dice''"
| "fuzzy_name JaccardToken = ''jaccard_token''"

record fuzzy_alias =
  fa_namespace :: string
  fa_canonical_id :: string
  fa_signature :: "string set"

definition prepare_text :: "link_env \<Rightarrow> bool \<Rightarrow> string \<Rightarrow> string" where
  "prepare_text env folded s = (if folded then normalize_alias_text env s else s)"

definition fuzzy_alias_of :: "link_env \<Rightarrow> bool \<Rightarrow> fuzzy_metric \<Rightarrow> alias_row \<Rightarrow> fuzzy_alias" where
  "fuzzy_alias_of env folded metric r =
     \<lparr>fa_namespace = ar_namespace r, fa_canonical_id = ar_canonical_id r,
      fa_signature = fuzzy_representation (prepare_text env folded (ar_alias r)) metric\<rparr>"

definition resolve_fuzzy ::
  "link_env \<Rightarrow> fuzzy_alias list \<Rightarrow> fuzzy_metric \<Rightarrow> bool \<Rightarrow> rat \<Rightarrow> rat \<Rightarrow> string \<Rightarrow> (string \<times> namespace_resolution) list" where
  "resolve_fuzzy env aliases metric folded threshold margin s =
     (if py_strip s = [] then []
      else let signature = fuzzy_representation (prepare_text env folded s) metric in
        if signature = {} then []
        else resolve_scored_candidates margin (fuzzy_name metric)
          (scored_by_namespace (\<lambda>a. fuzzy_score signature (fa_signature a) metric) threshold fa_namespace fa_canonical_id aliases))"

section \<open>The table of links\<close>

datatype mention_signal = SText string | SVector "rat list"

datatype link_reference =
    AliasReference "match_method \<Rightarrow> alias_lookup" "match_method list"
  | VectorReference "alias_vector list" nat similarity_metric rat rat
  | FuzzyReference "fuzzy_alias list" fuzzy_metric bool rat rat

fun resolve :: "link_env \<Rightarrow> link_reference \<Rightarrow> mention_signal \<Rightarrow> link_error + (string \<times> namespace_resolution) list" where
  "resolve env (AliasReference lookups methods) (SText s) = Inr (resolve_alias_table env lookups methods s)"
| "resolve env (VectorReference aliases dims metric threshold margin) (SVector v) = resolve_vector env aliases dims metric threshold margin v"
| "resolve env (FuzzyReference aliases metric folded threshold margin) (SText s) =
     Inr (resolve_fuzzy env aliases metric folded threshold margin s)"
| "resolve env _ _ = Inr []"

definition build_reference :: "link_env \<Rightarrow> table_frame \<Rightarrow> rat link_options \<Rightarrow> link_error + (link_reference \<times> string)" where
  "build_reference env df opts =
     (case lo_resolver opts of
        AliasTable alias methods \<Rightarrow>
          rbind (reference_rows opts alias df) (\<lambda>rows.
          rbind (alias_set_fingerprint env rows) (\<lambda>f.
            Inr (AliasReference (\<lambda>m. build_lookup env m rows) methods, f)))
      | VectorSimilarity _ alias metric threshold margin _ \<Rightarrow>
          rbind (alias_vectors opts alias df) (\<lambda>(vs, dims).
          rbind (vector_fingerprint env vs) (\<lambda>f.
            Inr (VectorReference vs dims metric threshold margin, f)))
      | Fuzzy alias metric folded threshold margin \<Rightarrow>
          rbind (reference_rows opts alias df) (\<lambda>rows.
          rbind (alias_set_fingerprint env rows) (\<lambda>f.
            Inr (FuzzyReference (map (fuzzy_alias_of env folded metric) rows) metric folded threshold margin, f))))"

record link_mention =
  lm_mention_id :: string
  lm_document_id :: string
  lm_text :: pyval
  lm_signal :: "mention_signal option"
  lm_passthrough :: "(string \<times> pyval) list"
  lm_included :: "(string \<times> pyval) list"

record link_row =
  lr_entity_link_id :: string
  lr_document_id :: string
  lr_mention_id :: string
  lr_namespace :: "string option"
  lr_canonical_id :: "string option"
  lr_method :: "string option"
  lr_score :: "rat option"
  lr_status :: link_status
  lr_resolver :: string
  lr_resolver_version :: string
  lr_alias_set_version :: string
  lr_passthrough :: "(string \<times> pyval) list"
  lr_included :: "(string \<times> pyval) list"
  lr_mention_text :: "pyval option"

definition link_columns :: "string list" where
  "link_columns = [''entity_link_id'', ''document_id'', ''mention_id'', ''entity_namespace'', ''canonical_id'', ''match_method'',
     ''match_score'', ''status'', ''resolver'', ''resolver_version'', ''alias_set_version'']"

fun status_name :: "link_status \<Rightarrow> string" where
  "status_name Matched = ''matched''"
| "status_name Ambiguous = ''ambiguous''"
| "status_name Unmatched = ''unmatched''"

definition or_empty :: "string option \<Rightarrow> string" where
  "or_empty v = (case v of None \<Rightarrow> [] | Some s \<Rightarrow> s)"

definition link_payload :: "string \<Rightarrow> string \<Rightarrow> string option \<Rightarrow> string option \<Rightarrow> string option \<Rightarrow> link_status \<Rightarrow> hval" where
  "link_payload mention document namespace canonical method status =
     HMap ''builtins.dict'' [(HStr ''mention_id'', HStr mention), (HStr ''document_id'', HStr document),
       (HStr ''entity_namespace'', HStr (or_empty namespace)), (HStr ''canonical_id'', HStr (or_empty canonical)),
       (HStr ''match_method'', HStr (or_empty method)), (HStr ''status'', HStr (status_name status))]"

definition entity_link_id ::
  "link_env \<Rightarrow> string \<Rightarrow> string \<Rightarrow> string option \<Rightarrow> string option \<Rightarrow> string option \<Rightarrow> link_status \<Rightarrow> link_error + string" where
  "entity_link_id env mention document namespace canonical method status =
     fingerprint_in env ''dbt-ml.entity-link'' (link_payload mention document namespace canonical method status)"

definition required_id :: "link_env \<Rightarrow> (string \<times> pyval) list \<Rightarrow> string \<Rightarrow> link_error + string" where
  "required_id env row f =
     (let v = cell row f in
      if v = PyNone \<or> py_strip (str_value env v) = [] then Inl (MissingId f) else Inr (str_value env v))"

definition signal_of :: "'n link_options \<Rightarrow> (string \<times> pyval) list \<Rightarrow> link_error + mention_signal option" where
  "signal_of opts row =
     (case lo_resolver opts of
        VectorSimilarity field _ _ _ _ _ \<Rightarrow> rbind (coerce_vector (cell row field)) (\<lambda>v. Inr (map_option SVector v))
      | _ \<Rightarrow> (case cell row (lo_mention_text_field opts) of
          PyNone \<Rightarrow> Inr None | PyStr s \<Rightarrow> Inr (Some (SText s)) | _ \<Rightarrow> Inl MentionTextNotString))"

definition passthrough_fields :: "'n link_options \<Rightarrow> (string \<times> string) list" where
  "passthrough_fields opts = List.map_filter (\<lambda>(n, f). map_option (Pair n) f)
     [(''label'', lo_label_field opts), (''start'', lo_start_field opts), (''end'', lo_end_field opts)]"

definition text_required :: "'n resolver_options \<Rightarrow> bool" where
  "text_required r = (case r of VectorSimilarity _ _ _ _ _ _ \<Rightarrow> False | _ \<Rightarrow> True)"

definition required_columns :: "'n link_options \<Rightarrow> string list" where
  "required_columns opts = [lo_mention_id_field opts, lo_document_id_field opts]
     @ (if text_required (lo_resolver opts) \<or> lo_include_mention_text opts then [lo_mention_text_field opts] else [])
     @ (case lo_resolver opts of VectorSimilarity field _ _ _ _ _ \<Rightarrow> [field] | _ \<Rightarrow> [])"

definition output_columns :: "'n link_options \<Rightarrow> string list" where
  "output_columns opts = link_columns @ map fst (passthrough_fields opts)
     @ (if lo_include_mention_text opts then [''mention_text''] else [])"

fun mentions_from :: "link_env \<Rightarrow> 'n link_options \<Rightarrow> table_frame \<Rightarrow> string list \<Rightarrow> (string \<times> pyval) list list \<Rightarrow> link_error + link_mention list" where
  "mentions_from env opts df seen [] = Inr []"
| "mentions_from env opts df seen (row # rows) =
     rbind (required_id env row (lo_mention_id_field opts)) (\<lambda>i.
       if i \<in> set seen then Inl (DuplicateMention i)
       else rbind (required_id env row (lo_document_id_field opts)) (\<lambda>d.
         rbind (signal_of opts row) (\<lambda>s.
         rbind (mentions_from env opts df (i # seen) rows) (\<lambda>rest.
           Inr (\<lparr>lm_mention_id = i, lm_document_id = d,
             lm_text = (if lo_mention_text_field opts \<in> set (tf_columns df) then cell row (lo_mention_text_field opts) else PyNone),
             lm_signal = s, lm_passthrough = map (\<lambda>(n, f). (n, cell row f)) (passthrough_fields opts),
             lm_included = map (\<lambda>f. (f, cell row f)) (lo_include_fields opts)\<rparr> # rest)))))"

definition input_mentions :: "link_env \<Rightarrow> table_frame \<Rightarrow> 'n link_options \<Rightarrow> link_error + link_mention list" where
  "input_mentions env df opts =
     (let missing = missing_columns (required_columns opts @ map snd (passthrough_fields opts)) df;
          unknown = sort (remdups (filter (\<lambda>f. f \<notin> set (tf_columns df)) (lo_include_fields opts)));
          clash = sort (remdups (filter (\<lambda>f. f \<in> set (''mention_text'' # output_columns opts)) (lo_include_fields opts))) in
      if missing \<noteq> [] then Inl (MissingColumns missing)
      else if unknown \<noteq> [] then Inl (UnknownIncludeFields unknown)
      else if clash \<noteq> [] then Inl (IncludeCollision clash)
      else mentions_from env opts df [] (tf_rows df))"

text \<open>The renamed df of a vocabulary's aliases; polars refuses two columns of one name.\<close>

definition alias_frame :: "'n link_options \<Rightarrow> string \<Rightarrow> alias_row list \<Rightarrow> link_error + table_frame" where
  "alias_frame opts alias rows =
     (let columns = [alias, lo_namespace_field opts, lo_canonical_id_field opts] in
      if \<not> distinct columns then Inl SameColumnNames
      else Inr \<lparr>tf_columns = columns,
        tf_rows = map (\<lambda>r. zip columns [PyStr (ar_alias r), PyStr (ar_namespace r), PyStr (ar_canonical_id r)]) rows\<rparr>)"

definition dep_frames ::
  "(string \<times> table_frame) list \<Rightarrow> (string \<times> vocabulary) list \<Rightarrow> rat link_options \<Rightarrow> link_error + (table_frame \<times> table_frame)" where
  "dep_frames deps vocabularies opts =
     (case vocab_aliases opts of
        Some v \<Rightarrow>
          (case map_of deps (lo_mentions opts) of
             Some ms \<Rightarrow>
               if fst ` set deps \<noteq> {lo_mentions opts} then Inl (WrongDependencies (map fst deps))
               else (case map_of vocabularies v of None \<Rightarrow> Inl (UndeclaredVocabulary v)
                 | Some voc \<Rightarrow> rbind (alias_frame opts (case lo_resolver opts of AliasTable alias _ \<Rightarrow> alias | _ \<Rightarrow> [])
                     (vocabulary_alias_rows v voc)) (\<lambda>as. Inr (ms, as)))
           | None \<Rightarrow> Inl (WrongDependencies (map fst deps)))
      | None \<Rightarrow>
          (case (map_of deps (lo_mentions opts), map_of deps (lo_aliases opts)) of
             (Some ms, Some as) \<Rightarrow>
               if fst ` set deps \<noteq> {lo_mentions opts, lo_aliases opts} then Inl (WrongDependencies (map fst deps)) else Inr (ms, as)
           | _ \<Rightarrow> Inl (WrongDependencies (map fst deps))))"

definition make_link_row ::
  "link_env \<Rightarrow> 'n link_options \<Rightarrow> string \<Rightarrow> link_mention \<Rightarrow> string option \<Rightarrow> string option \<Rightarrow> string option \<Rightarrow> rat option \<Rightarrow> link_status
    \<Rightarrow> link_error + link_row" where
  "make_link_row env opts version m namespace canonical method score status =
     rbind (entity_link_id env (lm_mention_id m) (lm_document_id m) namespace canonical method status) (\<lambda>i.
       Inr \<lparr>lr_entity_link_id = i, lr_document_id = lm_document_id m, lr_mention_id = lm_mention_id m, lr_namespace = namespace,
         lr_canonical_id = canonical, lr_method = method, lr_score = score, lr_status = status,
         lr_resolver = resolver_name (lo_resolver opts), lr_resolver_version = resolver_version (lo_resolver opts),
         lr_alias_set_version = version, lr_passthrough = lm_passthrough m, lr_included = lm_included m,
         lr_mention_text = (if lo_include_mention_text opts then Some (lm_text m) else None)\<rparr>)"

fun collect :: "('a \<Rightarrow> 'e + 'b) \<Rightarrow> 'a list \<Rightarrow> 'e + 'b list" where
  "collect f [] = Inr []"
| "collect f (x # xs) = rbind (f x) (\<lambda>y. rbind (collect f xs) (\<lambda>ys. Inr (y # ys)))"

text \<open>The rows of one mention, from its resolutions.\<close>

definition link_cells :: "(string \<times> namespace_resolution) list \<Rightarrow> (string option \<times> string option \<times> string option \<times> rat option \<times> link_status) list" where
  "link_cells resolutions =
     (if resolutions = [] then [(None, None, None, None, Unmatched)]
      else concat (map (\<lambda>n. case map_of resolutions n of
          Some r \<Rightarrow> map (\<lambda>c. (Some n, Some (ca_canonical_id c), Some (nr_method r), ca_score c, nr_status r)) (nr_candidates r)
        | None \<Rightarrow> []) (sort (map fst resolutions))))"

definition mention_resolutions :: "link_env \<Rightarrow> link_reference \<Rightarrow> link_mention \<Rightarrow> link_error + (string \<times> namespace_resolution) list" where
  "mention_resolutions env ref m = (case lm_signal m of None \<Rightarrow> Inr [] | Some s \<Rightarrow> resolve env ref s)"

definition link_mention_rows :: "link_env \<Rightarrow> 'n link_options \<Rightarrow> link_reference \<Rightarrow> string \<Rightarrow> link_mention \<Rightarrow> link_error + link_row list" where
  "link_mention_rows env opts ref version m =
     rbind (mention_resolutions env ref m) (\<lambda>resolutions.
       collect (\<lambda>(n, c, method, score, status). make_link_row env opts version m n c method score status) (link_cells resolutions))"

definition ambiguous_pairs :: "link_row list \<Rightarrow> (string \<times> string) list" where
  "ambiguous_pairs rows = remdups (map (\<lambda>r. (lr_mention_id r, or_empty (lr_namespace r))) (filter (\<lambda>r. lr_status r = Ambiguous) rows))"

definition run_links ::
  "link_env \<Rightarrow> (string \<times> table_frame) list \<Rightarrow> (string \<times> vocabulary) list \<Rightarrow> pyval link_options \<Rightarrow> link_error + link_row list" where
  "run_links env deps vocabularies raw =
     rbind (parse_entity_link_options raw) (\<lambda>opts.
     rbind (dep_frames deps vocabularies opts) (\<lambda>(mentions_frame, aliases_frame).
     rbind (validate_frames env mentions_frame aliases_frame (lo_resolver opts)) (\<lambda>_.
     rbind (input_mentions env mentions_frame opts) (\<lambda>mentions.
       if mentions = [] then Inr []
       else rbind (build_reference env aliases_frame opts) (\<lambda>(ref, version).
         rbind (collect (link_mention_rows env opts ref version) mentions) (\<lambda>rows.
           if ambiguous_pairs (concat rows) \<noteq> [] \<and> lo_on_ambiguity opts = ''error''
           then Inl (AmbiguousPairs (ambiguous_pairs (concat rows)))
           else Inr (concat rows)))))))"

end
