(* ===== verification/Linking_Props.thy ===== *)
theory Linking_Props
  imports Linking Hashing_Props
begin

text \<open>
  What the table of links says: under an alias table the candidates of a mention are exactly the aliases the first
  matching method finds, under fuzzy text exactly the best scores above the threshold, and no two rows share an ID.
\<close>

section \<open>Buckets and collected results\<close>

lemma get_list_update [simp]: "get_list (AList.update k v d) k' = (if k = k' then v else get_list d k')"
  by (simp add: get_list_def update_conv')

lemma get_list_Nil [simp]: "get_list [] k = []"
  by (simp add: get_list_def)

lemma map_of_all_None: "d = [] \<longleftrightarrow> (\<forall>k. map_of d k = None)"
  by (cases d) (auto simp: map_of_eq_None_iff)

lemma collect_Inr: "collect f xs = Inr ys \<longleftrightarrow> list_all2 (\<lambda>x y. f x = Inr y) xs ys"
  by (induction xs arbitrary: ys) (auto simp: rbind_eq_Inr list_all2_Cons1)

lemma set_list_all2:
  assumes "list_all2 P xs ys"
  shows "y \<in> set ys \<Longrightarrow> \<exists>x \<in> set xs. P x y" "x \<in> set xs \<Longrightarrow> \<exists>y \<in> set ys. P x y"
  using assms by (induction rule: list_all2_induct) auto

lemma set_link_cells:
  assumes "res \<noteq> []"
  shows "x \<in> set (link_cells res) \<longleftrightarrow> (\<exists>n r ca. map_of res n = Some r \<and> ca \<in> set (nr_candidates r)
    \<and> x = (Some n, Some (ca_canonical_id ca), Some (nr_method r), ca_score ca, nr_status r))"
proof -
  have "n \<in> fst ` set res \<longleftrightarrow> (\<exists>r. map_of res n = Some r)" for n by (metis map_of_eq_None_iff not_None_eq)
  moreover have "x \<in> set (link_cells res) \<longleftrightarrow> (\<exists>n \<in> fst ` set res. x \<in> set (case map_of res n of
      Some r \<Rightarrow> map (\<lambda>c. (Some n, Some (ca_canonical_id c), Some (nr_method r), ca_score c, nr_status r)) (nr_candidates r) | None \<Rightarrow> []))"
    using assms by (simp add: link_cells_def)
  ultimately have "x \<in> set (link_cells res) \<longleftrightarrow> (\<exists>n r. map_of res n = Some r
      \<and> x \<in> set (map (\<lambda>c. (Some n, Some (ca_canonical_id c), Some (nr_method r), ca_score c, nr_status r)) (nr_candidates r)))"
    by (metis (no_types, lifting) option.case(2))
  then show ?thesis by auto
qed

section \<open>What a resolver promises\<close>

locale resolver_reference =
  fixes resolutions :: "'s \<Rightarrow> (string \<times> namespace_resolution) list"
  assumes namespaces: "distinct (map fst (resolutions s))"
    and candidates: "map_of (resolutions s) n = Some r \<Longrightarrow> distinct (map ca_canonical_id (nr_candidates r))
      \<and> nr_status r = (if length (nr_candidates r) = 1 then Matched else Ambiguous)"
begin

lemma cells_iff:
  "(Some n, Some c, Some k, sc, st) \<in> set (link_cells (resolutions s)) \<longleftrightarrow>
     (\<exists>r. map_of (resolutions s) n = Some r \<and> k = nr_method r \<and> st = nr_status r \<and> \<lparr>ca_canonical_id = c, ca_score = sc\<rparr> \<in> set (nr_candidates r))"
proof (cases "resolutions s = []")
  case False
  have "(\<exists>ca \<in> set cs. c = ca_canonical_id ca \<and> sc = ca_score ca) \<longleftrightarrow> \<lparr>ca_canonical_id = c, ca_score = sc\<rparr> \<in> set cs" for cs :: "candidate list"
    by (metis candidate.select_convs(1,2) candidate.surjective old.unit.exhaust)
  then show ?thesis unfolding set_link_cells [OF False] Pair_inject option.inject by blast
qed (simp add: link_cells_def)

lemma unmatched_iff: "(n, c, k, sc, Unmatched) \<in> set (link_cells (resolutions s)) \<longleftrightarrow>
    resolutions s = [] \<and> n = None \<and> c = None \<and> k = None \<and> sc = None"
proof (cases "resolutions s = []")
  case False
  have "nr_status r \<noteq> Unmatched" if "map_of (resolutions s) x = Some r" for x r using candidates [OF that] by simp
  then show ?thesis using False unfolding set_link_cells [OF False] by force
qed (auto simp: link_cells_def)

lemma cells_unique: "distinct (map (\<lambda>(n, c, _). (or_empty n, or_empty c)) (link_cells (resolutions s)))"
proof (cases "resolutions s = []")
  case False
  let ?row = "\<lambda>n. case map_of (resolutions s) n of
      Some r \<Rightarrow> map (\<lambda>c. (Some n, Some (ca_canonical_id c), Some (nr_method r), ca_score c, nr_status r)) (nr_candidates r)
    | None \<Rightarrow> []"
  let ?key = "\<lambda>(n, c, _). (or_empty n, or_empty c)"
  have row: "map ?key (?row n) = map (Pair n) (case map_of (resolutions s) n of Some r \<Rightarrow> map ca_canonical_id (nr_candidates r) | None \<Rightarrow> [])" for n
    by (simp add: or_empty_def comp_def split: option.splits)
  have "distinct (concat (map (\<lambda>n. map ?key (?row n)) ns))" if "distinct ns" for ns
    using that
  proof (induction ns)
    case (Cons n ns)
    have "distinct (map ?key (?row n))" unfolding row using candidates [of s n] by (auto simp: distinct_map inj_on_def split: option.splits)
    moreover have "set (map ?key (?row n)) \<inter> set (concat (map (\<lambda>n. map ?key (?row n)) ns)) = {}"
      unfolding row using Cons.prems by auto
    ultimately show ?case using Cons by simp
  qed simp
  then show ?thesis using False namespaces [of s] by (simp add: link_cells_def map_concat comp_def)
qed (simp add: link_cells_def)

end

section \<open>Alias tables\<close>

lemma find_SomeD': "find P xs = Some x \<Longrightarrow> P x \<and> x \<in> set xs"
  by (induction xs) (auto split: if_splits)

text \<open>The canonical IDs of a namespace whose alias has the key of the text.\<close>

definition alias_ids :: "link_env \<Rightarrow> alias_row list \<Rightarrow> match_method \<Rightarrow> string \<Rightarrow> string \<Rightarrow> string set" where
  "alias_ids env rows m s n = ar_canonical_id ` {a \<in> set rows. ar_namespace a = n \<and> match_key env m (ar_alias a) = match_key env m s}"

lemma build_lookup_spec:
  shows "set (get_list (get_list (build_lookup env m rows) key) n) = ar_canonical_id ` {a \<in> set rows. ar_namespace a = n \<and> match_key env m (ar_alias a) = key}"
    and "distinct (get_list (get_list (build_lookup env m rows) key) n)" "map_of (get_list (build_lookup env m rows) key) n = None \<longleftrightarrow> get_list (get_list (build_lookup env m rows) key) n = []"
proof (induction rows rule: rev_induct)
  case (snoc a rows)
  { case 1 then show ?case using snoc(1) by (auto simp: build_lookup_def add_alias_def Let_def)
  next
    case 2 then show ?case using snoc(2) by (auto simp: build_lookup_def add_alias_def Let_def)
  next
    case 3 then show ?case using snoc(3) by (auto simp: build_lookup_def add_alias_def Let_def update_conv' set_add_def) }
qed (simp_all add: build_lookup_def)

lemma keys_take_hits: "distinct (map fst resolved) \<Longrightarrow> distinct (map fst (take_hits m hits resolved))"
  unfolding take_hits_def by (induction hits arbitrary: resolved) (auto simp: distinct_update)

lemma map_of_take_hits:
  "map_of (take_hits m hits resolved) n = (case map_of resolved n of Some r \<Rightarrow> Some r
     | None \<Rightarrow> map_option (\<lambda>ids. \<lparr>nr_method = method_name m, nr_status = status_of ids,
         nr_candidates = map (\<lambda>c. \<lparr>ca_canonical_id = c, ca_score = None\<rparr>) (sort ids)\<rparr>) (map_of hits n))"
proof (induction hits arbitrary: resolved)
  case (Cons h hits)
  obtain a ids where h: "h = (a, ids)" by (cases h)
  have step: "take_hits m (h # hits) resolved = take_hits m hits (if map_of resolved a \<noteq> None then resolved
      else AList.update a \<lparr>nr_method = method_name m, nr_status = status_of ids,
        nr_candidates = map (\<lambda>c. \<lparr>ca_canonical_id = c, ca_score = None\<rparr>) (sort ids)\<rparr> resolved)"
    by (simp add: take_hits_def h)
  show ?case unfolding step Cons.IH by (cases "map_of resolved a"; cases "map_of resolved n") (auto simp: h update_conv')
qed (simp add: take_hits_def split: option.splits)

lemma map_of_methods:
  "map_of (fold (\<lambda>m. take_hits m (hits m)) methods resolved) n = (case map_of resolved n of Some r \<Rightarrow> Some r
     | None \<Rightarrow> (case find (\<lambda>m. map_of (hits m) n \<noteq> None) methods of None \<Rightarrow> None
         | Some m \<Rightarrow> map_option (\<lambda>ids. \<lparr>nr_method = method_name m, nr_status = status_of ids,
             nr_candidates = map (\<lambda>c. \<lparr>ca_canonical_id = c, ca_score = None\<rparr>) (sort ids)\<rparr>) (map_of (hits m) n)))"
proof (induction methods arbitrary: resolved)
  case (Cons m methods)
  show ?case by (simp add: Cons.IH map_of_take_hits split: option.splits)
qed (simp split: option.splits)

lemma keys_methods: "distinct (map fst resolved) \<Longrightarrow> distinct (map fst (fold (\<lambda>m. take_hits m (hits m)) methods resolved))"
  by (induction methods arbitrary: resolved) (simp_all add: keys_take_hits)

definition alias_resolution :: "link_env \<Rightarrow> alias_row list \<Rightarrow> match_method \<Rightarrow> string \<Rightarrow> string \<Rightarrow> namespace_resolution" where
  "alias_resolution env rows m s n = \<lparr>nr_method = method_name m, nr_status = (if card (alias_ids env rows m s n) = 1 then Matched else Ambiguous),
     nr_candidates = map (\<lambda>c. \<lparr>ca_canonical_id = c, ca_score = None\<rparr>) (sorted_list_of_set (alias_ids env rows m s n))\<rparr>"

lemma resolve_alias_table_spec:
  "map_of (resolve_alias_table env (\<lambda>m. build_lookup env m rows) methods s) n =
     (if py_strip s = [] then None
      else map_option (\<lambda>m. alias_resolution env rows m s n) (find (\<lambda>m. alias_ids env rows m s n \<noteq> {}) methods))"
proof -
  let ?hits = "\<lambda>m. get_list (build_lookup env m rows) (match_key env m s)"
  note spec = build_lookup_spec [where env = env and rows = rows and key = "match_key env m s" and m = m and n = n for m]
  have some: "map_of (?hits m) n \<noteq> None \<longleftrightarrow> alias_ids env rows m s n \<noteq> {}" for m
    unfolding spec(3) alias_ids_def spec(1) [symmetric] by simp
  have ids: "the (map_of (?hits m) n) = get_list (?hits m) n" if "alias_ids env rows m s n \<noteq> {}" for m
    using that some [of m] by (auto simp: get_list_def)
  have set_ids: "set (get_list (?hits m) n) = alias_ids env rows m s n" for m by (simp add: spec(1) alias_ids_def)
  have "sort (get_list (?hits m) n) = sorted_list_of_set (alias_ids env rows m s n)" for m
    using spec(2) [of m] set_ids [of m] by (metis sorted_list_of_set_sort_remdups distinct_remdups_id)
  moreover have "status_of (get_list (?hits m) n) = (if card (alias_ids env rows m s n) = 1 then Matched else Ambiguous)" for m
    using spec(2) [of m] set_ids [of m] by (metis status_of_def distinct_card)
  ultimately have res: "map_option (\<lambda>ids. \<lparr>nr_method = method_name m, nr_status = status_of ids,
      nr_candidates = map (\<lambda>c. \<lparr>ca_canonical_id = c, ca_score = None\<rparr>) (sort ids)\<rparr>) (map_of (?hits m) n)
      = Some (alias_resolution env rows m s n)" if "alias_ids env rows m s n \<noteq> {}" for m
    using that some [of m] ids [of m] by (auto simp: alias_resolution_def)
  show ?thesis
  proof (cases "py_strip s = []")
    case False
    show ?thesis
    proof (cases "find (\<lambda>m. alias_ids env rows m s n \<noteq> {}) methods")
      case (Some m)
      with find_SomeD' [OF Some] show ?thesis
        unfolding resolve_alias_table_def if_not_P [OF False] map_of_methods some by (simp add: res)
    qed (unfold resolve_alias_table_def if_not_P [OF False] map_of_methods some, simp)
  qed (simp add: resolve_alias_table_def)
qed

interpretation alias_table: resolver_reference "resolve_alias_table env (\<lambda>m. build_lookup env m rows) methods" for env rows methods
proof unfold_locales
  fix s n r
  show "distinct (map fst (resolve_alias_table env (\<lambda>m. build_lookup env m rows) methods s))"
    by (simp add: resolve_alias_table_def keys_methods)
  assume "map_of (resolve_alias_table env (\<lambda>m. build_lookup env m rows) methods s) n = Some r"
  then obtain m where f: "find (\<lambda>m. alias_ids env rows m s n \<noteq> {}) methods = Some m" and r: "r = alias_resolution env rows m s n"
    by (auto simp: resolve_alias_table_spec split: if_splits)
  from find_SomeD' [OF f] have m: "alias_ids env rows m s n \<noteq> {}" by simp
  have "finite (alias_ids env rows m s n)" by (simp add: alias_ids_def)
  with m show "distinct (map ca_canonical_id (nr_candidates r))
      \<and> nr_status r = (if length (nr_candidates r) = 1 then Matched else Ambiguous)"
    by (simp add: r alias_resolution_def comp_def)
qed

lemma alias_cells_iff:
  "(Some n, Some c, Some k, sc, st) \<in> set (link_cells (resolve_alias_table env (\<lambda>m. build_lookup env m rows) methods s)) \<longleftrightarrow>
     py_strip s \<noteq> [] \<and> (\<exists>m. find (\<lambda>m. alias_ids env rows m s n \<noteq> {}) methods = Some m \<and> c \<in> alias_ids env rows m s n
       \<and> k = method_name m \<and> sc = None \<and> st = (if card (alias_ids env rows m s n) = 1 then Matched else Ambiguous))"
proof -
  have "\<lparr>ca_canonical_id = c, ca_score = sc\<rparr> \<in> set (nr_candidates (alias_resolution env rows m s n))
      \<longleftrightarrow> c \<in> alias_ids env rows m s n \<and> sc = None" for m
    by (auto simp: alias_resolution_def alias_ids_def)
  moreover have "nr_method (alias_resolution env rows m s n) = method_name m"
    "nr_status (alias_resolution env rows m s n) = (if card (alias_ids env rows m s n) = 1 then Matched else Ambiguous)" for m
    by (simp_all add: alias_resolution_def)
  ultimately show ?thesis unfolding alias_table.cells_iff resolve_alias_table_spec
    by (cases "find (\<lambda>m. alias_ids env rows m s n \<noteq> {}) methods") auto
qed

lemma alias_cells_unmatched:
  "(\<exists>n c k sc. (n, c, k, sc, Unmatched) \<in> set (link_cells (resolve_alias_table env (\<lambda>m. build_lookup env m rows) methods s))) \<longleftrightarrow>
     py_strip s = [] \<or> (\<forall>n. \<forall>m \<in> set methods. alias_ids env rows m s n = {})"
  unfolding alias_table.unmatched_iff map_of_all_None resolve_alias_table_spec by (auto simp: find_None_iff)

section \<open>Scored candidates\<close>

lemma scored_by_namespace_spec:
  "get_list (scored_by_namespace score t ns cid aliases) n = map (\<lambda>a. (score a, cid a)) (filter (\<lambda>a. ns a = n \<and> score a \<ge> t) aliases)"
  "map_of (scored_by_namespace score t ns cid aliases) n = None
     \<longleftrightarrow> get_list (scored_by_namespace score t ns cid aliases) n = []"
  "distinct (map fst (scored_by_namespace score t ns cid aliases))"
proof (induction aliases rule: rev_induct)
  case (snoc a aliases)
  { case 1 then show ?case using snoc(1) by (simp add: scored_by_namespace_def)
  next
    case 2 then show ?case using snoc(2) by (simp add: scored_by_namespace_def update_conv')
  next
    case 3 then show ?case using snoc(3) by (simp add: scored_by_namespace_def distinct_update) }
qed (simp_all add: scored_by_namespace_def)

lemma map_of_resolve_scored:
  "map_of (resolve_scored_candidates margin mname d) n = map_option (resolve_scored margin mname) (map_of d n)"
  by (induction d) (auto simp: resolve_scored_candidates_def)

lemma resolve_scored_winners:
  assumes "scored \<noteq> []"
  shows "\<lparr>ca_canonical_id = c, ca_score = sc\<rparr> \<in> set (nr_candidates (resolve_scored margin mname scored)) \<longleftrightarrow>
      (\<exists>x. sc = Some x \<and> (x, c) \<in> set scored \<and> (\<forall>y. (y, c) \<in> set scored \<longrightarrow> y \<le> x)
        \<and> (\<forall>(y, c') \<in> set scored. y - x \<le> margin))"
    (is "?l \<longleftrightarrow> ?r")
proof -
  let ?mine = "fst ` {x \<in> set scored. snd x = c}" and ?top = "Max (fst ` set scored)"
  have fin: "finite ?mine" "finite (fst ` set scored)" by simp_all
  have winner: "c \<in> set (map snd (filter (\<lambda>(score, _). ?top - score \<le> margin) scored))
      \<longleftrightarrow> (\<exists>x. (x, c) \<in> set scored \<and> ?top - x \<le> margin)" by force
  have l: "?l \<longleftrightarrow> (\<exists>x. (x, c) \<in> set scored \<and> ?top - x \<le> margin) \<and> sc = Some (Max ?mine)"
    unfolding winner [symmetric] by (auto simp: resolve_scored_def Let_def)
  have top: "?top - x \<le> margin \<longleftrightarrow> (\<forall>(y, c') \<in> set scored. y - x \<le> margin)" for x
  proof -
    have "?top \<le> margin + x \<longleftrightarrow> (\<forall>y \<in> fst ` set scored. y \<le> margin + x)" using assms by simp
    then show ?thesis by (force simp: algebra_simps)
  qed
  have best: "Max ?mine = x \<longleftrightarrow> (x, c) \<in> set scored \<and> (\<forall>y. (y, c) \<in> set scored \<longrightarrow> y \<le> x)" if "(z, c) \<in> set scored" for x z
  proof -
    have ne: "?mine \<noteq> {}" using that by force
    show ?thesis unfolding Max_eq_iff [OF fin(1) ne] by force
  qed
  show ?thesis
  proof
    assume ?l
    with l obtain z where z: "(z, c) \<in> set scored" "?top - z \<le> margin" and sc: "sc = Some (Max ?mine)" by blast
    have b: "(Max ?mine, c) \<in> set scored" "\<forall>y. (y, c) \<in> set scored \<longrightarrow> y \<le> Max ?mine" using best [OF z(1), of "Max ?mine"] by simp_all
    with z have "?top - Max ?mine \<le> margin" by fastforce
    with b sc top show ?r by blast
  next
    assume ?r
    then obtain x where x: "sc = Some x" "(x, c) \<in> set scored" "\<forall>y. (y, c) \<in> set scored \<longrightarrow> y \<le> x"
      and "\<forall>(y, c') \<in> set scored. y - x \<le> margin" by blast
    then have "?top - x \<le> margin" by (simp add: top)
    moreover have "Max ?mine = x" using best [OF x(2), of x] x(2,3) by simp
    ultimately show ?l unfolding l using x(1,2) by blast
  qed
qed

lemma resolve_scored_proper:
  "distinct (map ca_canonical_id (nr_candidates (resolve_scored margin mname scored)))"
  "nr_status (resolve_scored margin mname scored) = (if length (nr_candidates (resolve_scored margin mname scored)) = 1 then Matched else Ambiguous)"
  "nr_method (resolve_scored margin mname scored) = mname"
  by (simp_all add: resolve_scored_def Let_def comp_def status_of_def)

lemma keys_resolve_scored: "map fst (resolve_scored_candidates margin mname d) = map fst d"
  by (simp add: resolve_scored_candidates_def comp_def split_beta)

interpretation fuzzy: resolver_reference "resolve_fuzzy env aliases metric folded threshold margin" for env aliases metric folded threshold margin
proof unfold_locales
  fix s n r
  show "distinct (map fst (resolve_fuzzy env aliases metric folded threshold margin s))"
    by (simp add: resolve_fuzzy_def Let_def keys_resolve_scored scored_by_namespace_spec(3))
  assume "map_of (resolve_fuzzy env aliases metric folded threshold margin s) n = Some r"
  then show "distinct (map ca_canonical_id (nr_candidates r)) \<and> nr_status r = (if length (nr_candidates r) = 1 then Matched else Ambiguous)"
    by (auto simp: resolve_fuzzy_def Let_def map_of_resolve_scored resolve_scored_proper split: if_splits)
qed

text \<open>The resolutions of a vector, where its dimension is the one of the reference.\<close>

definition vector_resolutions :: "link_env \<Rightarrow> alias_vector list \<Rightarrow> similarity_metric \<Rightarrow> rat \<Rightarrow> rat \<Rightarrow> rat list \<Rightarrow> (string \<times> namespace_resolution) list" where
  "vector_resolutions env aliases metric threshold margin v = resolve_scored_candidates margin (metric_name metric)
     (scored_by_namespace (\<lambda>a. similarity env metric v (av_vector a)) threshold av_namespace av_canonical_id aliases)"

lemma resolve_vector_Inr:
  "resolve_vector env aliases dims metric threshold margin v = Inr res \<Longrightarrow> res = vector_resolutions env aliases metric threshold margin v"
  by (auto simp: resolve_vector_def vector_resolutions_def scored_by_namespace_def resolve_scored_candidates_def split: if_splits)

interpretation vectors: resolver_reference "vector_resolutions env aliases metric threshold margin" for env aliases metric threshold margin
proof unfold_locales
  fix s n r
  show "distinct (map fst (vector_resolutions env aliases metric threshold margin s))"
    by (simp add: vector_resolutions_def keys_resolve_scored scored_by_namespace_spec(3))
  assume "map_of (vector_resolutions env aliases metric threshold margin s) n = Some r"
  then show "distinct (map ca_canonical_id (nr_candidates r)) \<and> nr_status r = (if length (nr_candidates r) = 1 then Matched else Ambiguous)"
    by (auto simp: vector_resolutions_def map_of_resolve_scored resolve_scored_proper)
qed

lemma fuzzy_score_bounds: "finite a \<Longrightarrow> finite b \<Longrightarrow> 0 \<le> fuzzy_score a b metric \<and> fuzzy_score a b metric \<le> 1"
proof -
  assume f: "finite a" "finite b"
  have "card (a \<inter> b) \<le> card (a \<union> b)" "card (a \<inter> b) \<le> card a" "card (a \<inter> b) \<le> card b"
    using f by (auto intro: card_mono)
  then have "2 * rat_of_nat (card (a \<inter> b)) \<le> rat_of_nat (card a + card b)" by simp
  with f \<open>card (a \<inter> b) \<le> card (a \<union> b)\<close> show ?thesis
    by (cases metric) (auto simp: fuzzy_score_def divide_le_eq_1 card_gt_0_iff)
qed

lemma fuzzy_score_one: "finite a \<Longrightarrow> finite b \<Longrightarrow> a \<noteq> {} \<Longrightarrow> fuzzy_score a b metric = 1 \<longleftrightarrow> a = b"
proof -
  assume f: "finite a" "finite b" "a \<noteq> {}"
  have le: "card (a \<inter> b) \<le> card a" "card (a \<inter> b) \<le> card b" using f by (auto intro: card_mono)
  have jaccard: "card (a \<inter> b) = card (a \<union> b) \<longleftrightarrow> a = b"
  proof
    assume "card (a \<inter> b) = card (a \<union> b)"
    then have "a \<inter> b = a \<union> b" using f by (intro card_subset_eq) auto
    then show "a = b" by blast
  qed simp
  have dice: "2 * card (a \<inter> b) = card a + card b \<longleftrightarrow> a = b"
  proof
    assume "2 * card (a \<inter> b) = card a + card b"
    with le have "card (a \<inter> b) = card a" "card (a \<inter> b) = card b" by linarith+
    then show "a = b" using f by (metis Int_lower1 Int_lower2 card_subset_eq)
  qed simp
  have pos: "0 < card (a \<union> b)" "0 < card a + card b" using f by (auto simp: card_gt_0_iff)
  show ?thesis
  proof (cases "b = {}")
    case False
    have "rat_of_nat (card (a \<inter> b)) / rat_of_nat (card (a \<union> b)) = 1 \<longleftrightarrow> card (a \<inter> b) = card (a \<union> b)" using pos(1) by auto
    moreover have "2 * rat_of_nat (card (a \<inter> b)) / rat_of_nat (card a + card b) = 1 \<longleftrightarrow> 2 * rat_of_nat (card (a \<inter> b)) = rat_of_nat (card a + card b)"
      using pos(2) by (auto simp: divide_eq_1_iff simp del: of_nat_add)
    moreover have "2 * rat_of_nat (card (a \<inter> b)) = rat_of_nat (card a + card b) \<longleftrightarrow> 2 * card (a \<inter> b) = card a + card b" by linarith
    ultimately show ?thesis using f(3) False jaccard dice by (cases metric) (simp_all add: fuzzy_score_def)
  qed (use f in \<open>simp add: fuzzy_score_def\<close>)
qed

definition alias_score :: "link_env \<Rightarrow> fuzzy_metric \<Rightarrow> bool \<Rightarrow> string \<Rightarrow> alias_row \<Rightarrow> rat" where
  "alias_score env metric folded s r = fuzzy_score (fuzzy_representation (prepare_text env folded s) metric)
     (fuzzy_representation (prepare_text env folded (ar_alias r)) metric) metric"

text \<open>The winners of a namespace: an ID with the best score of its aliases, at least the threshold and within the margin of every score.\<close>

definition fuzzy_wins ::
  "link_env \<Rightarrow> alias_row list \<Rightarrow> fuzzy_metric \<Rightarrow> bool \<Rightarrow> rat \<Rightarrow> rat \<Rightarrow> string \<Rightarrow> string \<Rightarrow> (string \<times> rat) set" where
  "fuzzy_wins env rows metric folded t margin s n = {(c, x). t \<le> x
     \<and> (\<exists>r \<in> set rows. ar_namespace r = n \<and> ar_canonical_id r = c \<and> x = alias_score env metric folded s r)
     \<and> (\<forall>r \<in> set rows. ar_namespace r = n \<longrightarrow> alias_score env metric folded s r \<le> x + margin
          \<and> (ar_canonical_id r = c \<longrightarrow> alias_score env metric folded s r \<le> x))}"

lemma finite_representation: "finite (fuzzy_representation s metric)"
  by (simp add: fuzzy_representation_def Let_def split: fuzzy_metric.splits)

lemma alias_score_bounds: "0 \<le> alias_score env metric folded s r" "alias_score env metric folded s r \<le> 1"
  using fuzzy_score_bounds [OF finite_representation finite_representation] by (simp_all add: alias_score_def)

lemma fuzzy_candidates:
  fixes env rows metric folded t margin s n
  defines "scored \<equiv> map (\<lambda>r. (alias_score env metric folded s r, ar_canonical_id r))
      (filter (\<lambda>r. ar_namespace r = n \<and> t \<le> alias_score env metric folded s r) rows)"
  assumes "0 \<le> margin" "scored \<noteq> []"
  shows "\<lparr>ca_canonical_id = c, ca_score = sc\<rparr> \<in> set (nr_candidates (resolve_scored margin mname scored)) \<longleftrightarrow>
      (\<exists>x. sc = Some x \<and> (c, x) \<in> fuzzy_wins env rows metric folded t margin s n)"
proof -
  let ?score = "alias_score env metric folded s"
  have mem: "(y, d) \<in> set scored \<longleftrightarrow> (\<exists>r \<in> set rows. ar_namespace r = n \<and> ar_canonical_id r = d \<and> y = ?score r \<and> t \<le> y)" for y d
    by (auto simp: scored_def)
  have margin: "0 \<le> margin" using assms(2) by simp
  have "(x, c) \<in> set scored \<and> (\<forall>y. (y, c) \<in> set scored \<longrightarrow> y \<le> x) \<and> (\<forall>(y, c') \<in> set scored. y - x \<le> margin)
      \<longleftrightarrow> (c, x) \<in> fuzzy_wins env rows metric folded t margin s n" for x
  proof
    assume l: "(x, c) \<in> set scored \<and> (\<forall>y. (y, c) \<in> set scored \<longrightarrow> y \<le> x) \<and> (\<forall>(y, c') \<in> set scored. y - x \<le> margin)"
    then have x: "t \<le> x" "\<exists>r \<in> set rows. ar_namespace r = n \<and> ar_canonical_id r = c \<and> x = ?score r" by (auto simp: mem)
    have "?score r \<le> x + margin \<and> (ar_canonical_id r = c \<longrightarrow> ?score r \<le> x)" if r: "r \<in> set rows" "ar_namespace r = n" for r
    proof (cases "t \<le> ?score r")
      case True
      with r have "(?score r, ar_canonical_id r) \<in> set scored" by (auto simp: mem)
      with l show ?thesis by force
    qed (use x(1) margin in linarith)
    with x show "(c, x) \<in> fuzzy_wins env rows metric folded t margin s n" by (auto simp: fuzzy_wins_def)
  next
    assume "(c, x) \<in> fuzzy_wins env rows metric folded t margin s n"
    then show "(x, c) \<in> set scored \<and> (\<forall>y. (y, c) \<in> set scored \<longrightarrow> y \<le> x) \<and> (\<forall>(y, c') \<in> set scored. y - x \<le> margin)"
      by (auto simp: mem fuzzy_wins_def algebra_simps)
  qed
  then show ?thesis unfolding resolve_scored_winners [OF assms(3)] by blast
qed

definition fuzzy_scored :: "link_env \<Rightarrow> alias_row list \<Rightarrow> fuzzy_metric \<Rightarrow> bool \<Rightarrow> rat \<Rightarrow> string \<Rightarrow> string \<Rightarrow> (rat \<times> string) list" where
  "fuzzy_scored env rows metric folded t s n = map (\<lambda>r. (alias_score env metric folded s r, ar_canonical_id r))
      (filter (\<lambda>r. ar_namespace r = n \<and> t \<le> alias_score env metric folded s r) rows)"

lemma map_of_resolve_fuzzy:
  assumes "0 < t"
  shows "map_of (resolve_fuzzy env (map (fuzzy_alias_of env folded metric) rows) metric folded t margin s) n =
    (if py_strip s = [] \<or> fuzzy_scored env rows metric folded t s n = [] then None
     else Some (resolve_scored margin (fuzzy_name metric) (fuzzy_scored env rows metric folded t s n)))"
proof (cases "fuzzy_representation (prepare_text env folded s) metric = {}")
  case True
  then have "fuzzy_scored env rows metric folded t s n = []"
    using assms by (simp add: fuzzy_scored_def alias_score_def fuzzy_score_def filter_empty_conv not_le)
  with True show ?thesis by (simp add: resolve_fuzzy_def)
next
  case False
  let ?d = "scored_by_namespace (\<lambda>a. fuzzy_score (fuzzy_representation (prepare_text env folded s) metric) (fa_signature a) metric)
      t fa_namespace fa_canonical_id (map (fuzzy_alias_of env folded metric) rows)"
  have d: "get_list ?d n = fuzzy_scored env rows metric folded t s n"
    by (simp add: scored_by_namespace_spec(1) fuzzy_scored_def filter_map comp_def fuzzy_alias_of_def alias_score_def)
  have "map_of ?d n = None \<longleftrightarrow> get_list ?d n = []" by (rule scored_by_namespace_spec(2))
  with d have "map_of ?d n = (if fuzzy_scored env rows metric folded t s n = [] then None else Some (fuzzy_scored env rows metric folded t s n))"
    by (cases "map_of ?d n") (auto simp: get_list_def)
  with False show ?thesis by (simp add: resolve_fuzzy_def Let_def map_of_resolve_scored)
qed

lemma fuzzy_resolution:
  fixes env rows metric folded t margin s n
  defines "wins \<equiv> fuzzy_wins env rows metric folded t margin s n" and "scored \<equiv> fuzzy_scored env rows metric folded t s n"
  assumes "0 \<le> margin" "scored \<noteq> []"
  shows "\<lparr>ca_canonical_id = c, ca_score = sc\<rparr> \<in> set (nr_candidates (resolve_scored margin mname scored)) \<longleftrightarrow> (\<exists>x. sc = Some x \<and> (c, x) \<in> wins)"
    and "nr_status (resolve_scored margin mname scored) = (if card wins = 1 then Matched else Ambiguous)" "wins \<noteq> {}"
proof -
  note win = fuzzy_candidates [OF assms(3), of env metric folded s n t rows _ _ mname, folded fuzzy_scored_def, OF assms(4) [unfolded scored_def],
      folded scored_def wins_def]
  show "\<lparr>ca_canonical_id = c, ca_score = sc\<rparr> \<in> set (nr_candidates (resolve_scored margin mname scored)) \<longleftrightarrow> (\<exists>x. sc = Some x \<and> (c, x) \<in> wins)"
    by (rule win)
  let ?cs = "nr_candidates (resolve_scored margin mname scored)"
  have "x \<in> set ?cs \<longleftrightarrow> x \<in> (\<lambda>(c, x). \<lparr>ca_canonical_id = c, ca_score = Some x\<rparr>) ` wins" for x
    using win [of "ca_canonical_id x" "ca_score x"] by (cases x) force
  then have "set ?cs = (\<lambda>(c, x). \<lparr>ca_canonical_id = c, ca_score = Some x\<rparr>) ` wins" by blast
  moreover have "inj_on (\<lambda>(c, x). \<lparr>ca_canonical_id = c, ca_score = Some x\<rparr>) wins" by (auto simp: inj_on_def)
  ultimately have "card wins = card (set ?cs)" by (simp add: card_image)
  also have "\<dots> = length ?cs" using resolve_scored_proper(1) [of margin mname scored] by (simp add: distinct_card distinct_map)
  finally show "nr_status (resolve_scored margin mname scored) = (if card wins = 1 then Matched else Ambiguous)"
    by (simp add: resolve_scored_proper(2))
  have "Max (fst ` set scored) \<in> fst ` set scored" using assms(4) by (intro Max_in) auto
  then obtain x c where x: "(x, c) \<in> set scored" "x = Max (fst ` set scored)" by force
  have le: "y \<le> x" if "(y, d) \<in> set scored" for y d using that unfolding x(2) by (intro Max_ge) force+
  have "y - x \<le> margin" if "(y, d) \<in> set scored" for y d
    using le [OF that] order_trans [of "y - x" 0 margin] assms(3) by simp
  with le x(1) have "\<lparr>ca_canonical_id = c, ca_score = Some x\<rparr> \<in> set ?cs" unfolding resolve_scored_winners [OF assms(4)] by blast
  with win show "wins \<noteq> {}" by blast
qed

lemma fuzzy_wins_scored: "(c, x) \<in> fuzzy_wins env rows metric folded t margin s n \<Longrightarrow> fuzzy_scored env rows metric folded t s n \<noteq> []"
  by (auto simp: fuzzy_wins_def fuzzy_scored_def filter_empty_conv)

lemma fuzzy_cells:
  fixes env rows metric folded t margin
  assumes "0 < t" "0 \<le> margin"
  defines "cells \<equiv> \<lambda>s. set (link_cells (resolve_fuzzy env (map (fuzzy_alias_of env folded metric) rows) metric folded t margin s))"
    and "wins \<equiv> fuzzy_wins env rows metric folded t margin"
  shows "(Some n, Some c, Some k, sc, st) \<in> cells s \<longleftrightarrow> py_strip s \<noteq> [] \<and> (\<exists>x. sc = Some x \<and> (c, x) \<in> wins s n)
      \<and> k = fuzzy_name metric \<and> st = (if card (wins s n) = 1 then Matched else Ambiguous)"
    and "(\<exists>n c k sc. (n, c, k, sc, Unmatched) \<in> cells s) \<longleftrightarrow> py_strip s = [] \<or> (\<forall>n. wins s n = {})"
proof -
  note res = fuzzy_resolution [OF assms(2), of env rows metric folded t s, folded wins_def]
  show "(Some n, Some c, Some k, sc, st) \<in> cells s \<longleftrightarrow> py_strip s \<noteq> [] \<and> (\<exists>x. sc = Some x \<and> (c, x) \<in> wins s n)
      \<and> k = fuzzy_name metric \<and> st = (if card (wins s n) = 1 then Matched else Ambiguous)"
    unfolding cells_def fuzzy.cells_iff map_of_resolve_fuzzy [OF assms(1)]
    using res(1,2) [of n] fuzzy_wins_scored [of c _ env rows metric folded t margin s n, folded wins_def]
    by (auto simp: resolve_scored_proper(3))
  have "fuzzy_scored env rows metric folded t s n = [] \<longleftrightarrow> wins s n = {}" for n
    using res(3) [of n] fuzzy_wins_scored [of _ _ env rows metric folded t margin s n, folded wins_def] by force
  then show "(\<exists>n c k sc. (n, c, k, sc, Unmatched) \<in> cells s) \<longleftrightarrow> py_strip s = [] \<or> (\<forall>n. wins s n = {})"
    unfolding cells_def fuzzy.unmatched_iff map_of_all_None map_of_resolve_fuzzy [OF assms(1)] by auto
qed

section \<open>The rows of one mention\<close>

definition row_cells :: "link_row \<Rightarrow> string option \<times> string option \<times> string option \<times> rat option \<times> link_status" where
  "row_cells r = (lr_namespace r, lr_canonical_id r, lr_method r, lr_score r, lr_status r)"

definition row_payload :: "link_row \<Rightarrow> hval" where
  "row_payload r = link_payload (lr_mention_id r) (lr_document_id r) (lr_namespace r) (lr_canonical_id r) (lr_method r) (lr_status r)"

lemma make_link_row_Inr:
  assumes "make_link_row env opts version m n c k sc st = Inr r"
  shows "row_cells r = (n, c, k, sc, st)" "lr_mention_id r = lm_mention_id m" "lr_document_id r = lm_document_id m"
    "fingerprint_in env ''dbt-ml.entity-link'' (row_payload r) = Inr (lr_entity_link_id r)"
  using assms by (auto simp: make_link_row_def rbind_eq_Inr row_cells_def row_payload_def entity_link_id_def)

lemma link_mention_rows_Inr:
  assumes "link_mention_rows env opts ref version m = Inr rs"
  shows "\<exists>res. mention_resolutions env ref m = Inr res \<and> map row_cells rs = link_cells res"
    and "\<forall>r \<in> set rs. lr_mention_id r = lm_mention_id m \<and> lr_document_id r = lm_document_id m \<and> fingerprint_in env ''dbt-ml.entity-link'' (row_payload r) = Inr (lr_entity_link_id r)"
proof -
  from assms obtain res where res: "mention_resolutions env ref m = Inr res"
    and rows: "list_all2 (\<lambda>x r. (case x of (n, c, k, sc, st) \<Rightarrow> make_link_row env opts version m n c k sc st) = Inr r) (link_cells res) rs"
    by (auto simp: link_mention_rows_def rbind_eq_Inr collect_Inr)
  have "map row_cells rs = link_cells res" using rows
    by (induction rule: list_all2_induct) (auto dest: make_link_row_Inr)
  with res show "\<exists>res. mention_resolutions env ref m = Inr res \<and> map row_cells rs = link_cells res" by blast
  show "\<forall>r \<in> set rs. lr_mention_id r = lm_mention_id m \<and> lr_document_id r = lm_document_id m \<and> fingerprint_in env ''dbt-ml.entity-link'' (row_payload r) = Inr (lr_entity_link_id r)"
    using rows by (induction rule: list_all2_induct) (auto dest: make_link_row_Inr)
qed

lemma mentions_distinct:
  "mentions_from env opts df seen rows = Inr ms \<Longrightarrow> distinct (map lm_mention_id ms) \<and> set (map lm_mention_id ms) \<inter> set seen = {}"
proof (induction rows arbitrary: seen ms)
  case (Cons row rows)
  then obtain i rest where "i \<notin> set seen" "mentions_from env opts df (i # seen) rows = Inr rest" "map lm_mention_id ms = i # map lm_mention_id rest"
    by (auto simp: rbind_eq_Inr split: if_splits)
  with Cons.IH [of "i # seen" rest] show ?case by auto
qed simp

lemma run_links_Inr:
  assumes "run_links env deps vocabularies raw = Inr rows" "parse_entity_link_options raw = Inr opts"
    and "dep_frames deps vocabularies opts = Inr (mf, af)" "input_mentions env mf opts = Inr ms"
  shows "distinct (map lm_mention_id ms)" "lo_on_ambiguity opts = ''error'' \<Longrightarrow> \<forall>r \<in> set rows. lr_status r \<noteq> Ambiguous"
    and "ms \<noteq> [] \<Longrightarrow> \<exists>ref version rss. build_reference env af opts = Inr (ref, version) \<and> rows = concat rss
      \<and> list_all2 (\<lambda>m rs. link_mention_rows env opts ref version m = Inr rs) ms rss"
    and "ms = [] \<Longrightarrow> rows = []"
proof -
  show "distinct (map lm_mention_id ms)"
    using assms(4) mentions_distinct [of env opts mf "[]" "tf_rows mf" ms] by (auto simp: input_mentions_def Let_def split: if_splits)
  show "\<forall>r \<in> set rows. lr_status r \<noteq> Ambiguous" if "lo_on_ambiguity opts = ''error''"
    using assms that by (auto simp: run_links_def rbind_eq_Inr ambiguous_pairs_def filter_empty_conv split: if_splits)
  show "\<exists>ref version rss. build_reference env af opts = Inr (ref, version) \<and> rows = concat rss
      \<and> list_all2 (\<lambda>m rs. link_mention_rows env opts ref version m = Inr rs) ms rss" if "ms \<noteq> []"
    using assms that by (auto simp: run_links_def rbind_eq_Inr collect_Inr split: if_splits)
  show "rows = []" if "ms = []" using assms that by (auto simp: run_links_def rbind_eq_Inr)
qed

lemma mention_rows:
  assumes "run_links env deps vocabularies raw = Inr rows" "parse_entity_link_options raw = Inr opts"
    and "dep_frames deps vocabularies opts = Inr (mf, af)" "input_mentions env mf opts = Inr ms" "m \<in> set ms"
  obtains ref version res where "build_reference env af opts = Inr (ref, version)" "mention_resolutions env ref m = Inr res"
    "set (link_cells res) = row_cells ` {r \<in> set rows. lr_mention_id r = lm_mention_id m}"
proof -
  note run = run_links_Inr [OF assms(1-4)]
  from assms(5) have "ms \<noteq> []" by auto
  with run(3) obtain ref version rss where ref: "build_reference env af opts = Inr (ref, version)" and rows: "rows = concat rss"
    and all: "list_all2 (\<lambda>m rs. link_mention_rows env opts ref version m = Inr rs) ms rss" by blast
  from set_list_all2(2) [OF all assms(5)] obtain rs where rs: "rs \<in> set rss" "link_mention_rows env opts ref version m = Inr rs" by blast
  from link_mention_rows_Inr [OF rs(2)] obtain res where res: "mention_resolutions env ref m = Inr res" "map row_cells rs = link_cells res"
    and own: "\<forall>r \<in> set rs. lr_mention_id r = lm_mention_id m" by blast
  have only: "r \<in> set rs" if r: "r \<in> set rows" "lr_mention_id r = lm_mention_id m" for r
  proof -
    from r(1) rows obtain rs' where rs': "rs' \<in> set rss" "r \<in> set rs'" by auto
    from set_list_all2(1) [OF all rs'(1)] obtain m' where m': "m' \<in> set ms" "link_mention_rows env opts ref version m' = Inr rs'" by blast
    from link_mention_rows_Inr(2) [OF m'(2)] rs'(2) r(2) have "lm_mention_id m' = lm_mention_id m" by auto
    with run(1) assms(5) m'(1) have "m' = m" by (auto simp: distinct_map dest: inj_onD)
    with m'(2) rs(2) rs'(2) show "r \<in> set rs" by simp
  qed
  have "set rs = {r \<in> set rows. lr_mention_id r = lm_mention_id m}" using only own rs(1) rows by auto
  with res(2) [symmetric] have "set (link_cells res) = row_cells ` {r \<in> set rows. lr_mention_id r = lm_mention_id m}" by simp
  with ref res(1) show thesis by (rule that)
qed

section \<open>Links exactly\<close>

lemma py_strip_Nil [simp]: "py_strip [] = []"
  by (simp add: py_strip_def py_rstrip_def py_lstrip_def)


text \<open>The text a mention is matched by.\<close>

definition mention_text :: "link_mention \<Rightarrow> string option" where
  "mention_text m = (case lm_signal m of Some (SText s) \<Rightarrow> if py_strip s = [] then None else Some s | _ \<Rightarrow> None)"

lemma mention_text_shown: "mention_text m = Some s \<longleftrightarrow> s = (case mention_text m of Some s \<Rightarrow> s | None \<Rightarrow> []) \<and> py_strip s \<noteq> []"
  by (auto simp: mention_text_def split: option.splits mention_signal.splits if_splits)

text \<open>
  C18: Under an alias table, a link row of a mention names a canonical ID exactly when the mention has text and some alias of
  that namespace, with that ID, has the same key as the text under the first configured method that finds any alias of the
  namespace; it is \<^verbatim>\<open>matched\<close> exactly when the ID is the only one. A mention has an \<^verbatim>\<open>unmatched\<close> row exactly when no method
  finds anything in any namespace. With \<^verbatim>\<open>on_ambiguity: error\<close> no ambiguous row is ever published.
\<close>

theorem alias_links_exact:
  assumes "run_links env deps vocabularies raw = Inr rows" "parse_entity_link_options raw = Inr opts"
    and "dep_frames deps vocabularies opts = Inr (mf, af)" "input_mentions env mf opts = Inr ms" "m \<in> set ms"
    and "lo_resolver opts = AliasTable alias methods" "reference_rows opts alias af = Inr aliases"
  shows "((\<exists>r \<in> set rows. lr_mention_id r = lm_mention_id m \<and> row_cells r = (Some n, Some c, Some k, sc, st)) \<longleftrightarrow>
        (\<exists>s me. mention_text m = Some s \<and> find (\<lambda>me. alias_ids env aliases me s n \<noteq> {}) methods = Some me
          \<and> c \<in> alias_ids env aliases me s n \<and> k = method_name me \<and> sc = None
          \<and> st = (if card (alias_ids env aliases me s n) = 1 then Matched else Ambiguous)))
    \<and> ((\<exists>r \<in> set rows. lr_mention_id r = lm_mention_id m \<and> lr_status r = Unmatched) \<longleftrightarrow>
        \<not> (\<exists>s n. mention_text m = Some s \<and> (\<exists>me \<in> set methods. alias_ids env aliases me s n \<noteq> {})))
    \<and> (lo_on_ambiguity opts = ''error'' \<longrightarrow> (\<forall>r \<in> set rows. lr_status r \<noteq> Ambiguous))"
proof -
  obtain ref version res where ref: "build_reference env af opts = Inr (ref, version)" and res: "mention_resolutions env ref m = Inr res"
    and cells: "set (link_cells res) = row_cells ` {r \<in> set rows. lr_mention_id r = lm_mention_id m}"
    using assms(1-5) by (rule mention_rows)
  have rows: "(\<exists>r \<in> set rows. lr_mention_id r = lm_mention_id m \<and> row_cells r = x) \<longleftrightarrow> x \<in> set (link_cells res)" for x
    unfolding cells by blast
  have "ref = AliasReference (\<lambda>me. build_lookup env me aliases) methods"
    using ref assms(6,7) by (auto simp: build_reference_def rbind_eq_Inr)
  with res have res': "res = resolve_alias_table env (\<lambda>me. build_lookup env me aliases) methods (case mention_text m of Some s \<Rightarrow> s | None \<Rightarrow> [])"
    by (auto simp: mention_resolutions_def mention_text_def resolve_alias_table_def split: option.splits mention_signal.splits if_splits)
  have "(\<exists>r \<in> set rows. lr_mention_id r = lm_mention_id m \<and> lr_status r = Unmatched) \<longleftrightarrow>
      (\<exists>n c k sc. (n, c, k, sc, Unmatched) \<in> set (link_cells res))" unfolding rows [symmetric] by (auto simp: row_cells_def) blast
  with run_links_Inr(2) [OF assms(1-4)] show ?thesis
    unfolding rows unfolding res' alias_cells_iff alias_cells_unmatched mention_text_shown by blast
qed

lemma parsed_fuzzy:
  assumes "parse_entity_link_options raw = Inr opts" "lo_resolver opts = Fuzzy alias metric folded t margin"
  shows "0 < t" "0 \<le> margin"
proof -
  from assms(1) have "parse_resolver (lo_resolver raw) = Inr (lo_resolver opts)"
    by (auto simp: parse_entity_link_options_def rbind_eq_Inr Let_def split: if_splits)
  with assms(2) show "0 < t" "0 \<le> margin"
    by (auto simp: parse_resolver_def rbind_eq_Inr margin_of_def split: resolver_options.splits if_splits)
qed


section \<open>Link IDs\<close>

lemma link_payload_shape:
  "shape (link_payload a d n c k st) = shape (link_payload a' d' n' c' k' st') \<Longrightarrow> a = a' \<and> or_empty n = or_empty n' \<and> or_empty c = or_empty c'"
  by (auto simp: link_payload_def add_eq_conv_ex)

lemma resolutions_unique:
  assumes "build_reference env af opts = Inr (ref, version)" "mention_resolutions env ref m = Inr res"
  shows "distinct (map (\<lambda>(n, c, _). (or_empty n, or_empty c)) (link_cells res))"
proof (cases "res = []")
  case False
  from assms(1) consider rows methods where "ref = AliasReference (\<lambda>m. build_lookup env m rows) methods"
    | vs dims metric t margin where "ref = VectorReference vs dims metric t margin"
    | as metric folded t margin where "ref = FuzzyReference as metric folded t margin"
    by (auto simp: build_reference_def rbind_eq_Inr split: resolver_options.splits prod.splits)
  then show ?thesis
  proof cases
    case 1
    with assms(2) False show ?thesis
      by (auto simp: mention_resolutions_def intro: alias_table.cells_unique split: option.splits mention_signal.splits elim: resolve.elims)
  next
    case 2
    with assms(2) False show ?thesis
      by (auto simp: mention_resolutions_def intro: vectors.cells_unique dest!: sym [THEN resolve_vector_Inr] split: option.splits elim!: resolve.elims)
  next
    case 3
    with assms(2) False show ?thesis
      by (auto simp: mention_resolutions_def intro: fuzzy.cells_unique split: option.splits elim!: resolve.elims)
  qed
qed (simp add: link_cells_def)

definition link_key :: "link_row \<Rightarrow> string \<times> string \<times> string" where
  "link_key r = (lr_mention_id r, or_empty (lr_namespace r), or_empty (lr_canonical_id r))"

lemma link_keys_distinct:
  assumes "list_all2 (\<lambda>m rs. link_mention_rows env opts ref version m = Inr rs) ms rss" "distinct (map lm_mention_id ms)"
    and ref: "build_reference env af opts = Inr (ref, version)"
  shows "distinct (map link_key (concat rss))"
  using assms(1,2)
proof (induction rule: list_all2_induct)
  case (Cons m ms rs rss)
  from link_mention_rows_Inr [OF Cons(1)] obtain res where res: "mention_resolutions env ref m = Inr res" "map row_cells rs = link_cells res"
    and own: "\<forall>r \<in> set rs. lr_mention_id r = lm_mention_id m" by blast
  have "map link_key rs = map (Pair (lm_mention_id m)) (map (\<lambda>(n, c, _). (or_empty n, or_empty c)) (map row_cells rs))"
    using own by (simp add: link_key_def row_cells_def)
  moreover have "distinct (map (\<lambda>(n, c, _). (or_empty n, or_empty c)) (map row_cells rs))"
    unfolding res(2) by (rule resolutions_unique [OF ref res(1)])
  ultimately have own_keys: "distinct (map link_key rs)" by (simp add: distinct_map inj_on_def)
  have "link_key r \<noteq> link_key r'" if "r \<in> set rs" "r' \<in> set (concat rss)" for r r'
  proof -
    from that(2) obtain rs' where r': "r' \<in> set rs'" "rs' \<in> set rss" by auto
    from set_list_all2(1) [OF Cons(2) r'(2)] obtain m' where m': "m' \<in> set ms" "link_mention_rows env opts ref version m' = Inr rs'" by blast
    from link_mention_rows_Inr(2) [OF m'(2)] r'(1) have "lr_mention_id r' = lm_mention_id m'" by blast
    with m'(1) own that(1) Cons.prems show ?thesis by (auto simp: link_key_def)
  qed
  then have "set (map link_key rs) \<inter> set (map link_key (concat rss)) = {}" unfolding set_map by blast
  with own_keys Cons.IH Cons.prems show ?case by (simp only: concat.simps map_append distinct_append list.map distinct.simps simp_thms)
qed simp

text \<open>
  C38: No two rows of the table carry the same \<^verbatim>\<open>entity_link_id\<close>, under every resolver, provided that the digest does not
  collide on the payloads of the rows: the ID is the key by which an incremental run replaces the links of a document.
\<close>

theorem link_ids_unique:
  assumes "run_links env deps vocabularies raw = Inr rows"
    and "\<forall>r \<in> set rows. fits_frame ''dbt-ml.entity-link'' 1 (row_payload r)"
    and "inj_on (le_digest env 16) ((\<lambda>r. hashed_bytes ''dbt-ml.entity-link'' 1 (row_payload r)) ` set rows)"
  shows "distinct (map lr_entity_link_id rows)"
proof (cases "rows = []")
  case False
  from assms(1) obtain opts mf af ms where parsed: "parse_entity_link_options raw = Inr opts"
    "dep_frames deps vocabularies opts = Inr (mf, af)" "input_mentions env mf opts = Inr ms"
    by (auto simp: run_links_def rbind_eq_Inr)
  note run = run_links_Inr [OF assms(1) parsed]
  from run(3,4) False obtain ref version rss where rss: "build_reference env af opts = Inr (ref, version)" "rows = concat rss"
    "list_all2 (\<lambda>m rs. link_mention_rows env opts ref version m = Inr rs) ms rss" by blast
  have keys: "distinct (map link_key rows)" unfolding rss(2) by (rule link_keys_distinct [OF rss(3) run(1) rss(1)])
  have id: "lr_entity_link_id r = le_digest env 16 (hashed_bytes ''dbt-ml.entity-link'' 1 (row_payload r))" if r: "r \<in> set rows" for r
  proof -
    from r rss(2) obtain rs where rs: "r \<in> set rs" "rs \<in> set rss" by auto
    from set_list_all2(1) [OF rss(3) rs(2)] obtain m where "link_mention_rows env opts ref version m = Inr rs" by blast
    from link_mention_rows_Inr(2) [OF this] rs(1) have "fingerprint_in env ''dbt-ml.entity-link'' (row_payload r) = Inr (lr_entity_link_id r)" by blast
    then show ?thesis by (simp add: fingerprint_in_def hash_result_def canonical_fingerprint_Inr hash_digest_size_def split: sum.splits)
  qed
  have "link_key r = link_key r'" if r: "r \<in> set rows" "r' \<in> set rows" "lr_entity_link_id r = lr_entity_link_id r'" for r r'
  proof -
    have "hashed_bytes ''dbt-ml.entity-link'' 1 (row_payload r) = hashed_bytes ''dbt-ml.entity-link'' 1 (row_payload r')"
      using r id [OF r(1)] id [OF r(2)] by (intro inj_onD [OF assms(3)]) auto
    moreover have fits: "fits_frame ''dbt-ml.entity-link'' 1 (row_payload r)" "fits_frame ''dbt-ml.entity-link'' 1 (row_payload r')"
      using assms(2) r(1,2) by blast+
    ultimately have "shape (row_payload r) = shape (row_payload r')"
      using hashed_bytes_eq [of "''dbt-ml.entity-link''" "''dbt-ml.entity-link''" 1 1 "row_payload r" "row_payload r'"]
      unfolding fits_frame_def by blast
    from link_payload_shape [OF this [unfolded row_payload_def]] show ?thesis by (simp only: link_key_def)
  qed
  with keys show ?thesis unfolding distinct_map inj_on_def by blast
qed simp

section \<open>Concrete runs\<close>

lemma fingerprint_in_total: "domain \<noteq> [] \<Longrightarrow> fingerprint_in env domain v = Inr (le_digest env 16 (hashed_bytes domain 1 v))"
  by (simp add: fingerprint_in_def hash_result_def canonical_fingerprint_def hash_digest_size_def guard_def)

lemma collect_total: "\<forall>x \<in> set xs. \<exists>y. f x = Inr y \<Longrightarrow> \<exists>ys. collect f xs = Inr ys"
  by (induction xs) (auto simp: rbind_eq_Inr)

lemma link_mention_rows_total: "mention_resolutions env ref m = Inr res \<Longrightarrow> \<exists>rs. link_mention_rows env opts ref version m = Inr rs"
  unfolding link_mention_rows_def by (auto simp: make_link_row_def entity_link_id_def fingerprint_in_total intro!: collect_total)

lemma run_links_total:
  assumes "parse_entity_link_options raw = Inr opts" "dep_frames deps vocabularies opts = Inr (mf, af)"
    "validate_frames env mf af (lo_resolver opts) = Inr ()" "input_mentions env mf opts = Inr ms"
    "build_reference env af opts = Inr (ref, version)" "lo_on_ambiguity opts \<noteq> ''error''"
    and "\<forall>m \<in> set ms. \<exists>res. mention_resolutions env ref m = Inr res"
  shows "\<exists>rows. run_links env deps vocabularies raw = Inr rows"
proof -
  have "\<exists>rss. collect (link_mention_rows env opts ref version) ms = Inr rss"
    using assms(7) link_mention_rows_total by (intro collect_total) blast
  with assms(1-6) show ?thesis by (auto simp: run_links_def)
qed

text \<open>One mention of \<^verbatim>\<open>A\<close> against the aliases \<^verbatim>\<open>A\<close> and \<^verbatim>\<open>B\<close>, by the exact text and by trigrams.\<close>

definition demo_link_env :: link_env where
  "demo_link_env = \<lparr>le_fold = id, le_sqrt = id, le_str = (\<lambda>_. []), le_bits = (\<lambda>_. 0), le_digest = (\<lambda>_ bs. map char_of bs)\<rparr>"

definition demo_link_options :: "'n resolver_options \<Rightarrow> 'n link_options" where
  "demo_link_options r = \<lparr>lo_mentions = ''m'', lo_aliases = ''a'', lo_mention_id_field = ''i'', lo_document_id_field = ''d'',
     lo_mention_text_field = ''t'', lo_label_field = None, lo_start_field = None, lo_end_field = None, lo_namespace_field = ''n'',
     lo_canonical_id_field = ''c'', lo_on_ambiguity = ''keep'', lo_include_fields = [], lo_include_mention_text = False, lo_resolver = r\<rparr>"

definition demo_mentions :: table_frame where
  "demo_mentions = \<lparr>tf_columns = [''i'', ''d'', ''t''], tf_rows = [[(''i'', PyStr ''1''), (''d'', PyStr ''p''), (''t'', PyStr ''A'')]]\<rparr>"

definition demo_aliases :: table_frame where
  "demo_aliases = \<lparr>tf_columns = [''x'', ''n'', ''c''], tf_rows = [[(''x'', PyStr ''A''), (''n'', PyStr ''u''), (''c'', PyStr ''v'')],
     [(''x'', PyStr ''B''), (''n'', PyStr ''u''), (''c'', PyStr ''w'')]]\<rparr>"

definition demo_link_deps :: "(string \<times> table_frame) list" where
  "demo_link_deps = [(''m'', demo_mentions), (''a'', demo_aliases)]"

definition demo_mention :: link_mention where
  "demo_mention = \<lparr>lm_mention_id = ''1'', lm_document_id = ''p'', lm_text = PyStr ''A'', lm_signal = Some (SText ''A''), lm_passthrough = [], lm_included = []\<rparr>"

definition demo_alias_rows :: "alias_row list" where
  "demo_alias_rows = [\<lparr>ar_alias = ''A'', ar_namespace = ''u'', ar_canonical_id = ''v''\<rparr>, \<lparr>ar_alias = ''B'', ar_namespace = ''u'', ar_canonical_id = ''w''\<rparr>]"

abbreviation demo_table :: "'n resolver_options" where "demo_table \<equiv> AliasTable ''x'' [ExactMatch]"
abbreviation demo_fuzzy :: "'n \<Rightarrow> 'n \<Rightarrow> 'n resolver_options" where "demo_fuzzy t margin \<equiv> Fuzzy ''x'' TrigramDice False t margin"

lemma demo_table_parsed:
  "parse_entity_link_options (demo_link_options demo_table) = Inr (demo_link_options demo_table)"
  "dep_frames demo_link_deps [] (demo_link_options demo_table) = Inr (demo_mentions, demo_aliases)"
  "validate_frames demo_link_env demo_mentions demo_aliases (demo_table :: rat resolver_options) = Inr ()"
  "input_mentions demo_link_env demo_mentions (demo_link_options demo_table :: rat link_options) = Inr [demo_mention]"
  "reference_rows (demo_link_options demo_table :: rat link_options) ''x'' demo_aliases = Inr demo_alias_rows"
  "mention_resolutions demo_link_env (AliasReference (\<lambda>m. build_lookup demo_link_env m demo_alias_rows) [ExactMatch]) demo_mention
     = Inr (resolve_alias_table demo_link_env (\<lambda>m. build_lookup demo_link_env m demo_alias_rows) [ExactMatch] ''A'')"
  "mention_text demo_mention = Some ''A''"
  "find (\<lambda>m. alias_ids demo_link_env demo_alias_rows m ''A'' ''u'' \<noteq> {}) [ExactMatch] = Some ExactMatch"
  "alias_ids demo_link_env demo_alias_rows ExactMatch ''A'' ''u'' = {''v''}"
  by code_simp+

lemma demo_fuzzy_parsed:
  "parse_entity_link_options (demo_link_options (demo_fuzzy (PyInt 1) (PyInt 0))) = Inr (demo_link_options (demo_fuzzy 1 0))"
  "dep_frames demo_link_deps [] (demo_link_options (demo_fuzzy 1 0)) = Inr (demo_mentions, demo_aliases)"
  "validate_frames demo_link_env demo_mentions demo_aliases (demo_fuzzy (1 :: rat) 0) = Inr ()"
  "input_mentions demo_link_env demo_mentions (demo_link_options (demo_fuzzy (1 :: rat) 0)) = Inr [demo_mention]"
  "reference_rows (demo_link_options (demo_fuzzy (1 :: rat) 0)) ''x'' demo_aliases = Inr demo_alias_rows"
  "link_cells (resolve_fuzzy demo_link_env (map (fuzzy_alias_of demo_link_env False TrigramDice) demo_alias_rows) TrigramDice False 1 0 ''A'')
     = [(Some ''u'', Some ''v'', Some ''trigram_dice'', Some 1, Matched)]"
  by code_simp+

lemma demo_table_run:
  "\<exists>r. run_links demo_link_env demo_link_deps [] (demo_link_options demo_table) = Inr [r]
     \<and> row_payload r = link_payload ''1'' ''p'' (Some ''u'') (Some ''v'') (Some ''exact'') Matched"
proof -
  let ?ref = "AliasReference (\<lambda>m. build_lookup demo_link_env m demo_alias_rows) [ExactMatch]"
  have r: "lo_resolver (demo_link_options demo_table) = (demo_table :: rat resolver_options)" "lo_on_ambiguity (demo_link_options (demo_table :: rat resolver_options)) \<noteq> ''error''"
    by (simp_all add: demo_link_options_def)
  have ref: "\<exists>v. build_reference demo_link_env demo_aliases (demo_link_options demo_table) = Inr (?ref, v)"
    by (simp add: build_reference_def r(1) demo_table_parsed(5) alias_set_fingerprint_def fingerprint_in_total)
  then obtain v where v: "build_reference demo_link_env demo_aliases (demo_link_options demo_table) = Inr (?ref, v)" by blast
  obtain rows where run: "run_links demo_link_env demo_link_deps [] (demo_link_options demo_table) = Inr rows"
    using run_links_total [OF demo_table_parsed(1,2) _ demo_table_parsed(4) v r(2)] r(1) demo_table_parsed(3,6) by auto
  from run_links_Inr(3) [OF run demo_table_parsed(1,2,4)] v obtain rss where rss: "rows = concat rss"
    "list_all2 (\<lambda>m rs. link_mention_rows demo_link_env (demo_link_options demo_table :: rat link_options) ?ref v m = Inr rs) [demo_mention] rss" by auto
  then obtain rs where rs: "rss = [rs]" "link_mention_rows demo_link_env (demo_link_options demo_table :: rat link_options) ?ref v demo_mention = Inr rs"
    by (auto simp: list_all2_Cons1)
  have "link_cells (resolve_alias_table demo_link_env (\<lambda>m. build_lookup demo_link_env m demo_alias_rows) [ExactMatch] ''A'')
      = [(Some ''u'', Some ''v'', Some ''exact'', None, Matched)]" by code_simp
  with link_mention_rows_Inr(1) [OF rs(2)] demo_table_parsed(6)
  obtain r where r: "rs = [r]" "row_cells r = (Some ''u'', Some ''v'', Some ''exact'', None, Matched)" by (auto simp: map_eq_Cons_conv)
  with link_mention_rows_Inr(2) [OF rs(2)] have "lr_mention_id r = ''1''" "lr_document_id r = ''p''" by (simp_all add: demo_mention_def)
  with run rss(1) rs(1) r show ?thesis by (simp add: row_payload_def row_cells_def)
qed

theorem alias_links_exact_witness:
  "\<exists>rows. run_links demo_link_env demo_link_deps [] (demo_link_options demo_table) = Inr rows
     \<and> (\<exists>r. r \<in> set rows \<and> lr_mention_id r = ''1'' \<and> row_cells r = (Some ''u'', Some ''v'', Some ''exact'', None, Matched))"
proof -
  from demo_table_run obtain r where run: "run_links demo_link_env demo_link_deps [] (demo_link_options demo_table) = Inr [r]" by blast
  have "lo_resolver (demo_link_options demo_table) = (demo_table :: rat resolver_options)" by (simp add: demo_link_options_def)
  from alias_links_exact [OF run demo_table_parsed(1,2,4) _ this demo_table_parsed(5), of demo_mention "''u''" "''v''" "''exact''" None Matched]
  have "\<exists>x \<in> set [r]. lr_mention_id x = lm_mention_id demo_mention \<and> row_cells x = (Some ''u'', Some ''v'', Some ''exact'', None, Matched)"
    using demo_table_parsed(7-9) by simp
  with run show ?thesis by (auto simp: demo_mention_def)
qed


theorem link_ids_unique_witness:
  "\<exists>rows. run_links demo_link_env demo_link_deps [] (demo_link_options demo_table) = Inr rows \<and> distinct (map lr_entity_link_id rows)"
proof -
  from demo_table_run obtain r where run: "run_links demo_link_env demo_link_deps [] (demo_link_options demo_table) = Inr [r]"
    and p: "row_payload r = link_payload ''1'' ''p'' (Some ''u'') (Some ''v'') (Some ''exact'') Matched" by blast
  have "length (utf8 ''dbt-ml.entity-link'') < 1000" "length (utf8 (py_str_int 1)) < 1000"
    "length (canonical_bytes (link_payload ''1'' ''p'' (Some ''u'') (Some ''v'') (Some ''exact'') Matched)) < 1000" by code_simp+
  then have "fits_frame ''dbt-ml.entity-link'' 1 (row_payload r)" unfolding p by (simp add: fits_frame_def)
  with link_ids_unique [OF run] run show ?thesis by auto
qed

end
