(* ===== verification/Evaluation.thy ===== *)
theory Evaluation
  imports Prelude Complex_Main
begin

text \<open>
  Evaluation against golden sets: ranking metrics (\<^verbatim>\<open>src/stel/retrieval_metrics.py\<close>), the ranking a test judges and its
  thresholds (\<^verbatim>\<open>retrieval_eval.py\<close>, \<^verbatim>\<open>config/model.py\<close>), and classification reports (\<^verbatim>\<open>classification_metrics.py\<close>).

  Metric values are exact real numbers. A set of IDs is a finite set; where the source iterates over one (\<^verbatim>\<open>dict.fromkeys\<close>)
  the order is that of the sorted list, on which no result depends. The search itself is the function \<open>fetch\<close> from a limit
  to hits.
\<close>

section \<open>Ranking metrics\<close>

datatype metric_error = NoRelevantIds | NonPositiveCutoff | NoPositiveGrade

text \<open>\<^verbatim>\<open>xs[:k]\<close>.\<close>

definition py_prefix :: "int \<Rightarrow> 'a list \<Rightarrow> 'a list" where
  "py_prefix k xs = take (nat (if k < 0 then int (length xs) + k else k)) xs"

definition recall_at_k :: "string list \<Rightarrow> string set \<Rightarrow> int \<Rightarrow> metric_error + real" where
  "recall_at_k ranked relevant k =
     (if relevant = {} then Inl NoRelevantIds
      else Inr (of_nat (card (set (py_prefix k ranked) \<inter> relevant)) / of_nat (card relevant)))"

definition precision_at_k :: "string list \<Rightarrow> string set \<Rightarrow> int \<Rightarrow> metric_error + real" where
  "precision_at_k ranked relevant k =
     (if k \<le> 0 then Inl NonPositiveCutoff
      else let top_k = py_prefix k ranked in
        Inr (if top_k = [] then 0 else of_nat (length (filter (\<lambda>r. r \<in> relevant) top_k)) / of_nat (length top_k)))"

definition hit_rate_at_k :: "string list \<Rightarrow> string set \<Rightarrow> int \<Rightarrow> real" where
  "hit_rate_at_k ranked relevant k = (if set (py_prefix k ranked) \<inter> relevant \<noteq> {} then 1 else 0)"

fun reciprocal_rank :: "nat \<Rightarrow> string set \<Rightarrow> string list \<Rightarrow> real" where
  "reciprocal_rank position relevant [] = 0"
| "reciprocal_rank position relevant (r # rs) = (if r \<in> relevant then 1 / of_nat position else reciprocal_rank (Suc position) relevant rs)"

definition mrr_at_k :: "string list \<Rightarrow> string set \<Rightarrow> int \<Rightarrow> real" where
  "mrr_at_k ranked relevant k = reciprocal_rank 1 relevant (py_prefix k ranked)"

definition grade_of :: "(string \<times> real) list \<Rightarrow> string \<Rightarrow> real" where
  "grade_of relevance r = (case map_of relevance r of Some g \<Rightarrow> g | None \<Rightarrow> 0)"

fun dcg_from :: "nat \<Rightarrow> (string \<times> real) list \<Rightarrow> string list \<Rightarrow> real" where
  "dcg_from position relevance [] = 0"
| "dcg_from position relevance (r # rs) =
     (let grade = grade_of relevance r in
      (if grade \<noteq> 0 then grade / log 2 (of_nat (position + 1)) else 0) + dcg_from (Suc position) relevance rs)"

definition dcg :: "(string \<times> real) list \<Rightarrow> int \<Rightarrow> string list \<Rightarrow> real" where
  "dcg relevance k ids = dcg_from 1 relevance (py_prefix k ids)"

definition ideal_order :: "(string \<times> real) list \<Rightarrow> string list" where
  "ideal_order relevance = sort_key (\<lambda>r. - grade_of relevance r) (map fst relevance)"

definition ndcg_at_k :: "string list \<Rightarrow> (string \<times> real) list \<Rightarrow> int \<Rightarrow> metric_error + real" where
  "ndcg_at_k ranked relevance k =
     (let ideal = dcg relevance k (ideal_order relevance) in
      if ideal = 0 then Inl NoPositiveGrade else Inr (dcg relevance k ranked / ideal))"

datatype query_diagnosis = QueryOk | NoRelevantLabels | EmptyResults

type_synonym metric_values = "(string \<times> (int \<times> real) list) list"

record query_metrics =
  qm_query_id :: string
  qm_diagnosis :: query_diagnosis
  qm_values :: metric_values
  qm_ranked_ids :: "string list"
  qm_missing_ids :: "string list"

definition metric_names :: "string list" where
  "metric_names = [''recall'', ''precision'', ''hit_rate'', ''mrr'', ''ndcg'']"

definition values_at :: "metric_values \<Rightarrow> string \<Rightarrow> (int \<times> real) list" where
  "values_at vs name = (case map_of vs name of Some m \<Rightarrow> m | None \<Rightarrow> [])"

definition set_value :: "string \<Rightarrow> int \<Rightarrow> real \<Rightarrow> metric_values \<Rightarrow> metric_values" where
  "set_value name k v vs = AList.update name (AList.update k v (values_at vs name)) vs"

fun score_cutoffs :: "string list \<Rightarrow> string set \<Rightarrow> (string \<times> real) list \<Rightarrow> int list \<Rightarrow> metric_values \<Rightarrow> metric_error + metric_values" where
  "score_cutoffs ranked relevant grades [] vs = Inr vs"
| "score_cutoffs ranked relevant grades (k # ks) vs =
     rbind (recall_at_k ranked relevant k) (\<lambda>recall.
     rbind (precision_at_k ranked relevant k) (\<lambda>precision.
     rbind (ndcg_at_k ranked grades k) (\<lambda>ndcg.
       score_cutoffs ranked relevant grades ks
         (set_value ''ndcg'' k ndcg (set_value ''mrr'' k (mrr_at_k ranked relevant k)
           (set_value ''hit_rate'' k (hit_rate_at_k ranked relevant k)
             (set_value ''precision'' k precision (set_value ''recall'' k recall vs))))))))"

definition evaluate_query :: "string \<Rightarrow> string list \<Rightarrow> string set \<Rightarrow> (string \<times> real) list option \<Rightarrow> int list \<Rightarrow> metric_error + query_metrics" where
  "evaluate_query query_id ranked relevant graded cutoffs =
     (if relevant = {} then Inr \<lparr>qm_query_id = query_id, qm_diagnosis = NoRelevantLabels, qm_values = [], qm_ranked_ids = ranked, qm_missing_ids = []\<rparr>
      else let grades = (case graded of Some g \<Rightarrow> if g \<noteq> [] then g else map (\<lambda>r. (r, 1)) (sorted_list_of_set relevant)
             | None \<Rightarrow> map (\<lambda>r. (r, 1)) (sorted_list_of_set relevant)) in
        rbind (score_cutoffs ranked relevant grades cutoffs (map (\<lambda>n. (n, [])) metric_names)) (\<lambda>vs.
          Inr \<lparr>qm_query_id = query_id, qm_diagnosis = (if ranked = [] then EmptyResults else QueryOk), qm_values = vs,
            qm_ranked_ids = ranked, qm_missing_ids = sorted_list_of_set (relevant - set ranked)\<rparr>))"

definition mean_of :: "real list \<Rightarrow> real" where
  "mean_of xs = (if xs = [] then 0 else sum_list xs / of_nat (length xs))"

definition aggregate_metrics :: "query_metrics list \<Rightarrow> int list \<Rightarrow> metric_values" where
  "aggregate_metrics per_query cutoffs =
     (let scored = filter (\<lambda>q. qm_values q \<noteq> []) per_query in
      map (\<lambda>name. (name, dict_of (map (\<lambda>k. (k, mean_of (List.map_filter (\<lambda>q. map_of (values_at (qm_values q) name) k) scored))) cutoffs)))
        metric_names)"

section \<open>The ranking a test judges\<close>

record search_hit =
  sh_record_id :: string
  sh_document_id :: "string option"

datatype eval_error = NoDocumentId string | IncompleteRanking nat nat nat | NeverEnds

definition search_limit_ceiling :: nat where
  "search_limit_ceiling = 1000"

definition document_overfetch :: nat where
  "document_overfetch = 4"

fun collapse_from :: "string list \<Rightarrow> search_hit list \<Rightarrow> eval_error + string list" where
  "collapse_from seen [] = Inr []"
| "collapse_from seen (h # hs) =
     (case sh_document_id h of
        None \<Rightarrow> Inl (NoDocumentId (sh_record_id h))
      | Some d \<Rightarrow> if d \<in> set seen then collapse_from seen hs
          else rbind (collapse_from (d # seen) hs) (\<lambda>rest. Inr (d # rest)))"

definition collapse_to_documents :: "search_hit list \<Rightarrow> eval_error + string list" where
  "collapse_to_documents hits = collapse_from [] hits"

text \<open>
  The loop widens the request until it is complete or at the ceiling. From a limit of 0 it would not end; that is an
  outcome of its own here (\<open>NeverEnds\<close>), which positive cutoffs exclude.
\<close>

function widen :: "(nat \<Rightarrow> search_hit list) \<Rightarrow> nat \<Rightarrow> nat \<Rightarrow> eval_error + search_hit list \<times> string list" where
  "widen fetch deepest limit =
     (let hits = fetch limit in
      rbind (collapse_to_documents hits) (\<lambda>ranked.
        if deepest \<le> length ranked \<or> length hits < limit then Inr (hits, take deepest ranked)
        else if search_limit_ceiling \<le> limit then Inl (IncompleteRanking limit (length ranked) deepest)
        else if limit = 0 then Inl NeverEnds
        else widen fetch deepest (min (limit * document_overfetch) search_limit_ceiling)))"
  by pat_completeness auto
termination
  by (relation "measure (\<lambda>(fetch, deepest, limit). search_limit_ceiling - limit)")
     (auto simp: document_overfetch_def search_limit_ceiling_def collapse_to_documents_def)

declare widen.simps [simp del]

datatype granularity = RecordGranularity | DocumentGranularity

definition retrieve_ranking :: "(nat \<Rightarrow> search_hit list) \<Rightarrow> granularity \<Rightarrow> nat list \<Rightarrow> eval_error + search_hit list \<times> string list" where
  "retrieve_ranking fetch g cutoffs =
     (let deepest = Max (set cutoffs) in
      case g of
        RecordGranularity \<Rightarrow> Inr (fetch deepest, map sh_record_id (fetch deepest))
      | DocumentGranularity \<Rightarrow> widen fetch deepest (min (deepest * document_overfetch) search_limit_ceiling))"

section \<open>A retrieval test\<close>

record golden_row =
  gr_query_id :: string
  gr_required_ids :: "string set"
  gr_excluded_ids :: "string set"
  gr_relevant_ids :: "string set"
  gr_graded :: "(string \<times> real) list option"

datatype violation_kind = MissingRequired | UnexpectedExcluded

record policy_violation =
  pv_query_id :: string
  pv_kind :: violation_kind
  pv_ids :: "string list"

definition violations_of :: "golden_row \<Rightarrow> string list \<Rightarrow> policy_violation list" where
  "violations_of row ranked =
     (let missing = gr_required_ids row - set ranked; found = gr_excluded_ids row \<inter> set ranked in
      (if missing \<noteq> {} then [\<lparr>pv_query_id = gr_query_id row, pv_kind = MissingRequired, pv_ids = sorted_list_of_set missing\<rparr>] else [])
      @ (if found \<noteq> {} then [\<lparr>pv_query_id = gr_query_id row, pv_kind = UnexpectedExcluded, pv_ids = sorted_list_of_set found\<rparr>] else []))"

record retrieval_threshold =
  rt_metric :: string
  rt_cutoff :: int
  rt_min :: real
  rt_warn :: bool

datatype outcome = Pass | Warn | Fail

record threshold_status =
  ts_threshold :: retrieval_threshold
  ts_actual :: real
  ts_status :: outcome

definition evaluate_thresholds :: "retrieval_threshold list \<Rightarrow> metric_values \<Rightarrow> threshold_status list" where
  "evaluate_thresholds thresholds aggregate =
     map (\<lambda>t. let actual = (case map_of (values_at aggregate (rt_metric t)) (rt_cutoff t) of Some v \<Rightarrow> v | None \<Rightarrow> 0) in
       \<lparr>ts_threshold = t, ts_actual = actual, ts_status = (if rt_min t \<le> actual then Pass else if rt_warn t then Warn else Fail)\<rparr>) thresholds"

datatype contract_error = EmptyGoldenSet | NoCutoffs | NotPositive | CutoffTooDeep | RepeatedCutoff | UnknownMetric string | UndeclaredCutoff int

text \<open>\<^verbatim>\<open>RetrievalTestConfig\<close>, with the threshold keys split into metric and cutoff.\<close>

definition validate_contract :: "string \<Rightarrow> int list \<Rightarrow> retrieval_threshold list \<Rightarrow> contract_error + unit" where
  "validate_contract golden_set cutoffs thresholds =
     rbind (guard (py_strip golden_set \<noteq> []) EmptyGoldenSet) (\<lambda>_.
     rbind (guard (cutoffs \<noteq> []) NoCutoffs) (\<lambda>_.
     rbind (guard (\<forall>k \<in> set cutoffs. 0 < k) NotPositive) (\<lambda>_.
     rbind (guard (\<forall>k \<in> set cutoffs. k \<le> 1000) CutoffTooDeep) (\<lambda>_.
     rbind (guard (distinct cutoffs) RepeatedCutoff) (\<lambda>_.
       each (\<lambda>t. rbind (guard (rt_metric t \<in> set metric_names) (UnknownMetric (rt_metric t))) (\<lambda>_.
         guard (rt_cutoff t \<in> set cutoffs) (UndeclaredCutoff (rt_cutoff t)))) thresholds)))))"

datatype test_error = GoldenSetEmpty | RepeatedQuery "string list" | RankingFailed eval_error | MetricFailed metric_error

record retrieval_test_result =
  tr_per_query :: "query_metrics list"
  tr_aggregate :: metric_values
  tr_thresholds :: "threshold_status list"
  tr_violations :: "policy_violation list"

definition test_status :: "retrieval_test_result \<Rightarrow> outcome" where
  "test_status r =
     (if tr_violations r \<noteq> [] then Fail
      else if Fail \<in> ts_status ` set (tr_thresholds r) then Fail
      else if Warn \<in> ts_status ` set (tr_thresholds r) then Warn
      else Pass)"

fun judge_rows :: "(golden_row \<Rightarrow> nat \<Rightarrow> search_hit list) \<Rightarrow> granularity \<Rightarrow> nat list \<Rightarrow> golden_row list
    \<Rightarrow> test_error + query_metrics list \<times> policy_violation list" where
  "judge_rows fetch g cutoffs [] = Inr ([], [])"
| "judge_rows fetch g cutoffs (row # rows) =
     (case retrieve_ranking (fetch row) g cutoffs of
        Inl e \<Rightarrow> Inl (RankingFailed e)
      | Inr (hits, ranked) \<Rightarrow>
         (case evaluate_query (gr_query_id row) ranked (gr_relevant_ids row) (gr_graded row) (map int cutoffs) of
            Inl e \<Rightarrow> Inl (MetricFailed e)
          | Inr q \<Rightarrow> rbind (judge_rows fetch g cutoffs rows) (\<lambda>(qs, vs). Inr (q # qs, violations_of row ranked @ vs))))"

definition run_one :: "(golden_row \<Rightarrow> nat \<Rightarrow> search_hit list) \<Rightarrow> granularity \<Rightarrow> nat list \<Rightarrow> retrieval_threshold list \<Rightarrow> golden_row list
    \<Rightarrow> test_error + retrieval_test_result" where
  "run_one fetch g cutoffs thresholds rows =
     (if rows = [] then Inl GoldenSetEmpty
      else let repeated = filter (\<lambda>i. 1 < count_list (map gr_query_id rows) i) (sort (remdups (map gr_query_id rows))) in
        if repeated \<noteq> [] then Inl (RepeatedQuery repeated)
        else rbind (judge_rows fetch g cutoffs rows) (\<lambda>(qs, vs).
          let aggregate = aggregate_metrics qs (map int cutoffs) in
          Inr \<lparr>tr_per_query = qs, tr_aggregate = aggregate, tr_thresholds = evaluate_thresholds thresholds aggregate, tr_violations = vs\<rparr>))"

section \<open>Classification reports\<close>

record label_score =
  ls_label :: string
  ls_precision :: real
  ls_recall :: real
  ls_f1 :: real
  ls_support :: nat

record classification_report =
  cl_accuracy :: real
  cl_macro_f1 :: real
  cl_evaluated_rows :: nat
  cl_unmatched_rows :: nat
  cl_unusable_rows :: nat
  cl_labels :: "label_score list"

definition ratio_of :: "nat \<Rightarrow> nat \<Rightarrow> real" where
  "ratio_of n d = (if d \<noteq> 0 then of_nat n / of_nat d else 0)"

text \<open>The counting loop: hits, predictions and expectations of every label, and the rows that agree.\<close>

record label_counts =
  lc_true_positive :: "(string \<times> nat) list"
  lc_predicted :: "(string \<times> nat) list"
  lc_expected :: "(string \<times> nat) list"
  lc_correct :: nat

definition increment :: "string \<Rightarrow> (string \<times> nat) list \<Rightarrow> (string \<times> nat) list" where
  "increment k d = AList.update k (Suc (the (map_of d k))) d"

definition count_pair :: "string \<times> string \<Rightarrow> label_counts \<Rightarrow> label_counts" where
  "count_pair = (\<lambda>(predicted, expected) c.
     let c' = c\<lparr>lc_predicted := increment predicted (lc_predicted c), lc_expected := increment expected (lc_expected c)\<rparr> in
     if predicted = expected
     then c'\<lparr>lc_true_positive := increment predicted (lc_true_positive c), lc_correct := Suc (lc_correct c)\<rparr> else c')"

definition label_universe :: "string list \<Rightarrow> (string \<times> string) list \<Rightarrow> string list" where
  "label_universe declared pairs = sort (remdups (declared @ concat (map (\<lambda>(p, e). [p, e]) pairs)))"

definition label_score_of :: "label_counts \<Rightarrow> string \<Rightarrow> label_score" where
  "label_score_of c l =
     (let hits = the (map_of (lc_true_positive c) l);
          precision = ratio_of hits (the (map_of (lc_predicted c) l));
          recall = ratio_of hits (the (map_of (lc_expected c) l));
          denominator = precision + recall in
      \<lparr>ls_label = l, ls_precision = precision, ls_recall = recall,
       ls_f1 = (if denominator \<noteq> 0 then 2 * precision * recall / denominator else 0),
       ls_support = the (map_of (lc_expected c) l)\<rparr>)"

definition score_pairs :: "(string \<times> string) list \<Rightarrow> string list \<Rightarrow> nat \<Rightarrow> nat \<Rightarrow> classification_report" where
  "score_pairs pairs declared unmatched unusable =
     (let universe = label_universe declared pairs; zeros = map (\<lambda>l. (l, 0)) universe;
          counts = fold count_pair pairs \<lparr>lc_true_positive = zeros, lc_predicted = zeros, lc_expected = zeros, lc_correct = 0\<rparr>;
          scores = map (label_score_of counts) universe in
      \<lparr>cl_accuracy = ratio_of (lc_correct counts) (length pairs), cl_macro_f1 = mean_of (map ls_f1 scores),
       cl_evaluated_rows = length pairs, cl_unmatched_rows = unmatched, cl_unusable_rows = unusable, cl_labels = scores\<rparr>)"

definition join_pairs :: "(string \<times> string) list \<Rightarrow> (string \<times> string) list \<Rightarrow> (string \<times> string) list \<times> nat" where
  "join_pairs predictions expected =
     (let pairs = List.map_filter (\<lambda>(key, l). map_option (\<lambda>p. (p, l)) (map_of predictions key)) expected in
      (pairs, length expected - length pairs))"

text \<open>One row per metric: its name, its label if it has one, and its value.\<close>

definition as_rows :: "classification_report \<Rightarrow> (string \<times> string option \<times> real) list" where
  "as_rows r = [(''accuracy'', None, cl_accuracy r), (''macro_f1'', None, cl_macro_f1 r), (''evaluated_rows'', None, of_nat (cl_evaluated_rows r)),
       (''unmatched_rows'', None, of_nat (cl_unmatched_rows r)), (''unusable_expected_rows'', None, of_nat (cl_unusable_rows r))]
     @ concat (map (\<lambda>s. [(''precision'', Some (ls_label s), ls_precision s), (''recall'', Some (ls_label s), ls_recall s),
         (''f1'', Some (ls_label s), ls_f1 s), (''support'', Some (ls_label s), of_nat (ls_support s))]) (cl_labels r))"

end
