(* ===== verification/Evaluation_Props.thy ===== *)
theory Evaluation_Props
  imports Evaluation
begin

text \<open>
  What evaluation promises: every metric of a ranking without repeats lies between 0 and 1, the ranking of documents is
  the one of the whole result, and a classification report counts every row once under every label.
\<close>

section \<open>The best discounted gain\<close>

lemma sum_desc_le:
  fixes g :: "'a \<Rightarrow> real"
  assumes "sorted_wrt (\<lambda>x y. g y \<le> g x) L" "distinct L" "S \<subseteq> set L" "card S \<le> n" "\<forall>x \<in> set L. 0 \<le> g x"
  shows "sum g S \<le> sum_list (map g (take n L))"
  using assms
proof (induction L arbitrary: S n)
  case (Cons x L)
  have fin: "finite S" using Cons.prems(3) by (rule finite_subset) simp
  show ?case
  proof (cases "S = {}")
    case True
    have "\<forall>z \<in> set (take n (x # L)). 0 \<le> g z" using Cons.prems(5) in_set_takeD by fast
    with True show ?thesis by (auto intro!: sum_list_nonneg)
  next
    case False
    define y where "y = (if x \<in> S then x else (SOME y. y \<in> S))"
    have y: "y \<in> S" using False by (auto simp: y_def some_in_eq)
    obtain m where m: "n = Suc m" using False fin Cons.prems(4) by (cases n) auto
    have "g y \<le> g x" using y Cons.prems(1,3) by (cases "y = x") auto
    moreover have "S - {y} \<subseteq> set L" using Cons.prems(3) y by (auto simp: y_def split: if_splits)
    moreover have "card (S - {y}) \<le> m" using Cons.prems(4) m y fin by simp
    ultimately have "sum g (S - {y}) \<le> sum_list (map g (take m L))" using Cons.IH [of "S - {y}" m] Cons.prems by simp
    with \<open>g y \<le> g x\<close> show ?thesis using y fin m by (simp add: sum.remove)
  qed
qed simp

lemma abel_nonneg:
  fixes c w :: "nat \<Rightarrow> real"
  assumes "\<And>n. n \<le> N \<Longrightarrow> 0 \<le> (\<Sum>i<n. c i)" "\<And>i. w (Suc i) \<le> w i" "\<And>i. 0 \<le> w i"
  shows "0 \<le> (\<Sum>i<N. c i * w i)"
proof -
  have "(\<Sum>i<Suc n. c i) * w n \<le> (\<Sum>i<Suc n. c i * w i)" if "Suc n \<le> N" for n
    using that
  proof (induction n)
    case (Suc n)
    have "(\<Sum>i<Suc n. c i) * w (Suc n) \<le> (\<Sum>i<Suc n. c i) * w n" using Suc.prems assms(1) [of "Suc n"] assms(2) by (intro mult_left_mono) auto
    also have "\<dots> \<le> (\<Sum>i<Suc n. c i * w i)" using Suc by simp
    finally show ?case by (simp add: algebra_simps)
  qed simp
  then show ?thesis using assms(1) [of N] assms(3) by (cases N) (auto intro: order_trans [OF mult_nonneg_nonneg])
qed

definition discount :: "nat \<Rightarrow> real" where
  "discount i = 1 / log 2 (real (i + 2))"

lemma discount_facts: "0 \<le> discount i" "discount (Suc i) \<le> discount i" "0 < discount i"
proof -
  have pos: "0 < log 2 (real (n + 2))" for n by simp
  show "0 < discount i" using pos [of i] by (simp add: discount_def)
  then show "0 \<le> discount i" by simp
  have "log 2 (real (i + 2)) \<le> log 2 (real (Suc i + 2))" by simp
  with pos [of i] show "discount (Suc i) \<le> discount i" unfolding discount_def by (intro divide_left_mono) auto
qed

lemma dcg_from_sum: "dcg_from (Suc p) relevance ids = (\<Sum>i<length ids. grade_of relevance (ids ! i) * discount (i + p))"
proof (induction ids arbitrary: p)
  case (Cons r ids)
  have "(\<Sum>i<length (r # ids). grade_of relevance ((r # ids) ! i) * discount (i + p))
      = grade_of relevance r * discount p + (\<Sum>i<length ids. grade_of relevance (ids ! i) * discount (i + Suc p))"
    by (simp add: sum.lessThan_Suc_shift del: sum.lessThan_Suc)
  then show ?case by (simp add: Let_def Cons.IH discount_def add.commute)
qed simp

text \<open>A list of values continued by zeros.\<close>

definition padded :: "real list \<Rightarrow> nat \<Rightarrow> real" where
  "padded xs i = (if i < length xs then xs ! i else 0)"

lemma sum_padded: "(\<Sum>i<n. padded xs i) = sum_list (take n xs)"
proof (induction n)
  case (Suc n)
  then show ?case by (cases "n < length xs") (simp_all add: padded_def take_Suc_conv_app_nth)
qed simp

lemma weighted_padded: "length xs \<le> N \<Longrightarrow> (\<Sum>i<length xs. xs ! i * w i) = (\<Sum>i<N. padded xs i * w i)"
  by (rule sum.mono_neutral_cong_left) (auto simp: padded_def)

lemma dcg_padded:
  assumes "0 \<le> k"
  shows "dcg relevance k ids = (\<Sum>i<nat k. padded (map (grade_of relevance) (take (nat k) ids)) i * discount i)"
proof -
  have "dcg relevance k ids = (\<Sum>i<length (map (grade_of relevance) (take (nat k) ids)). map (grade_of relevance) (take (nat k) ids) ! i * discount i)"
    using assms dcg_from_sum [of 0 relevance "take (nat k) ids"] by (simp add: dcg_def py_prefix_def)
  also have "\<dots> = (\<Sum>i<nat k. padded (map (grade_of relevance) (take (nat k) ids)) i * discount i)"
    by (rule weighted_padded) simp
  finally show ?thesis .
qed

definition grades_ok :: "(string \<times> real) list \<Rightarrow> bool" where
  "grades_ok relevance \<longleftrightarrow> distinct (map fst relevance) \<and> (\<forall>g \<in> snd ` set relevance. 0 \<le> g)"

lemma grade_nonneg: "grades_ok relevance \<Longrightarrow> 0 \<le> grade_of relevance r"
  by (auto simp: grades_ok_def grade_of_def split: option.splits dest!: map_of_SomeD)

lemma grade_absent: "r \<notin> set (ideal_order relevance) \<Longrightarrow> grade_of relevance r = 0"
  by (simp add: ideal_order_def grade_of_def map_of_eq_None_iff [THEN iffD2])

lemma top_grades:
  assumes "grades_ok relevance" "distinct ids"
  shows "sum_list (map (grade_of relevance) (take n ids)) \<le> sum_list (map (grade_of relevance) (take n (ideal_order relevance)))"
proof -
  let ?g = "grade_of relevance" and ?L = "ideal_order relevance"
  have "sum_list (map ?g (take n ids)) = sum ?g (set (take n ids))" using assms(2) by (simp add: sum_list_distinct_conv_sum_set)
  also have "\<dots> = sum ?g (set (take n ids) \<inter> set ?L)" by (rule sum.mono_neutral_right) (auto simp: grade_absent)
  also have "\<dots> \<le> sum_list (map ?g (take n ?L))"
  proof (rule sum_desc_le)
    show "sorted_wrt (\<lambda>x y. ?g y \<le> ?g x) ?L"
      using sorted_sort_key [of "\<lambda>r. - ?g r" "map fst relevance"] by (simp add: ideal_order_def sorted_map)
    show "distinct ?L" using assms(1) by (simp add: ideal_order_def grades_ok_def)
    have "card (set (take n ids) \<inter> set ?L) \<le> card (set (take n ids))" by (rule card_mono) auto
    also have "\<dots> \<le> n" using card_length [of "take n ids"] by simp
    finally show "card (set (take n ids) \<inter> set ?L) \<le> n" .
  qed (auto simp: grade_nonneg [OF assms(1)])
  finally show ?thesis .
qed

lemma dcg_le_ideal:
  assumes "grades_ok relevance" "distinct ids" "0 \<le> k"
  shows "dcg relevance k ids \<le> dcg relevance k (ideal_order relevance)"
proof -
  let ?g = "grade_of relevance" and ?L = "ideal_order relevance"
  let ?a = "padded (map ?g (take (nat k) ids))" and ?b = "padded (map ?g (take (nat k) ?L))"
  have "0 \<le> (\<Sum>i<nat k. (?b i - ?a i) * discount i)"
  proof (rule abel_nonneg)
    fix n assume "n \<le> nat k"
    then show "0 \<le> (\<Sum>i<n. ?b i - ?a i)"
      using top_grades [OF assms(1,2), of n] by (simp add: sum_subtractf sum_padded take_map min_absorb1)
  qed (rule discount_facts)+
  then show ?thesis by (simp add: dcg_padded [OF assms(3)] left_diff_distrib sum_subtractf)
qed

lemma dcg_nonneg: "grades_ok relevance \<Longrightarrow> 0 \<le> k \<Longrightarrow> 0 \<le> dcg relevance k ids"
  unfolding dcg_padded by (intro sum_nonneg mult_nonneg_nonneg discount_facts(1)) (simp add: padded_def grade_nonneg)

lemma ndcg_bounds:
  assumes "grades_ok relevance" "distinct ranked" "0 \<le> k" "ndcg_at_k ranked relevance k = Inr v"
  shows "0 \<le> v \<and> v \<le> 1"
proof -
  let ?ideal = "dcg relevance k (ideal_order relevance)"
  from assms(4) have v: "?ideal \<noteq> 0" "v = dcg relevance k ranked / ?ideal" by (auto simp: ndcg_at_k_def Let_def split: if_splits)
  then have "0 < ?ideal" using dcg_nonneg [OF assms(1,3), of "ideal_order relevance"] by simp
  then show ?thesis using v dcg_le_ideal [OF assms(1-3)] dcg_nonneg [OF assms(1,3), of ranked] by (simp add: divide_le_eq_1)
qed

text \<open>Without the condition on the grades the bound fails: a negative grade is read as it is.\<close>

lemma ndcg_of_negative_grade: "ndcg_at_k [''a''] [(''a'', - 1), (''b'', 1)] 1 = Inr (- 1)"
  by (simp add: ndcg_at_k_def dcg_def py_prefix_def ideal_order_def grade_of_def Let_def)

section \<open>Every metric between 0 and 1\<close>

definition unit_value :: "real \<Rightarrow> bool" where
  "unit_value v \<longleftrightarrow> 0 \<le> v \<and> v \<le> 1"

definition unit_values :: "metric_values \<Rightarrow> bool" where
  "unit_values vs \<longleftrightarrow> (\<forall>name k v. map_of (values_at vs name) k = Some v \<longrightarrow> unit_value v)"

lemma recall_unit:
  assumes "recall_at_k ranked relevant k = Inr v"
  shows "unit_value v"
proof (cases "finite relevant")
  case True
  then have "card (set (py_prefix k ranked) \<inter> relevant) \<le> card relevant" by (intro card_mono) auto
  with assms show ?thesis by (auto simp: recall_at_k_def unit_value_def divide_le_eq_1 card_gt_0_iff split: if_splits)
qed (use assms in \<open>auto simp: recall_at_k_def unit_value_def split: if_splits\<close>)

lemma precision_unit: "precision_at_k ranked relevant k = Inr v \<Longrightarrow> unit_value v"
  by (auto simp: precision_at_k_def unit_value_def Let_def divide_le_eq_1 split: if_splits)

lemma mrr_unit: "unit_value (mrr_at_k ranked relevant k)"
proof -
  have "0 < p \<Longrightarrow> unit_value (reciprocal_rank p relevant rs)" for p rs
    by (induction rs arbitrary: p) (auto simp: unit_value_def divide_le_eq_1)
  then show ?thesis by (simp add: mrr_at_k_def)
qed

lemma hit_rate_unit: "unit_value (hit_rate_at_k ranked relevant k)"
  by (simp add: hit_rate_at_k_def unit_value_def)

lemma values_at_set: "values_at (set_value name k v vs) n = (if n = name then AList.update k v (values_at vs name) else values_at vs n)"
  by (auto simp: values_at_def set_value_def update_conv')

lemma set_value_unit: "unit_values vs \<Longrightarrow> unit_value v \<Longrightarrow> unit_values (set_value name k v vs)"
  by (auto simp: unit_values_def values_at_set update_conv' split: if_splits)

lemma score_cutoffs_unit:
  assumes "grades_ok grades" "distinct ranked"
  shows "score_cutoffs ranked relevant grades ks vs = Inr us \<Longrightarrow> \<forall>k \<in> set ks. 0 \<le> k \<Longrightarrow> unit_values vs \<Longrightarrow> unit_values us"
proof (induction ks arbitrary: vs)
  case (Cons k ks)
  then obtain a b c where abc: "recall_at_k ranked relevant k = Inr a" "precision_at_k ranked relevant k = Inr b" "ndcg_at_k ranked grades k = Inr c"
    and rest: "score_cutoffs ranked relevant grades ks
         (set_value ''ndcg'' k c (set_value ''mrr'' k (mrr_at_k ranked relevant k)
           (set_value ''hit_rate'' k (hit_rate_at_k ranked relevant k) (set_value ''precision'' k b (set_value ''recall'' k a vs))))) = Inr us"
    by (auto simp: rbind_eq_Inr)
  have "unit_value c" using ndcg_bounds [OF assms _ abc(3)] Cons.prems(2) by (simp add: unit_value_def)
  with abc have "unit_values (set_value ''ndcg'' k c (set_value ''mrr'' k (mrr_at_k ranked relevant k)
           (set_value ''hit_rate'' k (hit_rate_at_k ranked relevant k) (set_value ''precision'' k b (set_value ''recall'' k a vs)))))"
    using Cons.prems(3) by (intro set_value_unit mrr_unit hit_rate_unit) (auto intro: recall_unit precision_unit)
  with Cons.IH [OF rest] Cons.prems(2) show ?case by simp
qed simp

lemma grades_ok_binary: "finite relevant \<Longrightarrow> grades_ok (map (\<lambda>r. (r, 1)) (sorted_list_of_set relevant))"
  by (auto simp: grades_ok_def comp_def)

lemma evaluate_query_unit:
  assumes "evaluate_query i ranked relevant graded ks = Inr q" "distinct ranked" "finite relevant" "\<forall>g. graded = Some g \<longrightarrow> grades_ok g" "\<forall>k \<in> set ks. 0 \<le> k"
  shows "unit_values (qm_values q)"
proof (cases "relevant = {}")
  case False
  let ?grades = "case graded of Some g \<Rightarrow> if g \<noteq> [] then g else map (\<lambda>r. (r, 1)) (sorted_list_of_set relevant)
             | None \<Rightarrow> map (\<lambda>r. (r, 1)) (sorted_list_of_set relevant)"
  have "score_cutoffs ranked relevant ?grades ks (map (\<lambda>n. (n, [])) metric_names) = Inr (qm_values q)"
    using assms(1) False by (auto simp: evaluate_query_def Let_def rbind_eq_Inr)
  moreover have "grades_ok ?grades" using assms(3,4) grades_ok_binary by (auto split: option.splits)
  moreover have "unit_values (map (\<lambda>n. (n, [])) metric_names)"
    by (auto simp: unit_values_def values_at_def split: option.splits dest!: map_of_SomeD)
  ultimately show ?thesis using score_cutoffs_unit [OF _ assms(2)] assms(5) by blast
qed (use assms in \<open>auto simp: evaluate_query_def unit_values_def values_at_def\<close>)

lemma mean_unit: "\<forall>x \<in> set xs. unit_value x \<Longrightarrow> unit_value (mean_of xs)"
proof -
  assume x: "\<forall>x \<in> set xs. unit_value x"
  then have "0 \<le> sum_list xs" by (intro sum_list_nonneg) (auto simp: unit_value_def)
  moreover have "sum_list xs \<le> real (length xs)" using x by (induction xs) (auto simp: unit_value_def)
  ultimately show ?thesis by (auto simp: mean_of_def unit_value_def divide_le_eq_1)
qed

lemma map_of_dict_of_fun: "map_of (dict_of (map (\<lambda>k. (k, f k)) ks)) k = Some v \<Longrightarrow> v = f k"
proof -
  have "map_of (fold (\<lambda>(k, v) d. AList.update k v d) (map (\<lambda>k. (k, f k)) ks) d) k = Some v \<Longrightarrow> (map_of d k = Some v \<Longrightarrow> v = f k) \<Longrightarrow> v = f k" for d
  proof (induction ks arbitrary: d)
    case (Cons j ks)
    show ?case
    proof (rule Cons.IH [of "AList.update j (f j) d"])
      show "map_of (fold (\<lambda>(k, v) d. AList.update k v d) (map (\<lambda>k. (k, f k)) ks) (AList.update j (f j) d)) k = Some v"
        using Cons.prems(1) by simp
      assume "map_of (AList.update j (f j) d) k = Some v"
      then show "v = f k" using Cons.prems(2) by (cases "k = j") (simp_all add: update_conv')
    qed
  qed simp
  note fold = this
  assume "map_of (dict_of (map (\<lambda>k. (k, f k)) ks)) k = Some v"
  then show "v = f k" unfolding dict_of_def by (rule fold) simp
qed

lemma aggregate_unit:
  assumes "\<forall>q \<in> set qs. unit_values (qm_values q)"
  shows "unit_values (aggregate_metrics qs ks)"
proof -
  have "unit_value v" if v: "map_of (values_at (aggregate_metrics qs ks) name) k = Some v" for name k v
  proof -
    let ?samples = "\<lambda>name k. List.map_filter (\<lambda>q. map_of (values_at (qm_values q) name) k) (filter (\<lambda>q. qm_values q \<noteq> []) qs)"
    have "values_at (aggregate_metrics qs ks) name = dict_of (map (\<lambda>k. (k, mean_of (?samples name k))) ks) \<or> values_at (aggregate_metrics qs ks) name = []"
      by (auto simp: aggregate_metrics_def Let_def values_at_def metric_names_def)
    with v have "v = mean_of (?samples name k)" using map_of_dict_of_fun [of "\<lambda>k. mean_of (?samples name k)" ks k v] by auto
    moreover have "\<forall>x \<in> set (?samples name k). unit_value x" using assms by (auto simp: List.map_filter_def unit_values_def)
    ultimately show ?thesis by (simp add: mean_unit)
  qed
  then show ?thesis by (auto simp: unit_values_def)
qed

section \<open>The ranking of documents\<close>

lemma collapse_from_seen: "set seen = set seen' \<Longrightarrow> collapse_from seen hs = collapse_from seen' hs"
proof (induction hs arbitrary: seen seen')
  case (Cons h hs)
  have "collapse_from (d # seen) hs = collapse_from (d # seen') hs" for d using Cons by (intro Cons.IH) simp
  moreover have "collapse_from seen hs = collapse_from seen' hs" using Cons by blast
  ultimately show ?case using Cons.prems by (simp split: option.split)
qed simp

lemma collapse_from_append:
  "collapse_from seen (xs @ ys) = rbind (collapse_from seen xs) (\<lambda>a. rbind (collapse_from (a @ seen) ys) (\<lambda>b. Inr (a @ b)))"
proof (induction xs arbitrary: seen)
  case Nil
  show ?case by (cases "collapse_from seen ys") simp_all
next
  case (Cons h xs)
  have "collapse_from (a @ d # seen) ys = collapse_from (d # a @ seen) ys" for a d by (rule collapse_from_seen) auto
  then show ?case by (simp add: Cons.IH rbind_def split: option.split sum.split)
qed

lemma collapse_from_distinct: "collapse_from seen hs = Inr ds \<Longrightarrow> distinct ds \<and> set ds \<inter> set seen = {}"
proof (induction hs arbitrary: seen ds)
  case (Cons h hs)
  then show ?case by (fastforce simp: rbind_eq_Inr split: option.splits if_splits)
qed simp

definition all_placed :: "search_hit list \<Rightarrow> bool" where
  "all_placed hits \<longleftrightarrow> (\<forall>h \<in> set hits. sh_document_id h \<noteq> None)"

lemma collapse_from_total: "all_placed hs \<Longrightarrow> \<exists>ds. collapse_from seen hs = Inr ds"
  by (induction hs arbitrary: seen) (auto simp: all_placed_def rbind_eq_Inr)

text \<open>The documents of a result in the order of their best records.\<close>

definition documents_of :: "search_hit list \<Rightarrow> string list" where
  "documents_of hits = (case collapse_to_documents hits of Inr ds \<Rightarrow> ds | Inl _ \<Rightarrow> [])"

lemma collapse_documents: "all_placed hits \<Longrightarrow> collapse_to_documents hits = Inr (documents_of hits)"
  using collapse_from_total [of hits "[]"] by (auto simp: documents_of_def collapse_to_documents_def)

lemma documents_prefix:
  assumes "all_placed hits"
  shows "\<exists>more. documents_of hits = documents_of (take n hits) @ more"
proof -
  have ok: "all_placed (take n hits)" "all_placed (drop n hits)" using assms by (auto simp: all_placed_def dest: in_set_takeD in_set_dropD)
  let ?a = "documents_of (take n hits)"
  have a: "collapse_from [] (take n hits) = Inr ?a" using collapse_documents [OF ok(1)] by (simp add: collapse_to_documents_def)
  obtain b where b: "collapse_from (?a @ []) (drop n hits) = Inr b" using collapse_from_total [OF ok(2)] by blast
  have "collapse_from [] (take n hits @ drop n hits) = Inr (?a @ b)" unfolding collapse_from_append using a b by simp
  then have "documents_of hits = ?a @ b" by (simp add: documents_of_def collapse_to_documents_def)
  then show ?thesis by blast
qed

lemma documents_mono: "all_placed hits \<Longrightarrow> m \<le> n \<Longrightarrow> length (documents_of (take m hits)) \<le> length (documents_of (take n hits))"
  using documents_prefix [of "take n hits" m] by (fastforce simp: all_placed_def min_absorb1 dest: in_set_takeD)

definition filled :: "search_hit list \<Rightarrow> nat \<Rightarrow> nat \<Rightarrow> bool" where
  "filled hits deepest limit \<longleftrightarrow> deepest \<le> length (documents_of (take limit hits)) \<or> length hits < limit"

lemma filled_top:
  assumes "all_placed hits" "filled hits deepest limit"
  shows "take deepest (documents_of (take limit hits)) = take deepest (documents_of hits)"
  using assms documents_prefix [OF assms(1), of limit] by (auto simp: filled_def)

lemma widen_exact:
  assumes "all_placed hits" "\<And>n. fetch n = take n hits" "0 < limit" "limit \<le> search_limit_ceiling"
  shows "if filled hits deepest search_limit_ceiling
    then \<exists>n. widen fetch deepest limit = Inr (take n hits, take deepest (documents_of hits))
    else widen fetch deepest limit = Inl (IncompleteRanking search_limit_ceiling (length (documents_of (take search_limit_ceiling hits))) deepest)"
  using assms(3,4)
proof (induction "search_limit_ceiling - limit" arbitrary: limit rule: less_induct)
  case less
  have placed: "all_placed (take limit hits)" using assms(1) by (auto simp: all_placed_def dest: in_set_takeD)
  have up: "filled hits deepest limit \<Longrightarrow> filled hits deepest search_limit_ceiling"
    using documents_mono [OF assms(1) less.prems(2)] less.prems(2) by (auto simp: filled_def)
  have step: "widen fetch deepest limit = (if filled hits deepest limit then Inr (take limit hits, take deepest (documents_of hits))
      else if search_limit_ceiling \<le> limit then Inl (IncompleteRanking limit (length (documents_of (take limit hits))) deepest)
      else widen fetch deepest (min (limit * document_overfetch) search_limit_ceiling))"
    unfolding widen.simps [of fetch deepest limit] assms(2) Let_def collapse_documents [OF placed] rbind_simps
    using less.prems filled_top [OF assms(1)] by (auto simp: filled_def)
  show ?case
  proof (cases "filled hits deepest limit \<or> search_limit_ceiling \<le> limit")
    case True
    then show ?thesis using step up less.prems by auto
  next
    case False
    let ?next = "min (limit * document_overfetch) search_limit_ceiling"
    have "limit < ?next" using False less.prems by (simp add: document_overfetch_def)
    moreover have "limit < search_limit_ceiling" using False by simp
    ultimately have "search_limit_ceiling - ?next < search_limit_ceiling - limit" by (intro diff_less_mono2)
    moreover have "0 < ?next" "?next \<le> search_limit_ceiling" using \<open>limit < ?next\<close> by simp_all
    ultimately have "search_limit_ceiling - ?next < search_limit_ceiling - limit" "0 < ?next" "?next \<le> search_limit_ceiling" by blast+
    from less.hyps [OF this] show ?thesis unfolding step using False by simp
  qed
qed


section \<open>A test that passes\<close>

lemma widen_distinct: "widen fetch deepest limit = Inr (hits, ranked) \<Longrightarrow> distinct ranked"
proof (induction fetch deepest limit rule: widen.induct)
  case (1 fetch deepest limit)
  from 1(2) obtain ds where ds: "collapse_to_documents (fetch limit) = Inr ds"
    by (subst (asm) widen.simps) (auto simp: Let_def rbind_eq_Inr)
  then have d: "distinct ds" using collapse_from_distinct by (auto simp: collapse_to_documents_def)
  show ?case
  proof (cases "deepest \<le> length ds \<or> length (fetch limit) < limit")
    case True
    with 1(2) ds have "ranked = take deepest ds" by (subst (asm) widen.simps) simp
    with d show ?thesis by simp
  next
    case False
    with 1(2) ds have rest: "\<not> search_limit_ceiling \<le> limit" "limit \<noteq> 0"
      "widen fetch deepest (min (limit * document_overfetch) search_limit_ceiling) = Inr (hits, ranked)"
      by (subst (asm) widen.simps, simp split: if_splits)+
    from 1(1) [OF refl False rest] show ?thesis .
  qed
qed

lemma ranking_distinct:
  assumes "retrieve_ranking fetch g cutoffs = Inr (hits, ranked)" "\<And>n. distinct (map sh_record_id (fetch n))"
  shows "distinct ranked"
  using assms widen_distinct by (cases g) (auto simp: retrieve_ranking_def Let_def)

lemma judge_rows_Inr:
  assumes "judge_rows fetch g cutoffs rows = Inr (qs, vs)"
  shows "q \<in> set qs \<Longrightarrow> \<exists>row \<in> set rows. \<exists>hits ranked. retrieve_ranking (fetch row) g cutoffs = Inr (hits, ranked)
      \<and> evaluate_query (gr_query_id row) ranked (gr_relevant_ids row) (gr_graded row) (map int cutoffs) = Inr q"
    and "row \<in> set rows \<Longrightarrow> \<exists>hits ranked. retrieve_ranking (fetch row) g cutoffs = Inr (hits, ranked) \<and> set (violations_of row ranked) \<subseteq> set vs"
  using assms
proof (induction rows arbitrary: qs vs)
  case (Cons r rows)
  { case 1
    then show ?case using Cons.IH(1) by (fastforce simp: rbind_eq_Inr split: sum.splits prod.splits)
  next
    case 2
    then show ?case using Cons.IH(2) by (fastforce simp: rbind_eq_Inr split: sum.splits prod.splits) }
qed simp_all

lemma no_violation: "violations_of row ranked = [] \<Longrightarrow> gr_required_ids row \<subseteq> set ranked \<and> gr_excluded_ids row \<inter> set ranked = {}"
  by (auto simp: violations_of_def Let_def split: if_splits)


section \<open>Classification reports\<close>

definition seen_labels :: "(string \<times> string) list \<Rightarrow> string set" where
  "seen_labels pairs = fst ` set pairs \<union> snd ` set pairs"

lemma map_of_increment: "map_of (increment k d) l = (if l = k then Some (Suc (the (map_of d k))) else map_of d l)"
  by (simp add: increment_def update_conv')

lemma count_pairs_exact:
  "the (map_of (lc_true_positive (fold count_pair pairs c)) l) = the (map_of (lc_true_positive c) l) + length (filter (\<lambda>(p, e). p = l \<and> e = l) pairs)
   \<and> the (map_of (lc_predicted (fold count_pair pairs c)) l) = the (map_of (lc_predicted c) l) + length (filter (\<lambda>(p, _). p = l) pairs)
   \<and> the (map_of (lc_expected (fold count_pair pairs c)) l) = the (map_of (lc_expected c) l) + length (filter (\<lambda>(_, e). e = l) pairs)
   \<and> lc_correct (fold count_pair pairs c) = lc_correct c + length (filter (\<lambda>(p, e). p = e) pairs)"
proof (induction pairs arbitrary: c)
  case (Cons pe pairs)
  obtain p e where pe: "pe = (p, e)" by (cases pe)
  have step: "the (map_of (lc_true_positive (count_pair (p, e) c)) l) = the (map_of (lc_true_positive c) l) + (if p = l \<and> e = l then 1 else 0)"
    "the (map_of (lc_predicted (count_pair (p, e) c)) l) = the (map_of (lc_predicted c) l) + (if p = l then 1 else 0)"
    "the (map_of (lc_expected (count_pair (p, e) c)) l) = the (map_of (lc_expected c) l) + (if e = l then 1 else 0)"
    "lc_correct (count_pair (p, e) c) = lc_correct c + (if p = e then 1 else 0)"
    by (auto simp: count_pair_def Let_def map_of_increment)
  show ?case unfolding pe using Cons.IH [of "count_pair (p, e) c"] by (simp add: step)
qed simp

lemma supports_add_up:
  assumes "distinct ls" "snd ` set pairs \<subseteq> set ls"
  shows "sum_list (map (\<lambda>l. length (filter (\<lambda>(_, e). e = l) pairs)) ls) = length (pairs :: ('a \<times> 'b) list)"
  using assms(2)
proof (induction pairs)
  case (Cons pe pairs)
  have "sum_list (map (\<lambda>l. length (filter (\<lambda>(_, e). e = l) (pe # pairs))) ls)
      = sum_list (map (\<lambda>l. (if snd pe = l then 1 else 0) + length (filter (\<lambda>(_, e). e = l) pairs)) ls)"
    by (rule arg_cong [where f = sum_list]) (auto simp: split_beta)
  also have "\<dots> = (\<Sum>l \<in> set ls. if snd pe = l then 1 else 0) + sum_list (map (\<lambda>l. length (filter (\<lambda>(_, e). e = l) pairs)) ls)"
    using assms(1) by (simp add: sum_list_addf sum_list_distinct_conv_sum_set)
  also have "(\<Sum>l \<in> set ls. if snd pe = l then 1 else 0 :: nat) = 1" using Cons.prems by simp
  finally show ?case using Cons by simp
qed simp

lemma ratio_unit: "n \<le> d \<Longrightarrow> unit_value (ratio_of n d)"
  by (simp add: ratio_of_def unit_value_def divide_le_eq_1)

lemma f1_unit: "unit_value p \<Longrightarrow> unit_value q \<Longrightarrow> unit_value (if p + q \<noteq> 0 then 2 * p * q / (p + q) else 0)"
proof -
  assume u: "unit_value p" "unit_value q"
  then have "p * q \<le> p" "p * q \<le> q" by (simp_all add: unit_value_def mult_left_le mult_left_le_one_le)
  then have "2 * p * q \<le> p + q" by linarith
  with u show ?thesis by (auto simp: unit_value_def divide_le_eq_1)
qed

definition label_hits :: "(string \<times> string) list \<Rightarrow> string \<Rightarrow> nat" where
  "label_hits pairs l = length (filter (\<lambda>(p, e). p = l \<and> e = l) pairs)"

definition predicting :: "(string \<times> string) list \<Rightarrow> string \<Rightarrow> nat" where
  "predicting pairs l = length (filter (\<lambda>(p, _). p = l) pairs)"

definition expecting :: "(string \<times> string) list \<Rightarrow> string \<Rightarrow> nat" where
  "expecting pairs l = length (filter (\<lambda>(_, e). e = l) pairs)"

lemma label_hits_le: "label_hits pairs l \<le> predicting pairs l" "label_hits pairs l \<le> expecting pairs l"
  by (induction pairs) (auto simp: label_hits_def predicting_def expecting_def)

lemma score_pairs_labels:
  defines "f1 p q \<equiv> if p + q \<noteq> 0 then 2 * p * q / (p + q) else 0 :: real"
  shows "cl_labels (score_pairs pairs declared u v) = map (\<lambda>l. let p = ratio_of (label_hits pairs l) (predicting pairs l);
      q = ratio_of (label_hits pairs l) (expecting pairs l) in
      \<lparr>ls_label = l, ls_precision = p, ls_recall = q, ls_f1 = f1 p q, ls_support = expecting pairs l\<rparr>) (label_universe declared pairs)"
    and "cl_accuracy (score_pairs pairs declared u v) = ratio_of (length (filter (\<lambda>(p, e). p = e) pairs)) (length pairs)"
proof -
  let ?u = "label_universe declared pairs"
  let ?zero = "\<lparr>lc_true_positive = map (\<lambda>l. (l, 0)) ?u, lc_predicted = map (\<lambda>l. (l, 0)) ?u, lc_expected = map (\<lambda>l. (l, 0)) ?u, lc_correct = 0\<rparr>"
  have exact: "\<forall>l \<in> set ?u. the (map_of (lc_true_positive (fold count_pair pairs ?zero)) l) = label_hits pairs l
      \<and> the (map_of (lc_predicted (fold count_pair pairs ?zero)) l) = predicting pairs l
      \<and> the (map_of (lc_expected (fold count_pair pairs ?zero)) l) = expecting pairs l"
    "lc_correct (fold count_pair pairs ?zero) = length (filter (\<lambda>(p, e). p = e) pairs)"
    using count_pairs_exact [of pairs ?zero] by (auto simp: map_of_map_restrict label_hits_def predicting_def expecting_def)
  then show "cl_labels (score_pairs pairs declared u v) = map (\<lambda>l. let p = ratio_of (label_hits pairs l) (predicting pairs l);
      q = ratio_of (label_hits pairs l) (expecting pairs l) in
      \<lparr>ls_label = l, ls_precision = p, ls_recall = q, ls_f1 = f1 p q, ls_support = expecting pairs l\<rparr>) ?u"
    by (simp add: score_pairs_def Let_def label_score_of_def f1_def)
  show "cl_accuracy (score_pairs pairs declared u v) = ratio_of (length (filter (\<lambda>(p, e). p = e) pairs)) (length pairs)"
    using exact(2) by (simp add: score_pairs_def Let_def)
qed

text \<open>
  C40: A classification report covers every declared label and every label of the rows, each once. The numbers of a label
  are its hits over the rows that predict it and over the rows that expect it, the supports add up to the rows, and every
  ratio lies between 0 and 1.
\<close>

theorem classification_report_exact:
  "distinct (map ls_label (cl_labels (score_pairs pairs declared u v)))
   \<and> set (map ls_label (cl_labels (score_pairs pairs declared u v))) = set declared \<union> seen_labels pairs
   \<and> (\<forall>s \<in> set (cl_labels (score_pairs pairs declared u v)).
        ls_precision s = ratio_of (label_hits pairs (ls_label s)) (predicting pairs (ls_label s))
      \<and> ls_recall s = ratio_of (label_hits pairs (ls_label s)) (expecting pairs (ls_label s))
      \<and> ls_support s = expecting pairs (ls_label s)
      \<and> unit_value (ls_precision s) \<and> unit_value (ls_recall s) \<and> unit_value (ls_f1 s))
   \<and> sum_list (map ls_support (cl_labels (score_pairs pairs declared u v))) = length pairs
   \<and> cl_accuracy (score_pairs pairs declared u v) = ratio_of (length (filter (\<lambda>(p, e). p = e) pairs)) (length pairs)
   \<and> unit_value (cl_accuracy (score_pairs pairs declared u v)) \<and> unit_value (cl_macro_f1 (score_pairs pairs declared u v))"
proof -
  let ?r = "score_pairs pairs declared u v" and ?u = "label_universe declared pairs"
  note labels = score_pairs_labels(1) [of pairs declared u v]
  have names: "map ls_label (cl_labels ?r) = ?u" by (simp add: labels Let_def comp_def)
  have u: "distinct ?u" "set ?u = set declared \<union> seen_labels pairs" by (force simp: label_universe_def seen_labels_def)+
  have units: "unit_value (ls_precision s) \<and> unit_value (ls_recall s) \<and> unit_value (ls_f1 s)" if "s \<in> set (cl_labels ?r)" for s
    using that f1_unit ratio_unit label_hits_le by (auto simp: labels Let_def)
  have "map ls_support (cl_labels ?r) = map (expecting pairs) ?u" by (simp add: labels Let_def comp_def)
  moreover have "snd ` set pairs \<subseteq> set ?u" unfolding u(2) seen_labels_def by blast
  ultimately have "sum_list (map ls_support (cl_labels ?r)) = length pairs"
    using supports_add_up [OF u(1), of pairs] by (simp add: expecting_def [abs_def])
  moreover have "unit_value (cl_accuracy ?r)" unfolding score_pairs_labels(2) by (rule ratio_unit) simp
  moreover have "unit_value (cl_macro_f1 ?r)"
  proof -
    have "cl_macro_f1 ?r = mean_of (map ls_f1 (cl_labels ?r))" by (simp add: score_pairs_def Let_def)
    with units show ?thesis by (simp add: mean_unit)
  qed
  moreover have "ls_precision s = ratio_of (label_hits pairs (ls_label s)) (predicting pairs (ls_label s))
      \<and> ls_recall s = ratio_of (label_hits pairs (ls_label s)) (expecting pairs (ls_label s)) \<and> ls_support s = expecting pairs (ls_label s)"
    if "s \<in> set (cl_labels ?r)" for s using that by (auto simp: labels Let_def)
  ultimately show ?thesis unfolding names using u units score_pairs_labels(2) [of pairs declared u v] by blast
qed

section \<open>Concrete evaluations\<close>

definition demo_hits :: "search_hit list" where
  "demo_hits = [\<lparr>sh_record_id = ''r'', sh_document_id = Some ''a''\<rparr>, \<lparr>sh_record_id = ''s'', sh_document_id = Some ''a''\<rparr>,
     \<lparr>sh_record_id = ''t'', sh_document_id = Some ''b''\<rparr>]"


definition demo_golden :: golden_row where
  "demo_golden = \<lparr>gr_query_id = ''q'', gr_required_ids = {''r''}, gr_excluded_ids = {}, gr_relevant_ids = {''r''}, gr_graded = None\<rparr>"


theorem classification_report_exact_witness:
  "set (map ls_label (cl_labels (score_pairs [(''a'', ''b'')] [''c''] 0 0))) = {''a'', ''b'', ''c''}
   \<and> sum_list (map ls_support (cl_labels (score_pairs [(''a'', ''b'')] [''c''] 0 0))) = 1"
  using classification_report_exact [of "[(''a'', ''b'')]" "[''c'']" 0 0] by (auto simp: seen_labels_def)

end
